(* ===== verification/Prelude.thy ===== *)
theory Prelude
  imports Main "HOL-Library.Word" "HOL-Library.Signed_Division" "HOL-Library.Code_Target_Nat"
    "HOL-Library.Multiset"
begin

unbundle bit_operations_syntax

section \<open>Shared types, collections and lemmas\<close>

text \<open>
  The types the model shares (machine integers at their Go width, byte slices), the
  collections of rewrite rules the component theories fill, and generic lemmas on lists,
  options and words.

  Conventions of the whole development:
  \<^item> \<open>uint8\<close>, \<open>uint16\<close> and \<open>uint32\<close> are words, so that their arithmetic wraps;
    \<open>int\<close> used as a length or as an index is \<open>nat\<close>, and \<open>int64\<close> is \<open>int\<close> with
    truncated division (\<open>sdiv\<close>, \<open>smod\<close>) where the code divides;
  \<^item> a function that can panic (index out of range, division by zero, an explicit
    \<open>panic\<close>) returns an \<open>option\<close>, and \<open>None\<close> is the panic;
  \<^item> an error value is a value of a datatype of errors, in an \<open>option\<close> or a sum.
\<close>

type_synonym byte = "8 word"
type_synonym u16 = "16 word"
type_synonym u32 = "32 word"

text \<open>\<^verbatim>\<open>time.Time\<close> and \<^verbatim>\<open>time.Duration\<close>: nanoseconds; the zero time is 0.\<close>

type_synonym gotime = int

abbreviation (input) time_Second :: gotime where "time_Second \<equiv> 1000000000"
abbreviation (input) time_Minute :: gotime where "time_Minute \<equiv> 60000000000"
abbreviation (input) time_Hour :: gotime where "time_Hour \<equiv> 3600000000000"

text \<open>Facts that read the operations of the bitmap as operations on a set of bits.\<close>

named_theorems bitset_simps

text \<open>Facts that unfold the invariant of a component.\<close>

named_theorems inv_defs

text \<open>Facts that unfold the fixed-width encodings of \<open>encoding/binary\<close>.\<close>

named_theorems wire_simps

text \<open>\<^verbatim>\<open>config.ChunkSize\<close>: the size of the chunks requested from peers.\<close>

definition ChunkSize :: u32 where
  "ChunkSize = 16 * 1024"

lemma ChunkSize_value: "ChunkSize = 16384"
  by (simp add: ChunkSize_def)

lemma unat_ChunkSize [simp]: "unat ChunkSize = 16384"
  by (simp add: ChunkSize_def)

lemma uint_ChunkSize [simp]: "uint ChunkSize = 16384"
  by (simp add: ChunkSize_def)

lemma ChunkSize_nonzero [simp]: "ChunkSize \<noteq> 0"
  by (simp add: ChunkSize_def)

subsection \<open>Lists\<close>

text \<open>The first position of an element that satisfies a predicate
  (\<^verbatim>\<open>slices.IndexFunc\<close>, with \<open>None\<close> for \<open>-1\<close>).\<close>

fun index_of :: "('a \<Rightarrow> bool) \<Rightarrow> 'a list \<Rightarrow> nat option" where
  "index_of P [] = None"
| "index_of P (x # xs) = (if P x then Some 0 else map_option Suc (index_of P xs))"

text \<open>\<^verbatim>\<open>slices.Delete(xs, i, i+1)\<close> for an index in range.\<close>

definition delete_at :: "nat \<Rightarrow> 'a list \<Rightarrow> 'a list" where
  "delete_at i xs = take i xs @ drop (Suc i) xs"

lemma index_of_None: "index_of P xs = None \<longleftrightarrow> (\<forall>x \<in> set xs. \<not> P x)"
  by (induction xs) auto

lemma index_of_Some:
  "index_of P xs = Some i \<Longrightarrow> i < length xs \<and> P (xs ! i) \<and> (\<forall>j < i. \<not> P (xs ! j))"
proof (induction xs arbitrary: i)
  case Nil
  then show ?case by simp
next
  case (Cons x xs)
  then show ?case
    by (auto split: if_splits simp: nth_Cons split: nat.splits)
qed

lemma index_of_SomeD:
  assumes "index_of P xs = Some i"
  shows "i < length xs" and "P (xs ! i)" and "xs ! i \<in> set xs"
  using index_of_Some [OF assms] by auto

lemma index_of_ex: "x \<in> set xs \<Longrightarrow> P x \<Longrightarrow> \<exists>i. index_of P xs = Some i"
  using index_of_None [of P xs] by (cases "index_of P xs") auto

lemma length_delete_at [simp]: "i < length xs \<Longrightarrow> length (delete_at i xs) = length xs - 1"
  by (simp add: delete_at_def)

lemma set_delete_at_subset: "set (delete_at i xs) \<subseteq> set xs"
  unfolding delete_at_def using set_take_subset set_drop_subset by fastforce

lemma map_delete_at: "map f (delete_at i xs) = delete_at i (map f xs)"
  by (simp add: delete_at_def take_map drop_map)

lemma set_delete_at_distinct:
  assumes "distinct xs" and "i < length xs"
  shows "set (delete_at i xs) = set xs - {xs ! i}" and "distinct (delete_at i xs)"
proof -
  have split: "xs = take i xs @ xs ! i # drop (Suc i) xs"
    using assms(2) by (rule id_take_nth_drop)
  then have d: "distinct (take i xs @ xs ! i # drop (Suc i) xs)"
    using assms(1) by simp
  then show "distinct (delete_at i xs)"
    by (auto simp: delete_at_def)
  have "set xs = set (take i xs @ xs ! i # drop (Suc i) xs)"
    using split by metis
  then show "set (delete_at i xs) = set xs - {xs ! i}"
    using d by (auto simp: delete_at_def)
qed

text \<open>
  Removing the element at \<open>i\<close> by moving the last one into its place, the unordered
  deletion of the request queues: the same elements remain.
\<close>

definition swap_delete :: "nat \<Rightarrow> 'a list \<Rightarrow> 'a list" where
  "swap_delete i xs = butlast (xs[i := last xs])"

lemma map_swap_delete: "xs \<noteq> [] \<Longrightarrow> map f (swap_delete i xs) = swap_delete i (map f xs)"
  by (simp add: swap_delete_def map_butlast map_update last_map)

lemma swap_delete_distinct:
  assumes d: "distinct xs" and i: "i < length xs"
  shows "set (swap_delete i xs) = set xs - {xs ! i} \<and> distinct (swap_delete i xs)"
proof -
  from i obtain ys y where xs: "xs = ys @ [y]"
    by (cases xs rule: rev_cases) auto
  show ?thesis
  proof (cases "i < length ys")
    case True
    have "swap_delete i xs = ys[i := y]"
      using True by (simp add: swap_delete_def xs list_update_append)
    moreover have "set (ys[i := y]) = insert y (set ys - {ys ! i})"
      using True d xs by (simp add: set_update_distinct)
    moreover have "distinct (ys[i := y])"
      using True d xs by (auto intro: distinct_list_update)
    ultimately show ?thesis
      using True d xs by (auto simp: nth_append)
  next
    case False
    then have "i = length ys" using i xs by simp
    then show ?thesis
      using d xs by (auto simp: swap_delete_def list_update_append)
  qed
qed

lemma length_swap_delete [simp]: "length (swap_delete i xs) = length xs - 1"
  by (simp add: swap_delete_def)

text \<open>
  \<^verbatim>\<open>slices.SortFunc\<close> with a comparison function, as an insertion sort. The library's sort is
  not stable; where the program sorts a random permutation, the results of all the
  permutations are all the sorted orders.
\<close>

fun insort_cmp :: "('a \<Rightarrow> 'a \<Rightarrow> int) \<Rightarrow> 'a \<Rightarrow> 'a list \<Rightarrow> 'a list" where
  "insort_cmp cmp x [] = [x]"
| "insort_cmp cmp x (y # ys) = (if cmp x y \<le> 0 then x # y # ys else y # insort_cmp cmp x ys)"

definition SortFunc :: "('a \<Rightarrow> 'a \<Rightarrow> int) \<Rightarrow> 'a list \<Rightarrow> 'a list" where
  "SortFunc cmp xs = foldr (insort_cmp cmp) xs []"

lemma mset_insort_cmp [simp]: "mset (insort_cmp cmp x ys) = add_mset x (mset ys)"
  by (induction ys) auto

lemma mset_SortFunc [simp]: "mset (SortFunc cmp xs) = mset xs"
  by (induction xs) (simp_all add: SortFunc_def)

lemma set_SortFunc [simp]: "set (SortFunc cmp xs) = set xs"
  by (metis mset_SortFunc set_mset_mset)

lemma length_SortFunc [simp]: "length (SortFunc cmp xs) = length xs"
  by (metis mset_SortFunc size_mset)

lemma distinct_SortFunc [simp]: "distinct (SortFunc cmp xs) = distinct xs"
  by (metis mset_SortFunc mset_eq_imp_distinct_iff)

text \<open>With a total preorder the result is sorted.\<close>

lemma sorted_insort_cmp:
  assumes total: "\<And>a b. cmp a b \<le> 0 \<or> cmp b a \<le> 0"
    and trans: "\<And>a b c. cmp a b \<le> 0 \<Longrightarrow> cmp b c \<le> 0 \<Longrightarrow> cmp a c \<le> 0"
  shows "sorted_wrt (\<lambda>a b. cmp a b \<le> 0) ys \<Longrightarrow> sorted_wrt (\<lambda>a b. cmp a b \<le> 0) (insort_cmp cmp x ys)"
proof (induction ys)
  case (Cons y ys)
  have "set (insort_cmp cmp x ys) = insert x (set ys)"
    using mset_insort_cmp [of cmp x ys] by (metis set_mset_mset set_mset_add_mset_insert)
  then show ?case using Cons total [of x y] trans [of x y] by auto
qed simp

lemma sorted_SortFunc:
  assumes "\<And>a b. cmp a b \<le> 0 \<or> cmp b a \<le> 0"
    and "\<And>a b c. cmp a b \<le> 0 \<Longrightarrow> cmp b c \<le> 0 \<Longrightarrow> cmp a c \<le> 0"
  shows "sorted_wrt (\<lambda>a b. cmp a b \<le> 0) (SortFunc cmp xs)"
  by (induction xs) (simp_all add: SortFunc_def sorted_insort_cmp [of cmp, OF assms])

subsection \<open>Machines with an invariant\<close>

text \<open>
  Sequences of operations of a component: \<open>step\<close> is what one operation does (\<open>None\<close> is a
  panic) and \<open>permitted\<close> which operations its callers may perform in a state.
\<close>

fun run_ops :: "('s \<Rightarrow> 'op \<Rightarrow> 's option) \<Rightarrow> 's \<Rightarrow> 'op list \<Rightarrow> 's option" where
  "run_ops step s [] = Some s"
| "run_ops step s (a # as) = (case step s a of None \<Rightarrow> None | Some s' \<Rightarrow> run_ops step s' as)"

lemma run_ops_append:
  "run_ops step s (as @ bs) = (case run_ops step s as of None \<Rightarrow> None | Some s' \<Rightarrow> run_ops step s' bs)"
  by (induction as arbitrary: s) (auto split: option.splits)

fun permitted_ops :: "('s \<Rightarrow> 'op \<Rightarrow> bool) \<Rightarrow> ('s \<Rightarrow> 'op \<Rightarrow> 's option) \<Rightarrow> 's \<Rightarrow> 'op list \<Rightarrow> bool" where
  "permitted_ops permitted step s [] = True"
| "permitted_ops permitted step s (a # as) =
     (permitted s a \<and>
      (case step s a of None \<Rightarrow> False | Some s' \<Rightarrow> permitted_ops permitted step s' as))"

lemma permitted_ops_snoc:
  assumes "permitted_ops permitted step s (as @ [a])"
  shows "\<exists>s'. run_ops step s as = Some s' \<and> permitted_ops permitted step s as \<and> permitted s' a"
  using assms by (induction as arbitrary: s) (auto split: option.splits)

lemma permitted_ops_mono:
  assumes "permitted_ops Q step s as" and "\<And>s a. a \<in> set as \<Longrightarrow> Q s a \<Longrightarrow> P s a"
  shows "permitted_ops P step s as"
  using assms by (induction as arbitrary: s) (auto split: option.splits)

inductive reachable :: "('s \<Rightarrow> 'op \<Rightarrow> bool) \<Rightarrow> ('s \<Rightarrow> 'op \<Rightarrow> 's option) \<Rightarrow> 's \<Rightarrow> 's \<Rightarrow> bool"
  for permitted step where
  reachable_refl: "reachable permitted step s s"
| reachable_step:
    "reachable permitted step s s' \<Longrightarrow> permitted s' a \<Longrightarrow> step s' a = Some s'' \<Longrightarrow>
     reachable permitted step s s''"

lemma reachable_trans:
  "reachable permitted step s' s'' \<Longrightarrow> reachable permitted step s s' \<Longrightarrow> reachable permitted step s s''"
  by (induction rule: reachable.induct) (auto intro: reachable_step)

lemma run_ops_reachable:
  "permitted_ops permitted step s as \<Longrightarrow> run_ops step s as = Some s' \<Longrightarrow> reachable permitted step s s'"
proof (induction as arbitrary: s)
  case Nil
  then show ?case by (simp add: reachable_refl)
next
  case (Cons a as)
  then obtain s1 where "step s a = Some s1" "permitted s a" "permitted_ops permitted step s1 as"
    "run_ops step s1 as = Some s'"
    by (auto split: option.splits)
  then show ?case
    using Cons.IH [of s1] reachable_trans [of permitted step s1 s' s]
      reachable_step [OF reachable_refl [of permitted step s], of a s1]
    by simp
qed

text \<open>
  The interface of a component that keeps an invariant: a permitted operation does not
  panic in a state that satisfies it, and leads to another one.
\<close>

locale machine =
  fixes permitted :: "'s \<Rightarrow> 'op \<Rightarrow> bool" and step :: "'s \<Rightarrow> 'op \<Rightarrow> 's option" and inv :: "'s \<Rightarrow> bool"
  assumes progress: "inv s \<Longrightarrow> permitted s a \<Longrightarrow> \<exists>s'. step s a = Some s' \<and> inv s'"
begin

lemma run_safe: "inv s \<Longrightarrow> permitted_ops permitted step s as \<Longrightarrow> \<exists>s'. run_ops step s as = Some s' \<and> inv s'"
proof (induction as arbitrary: s)
  case (Cons a as)
  then show ?case using progress [of s a] by auto
qed simp

lemma reach_inv: "reachable permitted step s s' \<Longrightarrow> inv s \<Longrightarrow> inv s'"
proof (induction rule: reachable.induct)
  case (reachable_step s s' a s'')
  then show ?case using progress [of s' a] by auto
qed

lemma reach_not_stuck: "reachable permitted step s s' \<Longrightarrow> inv s \<Longrightarrow> permitted s' a \<Longrightarrow> step s' a \<noteq> None"
  using progress reach_inv by blast

end

subsection \<open>Words\<close>

lemma unat_less_iff_u32: "(a :: u32) < b \<longleftrightarrow> unat a < unat b"
  by (simp add: word_less_nat_alt)

lemma unat_le_iff_u32: "(a :: u32) \<le> b \<longleftrightarrow> unat a \<le> unat b"
  by (simp add: word_le_nat_alt)

lemma unat_u32_bound [simp]: "unat (a :: u32) < 4294967296"
  using unsigned_less [of a] by simp

lemma unat_of_nat_u32: "n < 4294967296 \<Longrightarrow> unat (of_nat n :: u32) = n"
  by (simp add: unat_of_nat)

lemma unat_add_u32: "unat a + unat b < 4294967296 \<Longrightarrow> unat ((a :: u32) + b) = unat a + unat b"
  by (simp add: unat_word_ariths)

lemma unat_sub_u32: "unat b \<le> unat a \<Longrightarrow> unat ((a :: u32) - b) = unat a - unat b"
  by (simp add: unat_sub word_le_nat_alt)

lemma unat_mult_u32: "unat a * unat b < 4294967296 \<Longrightarrow> unat ((a :: u32) * b) = unat a * unat b"
  by (simp add: unat_word_ariths)

lemma unat_div_u32: "unat ((a :: u32) div b) = unat a div unat b"
  by (rule unat_div)

lemma unat_mod_u32: "unat ((a :: u32) mod b) = unat a mod unat b"
  by (rule unat_mod)

text \<open>Truncated division is Euclidean division on non-negative numbers.\<close>

lemma sdiv_nonneg: "0 \<le> a \<Longrightarrow> 0 < b \<Longrightarrow> (a :: int) sdiv b = a div b"
  by (cases "a = 0") (simp_all add: signed_divide_int_def)

lemma smod_nonneg: "0 \<le> a \<Longrightarrow> 0 < b \<Longrightarrow> (a :: int) smod b = a mod b"
  by (cases "a = 0") (simp_all add: signed_modulo_int_def)

lemma sdiv_word:
  assumes "0 \<le> a" "0 < unat (w :: u32)"
  shows "a sdiv uint w = int (nat a div unat w)" and "a smod uint w = int (nat a mod unat w)"
proof -
  have "uint w = int (unat w)" by simp
  moreover have "a = int (nat a)" using assms(1) by simp
  moreover have "0 < int (unat w)" using assms(2) by linarith
  ultimately show "a sdiv uint w = int (nat a div unat w)" "a smod uint w = int (nat a mod unat w)"
    by (metis sdiv_nonneg assms(1) zdiv_int, metis smod_nonneg assms(1) zmod_int)
qed

lemmas unat_u32 = unat_add_u32 unat_sub_u32 unat_mult_u32 unat_div_u32 unat_mod_u32
  unat_of_nat_u32

end
