(* ===== verification/Bitmap.thy ===== *)
theory Bitmap
  imports Prelude
begin

unbundle bit_operations_syntax

section \<open>Bitmaps (bitmap/bitmap.go)\<close>

text \<open>
  The bitmaps of the BitTorrent bit fields: a slice of bytes whose bit \<open>i\<close> is bit
  \<open>7 - i mod 8\<close> of byte \<open>i div 8\<close>. The operations are the methods of \<^verbatim>\<open>bitmap.Bitmap\<close>;
  the nil slice is the empty list (only \<^verbatim>\<open>Copy\<close> tells them apart). The lemmas read every
  operation as an operation on the set of its bits; the interface the other components
  use is the locale \<open>bitset\<close>, interpreted at the end on the operations of this theory.
\<close>

type_synonym bitmap = "byte list"

definition bitmap_New :: "nat \<Rightarrow> bitmap" where
  "bitmap_New len = replicate ((len + 7) div 8) 0"

text \<open>The mask \<^verbatim>\<open>1 << (7 - uint8(i&7))\<close> of bit \<open>i\<close> within its byte.\<close>

definition bit_mask :: "nat \<Rightarrow> byte" where
  "bit_mask i = push_bit (7 - i mod 8) 1"

definition bitmap_Get :: "bitmap \<Rightarrow> nat \<Rightarrow> bool" where
  "bitmap_Get b i =
     (if i div 8 \<ge> length b then False
      else (b ! (i div 8) AND bit_mask i) \<noteq> 0)"

definition bitmap_String :: "bitmap \<Rightarrow> string" where
  "bitmap_String b =
     ''['' @ map (\<lambda>i. if bitmap_Get b i then CHR ''1'' else CHR ''0'') [0..<length b * 8] @ '']''"

definition bitmap_Extend :: "bitmap \<Rightarrow> nat \<Rightarrow> bitmap" where
  "bitmap_Extend b i =
     (if i div 8 \<ge> length b then b @ replicate (i div 8 + 1 - length b) 0 else b)"

definition bitmap_Set :: "bitmap \<Rightarrow> nat \<Rightarrow> bitmap" where
  "bitmap_Set b i =
     (let b' = bitmap_Extend b i in b'[i div 8 := (b' ! (i div 8)) OR bit_mask i])"

definition bitmap_Reset :: "bitmap \<Rightarrow> nat \<Rightarrow> bitmap" where
  "bitmap_Reset b i =
     (if i div 8 \<ge> length b then b
      else b[i div 8 := (b ! (i div 8)) AND NOT (bit_mask i)])"

text \<open>\<^verbatim>\<open>Copy\<close> on a slice that may be nil (\<open>None\<close>): a fresh slice with the same bytes.\<close>

definition bitmap_Copy :: "bitmap option \<Rightarrow> bitmap option" where
  "bitmap_Copy b = (case b of None \<Rightarrow> None | Some c \<Rightarrow> Some (take (length c) c))"

text \<open>The two loops of \<^verbatim>\<open>SetMultiple\<close>: whole bytes, then the bits of the last byte.\<close>

definition bitmap_SetMultiple :: "bitmap \<Rightarrow> nat \<Rightarrow> bitmap" where
  "bitmap_SetMultiple b n =
     (let b1 = bitmap_Extend b n;
          b2 = fold (\<lambda>i c. c[i := 0xFF]) [0..<n div 8] b1
      in fold (\<lambda>i c. bitmap_Set c i) [8 * (n div 8)..<n] b2)"

definition bitmap_Empty :: "bitmap \<Rightarrow> bool" where
  "bitmap_Empty b = list_all (\<lambda>v. v = 0) b"

definition bitmap_All :: "bitmap \<Rightarrow> nat \<Rightarrow> bool" where
  "bitmap_All b n =
     (if n = 0 then True
      else if length b < n div 8 then False
      else if \<not> list_all (\<lambda>i. b ! i = 0xFF) [0..<n div 8] then False
      else if n mod 8 = 0 then True
      else if length b < n div 8 + 1 \<or> b ! (n div 8) \<noteq> push_bit (8 - n mod 8) 0xFF then False
      else True)"

text \<open>\<^verbatim>\<open>math/bits\<close>: the number of one bits and of trailing zero bits of a byte.\<close>

definition OnesCount8 :: "byte \<Rightarrow> nat" where
  "OnesCount8 v = length (filter (bit v) [0..<8])"

definition TrailingZeros8 :: "byte \<Rightarrow> nat" where
  "TrailingZeros8 v = length (takeWhile (\<lambda>j. \<not> bit v j) [0..<8])"

definition bitmap_Count :: "bitmap \<Rightarrow> nat" where
  "bitmap_Count b = sum_list (map OnesCount8 b)"

text \<open>The loop of \<^verbatim>\<open>Len\<close>, over the bytes from index \<open>i - 1\<close> down to 0.\<close>

fun bitmap_Len_loop :: "bitmap \<Rightarrow> nat \<Rightarrow> nat" where
  "bitmap_Len_loop b 0 = 0"
| "bitmap_Len_loop b (Suc i) =
     (if b ! i \<noteq> 0 then i * 8 + 8 - TrailingZeros8 (b ! i) else bitmap_Len_loop b i)"

definition bitmap_Len :: "bitmap \<Rightarrow> nat" where
  "bitmap_Len b = (if length b = 0 then 0 else bitmap_Len_loop b (length b))"

definition bitmap_EqualValue :: "bitmap \<Rightarrow> bitmap \<Rightarrow> bool" where
  "bitmap_EqualValue b1 b2 =
     (let n = (if length b1 > length b2 then length b2 else length b1)
      in list_all (\<lambda>i. b1 ! i = b2 ! i) [0..<n]
         \<and> list_all (\<lambda>i. b1 ! i = 0) [n..<length b1]
         \<and> list_all (\<lambda>i. b2 ! i = 0) [n..<length b2])"

text \<open>The sequence the iterator \<^verbatim>\<open>AllSet\<close> yields; a consumer that stops early sees a prefix.\<close>

definition bitmap_AllSet :: "bitmap \<Rightarrow> nat list" where
  "bitmap_AllSet b =
     concat (map (\<lambda>i. if b ! i = 0 then []
                       else map (\<lambda>j. push_bit 3 i + j)
                              (filter (\<lambda>j. (b ! i AND push_bit (7 - j) 1) \<noteq> 0) [0..<8]))
               [0..<length b])"

subsection \<open>Bits of a byte\<close>

lemma byte_and_mask_iff: "((v :: byte) AND push_bit k 1) \<noteq> 0 \<longleftrightarrow> k < 8 \<and> bit v k"
proof -
  have "v AND push_bit k 1 = (if bit v k then push_bit k 1 else 0)"
    by (rule bit_word_eqI) (auto simp: bit_simps)
  moreover have "(push_bit k 1 :: byte) \<noteq> 0" if "k < 8"
  proof
    assume "(push_bit k 1 :: byte) = 0"
    then have "bit (push_bit k 1 :: byte) k = bit (0 :: byte) k" by (simp only:)
    with that show False by (simp add: bit_exp_iff)
  qed
  moreover have "bit v k \<Longrightarrow> k < 8"
    using bit_imp_le_length [of v k] by simp
  ultimately show ?thesis by auto
qed

lemma bit_bit_mask: "bit (bit_mask i) k \<longleftrightarrow> k = 7 - i mod 8"
  by (auto simp: bit_mask_def bit_simps)

lemma byte_eq_iff_flipped: "(v :: byte) = w \<longleftrightarrow> (\<forall>j < 8. bit v (7 - j) = bit w (7 - j))"
proof
  assume *: "\<forall>j < 8. bit v (7 - j) = bit w (7 - j)"
  show "v = w"
  proof (rule bit_word_eqI)
    fix n assume "n < LENGTH(8)"
    then have n: "n < 8" by simp
    have "bit v (7 - (7 - n)) = bit w (7 - (7 - n))"
      using * n by (intro * [rule_format]) simp
    with n show "bit v n = bit w n" by simp
  qed
qed simp

lemma bitmap_Get_bit: "bitmap_Get b i \<longleftrightarrow> i div 8 < length b \<and> bit (b ! (i div 8)) (7 - i mod 8)"
  unfolding bitmap_Get_def bit_mask_def byte_and_mask_iff by auto

lemma bitmap_Get_at: "i < length b \<Longrightarrow> j < 8 \<Longrightarrow> bitmap_Get b (8 * i + j) = bit (b ! i) (7 - j)"
  by (simp add: bitmap_Get_bit)

lemma bitmap_Get_length: "bitmap_Get b i \<Longrightarrow> i < 8 * length b"
  by (simp add: bitmap_Get_bit) linarith

lemma byte_zero_iff_Get: "i < length b \<Longrightarrow> b ! i = 0 \<longleftrightarrow> (\<forall>j < 8. \<not> bitmap_Get b (8 * i + j))"
  by (simp add: byte_eq_iff_flipped bitmap_Get_at)

text \<open>A bit is determined by its byte and its place in the byte.\<close>

lemma bit_position_eq: "(j :: nat) = i \<longleftrightarrow> j div 8 = i div 8 \<and> 7 - j mod 8 = 7 - i mod 8"
proof
  assume "j div 8 = i div 8 \<and> 7 - j mod 8 = 7 - i mod 8"
  then have "j div 8 = i div 8" and "j mod 8 = i mod 8"
    using mod_less_divisor [of 8 j] mod_less_divisor [of 8 i] by auto
  then show "j = i" using div_mult_mod_eq [of j 8] div_mult_mod_eq [of i 8] by metis
qed simp

subsection \<open>The operations on the set of bits\<close>

lemma length_bitmap_Extend: "length (bitmap_Extend b i) = max (length b) (i div 8 + 1)"
  by (auto simp: bitmap_Extend_def)

lemma bitmap_Get_Extend [bitset_simps]: "bitmap_Get (bitmap_Extend b i) j = bitmap_Get b j"
  by (auto simp: bitmap_Get_bit bitmap_Extend_def nth_append)

lemma bitmap_Get_Set [bitset_simps]: "bitmap_Get (bitmap_Set b i) j \<longleftrightarrow> j = i \<or> bitmap_Get b j"
proof -
  let ?b = "bitmap_Extend b i"
  have len: "i div 8 < length ?b"
    by (simp add: length_bitmap_Extend)
  have "bitmap_Get (bitmap_Set b i) j \<longleftrightarrow> j = i \<or> bitmap_Get ?b j"
    using len bit_position_eq [of j i]
    by (cases "j div 8 = i div 8")
      (auto simp: bitmap_Set_def Let_def bitmap_Get_bit bit_or_iff bit_bit_mask)
  then show ?thesis by (simp add: bitmap_Get_Extend)
qed

lemma bitmap_Get_Reset [bitset_simps]:
  "bitmap_Get (bitmap_Reset b i) j \<longleftrightarrow> j \<noteq> i \<and> bitmap_Get b j"
proof (cases "i div 8 < length b")
  case True
  show ?thesis
    using True bit_position_eq [of j i]
    by (cases "j div 8 = i div 8")
      (auto simp: bitmap_Reset_def bitmap_Get_bit bit_and_iff bit_not_iff bit_bit_mask)
next
  case False
  then show ?thesis by (auto simp: bitmap_Reset_def bitmap_Get_bit)
qed

lemma bitmap_Get_Nil [bitset_simps]: "\<not> bitmap_Get [] i"
  by (simp add: bitmap_Get_bit)

lemma bitmap_Get_New [bitset_simps]: "\<not> bitmap_Get (bitmap_New n) i"
  by (auto simp: bitmap_Get_bit bitmap_New_def)

lemma bitmap_Copy_id [simp]: "bitmap_Copy b = b"
  by (cases b) (auto simp: bitmap_Copy_def)

subsection \<open>The interface of a set of bits\<close>

text \<open>
  What the clients of a bitmap rely on: membership after an insertion and after a removal,
  and the empty bitmap. The lemmas of the locale are about the loops that insert a
  sequence of indices.
\<close>

locale bitset =
  fixes get :: "'b \<Rightarrow> nat \<Rightarrow> bool"
    and set_bit :: "'b \<Rightarrow> nat \<Rightarrow> 'b"
    and reset_bit :: "'b \<Rightarrow> nat \<Rightarrow> 'b"
    and empty_bits :: 'b
  assumes get_set: "get (set_bit b i) j \<longleftrightarrow> j = i \<or> get b j"
    and get_reset: "get (reset_bit b i) j \<longleftrightarrow> j \<noteq> i \<and> get b j"
    and get_empty: "\<not> get empty_bits j"
begin

lemma get_fold_set:
  "get (fold (\<lambda>i c. set_bit c i) is b) j \<longleftrightarrow> j \<in> set is \<or> get b j"
  by (induction "is" arbitrary: b) (auto simp: get_set)

lemma get_fold_set_if:
  "get (fold (\<lambda>i c. if P i then set_bit c i else c) is b) j
     \<longleftrightarrow> (j \<in> set is \<and> P j) \<or> get b j"
  by (induction "is" arbitrary: b) (auto simp: get_set)

lemma get_fold_set_empty:
  "get (fold (\<lambda>i c. set_bit c i) is empty_bits) j \<longleftrightarrow> j \<in> set is"
  by (simp add: get_fold_set get_empty)

end

interpretation bm: bitset bitmap_Get bitmap_Set bitmap_Reset "[]"
  by unfold_locales (simp_all add: bitset_simps)

lemmas [bitset_simps] = bm.get_fold_set bm.get_fold_set_if bm.get_fold_set_empty

subsection \<open>Whole-bitmap operations\<close>

lemma fold_fill_bytes:
  assumes "k \<le> length b"
  shows "fold (\<lambda>i c. c[i := v]) [0..<k] b = replicate k v @ drop k b"
  using assms
proof (induction k)
  case 0
  then show ?case by simp
next
  case (Suc k)
  then have "fold (\<lambda>i c. c[i := v]) [0..<Suc k] b = (replicate k v @ drop k b)[k := v]"
    by simp
  also have "\<dots> = replicate (Suc k) v @ drop (Suc k) b"
    using Suc.prems
    by (simp add: list_update_append Cons_nth_drop_Suc [symmetric] replicate_app_Cons_same)
  finally show ?case .
qed

lemma bit_0xFF: "bit (0xFF :: byte) k \<longleftrightarrow> k < 8"
proof -
  have "(0xFF :: byte) = mask 8" by (simp add: mask_eq_exp_minus_1)
  then have "bit (0xFF :: byte) k = bit (mask 8 :: byte) k" by (rule arg_cong)
  also have "\<dots> \<longleftrightarrow> k < 8" unfolding bit_mask_iff by auto
  finally show ?thesis .
qed

theorem bitmap_Get_SetMultiple [bitset_simps]:
  "bitmap_Get (bitmap_SetMultiple b n) j \<longleftrightarrow> j < n \<or> bitmap_Get b j"
proof -
  let ?e = "bitmap_Extend b n"
  let ?f = "fold (\<lambda>i c. c[i := 0xFF]) [0..<n div 8] ?e"
  have len: "n div 8 < length ?e" by (simp add: length_bitmap_Extend)
  then have f: "?f = replicate (n div 8) 0xFF @ drop (n div 8) ?e"
    by (simp add: fold_fill_bytes)
  have "bitmap_Get ?f j \<longleftrightarrow> j div 8 < n div 8 \<or> bitmap_Get ?e j"
    using len bit_0xFF [of "7 - j mod 8"] by (auto simp: f bitmap_Get_bit nth_append)
  then have "bitmap_Get (bitmap_SetMultiple b n) j
      \<longleftrightarrow> (8 * (n div 8) \<le> j \<and> j < n) \<or> j div 8 < n div 8 \<or> bitmap_Get b j"
    by (simp add: bitmap_SetMultiple_def Let_def bitset_simps)
  moreover have "j div 8 < n div 8 \<longleftrightarrow> j < 8 * (n div 8)"
    by (simp add: div_less_iff_less_mult mult.commute)
  moreover have "8 * (n div 8) \<le> n" by simp
  ultimately show ?thesis by auto
qed

lemma bitmap_Empty_iff [bitset_simps]: "bitmap_Empty b \<longleftrightarrow> (\<forall>i. \<not> bitmap_Get b i)"
proof
  assume "bitmap_Empty b"
  then show "\<forall>i. \<not> bitmap_Get b i"
    by (auto simp: bitmap_Empty_def list_all_length bitmap_Get_bit)
next
  assume "\<forall>i. \<not> bitmap_Get b i"
  then show "bitmap_Empty b"
    by (simp add: bitmap_Empty_def list_all_length byte_zero_iff_Get)
qed

lemma bytes_eq_iff_Get:
  assumes "i < length b1" and "i < length b2"
  shows "b1 ! i = b2 ! i \<longleftrightarrow> (\<forall>j < 8. bitmap_Get b1 (8 * i + j) = bitmap_Get b2 (8 * i + j))"
  using assms by (simp add: byte_eq_iff_flipped bitmap_Get_at)

lemma Get_split: "(\<forall>i. P i) \<longleftrightarrow> (\<forall>i. \<forall>j < 8. P (8 * i + j))" for P :: "nat \<Rightarrow> bool"
proof
  assume *: "\<forall>i. \<forall>j < 8. P (8 * i + j)"
  have "P (8 * (i div 8) + i mod 8)" for i
    by (rule * [rule_format]) simp
  then show "\<forall>i. P i" by (simp add: mult_div_mod_eq)
qed simp

lemma bitmap_EqualValue_Get: "bitmap_EqualValue b1 b2 \<longleftrightarrow> (\<forall>i. bitmap_Get b1 i = bitmap_Get b2 i)"
proof
  assume eq: "bitmap_EqualValue b1 b2"
  show "\<forall>i. bitmap_Get b1 i = bitmap_Get b2 i"
  proof
    fix i
    show "bitmap_Get b1 i = bitmap_Get b2 i"
      using eq
      by (cases "i div 8 < length b1"; cases "i div 8 < length b2")
        (auto simp: bitmap_EqualValue_def Let_def list_all_iff bitmap_Get_bit split: if_splits)
  qed
next
  assume *: "\<forall>i. bitmap_Get b1 i = bitmap_Get b2 i"
  have same: "b1 ! i = b2 ! i" if "i < length b1" "i < length b2" for i
    using that * by (simp add: bytes_eq_iff_Get)
  have zero1: "b1 ! i = 0" if "i < length b1" "length b2 \<le> i" for i
    using that * by (simp add: byte_zero_iff_Get) (simp add: bitmap_Get_bit)
  have zero2: "b2 ! i = 0" if "i < length b2" "length b1 \<le> i" for i
    using that * [rule_format, symmetric]
    by (simp add: byte_zero_iff_Get) (simp add: bitmap_Get_bit)
  show "bitmap_EqualValue b1 b2"
    using same zero1 zero2 by (simp add: bitmap_EqualValue_def Let_def list_all_iff)
qed

subsection \<open>Enumeration and counting\<close>

text \<open>The bits of one byte, in the order of the bit field.\<close>

definition byte_bits :: "byte \<Rightarrow> nat list" where
  "byte_bits v = filter (\<lambda>j. bit v (7 - j)) [0..<8]"

lemma filter_mask_byte_bits: "filter (\<lambda>j. ((v :: byte) AND push_bit (7 - j) 1) \<noteq> 0) [0..<8] = byte_bits v"
  unfolding byte_bits_def by (rule filter_cong) (simp_all only: byte_and_mask_iff, auto)

lemma byte_bits_zero [simp]: "byte_bits 0 = []"
  by (simp add: byte_bits_def)

lemma length_byte_bits: "length (byte_bits v) = OnesCount8 v"
proof -
  have flip: "map (\<lambda>j. 7 - j) [0..<8] = rev [0..<8::nat]"
    by (simp add: upt_rec)
  have "OnesCount8 v = length (filter (bit v) (rev [0..<8]))"
    by (simp add: OnesCount8_def rev_filter [symmetric])
  also have "\<dots> = length (byte_bits v)"
    by (simp add: flip [symmetric] filter_map byte_bits_def comp_def)
  finally show ?thesis by simp
qed

lemma bitmap_AllSet_bytes:
  "bitmap_AllSet b = concat (map (\<lambda>i. map (\<lambda>j. 8 * i + j) (byte_bits (b ! i))) [0..<length b])"
proof -
  have "bitmap_AllSet b = concat (map (\<lambda>i. map (\<lambda>j. push_bit 3 i + j) (byte_bits (b ! i))) [0..<length b])"
    unfolding bitmap_AllSet_def filter_mask_byte_bits
    by (rule arg_cong [where f = concat], rule map_cong) auto
  then show ?thesis by (simp add: push_bit_eq_mult mult.commute)
qed

lemma bitmap_AllSet_snoc:
  "bitmap_AllSet (b @ [v]) = bitmap_AllSet b @ map (\<lambda>j. 8 * length b + j) (byte_bits v)"
proof -
  have "map (\<lambda>i. map (\<lambda>j. 8 * i + j) (byte_bits ((b @ [v]) ! i))) [0..<length b]
      = map (\<lambda>i. map (\<lambda>j. 8 * i + j) (byte_bits (b ! i))) [0..<length b]"
    by (rule map_cong) (auto simp: nth_append)
  then show ?thesis by (simp add: bitmap_AllSet_bytes del: map_eq_conv)
qed

text \<open>The iterator visits exactly the set bits, in increasing order.\<close>

lemma bitmap_AllSet_filter: "bitmap_AllSet b = filter (bitmap_Get b) [0..<8 * length b]"
proof (induction b rule: rev_induct)
  case Nil
  then show ?case by (simp add: bitmap_AllSet_def)
next
  case (snoc v b)
  have "[0..<8 * length (b @ [v])] = [0..<8 * length b] @ map (\<lambda>j. 8 * length b + j) [0..<8]"
    using map_add_upt [of "8 * length b" 8] upt_add_eq_append [of 0 "8 * length b" 8]
    by (simp add: add.commute)
  moreover have "filter (bitmap_Get (b @ [v])) [0..<8 * length b] = filter (bitmap_Get b) [0..<8 * length b]"
    by (rule filter_cong) (auto simp: bitmap_Get_bit nth_append)
  moreover have "filter (bitmap_Get (b @ [v])) (map (\<lambda>j. 8 * length b + j) [0..<8])
      = map (\<lambda>j. 8 * length b + j) (byte_bits v)"
    unfolding filter_map byte_bits_def
    by (rule arg_cong [where f = "map _"], rule filter_cong) (auto simp: bitmap_Get_bit nth_append)
  ultimately show ?case by (simp add: bitmap_AllSet_snoc snoc.IH)
qed

lemma set_bitmap_AllSet [bitset_simps]: "i \<in> set (bitmap_AllSet b) \<longleftrightarrow> bitmap_Get b i"
  using bitmap_Get_length by (auto simp: bitmap_AllSet_filter)

lemma bitmap_Count_AllSet: "bitmap_Count b = length (bitmap_AllSet b)"
  by (induction b rule: rev_induct)
    (simp_all add: bitmap_Count_def bitmap_AllSet_snoc length_byte_bits, simp add: bitmap_AllSet_def)

lemma finite_bits [simp]: "finite {i. bitmap_Get b i}"
proof (rule finite_subset)
  show "{i. bitmap_Get b i} \<subseteq> {..<8 * length b}"
    using bitmap_Get_length by auto
qed simp

lemma bitmap_Count_card: "bitmap_Count b = card {i. bitmap_Get b i}"
proof -
  have "distinct (bitmap_AllSet b)" by (simp add: bitmap_AllSet_filter)
  then have "length (bitmap_AllSet b) = card (set (bitmap_AllSet b))"
    by (simp add: distinct_card)
  also have "set (bitmap_AllSet b) = {i. bitmap_Get b i}"
    by (auto simp: bitset_simps)
  finally show ?thesis by (simp add: bitmap_Count_AllSet)
qed

subsection \<open>The highest bit\<close>

lemma TrailingZeros8_correct:
  assumes "v \<noteq> 0"
  shows "TrailingZeros8 v < 8 \<and> bit v (TrailingZeros8 v) \<and> (\<forall>j < TrailingZeros8 v. \<not> bit v j)"
proof -
  let ?ws = "takeWhile (\<lambda>j. \<not> bit v j) [0..<8]"
  obtain k where "bit v k" using assms by (auto simp: bit_eq_iff)
  then have k: "k < 8" "bit v k" using bit_imp_le_length [of v k] by auto
  then have "\<not> (\<forall>j \<in> set [0..<8]. \<not> bit v j)" by auto
  then have "length ?ws < length [0..<8::nat]"
    by (metis length_takeWhile_le nat_less_le takeWhile_eq_all_conv takeWhile_eq_take take_all)
  then have len: "TrailingZeros8 v < 8" by (simp add: TrailingZeros8_def)
  then have "bit v ([0..<8] ! length ?ws)"
    using nth_length_takeWhile [of "\<lambda>j. \<not> bit v j" "[0..<8]"]
    by (simp add: TrailingZeros8_def)
  moreover have "\<not> bit v j" if "j < TrailingZeros8 v" for j
  proof -
    have "?ws ! j \<in> set ?ws" using that by (simp add: TrailingZeros8_def)
    moreover have "?ws ! j = j" using that len by (simp add: TrailingZeros8_def takeWhile_nth)
    ultimately show ?thesis by (metis set_takeWhileD)
  qed
  ultimately show ?thesis using len by (auto simp: TrailingZeros8_def)
qed

lemma bitmap_Len_loop_correct:
  assumes "k \<le> length b" and "\<forall>i. bitmap_Get b i \<longrightarrow> i < 8 * k"
  shows "(\<forall>i. bitmap_Get b i \<longrightarrow> i < bitmap_Len_loop b k)
     \<and> (0 < bitmap_Len_loop b k \<longrightarrow> bitmap_Get b (bitmap_Len_loop b k - 1))"
  using assms
proof (induction k)
  case 0
  then show ?case by simp
next
  case (Suc k)
  show ?case
  proof (cases "b ! k = 0")
    case True
    have "i < 8 * k" if "bitmap_Get b i" for i
    proof (rule ccontr)
      assume "\<not> i < 8 * k"
      then have "i div 8 = k" using Suc.prems(2) that by fastforce
      with that True show False by (simp add: bitmap_Get_bit)
    qed
    with Suc True show ?thesis by simp
  next
    case False
    define z where "z = TrailingZeros8 (b ! k)"
    have z: "z < 8" "bit (b ! k) z" "\<And>j. j < z \<Longrightarrow> \<not> bit (b ! k) j"
      using TrailingZeros8_correct [OF False] by (auto simp: z_def)
    have "i < k * 8 + 8 - z" if "bitmap_Get b i" for i
    proof (rule ccontr)
      assume i: "\<not> i < k * 8 + 8 - z"
      have "i < 8 * Suc k" using Suc.prems(2) that by blast
      then have k: "i div 8 = k" using i z(1) by auto
      moreover have "7 - i mod 8 < z"
        using i z(1) k mult_div_mod_eq [of 8 i] mod_less_divisor [of 8 i] by linarith
      ultimately show False using that z(3) by (simp add: bitmap_Get_bit)
    qed
    moreover have "bitmap_Get b (k * 8 + 8 - z - 1)"
    proof -
      have eq: "k * 8 + 8 - z - 1 = 8 * k + (7 - z)" using z(1) by simp
      show ?thesis
        unfolding eq using bitmap_Get_at [of k b "7 - z"] z Suc.prems(1) by simp
    qed
    ultimately show ?thesis using False z(1) by (simp add: z_def)
  qed
qed

lemma bitmap_Len_bound: "bitmap_Get b i \<Longrightarrow> i < bitmap_Len b"
  and bitmap_Len_top: "0 < bitmap_Len b \<Longrightarrow> bitmap_Get b (bitmap_Len b - 1)"
  using bitmap_Len_loop_correct [of "length b" b] bitmap_Get_length [of b]
  by (auto simp: bitmap_Len_def bitmap_Get_Nil split: if_splits)

lemma bitmap_Len_Max:
  "bitmap_Len b = (if \<exists>i. bitmap_Get b i then Suc (Max {i. bitmap_Get b i}) else 0)"
proof (cases "\<exists>i. bitmap_Get b i")
  case True
  then have pos: "0 < bitmap_Len b" using bitmap_Len_bound by fastforce
  have "Max {i. bitmap_Get b i} = bitmap_Len b - 1"
  proof (rule Max_eqI)
    show "bitmap_Len b - 1 \<in> {i. bitmap_Get b i}" using pos bitmap_Len_top by simp
    show "i \<le> bitmap_Len b - 1" if "i \<in> {i. bitmap_Get b i}" for i
      using that bitmap_Len_bound [of b i] by simp
  qed simp
  with True pos show ?thesis by simp
next
  case False
  then have "\<not> 0 < bitmap_Len b" using bitmap_Len_top by blast
  with False show ?thesis by simp
qed

lemma bitmap_Len_le_iff: "bitmap_Len b \<le> n \<longleftrightarrow> (\<forall>i. bitmap_Get b i \<longrightarrow> i < n)"
proof
  assume *: "\<forall>i. bitmap_Get b i \<longrightarrow> i < n"
  show "bitmap_Len b \<le> n"
    using * [rule_format, OF bitmap_Len_top [of b]] by (cases "bitmap_Len b") auto
qed (use bitmap_Len_bound [of b] in fastforce)

subsection \<open>All bits up to a bound\<close>

lemma bit_push_0xFF: "bit (push_bit s (0xFF :: byte)) k \<longleftrightarrow> s \<le> k \<and> k < 8"
  unfolding bit_push_bit_iff using bit_0xFF [of "k - s"] by auto

lemma partial_byte_Get:
  assumes "i < length b" and "r \<le> 8"
  shows "b ! i = push_bit (8 - r) 0xFF \<longleftrightarrow> (\<forall>j < 8. bitmap_Get b (8 * i + j) \<longleftrightarrow> j < r)"
proof -
  have "bit (push_bit (8 - r) (0xFF :: byte)) (7 - j) \<longleftrightarrow> j < r" if "j < 8" for j
    using that assms(2) by (simp only: bit_push_0xFF) auto
  then show ?thesis
    using bitmap_Get_at [OF assms(1)] by (simp add: byte_eq_iff_flipped)
qed

lemma full_byte_Get:
  "i < length b \<Longrightarrow> b ! i = 0xFF \<longleftrightarrow> (\<forall>j < 8. bitmap_Get b (8 * i + j))"
  using partial_byte_Get [of i b 8] by simp

text \<open>
  \<^verbatim>\<open>All(n)\<close> holds when the bits up to \<open>n - 1\<close> are set and the remaining bits of the last
  byte of that range are clear.
\<close>

lemma bitmap_All_bytes:
  assumes "n = 8 * q + r" and "r < 8"
  shows "bitmap_All b n \<longleftrightarrow>
    (\<forall>i < q. \<forall>j < 8. bitmap_Get b (8 * i + j)) \<and>
    (r = 0 \<or> (\<forall>j < 8. bitmap_Get b (8 * q + j) \<longleftrightarrow> j < r))"
proof -
  define A B where "A = (\<forall>i < q. \<forall>j < 8. bitmap_Get b (8 * i + j))"
    and "B = (\<forall>j < 8. bitmap_Get b (8 * q + j) \<longleftrightarrow> j < r)"
  have qr: "n div 8 = q" "n mod 8 = r" using assms by auto
  have in_range: "q \<le> length b" if A
  proof (cases q)
    case (Suc p)
    then have "bitmap_Get b (8 * p + 0)"
      using that unfolding A_def by (metis lessI zero_less_numeral)
    then show ?thesis using Suc by (simp add: bitmap_Get_bit)
  qed simp
  have part: "q < length b" if "r \<noteq> 0" B
  proof -
    have "bitmap_Get b (8 * q + 0) \<longleftrightarrow> 0 < r"
      using that(2) unfolding B_def by (metis zero_less_numeral)
    then have "bitmap_Get b (8 * q + 0)" using that(1) by simp
    then show ?thesis by (simp add: bitmap_Get_bit)
  qed
  have full: "list_all (\<lambda>i. b ! i = 0xFF) [0..<q] = A" if "q \<le> length b"
    using that full_byte_Get [of _ b] by (auto simp: list_all_iff A_def)
  have last: "(b ! q = push_bit (8 - r) 0xFF) = B" if "q < length b"
    using that assms(2) unfolding B_def by (intro partial_byte_Get) auto
  have zero: "A" if "q = 0" using that by (simp add: A_def)
  have "bitmap_All b n \<longleftrightarrow> A \<and> (r = 0 \<or> B)"
  proof (cases "q \<le> length b")
    case True
    then show ?thesis
      using full last part zero assms(1)
      unfolding bitmap_All_def qr by (cases "q < length b") auto
  next
    case False
    then show ?thesis
      using in_range zero assms(1) unfolding bitmap_All_def qr by auto
  qed
  then show ?thesis by (simp add: A_def B_def)
qed

theorem bitmap_All_bits:
  "bitmap_All b n \<longleftrightarrow> {i. bitmap_Get b i \<and> i < 8 * ((n + 7) div 8)} = {..<n}"
proof -
  define q r where "q = n div 8" and "r = n mod 8"
  have n: "n = 8 * q + r" and r: "r < 8" by (simp_all add: q_def r_def)
  let ?m = "8 * ((n + 7) div 8)"
  have m: "?m = 8 * q + (if r = 0 then 0 else 8)"
  proof (cases "r = 0")
    case False
    then have "n + 7 = 8 * Suc q + (r - 1)" using n by simp
    then have "(n + 7) div 8 = Suc q + (r - 1) div 8" by (simp only: div_mult_self4)
    with r False show ?thesis by simp
  qed (simp add: n)
  have split: "(\<forall>i < 8 * q. bitmap_Get b i) \<longleftrightarrow> (\<forall>i < q. \<forall>j < 8. bitmap_Get b (8 * i + j))"
  proof
    assume *: "\<forall>i < q. \<forall>j < 8. bitmap_Get b (8 * i + j)"
    have "bitmap_Get b (8 * (i div 8) + i mod 8)" if "i < 8 * q" for i
      using that by (intro * [rule_format]) auto
    then show "\<forall>i < 8 * q. bitmap_Get b i" by simp
  qed auto
  have top: "(\<forall>i. 8 * q \<le> i \<and> i < 8 * q + 8 \<longrightarrow> (bitmap_Get b i \<longleftrightarrow> i < n))
      \<longleftrightarrow> (\<forall>j < 8. bitmap_Get b (8 * q + j) \<longleftrightarrow> j < r)"
  proof
    assume *: "\<forall>j < 8. bitmap_Get b (8 * q + j) \<longleftrightarrow> j < r"
    have "bitmap_Get b (8 * q + (i - 8 * q)) \<longleftrightarrow> i - 8 * q < r" if "8 * q \<le> i" "i < 8 * q + 8" for i
      using that by (intro * [rule_format]) auto
    then show "\<forall>i. 8 * q \<le> i \<and> i < 8 * q + 8 \<longrightarrow> (bitmap_Get b i \<longleftrightarrow> i < n)"
      using n by (auto simp: less_diff_conv2)
  qed (auto simp: n)
  have "{i. bitmap_Get b i \<and> i < ?m} = {..<n} \<longleftrightarrow> (\<forall>i < ?m. bitmap_Get b i \<longleftrightarrow> i < n)"
    using n r m by (auto simp: set_eq_iff)
  also have "\<dots> \<longleftrightarrow> (\<forall>i < 8 * q. bitmap_Get b i) \<and>
      (r = 0 \<or> (\<forall>i. 8 * q \<le> i \<and> i < 8 * q + 8 \<longrightarrow> (bitmap_Get b i \<longleftrightarrow> i < n)))"
    unfolding m using n by (cases "r = 0") (auto simp: not_less, (metis trans_less_add1 linorder_not_le)+)
  finally show ?thesis
    unfolding split top by (simp add: bitmap_All_bytes [OF n r])
qed

lemma bitmap_All_Get: "bitmap_All b n \<Longrightarrow> i < n \<Longrightarrow> bitmap_Get b i"
  unfolding bitmap_All_bits by blast

text \<open>For a bitmap with no bit beyond \<open>n\<close> the test is exact.\<close>

lemma bitmap_All_exact:
  assumes "\<forall>i. bitmap_Get b i \<longrightarrow> i < n"
  shows "bitmap_All b n \<longleftrightarrow> (\<forall>i < n. bitmap_Get b i)"
proof -
  have "n \<le> 8 * ((n + 7) div 8)" by simp
  with assms show ?thesis unfolding bitmap_All_bits by fastforce
qed

end
