(* ===== verification/Hash.thy ===== *)
theory Hash
  imports Prelude
begin

section \<open>Hashes (hash/hash.go)\<close>

text \<open>
  The 20-byte hashes. A hash is a list of bytes; \<open>Equal\<close> panics (\<open>None\<close>) when one of
  the two does not have 20 bytes.
\<close>

type_synonym hash = "byte list"

text \<open>The loop of \<^verbatim>\<open>Equal\<close> from index \<open>i\<close>: the first difference answers false.\<close>

definition hash_Equal :: "hash \<Rightarrow> hash \<Rightarrow> bool option" where
  "hash_Equal h1 h2 =
     (if length h1 \<noteq> 20 \<or> length h2 \<noteq> 20 then None
      else Some (list_all (\<lambda>i. h1 ! i = h2 ! i) [0..<20]))"

lemma hash_Equal_Some: "length h1 = 20 \<Longrightarrow> length h2 = 20 \<Longrightarrow> hash_Equal h1 h2 = Some (h1 = h2)"
  by (auto simp: hash_Equal_def list_all_iff list_eq_iff_nth_eq)

lemma hash_Equal_SomeD: "hash_Equal h1 h2 = Some r \<Longrightarrow> r = (h1 = h2)"
  using hash_Equal_Some by (auto simp: hash_Equal_def split: if_splits)

subsection \<open>Text\<close>

text \<open>\<^verbatim>\<open>hex.EncodeToString\<close> and \<^verbatim>\<open>hex.DecodeString\<close>.\<close>

definition hex_digit :: "nat \<Rightarrow> char" where
  "hex_digit n = (if n < 10 then char_of (48 + n) else char_of (87 + n))"

definition hex_value :: "char \<Rightarrow> nat option" where
  "hex_value c =
     (let n = of_char c :: nat
      in if 48 \<le> n \<and> n \<le> 57 then Some (n - 48)
         else if 97 \<le> n \<and> n \<le> 102 then Some (n - 87)
         else if 65 \<le> n \<and> n \<le> 70 then Some (n - 55)
         else None)"

definition hex_byte :: "byte \<Rightarrow> string" where
  "hex_byte b = [hex_digit (unat b div 16), hex_digit (unat b mod 16)]"

fun hex_decode :: "string \<Rightarrow> byte list option" where
  "hex_decode [] = Some []"
| "hex_decode [c] = None"
| "hex_decode (c # d # cs) =
     (case (hex_value c, hex_value d, hex_decode cs) of
        (Some h, Some l, Some bs) \<Rightarrow> Some (of_nat (16 * h + l) # bs)
      | _ \<Rightarrow> None)"

text \<open>\<open>None\<close> is a hash that is nil.\<close>

definition hash_String :: "hash option \<Rightarrow> string" where
  "hash_String h = (case h of None \<Rightarrow> ''<nil>'' | Some bs \<Rightarrow> concat (map hex_byte bs))"

text \<open>
  \<^verbatim>\<open>base32.StdEncoding.DecodeString\<close> where its result can have 20 bytes: line ends are ignored, and 20 bytes are 32 characters of the alphabet without padding, read as a number.
\<close>

definition base32_value :: "char \<Rightarrow> nat option" where
  "base32_value c =
     (let n = of_char c :: nat
      in if 65 \<le> n \<and> n \<le> 90 then Some (n - 65) else if 50 \<le> n \<and> n \<le> 55 then Some (n - 24) else None)"

definition base32_number :: "string \<Rightarrow> nat option" where
  "base32_number s =
     foldl (\<lambda>a c. case (a, base32_value c) of (Some n, Some v) \<Rightarrow> Some (32 * n + v) | _ \<Rightarrow> None) (Some 0) s"

fun bytes_of_number :: "nat \<Rightarrow> nat \<Rightarrow> byte list" where
  "bytes_of_number 0 n = []"
| "bytes_of_number (Suc k) n = bytes_of_number k (n div 256) @ [of_nat (n mod 256)]"

definition base32_hash :: "string \<Rightarrow> hash option" where
  "base32_hash s =
     (let s' = filter (\<lambda>c. c \<noteq> CHR 0x0A \<and> c \<noteq> CHR 0x0D) s
      in if length s' = 32 then map_option (bytes_of_number 20) (base32_number s') else None)"

definition hash_Parse :: "string \<Rightarrow> hash option" where
  "hash_Parse s =
     (case hex_decode s of
        Some h \<Rightarrow> if length h = 20 then Some h else base32_hash s
      | None \<Rightarrow> base32_hash s)"

lemma hex_value_digit: "n < 16 \<Longrightarrow> hex_value (hex_digit n) = Some n"
  by (simp add: hex_value_def hex_digit_def Let_def)

lemma hex_decode_encode: "hex_decode (concat (map hex_byte bs)) = Some bs"
proof (induction bs)
  case (Cons b bs)
  have b: "unat b < 256" using unsigned_less [of b, where 'a = nat] by simp
  then have "unat b div 16 < 16" by simp
  moreover have "(of_nat (16 * (unat b div 16) + unat b mod 16) :: byte) = b" by simp
  ultimately show ?case using Cons by (simp add: hex_byte_def hex_value_digit)
qed simp

lemma length_bytes_of_number [simp]: "length (bytes_of_number k n) = k"
  by (induction k arbitrary: n) simp_all

text \<open>A hash can be read back from its text, and whatever is read has 20 bytes.\<close>

lemma hash_Parse_String: "length h = 20 \<Longrightarrow> hash_Parse (hash_String (Some h)) = Some h"
  by (simp add: hash_Parse_def hash_String_def hex_decode_encode)

lemma hash_Parse_length: "hash_Parse s = Some h \<Longrightarrow> length h = 20"
  by (auto simp: hash_Parse_def base32_hash_def Let_def split: option.splits if_splits)

end
