(* ===== verification/Piece.thy ===== *)
theory Piece
  imports Bitmap Hash "HOL-Library.Monad_Syntax"
begin

unbundle bit_operations_syntax

section \<open>The contents of a torrent (tor/piece/piece.go, alloc/alloc_unix.go)\<close>

text \<open>
  The operations of \<^verbatim>\<open>piece.Pieces\<close>. Each of them takes the lock of the structure, so
  each is one atomic step of the model, with two exceptions that release it:
  \<^item> \<^verbatim>\<open>Finalise\<close> releases it while the hash is computed; it is the two steps
    \<open>Finalise_begin\<close> and \<open>Finalise_end\<close>, with the piece in the busy state in between;
  \<^item> \<^verbatim>\<open>del\<close> releases it while it waits for a busy piece; \<open>del_enter\<close> says that it waits
    and \<open>del_body\<close> is what it does once the wait is over.
  A nil slice of data is \<open>None\<close>. The current time, the outcome of the system's
  \<^verbatim>\<open>mmap\<close> and the hash function \<open>sha1\<close> are arguments. The field \<open>ps_allocated\<close> is the
  share of the counter \<^verbatim>\<open>alloc.allocated\<close> that this structure accounts for. The function
  results follow the state: \<open>None\<close> is a panic.
\<close>

subsection \<open>The data model\<close>

datatype piece_error = ErrHashMismatch | ErrDeleted | ErrOddOffset | ErrBeyondEnd | ErrAlloc

record piece =
  pc_data :: "byte list option"
  pc_bitmap :: bitmap
  pc_state :: u32
  pc_time :: u32
  pc_peers :: "u32 list"

definition stateComplete :: u32 where "stateComplete = 1"

definition stateBusy :: u32 where "stateBusy = 2"

definition empty_piece :: piece where
  "empty_piece = \<lparr>pc_data = None, pc_bitmap = [], pc_state = 0, pc_time = 0, pc_peers = []\<rparr>"

record pieces =
  ps_deleted :: bool
  ps_pieces :: "piece list"
  ps_count :: int
  ps_pieceSize :: u32
  ps_length :: int
  ps_allocated :: int

definition empty_pieces :: pieces where
  "empty_pieces = \<lparr>ps_deleted = False, ps_pieces = [], ps_count = 0, ps_pieceSize = 0,
     ps_length = 0, ps_allocated = 0\<rparr>"

definition piece_complete :: "piece \<Rightarrow> bool" where
  "piece_complete p = (pc_state p = stateComplete)"

definition piece_busy :: "piece \<Rightarrow> bool" where
  "piece_busy p = (pc_state p = stateBusy)"

definition busyOrComplete :: "piece \<Rightarrow> bool" where
  "busyOrComplete p = (pc_state p \<noteq> 0)"

text \<open>Compare and swap of the state; a failure panics.\<close>

definition setState :: "u32 \<Rightarrow> u32 \<Rightarrow> piece \<Rightarrow> piece option" where
  "setState oldstate st p = (if pc_state p = oldstate then Some (p\<lparr>pc_state := st\<rparr>) else None)"

text \<open>\<^verbatim>\<open>ps.pieces[index]\<close>, which panics out of range, and its assignment.\<close>

definition piece_at :: "pieces \<Rightarrow> u32 \<Rightarrow> piece option" where
  "piece_at ps index =
     (if unat index < length (ps_pieces ps) then Some (ps_pieces ps ! unat index) else None)"

definition put_piece :: "pieces \<Rightarrow> u32 \<Rightarrow> piece \<Rightarrow> pieces" where
  "put_piece ps index p = ps\<lparr>ps_pieces := (ps_pieces ps)[unat index := p]\<rparr>"

text \<open>\<^verbatim>\<open>piece_data p\<close> reads the slice: nil has no bytes.\<close>

definition piece_bytes :: "piece \<Rightarrow> byte list" where
  "piece_bytes p = (case pc_data p of None \<Rightarrow> [] | Some d \<Rightarrow> d)"

subsection \<open>The allocator\<close>

text \<open>What the operating system answers: whether \<^verbatim>\<open>mmap\<close> and \<^verbatim>\<open>munmap\<close> succeed.\<close>

record sysenv =
  mmap_ok :: bool
  munmap_ok :: bool

definition alloc_cutoff :: nat where "alloc_cutoff = 128 * 1024"

text \<open>
  \<^verbatim>\<open>Alloc\<close>: small slices come from the Go heap, large ones from \<^verbatim>\<open>mmap\<close>, which may fail
  (\<open>None\<close>). Both are zeroed and their capacity is their size.
\<close>

definition alloc_Alloc :: "sysenv \<Rightarrow> nat \<Rightarrow> int \<Rightarrow> (byte list \<times> int) option" where
  "alloc_Alloc env sz allocated =
     (if sz < alloc_cutoff then Some (replicate sz 0, allocated + int sz)
      else if \<not> mmap_ok env then None
      else Some (replicate sz 0, allocated + int sz))"

text \<open>
  \<^verbatim>\<open>Free\<close> of a slice that fills its allocation (its capacity is its length): the counter
  goes down whether or not \<^verbatim>\<open>munmap\<close> succeeds, and the second result says if it did.
\<close>

definition alloc_Free :: "sysenv \<Rightarrow> byte list \<Rightarrow> int \<Rightarrow> int \<times> bool" where
  "alloc_Free env p allocated =
     (if length p < alloc_cutoff then (allocated - int (length p), True)
      else (allocated - int (length p), munmap_ok env))"

subsection \<open>Geometry\<close>

text \<open>
  \<^verbatim>\<open>MetadataComplete\<close>: panics when called twice, when the piece size is 0 (division by
  zero) and when the number of pieces is negative (the argument of \<^verbatim>\<open>make\<close>).
\<close>

definition Pieces_MetadataComplete :: "pieces \<Rightarrow> u32 \<Rightarrow> int \<Rightarrow> pieces option" where
  "Pieces_MetadataComplete ps psize len =
     (if ps_length ps > 0 then None
      else if psize = 0 then None
      else let n = (len + uint (psize - 1)) sdiv uint psize
           in if n < 0 then None
              else Some (ps\<lparr>ps_pieces := replicate (nat n) empty_piece,
                             ps_pieceSize := psize, ps_length := len\<rparr>))"

definition Pieces_Num :: "pieces \<Rightarrow> nat" where
  "Pieces_Num ps = length (ps_pieces ps)"

text \<open>\<^verbatim>\<open>PieceLength\<close> divides by the piece size, so it panics when that is 0.\<close>

definition PieceLength :: "pieces \<Rightarrow> u32 \<Rightarrow> u32 option" where
  "PieceLength ps index =
     (if ps_pieceSize ps = 0 then None
      else let last = (word_of_int (ps_length ps sdiv uint (ps_pieceSize ps)) :: u32)
           in Some (if index < last then ps_pieceSize ps
                    else if index = last then word_of_int (ps_length ps smod uint (ps_pieceSize ps))
                    else 0))"

definition pieceChunks :: "pieces \<Rightarrow> u32 \<Rightarrow> nat option" where
  "pieceChunks ps index =
     map_option (\<lambda>pl. unat ((pl + ChunkSize - 1) div ChunkSize)) (PieceLength ps index)"

subsection \<open>Queries\<close>

definition Pieces_Complete :: "pieces \<Rightarrow> u32 \<Rightarrow> bool option" where
  "Pieces_Complete ps n = map_option piece_complete (piece_at ps n)"

definition UpdateTime :: "u32 \<Rightarrow> pieces \<Rightarrow> u32 \<Rightarrow> (pieces \<times> bool) option" where
  "UpdateTime now ps index = do {
     p \<leftarrow> piece_at ps index;
     let p' = (if pc_time p < now then p\<lparr>pc_time := now\<rparr> else p);
     Some (put_piece ps index p', piece_complete p')
   }"

definition Pieces_Bitmap :: "pieces \<Rightarrow> bitmap" where
  "Pieces_Bitmap ps =
     fold (\<lambda>i b. if piece_complete (ps_pieces ps ! i) then bitmap_Set b i else b)
       [0..<length (ps_pieces ps)] (bitmap_New (length (ps_pieces ps)))"

definition Pieces_All :: "pieces \<Rightarrow> bool" where
  "Pieces_All ps = list_all piece_complete (ps_pieces ps)"

definition PieceEmpty :: "pieces \<Rightarrow> u32 \<Rightarrow> bool option" where
  "PieceEmpty ps n = map_option (\<lambda>p. bitmap_Empty (pc_bitmap p)) (piece_at ps n)"

definition PieceBitmap :: "pieces \<Rightarrow> u32 \<Rightarrow> (nat \<times> bitmap) option" where
  "PieceBitmap ps n = do {
     chunks \<leftarrow> pieceChunks ps n;
     p \<leftarrow> piece_at ps n;
     Some (chunks, pc_bitmap p)
   }"

definition Pieces_Count :: "pieces \<Rightarrow> int" where
  "Pieces_Count ps = ps_count ps"

definition Pieces_Bytes :: "pieces \<Rightarrow> int" where
  "Pieces_Bytes ps = ps_count ps * uint (ps_pieceSize ps)"

text \<open>
  \<^verbatim>\<open>ReadAt\<close> into a buffer of \<open>bufsize\<close> bytes: the bytes it copies and whether it answers
  \<^verbatim>\<open>io.EOF\<close>.
\<close>

definition ReadAt :: "pieces \<Rightarrow> nat \<Rightarrow> int \<Rightarrow> (byte list \<times> bool) option" where
  "ReadAt ps bufsize off =
     (if off \<ge> ps_length ps then Some ([], True)
      else if ps_pieceSize ps = 0 then None
      else let index = off sdiv uint (ps_pieceSize ps);
               begin = off smod uint (ps_pieceSize ps)
           in if index < 0 \<or> index \<ge> int (length (ps_pieces ps)) then None
              else let p = ps_pieces ps ! nat index
                   in if \<not> piece_complete p \<or> int (length (piece_bytes p)) \<le> begin
                      then Some ([], False)
                      else if begin < 0 then None
                      else Some (take bufsize (drop (nat begin) (piece_bytes p)), False))"

subsection \<open>Adding data\<close>

definition addPeer :: "u32 \<Rightarrow> piece \<Rightarrow> piece" where
  "addPeer peer p =
     (if peer = 0 then p
      else if peer \<in> set (pc_peers p) then p
      else p\<lparr>pc_peers := pc_peers p @ [peer]\<rparr>)"

text \<open>\<^verbatim>\<open>copy(dst[off:], src)\<close>: the slice expression panics beyond the end of \<open>dst\<close>.\<close>

definition copy_at :: "byte list \<Rightarrow> nat \<Rightarrow> byte list \<Rightarrow> byte list option" where
  "copy_at dst off src =
     (if off > length dst then None
      else Some (take off dst @ take (length dst - off) src @ drop (off + length src) dst))"

text \<open>The state of the loop of \<^verbatim>\<open>AddData\<close>.\<close>

record add_loop =
  al_count :: u32
  al_offset :: u32
  al_data :: "byte list"
  al_bitmap :: bitmap
  al_added :: bool

text \<open>The length of the chunk at the current offset: \<open>l\<close> of the loop.\<close>

definition chunk_len :: "u32 \<Rightarrow> u32 \<Rightarrow> u32" where
  "chunk_len pl offset = (if pl - offset > ChunkSize then ChunkSize else pl - offset)"

lemma chunk_len_le: "chunk_len pl offset \<le> pl - offset"
  by (auto simp: chunk_len_def)

lemma rest_decreases:
  assumes "chunk_len pl offset \<noteq> 0"
  shows "unat (pl - (offset + chunk_len pl offset)) < unat (pl - offset)"
proof -
  have eq: "pl - (offset + chunk_len pl offset) = (pl - offset) - chunk_len pl offset"
    by (simp add: diff_diff_add)
  have "unat ((pl - offset) - chunk_len pl offset) = unat (pl - offset) - unat (chunk_len pl offset)"
    by (rule unat_sub) (rule chunk_len_le)
  moreover have "0 < unat (chunk_len pl offset)"
    using assms by (simp add: unat_gt_0)
  moreover have "unat (chunk_len pl offset) \<le> unat (pl - offset)"
    using chunk_len_le by (simp add: word_le_nat_alt)
  ultimately show ?thesis unfolding eq by simp
qed

text \<open>
  The loop. What is left of the piece, \<^verbatim>\<open>pl - offset\<close>, decreases in every iteration, also
  where the subtraction wraps around.
\<close>

function AddData_loop :: "u32 \<Rightarrow> byte list \<Rightarrow> add_loop \<Rightarrow> add_loop option" where
  "AddData_loop pl data s =
     (if \<not> al_count s < of_nat (length data) then Some s
      else let c = unat (al_offset s div ChunkSize);
               l = chunk_len pl (al_offset s)
           in if l = 0 \<or> of_nat (length data) < al_count s + l then Some s
              else case (if bitmap_Get (al_bitmap s) c then Some s
                         else map_option
                                (\<lambda>d. s\<lparr>al_data := d, al_bitmap := bitmap_Set (al_bitmap s) c,
                                       al_added := True\<rparr>)
                                (copy_at (al_data s) (unat (al_offset s))
                                   (take (unat l) (drop (unat (al_count s)) data))))
                of None \<Rightarrow> None
                 | Some s' \<Rightarrow>
                     let s'' = s'\<lparr>al_offset := al_offset s + l, al_count := al_count s + l\<rparr>
                     in if l mod ChunkSize \<noteq> 0 then Some s''
                        else AddData_loop pl data s'')"
  by pat_completeness auto

termination
  by (relation "measure (\<lambda>(pl, data, s). unat (pl - al_offset s))")
    (auto simp: rest_decreases)

declare AddData_loop.simps [simp del]

text \<open>
  \<^verbatim>\<open>AddData\<close>. The test of the state is made twice in the code, before and after taking
  the lock; the model is the step that holds it.
\<close>

definition AddData ::
  "sysenv \<Rightarrow> pieces \<Rightarrow> u32 \<Rightarrow> u32 \<Rightarrow> byte list \<Rightarrow> u32 \<Rightarrow> (pieces \<times> u32 \<times> bool \<times> piece_error option) option" where
  "AddData env ps index begin data peer = do {
     p \<leftarrow> piece_at ps index;
     if busyOrComplete p then Some (ps, 0, False, None)
     else if ps_deleted ps then Some (ps, 0, False, Some ErrDeleted)
     else do {
       pl \<leftarrow> PieceLength ps index;
       if begin mod ChunkSize \<noteq> 0 then Some (ps, 0, False, Some ErrOddOffset)
       else if begin \<ge> pl then Some (ps, 0, False, Some ErrBeyondEnd)
       else
         (case (case pc_data p of
                  Some d \<Rightarrow> Some (d, ps)
                | None \<Rightarrow>
                    map_option
                      (\<lambda>(d, a). (d, ps\<lparr>ps_allocated := a, ps_count := ps_count ps + 1\<rparr>))
                      (alloc_Alloc env (unat pl) (ps_allocated ps))) of
            None \<Rightarrow> Some (ps, 0, False, Some ErrAlloc)
          | Some (d, ps1) \<Rightarrow> do {
              s \<leftarrow> AddData_loop pl data
                    \<lparr>al_count = 0, al_offset = begin, al_data = d,
                     al_bitmap = pc_bitmap p, al_added = False\<rparr>;
              let p1 = p\<lparr>pc_data := Some (al_data s), pc_bitmap := al_bitmap s\<rparr>;
              let p2 = (if al_added s \<and> peer \<noteq> - 1 then addPeer peer p1 else p1);
              n \<leftarrow> pieceChunks ps index;
              Some (put_piece ps1 index p2, al_count s, bitmap_All (al_bitmap s) n, None)
            })
     }
   }"

subsection \<open>Deleting a piece\<close>

text \<open>
  \<^verbatim>\<open>del\<close> after its wait loop: frees the data and clears the piece. It panics when
  \<^verbatim>\<open>munmap\<close> fails and when the count of non-empty pieces becomes negative.
\<close>

definition del_body :: "sysenv \<Rightarrow> pieces \<Rightarrow> u32 \<Rightarrow> (pieces \<times> bool) option" where
  "del_body env ps i = do {
     p \<leftarrow> piece_at ps i;
     let complete = piece_complete p;
     let (a, ok) = alloc_Free env (piece_bytes p) (ps_allocated ps);
     if \<not> ok then None
     else do {
       let p1 = p\<lparr>pc_data := None, pc_peers := [], pc_bitmap := []\<rparr>;
       p2 \<leftarrow> (if complete then setState stateComplete 0 p1 else Some p1);
       let ps' = (put_piece ps i p2)\<lparr>ps_allocated := a, ps_count := ps_count ps - 1\<rparr>;
       if ps_count ps' < 0 then None else Some (ps', complete)
     }
   }"

text \<open>
  \<^verbatim>\<open>del\<close> up to its wait loop: what it returns (the state, \<open>done\<close> and \<open>complete\<close>), or that
  it releases the lock and waits for a busy piece.
\<close>

datatype del_result = Del_returns pieces bool bool | Del_waits

definition del_enter :: "sysenv \<Rightarrow> pieces \<Rightarrow> u32 \<Rightarrow> bool \<Rightarrow> del_result option" where
  "del_enter env ps i force = do {
     p \<leftarrow> piece_at ps i;
     if pc_data p = None then Some (Del_returns ps False False)
     else if piece_busy p then
       (if \<not> force then Some (Del_returns ps False False) else Some Del_waits)
     else map_option (\<lambda>(ps', complete). Del_returns ps' True complete) (del_body env ps i)
   }"

subsection \<open>Verifying a piece\<close>

datatype finalise_start =
    Finalise_returns bool "u32 list" "piece_error option"
  | Finalise_hashes "byte list"

definition Finalise_begin :: "pieces \<Rightarrow> u32 \<Rightarrow> (pieces \<times> finalise_start) option" where
  "Finalise_begin ps index = do {
     p \<leftarrow> piece_at ps index;
     if busyOrComplete p then Some (ps, Finalise_returns False [] None)
     else if ps_deleted ps then Some (ps, Finalise_returns False [] (Some ErrDeleted))
     else do {
       n \<leftarrow> pieceChunks ps index;
       if bitmap_Count (pc_bitmap p) \<noteq> n then Some (ps, Finalise_returns False [] None)
       else do {
         p' \<leftarrow> setState 0 stateBusy p;
         Some (put_piece ps index p', Finalise_hashes (piece_bytes p))
       }
     }
   }"

text \<open>
  \<^verbatim>\<open>Finalise\<close> once the hash \<open>hh\<close> is known, with the lock held again. The deletion of a
  mismatched piece never waits: its state has just become 0.
\<close>

definition Finalise_end ::
  "sysenv \<Rightarrow> pieces \<Rightarrow> u32 \<Rightarrow> hash \<Rightarrow> hash \<Rightarrow> (pieces \<times> bool \<times> u32 list \<times> piece_error option) option" where
  "Finalise_end env ps index hh h = do {
     p \<leftarrow> piece_at ps index;
     let peers = pc_peers p;
     let p1 = p\<lparr>pc_peers := []\<rparr>;
     same \<leftarrow> hash_Equal hh h;
     if \<not> same then do {
       p2 \<leftarrow> setState stateBusy 0 p1;
       r \<leftarrow> del_enter env (put_piece ps index p2) index True;
       (case r of
          Del_returns ps' _ _ \<Rightarrow> Some (ps', False, peers, Some ErrHashMismatch)
        | Del_waits \<Rightarrow> None)
     } else do {
       p2 \<leftarrow> setState stateBusy stateComplete p1;
       Some (put_piece ps index p2, True, peers, None)
     }
   }"

text \<open>\<^verbatim>\<open>Finalise\<close> when nothing else runs while the hash is computed.\<close>

definition Finalise ::
  "sysenv \<Rightarrow> (byte list \<Rightarrow> hash) \<Rightarrow> pieces \<Rightarrow> u32 \<Rightarrow> hash \<Rightarrow> (pieces \<times> bool \<times> u32 list \<times> piece_error option) option" where
  "Finalise env sha1 ps index h = do {
     (ps1, r) \<leftarrow> Finalise_begin ps index;
     (case r of
        Finalise_returns d peers e \<Rightarrow> Some (ps1, d, peers, e)
      | Finalise_hashes d \<Rightarrow> Finalise_end env ps1 index (sha1 d) h)
   }"

subsection \<open>Holes\<close>

definition Hole :: "pieces \<Rightarrow> u32 \<Rightarrow> u32 \<Rightarrow> (u32 \<times> u32) option" where
  "Hole ps index offset = do {
     p \<leftarrow> piece_at ps index;
     if busyOrComplete p then Some (- 1, - 1)
     else do {
       chunks \<leftarrow> pieceChunks ps index;
       (case List.find (\<lambda>i. \<not> bitmap_Get (pc_bitmap p) i) [unat (offset div ChunkSize)..<chunks] of
          None \<Rightarrow> Some (- 1, - 1)
        | Some first \<Rightarrow>
            let count = 1 + length (takeWhile (\<lambda>k. \<not> bitmap_Get (pc_bitmap p) (first + k)) [1..<chunks]);
                o1 = of_nat first * ChunkSize
            in if count = chunks
               then map_option (\<lambda>pl. (o1, pl - of_nat first * ChunkSize)) (PieceLength ps index)
               else Some (o1, of_nat count * ChunkSize))
     }
   }"

subsection \<open>Expiry and deletion of the contents\<close>

text \<open>\<^verbatim>\<open>mono.Time.Sub\<close> and \<^verbatim>\<open>cmp.Compare\<close> on machine integers.\<close>

definition mono_Sub :: "u32 \<Rightarrow> u32 \<Rightarrow> u32" where
  "mono_Sub t1 t2 = (if t1 < t2 then 0 else t1 - t2)"

definition cmp_Compare :: "'a::linorder \<Rightarrow> 'a \<Rightarrow> int" where
  "cmp_Compare a b = (if a < b then - 1 else if a > b then 1 else 0)"

text \<open>The ages of the pieces and the comparison \<^verbatim>\<open>Expire\<close> sorts them with.\<close>

definition piece_ages :: "u32 \<Rightarrow> pieces \<Rightarrow> u32 list" where
  "piece_ages now ps = map (\<lambda>p. mono_Sub now (pc_time p)) (ps_pieces ps)"

definition expire_cmp :: "u32 list \<Rightarrow> u16 list \<Rightarrow> nat \<Rightarrow> nat \<Rightarrow> int" where
  "expire_cmp t available i j =
     (let ai = (if i < length available then available ! i else 0);
          aj = (if j < length available then available ! j else 0)
      in if t ! i \<ge> 7200 \<and> t ! j \<ge> 7200 \<and> ai \<noteq> aj then cmp_Compare aj ai
         else cmp_Compare (t ! j) (t ! i))"

text \<open>
  The loop of \<^verbatim>\<open>Expire\<close> over the sorted pieces: the state, the number of pieces deleted and
  the complete ones among them, for which it calls \<open>f\<close>. A deletion that is not forced
  never waits.
\<close>

fun Expire_loop :: "sysenv \<Rightarrow> pieces \<Rightarrow> int \<Rightarrow> nat list \<Rightarrow> (pieces \<times> nat \<times> u32 list) option" where
  "Expire_loop env ps todo [] = Some (ps, 0, [])"
| "Expire_loop env ps todo (i # is) =
     (if todo \<le> 0 then Some (ps, 0, [])
      else case del_enter env ps (of_nat i) False of
             Some (Del_returns ps' done complete) \<Rightarrow>
               if done then
                 map_option (\<lambda>(ps2, n, fs). (ps2, Suc n, (if complete then [of_nat i] else []) @ fs))
                   (Expire_loop env ps' (todo - uint (ps_pieceSize ps)) is)
               else Expire_loop env ps' todo is
           | _ \<Rightarrow> None)"

text \<open>\<open>perm\<close> is the result of \<^verbatim>\<open>rand.Perm\<close> on the number of pieces.\<close>

definition Expire ::
  "sysenv \<Rightarrow> pieces \<Rightarrow> u32 \<Rightarrow> int \<Rightarrow> u16 list \<Rightarrow> nat list \<Rightarrow> (pieces \<times> nat \<times> u32 list) option" where
  "Expire env ps now bytes available perm =
     Expire_loop env ps (Pieces_Bytes ps - bytes)
       (SortFunc (expire_cmp (piece_ages now ps) available) perm)"

text \<open>
  \<^verbatim>\<open>Del\<close> runs over all the pieces and marks the structure as deleted at the end. It either
  finishes or blocks in \<^verbatim>\<open>del\<close> on a busy piece, with the lock released, and \<open>Del_resume\<close>
  is what it does when that piece is no longer busy.
\<close>

datatype del_run = Del_finished pieces | Del_blocked pieces "nat list"

fun Del_loop :: "sysenv \<Rightarrow> pieces \<Rightarrow> nat list \<Rightarrow> del_run option" where
  "Del_loop env ps [] = Some (Del_finished (ps\<lparr>ps_deleted := True\<rparr>))"
| "Del_loop env ps (i # is) =
     (case del_enter env ps (of_nat i) True of
        None \<Rightarrow> None
      | Some (Del_returns ps' _ _) \<Rightarrow> Del_loop env ps' is
      | Some Del_waits \<Rightarrow> Some (Del_blocked ps (i # is)))"

definition Pieces_Del :: "sysenv \<Rightarrow> pieces \<Rightarrow> del_run option" where
  "Pieces_Del env ps = Del_loop env ps [0..<length (ps_pieces ps)]"

definition Del_resume :: "sysenv \<Rightarrow> pieces \<Rightarrow> nat list \<Rightarrow> del_run option" where
  "Del_resume env ps is =
     (case is of
        [] \<Rightarrow> Del_loop env ps []
      | i # js \<Rightarrow> do { (ps', c) \<leftarrow> del_body env ps (of_nat i); Del_loop env ps' js })"

end
