(* ===== verification/Piece_Data.thy ===== *)
theory Piece_Data
  imports Piece
begin

section \<open>Chunks of a piece and the loop of AddData\<close>

text \<open>
  What the loop of \<^verbatim>\<open>AddData\<close> does to the data and to the bitmap of a piece, chunk by
  chunk. The loop works on words; the lemmas here are about the numbers they stand for,
  under the bounds that keep every sum of the loop below \<open>2 ^ 32\<close>.
\<close>

text \<open>The bytes of chunk \<open>c\<close>.\<close>

definition chunk_bytes :: "byte list \<Rightarrow> nat \<Rightarrow> byte list" where
  "chunk_bytes d c = take 16384 (drop (c * 16384) d)"

lemma copy_at_Some:
  assumes "off + length src \<le> length dst"
  shows "copy_at dst off src = Some (take off dst @ src @ drop (off + length src) dst)"
  using assms by (simp add: copy_at_def)

lemma chunk_bytes_copy:
  assumes len: "length src \<le> 16384" "k * 16384 + length src \<le> length dst"
    and whole: "length src = 16384 \<or> k * 16384 + length src = length dst"
  shows "chunk_bytes (take (k * 16384) dst @ src @ drop (k * 16384 + length src) dst) c
     = (if c = k then src else chunk_bytes dst c)"
proof -
  have tk: "length (take (k * 16384) dst) = k * 16384" using len(2) by simp
  consider "c < k" | "c = k" | "k < c" by linarith
  then show ?thesis
  proof cases
    case 1
    then have "Suc c * 16384 \<le> k * 16384" by (intro mult_le_mono1) simp
    then have c: "c * 16384 + 16384 \<le> k * 16384" by simp
    let ?A = "take (k * 16384) dst"
    have "take 16384 (drop (c * 16384) (?A @ src @ drop (k * 16384 + length src) dst))
        = take 16384 (drop (c * 16384) ?A)"
      using c tk by simp
    also have "\<dots> = take (min 16384 (k * 16384 - c * 16384)) (drop (c * 16384) dst)"
      by (simp only: drop_take take_take)
    also have "min 16384 (k * 16384 - c * 16384) = 16384" using c by simp
    finally show ?thesis using 1 by (simp add: chunk_bytes_def)
  next
    case 2
    then show ?thesis using len tk whole by (auto simp: chunk_bytes_def)
  next
    case 3
    then have "Suc k * 16384 \<le> c * 16384" by (intro mult_le_mono1) simp
    then have c: "k * 16384 + 16384 \<le> c * 16384" by simp
    show ?thesis
    proof (cases "length src = 16384")
      case True
      have "drop (c * 16384) (take (k * 16384) dst @ src @ drop (k * 16384 + length src) dst)
          = drop (c * 16384 - k * 16384 - length src) (drop (k * 16384 + length src) dst)"
        using c True tk by simp
      also have "\<dots> = drop (c * 16384) dst" using c True by (simp add: add.commute)
      finally show ?thesis using 3 by (simp add: chunk_bytes_def)
    next
      case False
      then have dst: "k * 16384 + length src = length dst" using whole by simp
      then have "length dst \<le> c * 16384" using c len(1) by linarith
      then show ?thesis using 3 dst tk len(1) by (simp add: chunk_bytes_def)
    qed
  qed
qed

text \<open>Two pieces of the same length with the same chunks are equal.\<close>

lemma chunk_bytes_eqI:
  assumes "length d = length e" and "\<And>c. c * 16384 < length d \<Longrightarrow> chunk_bytes d c = chunk_bytes e c"
  shows "d = e"
proof (rule nth_equalityI)
  fix i assume i: "i < length d"
  let ?c = "i div 16384"
  have pos: "?c * 16384 + i mod 16384 = i" by simp
  have nth: "chunk_bytes x ?c ! (i mod 16384) = x ! i" if "i < length x" for x
  proof -
    have "chunk_bytes x ?c ! (i mod 16384) = drop (?c * 16384) x ! (i mod 16384)"
      unfolding chunk_bytes_def by (rule nth_take) simp
    also have "\<dots> = x ! (?c * 16384 + i mod 16384)"
      using that by (intro nth_drop) (use pos in linarith)
    finally show ?thesis by (simp only: pos)
  qed
  have "?c * 16384 < length d" using i pos by linarith
  then have "chunk_bytes d ?c = chunk_bytes e ?c" by (rule assms(2))
  then show "d ! i = e ! i" using nth [of d] nth [of e] i assms(1) by metis
qed (rule assms(1))

subsection \<open>The loop\<close>

text \<open>
  How many bytes the loop takes when \<open>avail\<close> bytes are offered and \<open>room\<close> bytes of the
  piece are left: the rest of the piece if it is all there, and whole chunks otherwise.
\<close>

definition taken :: "nat \<Rightarrow> nat \<Rightarrow> nat" where
  "taken room avail = (if room \<le> avail then room else avail div 16384 * 16384)"

lemma taken_le: "taken room avail \<le> avail" "taken room avail \<le> room"
  by (auto simp: taken_def intro: order_trans [OF div_times_less_eq_dividend])

lemma taken_stop: "avail < min 16384 room \<Longrightarrow> taken room avail = 0"
  by (auto simp: taken_def)

lemma taken_step_full:
  assumes "16384 \<le> avail" "16384 \<le> room"
  shows "taken room avail = 16384 + taken (room - 16384) (avail - 16384)"
proof -
  have "avail = (avail - 16384) + 1 * 16384" using assms by simp
  then have "avail div 16384 = (avail - 16384) div 16384 + 1"
    by (metis div_mult_self1 add.commute zero_neq_numeral)
  then show ?thesis using assms by (auto simp: taken_def)
qed

lemma taken_step_last: "room \<le> avail \<Longrightarrow> taken room avail = room"
  by (simp add: taken_def)

text \<open>The effect of the loop: what is taken, which chunks become present, what they hold.\<close>

definition loop_effect :: "byte list \<Rightarrow> add_loop \<Rightarrow> nat \<Rightarrow> add_loop \<Rightarrow> bool" where
  "loop_effect data s r s' \<longleftrightarrow>
     unat (al_count s') = unat (al_count s) + r \<and>
     length (al_data s') = length (al_data s) \<and>
     (\<forall>c. bitmap_Get (al_bitmap s') c \<longleftrightarrow>
        bitmap_Get (al_bitmap s) c \<or> (unat (al_offset s) \<le> c * 16384 \<and> c * 16384 < unat (al_offset s) + r)) \<and>
     (\<forall>c. chunk_bytes (al_data s') c =
        (if \<not> bitmap_Get (al_bitmap s) c \<and> unat (al_offset s) \<le> c * 16384 \<and> c * 16384 < unat (al_offset s) + r
         then chunk_bytes (take r (drop (unat (al_count s)) data)) (c - unat (al_offset s) div 16384)
         else chunk_bytes (al_data s) c))"

text \<open>One iteration: the chunk at the offset is present, and holds the data offered if it was not.\<close>

definition step_effect :: "byte list \<Rightarrow> add_loop \<Rightarrow> nat \<Rightarrow> add_loop \<Rightarrow> bool" where
  "step_effect data s l s' \<longleftrightarrow>
     unat (al_offset s') = unat (al_offset s) + l \<and>
     unat (al_count s') = unat (al_count s) + l \<and>
     length (al_data s') = length (al_data s) \<and>
     (\<forall>c. bitmap_Get (al_bitmap s') c \<longleftrightarrow> bitmap_Get (al_bitmap s) c \<or> c * 16384 = unat (al_offset s)) \<and>
     (\<forall>c. chunk_bytes (al_data s') c =
        (if \<not> bitmap_Get (al_bitmap s) c \<and> c * 16384 = unat (al_offset s)
         then take l (drop (unat (al_count s)) data) else chunk_bytes (al_data s) c))"

lemma chunk_bytes_Suc: "chunk_bytes xs (Suc j) = chunk_bytes (drop 16384 xs) j"
  by (simp add: chunk_bytes_def add.commute)

lemma loop_effect_refl: "loop_effect data s 0 s"
  by (auto simp: loop_effect_def)

text \<open>The chunk offered for \<open>c\<close> after a whole chunk has been taken.\<close>

lemma chunk_bytes_rest:
  assumes "k < c"
  shows "chunk_bytes (take (16384 + r) (drop n data)) (c - k)
     = chunk_bytes (take r (drop (n + 16384) data)) (c - Suc k)"
proof -
  have c: "c - k = Suc (c - Suc k)" using assms by simp
  have "drop 16384 (take (16384 + r) (drop n data)) = take r (drop (n + 16384) data)"
    by (simp add: drop_take add.commute)
  then show ?thesis unfolding c chunk_bytes_Suc by simp
qed

lemma step_then_loop:
  assumes off: "unat (al_offset s) = k * 16384" and l: "0 < l" "l \<le> 16384"
    and whole: "l = 16384 \<or> r = 0"
    and step: "step_effect data s l s1" and loop: "loop_effect data s1 r s2"
  shows "loop_effect data s (l + r) s2"
proof -
  have at: "c * 16384 = k * 16384 \<longleftrightarrow> c = k" for c :: nat by simp
  have range: "(k * 16384 \<le> c * 16384 \<and> c * 16384 < k * 16384 + (l + r))
      \<longleftrightarrow> c = k \<or> (k * 16384 + l \<le> c * 16384 \<and> c * 16384 < k * 16384 + l + r)" for c
  proof -
    consider "c < k" | "c = k" | "k < c" by linarith
    then show ?thesis
    proof cases
      case 3
      then have "Suc k * 16384 \<le> c * 16384" by (intro mult_le_mono1) simp
      then show ?thesis using 3 l by auto
    qed (use l in auto)
  qed
  have bits: "bitmap_Get (al_bitmap s2) c \<longleftrightarrow> bitmap_Get (al_bitmap s) c \<or>
      (k * 16384 \<le> c * 16384 \<and> c * 16384 < k * 16384 + (l + r))" for c
    using step loop unfolding range by (auto simp: step_effect_def loop_effect_def off at)
  have chunks: "chunk_bytes (al_data s2) c =
      (if \<not> bitmap_Get (al_bitmap s) c \<and> k * 16384 \<le> c * 16384 \<and> c * 16384 < k * 16384 + (l + r)
       then chunk_bytes (take (l + r) (drop (unat (al_count s)) data)) (c - k)
       else chunk_bytes (al_data s) c)" for c
  proof (cases "c = k")
    case True
    have "chunk_bytes (take (l + r) (drop n data)) 0 = take l (drop n data)" for n
      using l whole by (auto simp: chunk_bytes_def min_def)
    then show ?thesis using True l step loop
      by (auto simp: step_effect_def loop_effect_def off)
  next
    case False
    show ?thesis
    proof (cases "k * 16384 + l \<le> c * 16384 \<and> c * 16384 < k * 16384 + l + r")
      case True
      then have l16: "l = 16384" using whole by auto
      then have "k < c" using True l by auto
      have "(k * 16384 + 16384) div 16384 = Suc k" by simp
      then show ?thesis
        using step loop True False chunk_bytes_rest [OF \<open>k < c\<close>, of r "unat (al_count s)" data]
        unfolding conj_assoc range
        by (auto simp: step_effect_def loop_effect_def off l16 at)
    next
      case out: False
      then show ?thesis
        using step loop False unfolding range
        by (auto simp: step_effect_def loop_effect_def off at)
    qed
  qed
  have div: "k * 16384 div 16384 = k" by simp
  show ?thesis
    unfolding loop_effect_def off div
  proof (intro conjI allI)
    show "unat (al_count s2) = unat (al_count s) + (l + r)"
      and "length (al_data s2) = length (al_data s)"
      using step loop by (simp_all add: step_effect_def loop_effect_def)
  qed (rule bits chunks)+
qed

lemma unat_chunk_len:
  assumes "unat offset \<le> unat pl"
  shows "unat (chunk_len pl offset) = min 16384 (unat pl - unat offset)"
proof -
  have "unat (pl - offset) = unat pl - unat offset"
    using assms by (rule unat_sub_u32)
  then show ?thesis
    by (auto simp: chunk_len_def unat_less_iff_u32 min_def)
qed

text \<open>The body of the loop, when it neither stops nor breaks before the copy.\<close>

lemma AddData_step:
  assumes k: "unat (al_offset s) = k * 16384" and bound: "unat (al_offset s) \<le> unat pl"
    and len: "length (al_data s) = unat pl" and data: "length data < 2147483648"
    and l: "l = min 16384 (unat pl - unat (al_offset s))" "0 < l"
    and avail: "unat (al_count s) + l \<le> length data"
  obtains s1 where
    "(if bitmap_Get (al_bitmap s) (unat (al_offset s div ChunkSize)) then Some s
      else map_option
             (\<lambda>d. s\<lparr>al_data := d,
                    al_bitmap := bitmap_Set (al_bitmap s) (unat (al_offset s div ChunkSize)),
                    al_added := True\<rparr>)
             (copy_at (al_data s) (unat (al_offset s))
                (take (unat (chunk_len pl (al_offset s))) (drop (unat (al_count s)) data)))) = Some s1"
    and "step_effect data s l
           (s1\<lparr>al_offset := al_offset s + chunk_len pl (al_offset s),
               al_count := al_count s + chunk_len pl (al_offset s)\<rparr>)"
proof -
  let ?c = "unat (al_offset s div ChunkSize)"
  let ?src = "take l (drop (unat (al_count s)) data)"
  have c: "?c = k" by (simp add: unat_div_u32 k)
  have ul: "unat (chunk_len pl (al_offset s)) = l"
    using unat_chunk_len [OF bound] l by simp
  have src: "length ?src = l" using avail by simp
  have bnd: "unat (al_offset s) + l \<le> unat pl" using l bound by simp
  have off: "unat (al_offset s + chunk_len pl (al_offset s)) = unat (al_offset s) + l"
    using le_less_trans [OF bnd unat_u32_bound [of pl]] ul by (subst unat_add_u32) simp_all
  have cnt: "unat (al_count s + chunk_len pl (al_offset s)) = unat (al_count s) + l"
    using ul avail data by (subst unat_add_u32) auto
  have cp: "copy_at (al_data s) (unat (al_offset s)) ?src
      = Some (take (k * 16384) (al_data s) @ ?src @ drop (k * 16384 + length ?src) (al_data s))"
    using bnd src len k by (subst copy_at_Some) auto
  have chunk: "chunk_bytes (take (k * 16384) (al_data s) @ ?src @ drop (k * 16384 + length ?src) (al_data s)) c
      = (if c = k then ?src else chunk_bytes (al_data s) c)" for c
    using src l bnd k len by (intro chunk_bytes_copy) auto
  show thesis
  proof (cases "bitmap_Get (al_bitmap s) k")
    case True
    then show thesis using off cnt c
      by (intro that [of s]) (auto simp: step_effect_def k)
  next
    case False
    let ?d = "take (k * 16384) (al_data s) @ ?src @ drop (k * 16384 + length ?src) (al_data s)"
    have "length ?d = length (al_data s)" using src bnd len k by simp
    then show thesis using False off cnt c cp chunk
      by (intro that [of "s\<lparr>al_data := ?d, al_bitmap := bitmap_Set (al_bitmap s) k, al_added := True\<rparr>"])
        (auto simp: step_effect_def k ul bitset_simps)
  qed
qed

lemma AddData_loop_iterate:
  assumes k: "unat (al_offset s) = k * 16384" and off: "unat (al_offset s) \<le> unat pl"
    and dat: "length (al_data s) = unat pl" and cnt: "unat (al_count s) \<le> length data" and small: "length data < 2147483648"
    and l_def: "l = min 16384 (unat pl - unat (al_offset s))"
  shows "AddData_loop pl data s = Some s \<and> taken (unat pl - unat (al_offset s)) (length data - unat (al_count s)) = 0 \<or>
    0 < l \<and> unat (al_count s) + l \<le> length data \<and>
    (\<exists>s2. step_effect data s l s2 \<and>
       AddData_loop pl data s = (if l mod 16384 \<noteq> 0 then Some s2 else AddData_loop pl data s2))"
proof -
  let ?l = "chunk_len pl (al_offset s)"
  have ul: "unat ?l = l" using unat_chunk_len [OF off] by (simp add: l_def)
  have ud: "unat (of_nat (length data) :: u32) = length data" using small by (simp add: unat_of_nat_u32)
  have uc: "unat (al_count s + ?l) = unat (al_count s) + l"
    using ul cnt small by (subst unat_add_u32) (auto simp: l_def)
  have stop: "?l = 0 \<longleftrightarrow> l = 0" using ul by (metis unat_eq_zero)
  have modl: "?l mod ChunkSize = 0 \<longleftrightarrow> l mod 16384 = 0" by (metis ul unat_ChunkSize unat_eq_zero unat_mod_u32)
  show ?thesis
  proof (cases "unat (al_count s) < length data \<and> 0 < l \<and> unat (al_count s) + l \<le> length data")
    case False
    then have "AddData_loop pl data s = Some s"
      by (subst AddData_loop.simps) (auto simp: unat_less_iff_u32 ud uc stop Let_def)
    moreover have "taken (unat pl - unat (al_offset s)) (length data - unat (al_count s)) = 0"
      using False cnt by (cases "unat pl - unat (al_offset s) = 0") (auto simp: taken_def l_def min_def split: if_splits)
    ultimately show ?thesis by simp
  next
    case True
    from AddData_step [OF k off dat small l_def] True obtain s1
      where s1: "(if bitmap_Get (al_bitmap s) (unat (al_offset s div ChunkSize)) then Some s
        else map_option (\<lambda>d. s\<lparr>al_data := d, al_bitmap := bitmap_Set (al_bitmap s) (unat (al_offset s div ChunkSize)), al_added := True\<rparr>)
             (copy_at (al_data s) (unat (al_offset s)) (take (unat ?l) (drop (unat (al_count s)) data)))) = Some s1"
        and step: "step_effect data s l (s1\<lparr>al_offset := al_offset s + ?l, al_count := al_count s + ?l\<rparr>)" by blast
    have "AddData_loop pl data s = (if ?l mod ChunkSize \<noteq> 0 then Some (s1\<lparr>al_offset := al_offset s + ?l, al_count := al_count s + ?l\<rparr>)
        else AddData_loop pl data (s1\<lparr>al_offset := al_offset s + ?l, al_count := al_count s + ?l\<rparr>))"
      using True by (subst AddData_loop.simps) (simp add: unat_less_iff_u32 ud uc stop Let_def s1)
    then show ?thesis using True step modl by metis
  qed
qed

lemma AddData_loop_effect:
  assumes "16384 dvd unat (al_offset s)" and "unat (al_offset s) \<le> unat pl"
    and "length (al_data s) = unat pl" and "unat (al_count s) \<le> length data"
    and "length data < 2147483648"
  shows "\<exists>s'. AddData_loop pl data s = Some s' \<and>
    loop_effect data s (taken (unat pl - unat (al_offset s)) (length data - unat (al_count s))) s'"
  using assms
proof (induction "unat pl - unat (al_offset s)" arbitrary: s rule: less_induct)
  case (less s)
  let ?room = "unat pl - unat (al_offset s)" and ?avail = "length data - unat (al_count s)"
  define l where "l = min 16384 ?room"
  obtain k where k: "unat (al_offset s) = k * 16384" using less(2) by (auto simp: dvd_def mult.commute)
  consider "AddData_loop pl data s = Some s" "taken ?room ?avail = 0"
    | s2 where "0 < l" "unat (al_count s) + l \<le> length data" "step_effect data s l s2"
      "AddData_loop pl data s = (if l mod 16384 \<noteq> 0 then Some s2 else AddData_loop pl data s2)"
    using AddData_loop_iterate [OF k less(3-6) l_def] by (elim disjE conjE exE) simp_all
  then show ?case
  proof cases
    case 1
    then show ?thesis using loop_effect_refl by auto
  next
    case step: (2 s2)
    show ?thesis
    proof (cases "l = 16384")
      case False
      then have room: "?room = l" and l: "0 < l" "l \<le> 16384" "l mod 16384 \<noteq> 0"
        using step(1) by (auto simp: l_def min_def split: if_splits)
      have "taken ?room ?avail = l + 0" unfolding room using step(1,2) l by (subst taken_step_last) linarith+
      moreover have "loop_effect data s (l + 0) s2"
        by (rule step_then_loop [OF k l(1,2) _ step(3) loop_effect_refl]) simp
      ultimately show ?thesis using step(4) l(3) by simp
    next
      case full: True
      have room: "16384 \<le> ?room" and avail: "16384 \<le> ?avail" using full step(2) less(5) by (auto simp: l_def)
      have s2: "unat (al_offset s2) = unat (al_offset s) + 16384" "unat (al_count s2) = unat (al_count s) + 16384"
        "length (al_data s2) = unat pl"
        using step(3) full less(4) by (simp_all add: step_effect_def)
      have "\<exists>s'. AddData_loop pl data s2 = Some s' \<and> loop_effect data s2
          (taken (unat pl - unat (al_offset s2)) (length data - unat (al_count s2))) s'"
        using step(2) s2 room full less(2,3,5,6) by (intro less(1)) (auto simp only: dvd_add_triv_right_iff)
      then obtain s' where s': "AddData_loop pl data s2 = Some s'" "loop_effect data s2 (taken (?room - 16384) (?avail - 16384)) s'"
        unfolding s2 by auto
      have "loop_effect data s (taken ?room ?avail) s'"
        unfolding taken_step_full [OF avail room] using step_then_loop [OF k _ _ _ step(3) s'(2)] full by simp
      then show ?thesis using step(4) full s'(1) by simp
    qed
  qed
qed

end
