(* ===== verification/Piece_Inv.thy ===== *)
theory Piece_Inv
  imports Piece_Data
begin

section \<open>The invariant of the contents\<close>

text \<open>
  The invariant of \<^verbatim>\<open>piece.Pieces\<close> once the metadata is known: the geometry of the
  torrent, what the data, the bitmap and the state of each piece say about each other, and
  the two counters. All of it is executable, so that it can be evaluated on a state.
\<close>

subsection \<open>Geometry\<close>

definition geometry :: "pieces \<Rightarrow> bool" where
  "geometry ps \<longleftrightarrow>
     ps_pieceSize ps \<noteq> 0 \<and> unat (ps_pieceSize ps) mod 16384 = 0 \<and> 0 \<le> ps_length ps \<and>
     length (ps_pieces ps) < 4294967296 \<and>
     length (ps_pieces ps)
       = (nat (ps_length ps) + unat (ps_pieceSize ps) - 1) div unat (ps_pieceSize ps)"

text \<open>The length of piece \<open>i\<close> and the number of chunks of \<open>l\<close> bytes.\<close>

definition piece_len :: "pieces \<Rightarrow> nat \<Rightarrow> nat" where
  "piece_len ps i = min (unat (ps_pieceSize ps)) (nat (ps_length ps) - i * unat (ps_pieceSize ps))"

definition n_chunks :: "nat \<Rightarrow> nat" where
  "n_chunks l = (l + 16383) div 16384"

lemma n_chunks_less: "c < n_chunks l \<longleftrightarrow> c * 16384 < l"
proof
  assume "c < n_chunks l"
  then have "Suc c * 16384 \<le> n_chunks l * 16384" by (intro mult_le_mono1) simp
  also have "\<dots> \<le> l + 16383" unfolding n_chunks_def by (rule div_times_less_eq_dividend)
  finally show "c * 16384 < l" by simp
next
  assume "c * 16384 < l"
  then have "Suc c * 16384 \<le> l + 16383" by simp
  then have "Suc c * 16384 div 16384 \<le> (l + 16383) div 16384" by (rule div_le_mono)
  then show "c < n_chunks l" by (simp add: n_chunks_def)
qed

lemma geometry_pos: "geometry ps \<Longrightarrow> 0 < unat (ps_pieceSize ps)"
  by (simp add: geometry_def unat_gt_0)

lemma geometry_piece_pos:
  assumes "geometry ps" and "i < length (ps_pieces ps)"
  shows "i * unat (ps_pieceSize ps) < nat (ps_length ps)" and "0 < piece_len ps i"
proof -
  let ?S = "unat (ps_pieceSize ps)"
  have S: "0 < ?S" using assms(1) by (rule geometry_pos)
  have "Suc i \<le> (nat (ps_length ps) + ?S - 1) div ?S"
    using assms by (simp add: geometry_def)
  then have "Suc i * ?S \<le> (nat (ps_length ps) + ?S - 1) div ?S * ?S" by (rule mult_le_mono1)
  also have "\<dots> \<le> nat (ps_length ps) + ?S - 1" by (rule div_times_less_eq_dividend)
  finally show *: "i * ?S < nat (ps_length ps)" using S by simp
  show "0 < piece_len ps i" using * S by (simp add: piece_len_def)
qed

lemma geometry_quotient:
  assumes "geometry ps"
  shows "nat (ps_length ps) div unat (ps_pieceSize ps) < 4294967296"
proof -
  have "nat (ps_length ps) div unat (ps_pieceSize ps) \<le> length (ps_pieces ps)"
    using assms geometry_pos [OF assms] by (auto simp: geometry_def intro!: div_le_mono)
  then show ?thesis using assms by (simp add: geometry_def)
qed

lemma geometry_signed:
  assumes "geometry ps"
  shows "ps_length ps sdiv uint (ps_pieceSize ps) = int (nat (ps_length ps) div unat (ps_pieceSize ps))"
    and "ps_length ps smod uint (ps_pieceSize ps) = int (nat (ps_length ps) mod unat (ps_pieceSize ps))"
  using sdiv_word [OF _ geometry_pos [OF assms]] assms by (simp_all add: geometry_def)

theorem PieceLength_value:
  assumes g: "geometry ps"
  shows "PieceLength ps index = Some (of_nat (piece_len ps (unat index)))"
proof -
  let ?S = "unat (ps_pieceSize ps)" and ?L = "nat (ps_length ps)"
  have S: "0 < ?S" using g by (rule geometry_pos)
  have last: "(word_of_int (ps_length ps sdiv uint (ps_pieceSize ps)) :: u32) = of_nat (?L div ?S)"
    by (simp add: geometry_signed [OF g])
  have ul: "unat (of_nat (?L div ?S) :: u32) = ?L div ?S"
    using geometry_quotient [OF g] by (rule unat_of_nat_u32)
  have L: "?L div ?S * ?S + ?L mod ?S = ?L" by simp
  consider (lt) "unat index < ?L div ?S" | (eq) "unat index = ?L div ?S" | (gt) "?L div ?S < unat index"
    by linarith
  then show ?thesis
  proof cases
    case lt
    then have "Suc (unat index) * ?S \<le> ?L div ?S * ?S" by (intro mult_le_mono1) simp
    then have "Suc (unat index) * ?S \<le> ?L" using L by linarith
    then have "piece_len ps (unat index) = ?S" by (simp add: piece_len_def)
    then show ?thesis using lt g ul
      by (simp add: PieceLength_def last Let_def unat_less_iff_u32 geometry_def)
  next
    case eq
    then have "?L - unat index * ?S = ?L mod ?S"
      by (simp only: minus_div_mult_eq_mod)
    then have "piece_len ps (unat index) = ?L mod ?S"
      using mod_less_divisor [OF S, of ?L] by (simp add: piece_len_def)
    moreover have "index = of_nat (?L div ?S)" using eq ul by (simp add: word_unat_eq_iff)
    ultimately show ?thesis using g
      by (simp add: PieceLength_def last Let_def geometry_signed(2) geometry_def)
  next
    case gt
    then have "Suc (?L div ?S) * ?S \<le> unat index * ?S" by (intro mult_le_mono1) simp
    then have "?L \<le> unat index * ?S"
      using L mod_less_divisor [OF S, of ?L] by (simp only: mult_Suc)
    then have "piece_len ps (unat index) = 0" by (simp add: piece_len_def)
    moreover have "index \<noteq> of_nat (?L div ?S)" "\<not> index < of_nat (?L div ?S)"
      using gt ul by (auto simp: unat_less_iff_u32)
    ultimately show ?thesis using g
      by (simp add: PieceLength_def last Let_def geometry_def)
  qed
qed

lemma piece_len_le: "piece_len ps i \<le> unat (ps_pieceSize ps)"
  by (simp add: piece_len_def)

lemma piece_len_u32: "unat (of_nat (piece_len ps i) :: u32) = piece_len ps i"
  using le_less_trans [OF piece_len_le unat_u32_bound] by (rule unat_of_nat_u32)

lemma pieceChunks_value:
  assumes g: "geometry ps"
  shows "pieceChunks ps index = Some (n_chunks (piece_len ps (unat index)))"
proof -
  let ?l = "piece_len ps (unat index)"
  have "unat (ps_pieceSize ps) mod 16384 = 0" using g by (simp add: geometry_def)
  then obtain k where k: "unat (ps_pieceSize ps) = 16384 * k" by auto
  then have "16384 * k < 16384 * 262144" using unat_u32_bound [of "ps_pieceSize ps"] by linarith
  then have "k \<le> 262143" by linarith
  then have bound: "?l + 16384 \<le> 4294967296" using piece_len_le [of ps "unat index"] k by linarith
  have "unat (of_nat ?l + ChunkSize - 1 :: u32) = ?l + 16383"
  proof -
    have "(of_nat ?l + ChunkSize - 1 :: u32) = of_nat ?l + 16383" by (simp add: ChunkSize_def)
    also have "unat \<dots> = ?l + 16383"
      using bound by (subst unat_add_u32) (simp_all add: piece_len_u32)
    finally show ?thesis .
  qed
  then show ?thesis
    by (simp add: pieceChunks_def PieceLength_value [OF g] n_chunks_def unat_div_u32)
qed

lemma n_chunks_piece: "geometry ps \<Longrightarrow> i < length (ps_pieces ps) \<Longrightarrow> 0 < n_chunks (piece_len ps i)"
  using geometry_piece_pos by (simp add: n_chunks_less)

subsection \<open>Pieces\<close>

text \<open>
  What holds of piece \<open>i\<close>, of length \<open>len\<close>, when its hash should be \<open>h\<close>. A piece with no
  data has no chunks and is in the initial state. The data of a piece has the length of
  the piece, the bitmap marks chunks of it only, a busy or complete piece has all of its
  chunks, and the hash of a complete piece is the right one.
\<close>

definition piece_ok :: "(byte list \<Rightarrow> hash) \<Rightarrow> hash \<Rightarrow> nat \<Rightarrow> piece \<Rightarrow> bool" where
  "piece_ok sha1 h len p \<longleftrightarrow>
     (case pc_data p of
        None \<Rightarrow> pc_state p = 0 \<and> bitmap_Empty (pc_bitmap p)
      | Some d \<Rightarrow>
          length d = len \<and> bitmap_Len (pc_bitmap p) \<le> n_chunks len \<and>
          (pc_state p = 0 \<or> ((pc_state p = 1 \<or> pc_state p = 2) \<and> bitmap_All (pc_bitmap p) (n_chunks len))) \<and>
          (pc_state p = 1 \<longrightarrow> sha1 d = h))"

definition pieces_inv :: "(byte list \<Rightarrow> hash) \<Rightarrow> hash list \<Rightarrow> pieces \<Rightarrow> bool" where
  "pieces_inv sha1 hashes ps \<longleftrightarrow>
     geometry ps \<and> length hashes = length (ps_pieces ps) \<and>
     list_all (\<lambda>i. piece_ok sha1 (hashes ! i) (piece_len ps i) (ps_pieces ps ! i)) [0..<length (ps_pieces ps)]"

text \<open>The counters: pieces with data, and bytes allocated.\<close>

definition has_data :: "piece \<Rightarrow> bool" where
  "has_data p \<longleftrightarrow> pc_data p \<noteq> None"

definition counts_inv :: "pieces \<Rightarrow> bool" where
  "counts_inv ps \<longleftrightarrow>
     ps_count ps = int (length (filter has_data (ps_pieces ps))) \<and>
     ps_allocated ps = sum_list (map (\<lambda>p. int (length (piece_bytes p))) (ps_pieces ps))"

lemma pieces_invI:
  assumes "geometry ps" "length hashes = length (ps_pieces ps)"
    and "\<And>i. i < length (ps_pieces ps) \<Longrightarrow> piece_ok sha1 (hashes ! i) (piece_len ps i) (ps_pieces ps ! i)"
  shows "pieces_inv sha1 hashes ps"
  using assms by (simp add: pieces_inv_def list_all_iff)

lemma pieces_invD:
  assumes "pieces_inv sha1 hashes ps"
  shows "geometry ps" and "length hashes = length (ps_pieces ps)"
    and "i < length (ps_pieces ps) \<Longrightarrow> piece_ok sha1 (hashes ! i) (piece_len ps i) (ps_pieces ps ! i)"
  using assms by (simp_all add: pieces_inv_def list_all_iff)

text \<open>The geometry is immutable: it does not depend on the pieces and the counters.\<close>

lemma geometry_put [simp]:
  "geometry (put_piece ps i p) = geometry ps"
  "geometry (ps\<lparr>ps_count := c\<rparr>) = geometry ps" "geometry (ps\<lparr>ps_allocated := a\<rparr>) = geometry ps"
  "geometry (ps\<lparr>ps_deleted := d\<rparr>) = geometry ps"
  by (simp_all add: geometry_def put_piece_def)

lemma piece_len_put [simp]:
  "piece_len (put_piece ps i p) = piece_len ps"
  "piece_len (ps\<lparr>ps_count := c\<rparr>) = piece_len ps" "piece_len (ps\<lparr>ps_allocated := a\<rparr>) = piece_len ps"
  "piece_len (ps\<lparr>ps_deleted := d\<rparr>) = piece_len ps"
  by (auto simp: piece_len_def put_piece_def)

lemma pieces_inv_fields [simp]:
  "pieces_inv sha1 hashes (ps\<lparr>ps_count := c\<rparr>) = pieces_inv sha1 hashes ps"
  "pieces_inv sha1 hashes (ps\<lparr>ps_allocated := a\<rparr>) = pieces_inv sha1 hashes ps"
  "pieces_inv sha1 hashes (ps\<lparr>ps_deleted := d\<rparr>) = pieces_inv sha1 hashes ps"
  by (simp_all add: pieces_inv_def)

lemma piece_at_Some:
  "piece_at ps i = Some p \<longleftrightarrow> unat i < length (ps_pieces ps) \<and> p = ps_pieces ps ! unat i"
  by (auto simp: piece_at_def)

lemma pieces_inv_put:
  assumes "pieces_inv sha1 hashes ps" and "unat i < length (ps_pieces ps)"
    and "piece_ok sha1 (hashes ! unat i) (piece_len ps (unat i)) p"
  shows "pieces_inv sha1 hashes (put_piece ps i p)"
proof (rule pieces_invI)
  fix j assume "j < length (ps_pieces (put_piece ps i p))"
  then show "piece_ok sha1 (hashes ! j) (piece_len (put_piece ps i p) j) (ps_pieces (put_piece ps i p) ! j)"
    using assms pieces_invD(3) [OF assms(1), of j]
    by (cases "j = unat i") (simp_all add: put_piece_def piece_len_def)
qed (use pieces_invD [OF assms(1)] in \<open>simp_all add: put_piece_def geometry_def\<close>)

text \<open>The counters after a piece is replaced.\<close>

lemma counts_put:
  assumes "counts_inv ps" and i: "unat i < length (ps_pieces ps)"
    and "ps_count ps' = ps_count ps + of_bool (has_data p) - of_bool (has_data (ps_pieces ps ! unat i))"
    and "ps_allocated ps' = ps_allocated ps + int (length (piece_bytes p))
           - int (length (piece_bytes (ps_pieces ps ! unat i)))"
    and "ps_pieces ps' = (ps_pieces ps)[unat i := p]"
  shows "counts_inv ps'"
proof -
  define xs ys where "xs = take (unat i) (ps_pieces ps)" and "ys = drop (Suc (unat i)) (ps_pieces ps)"
  have split: "ps_pieces ps = xs @ ps_pieces ps ! unat i # ys"
    unfolding xs_def ys_def using i by (rule id_take_nth_drop)
  have new: "ps_pieces ps' = xs @ p # ys"
    unfolding assms(5) xs_def ys_def using i by (simp add: upd_conv_take_nth_drop)
  have "ps_count ps = int (length (filter has_data (xs @ ps_pieces ps ! unat i # ys)))"
    "ps_allocated ps = sum_list (map (\<lambda>p. int (length (piece_bytes p))) (xs @ ps_pieces ps ! unat i # ys))"
    using assms(1) split by (simp_all add: counts_inv_def)
  then show ?thesis
    using assms(3,4) new by (simp add: counts_inv_def)
qed

end
