(* ===== verification/Piece_Ops.thy ===== *)
theory Piece_Ops
  imports Piece_Inv
begin

section \<open>The operations on the contents keep the invariant and do not panic\<close>

text \<open>
  For every operation of \<^verbatim>\<open>piece.Pieces\<close>: it keeps \<open>pieces_inv\<close> and \<open>counts_inv\<close>, and
  under the invariant it does not panic. For \<^verbatim>\<open>AddData\<close> also the whole of its functional
  behaviour, and for the queries what they answer.
\<close>

subsection \<open>AddData\<close>

text \<open>The chunks covered by \<open>r\<close> bytes from the offset \<open>off\<close>.\<close>

definition covered :: "nat \<Rightarrow> nat \<Rightarrow> nat \<Rightarrow> bool" where
  "covered off r c \<longleftrightarrow> off \<le> c * 16384 \<and> c * 16384 < off + r"

text \<open>The bytes of the data of a piece before data is added: zeroes when there was none.\<close>

definition data_or_zero :: "nat \<Rightarrow> piece \<Rightarrow> byte list" where
  "data_or_zero len p = (case pc_data p of None \<Rightarrow> replicate len 0 | Some d \<Rightarrow> d)"

text \<open>
  What it means that \<open>r\<close> bytes of \<open>data\<close> have been added at \<open>off\<close> to a piece of \<open>len\<close>
  bytes: the chunks they cover are now present; one that was absent holds the bytes
  offered for it, and every other chunk is what it was.
\<close>

definition added_piece :: "nat \<Rightarrow> nat \<Rightarrow> nat \<Rightarrow> byte list \<Rightarrow> piece \<Rightarrow> piece \<Rightarrow> bool" where
  "added_piece len off r data p p' \<longleftrightarrow>
     pc_state p' = pc_state p \<and> pc_time p' = pc_time p \<and>
     (\<exists>d'. pc_data p' = Some d' \<and> length d' = len \<and>
        (\<forall>c. chunk_bytes d' c =
           (if covered off r c \<and> \<not> bitmap_Get (pc_bitmap p) c
            then chunk_bytes (take r data) (c - off div 16384)
            else chunk_bytes (data_or_zero len p) c))) \<and>
     (\<forall>c. bitmap_Get (pc_bitmap p') c \<longleftrightarrow> bitmap_Get (pc_bitmap p) c \<or> covered off r c)"

lemma addPeer_fields [simp]:
  "pc_data (addPeer peer p) = pc_data p" "pc_bitmap (addPeer peer p) = pc_bitmap p"
  "pc_state (addPeer peer p) = pc_state p" "pc_time (addPeer peer p) = pc_time p"
  by (simp_all add: addPeer_def)

lemma set_addPeer: "set (pc_peers (addPeer peer p)) = set (pc_peers p) \<union> ({peer} - {0})"
  by (auto simp: addPeer_def)

text \<open>The errors and early returns of \<^verbatim>\<open>AddData\<close>: nothing changes.\<close>

definition AddData_refuses :: "sysenv \<Rightarrow> pieces \<Rightarrow> u32 \<Rightarrow> u32 \<Rightarrow> piece_error option option" where
  "AddData_refuses env ps index begin =
     (let p = ps_pieces ps ! unat index; len = piece_len ps (unat index)
      in if busyOrComplete p then Some None
         else if ps_deleted ps then Some (Some ErrDeleted)
         else if unat begin mod 16384 \<noteq> 0 then Some (Some ErrOddOffset)
         else if len \<le> unat begin then Some (Some ErrBeyondEnd)
         else if pc_data p = None \<and> alloc_cutoff \<le> len \<and> \<not> mmap_ok env then Some (Some ErrAlloc)
         else None)"

lemma AddData_refused:
  assumes g: "geometry ps" and i: "unat index < length (ps_pieces ps)"
    and r: "AddData_refuses env ps index begin = Some e"
  shows "AddData env ps index begin data peer = Some (ps, 0, False, e)"
proof -
  have "begin mod ChunkSize \<noteq> 0 \<longleftrightarrow> unat begin mod 16384 \<noteq> 0"
    by (metis unat_ChunkSize unat_eq_zero unat_mod_u32)
  moreover have "of_nat (piece_len ps (unat index)) \<le> begin \<longleftrightarrow> piece_len ps (unat index) \<le> unat begin"
    by (simp add: unat_le_iff_u32 piece_len_u32)
  ultimately show ?thesis
    using r i unfolding AddData_refuses_def AddData_def Let_def
    by (auto simp: piece_at_def PieceLength_value [OF g] alloc_Alloc_def piece_len_u32 split: if_splits)
qed

theorem AddData_accepts:
  assumes inv: "pieces_inv sha1 hashes ps" and i: "unat index < length (ps_pieces ps)"
    and r: "AddData_refuses env ps index begin = None" and data: "length data < 2147483648"
  defines "len \<equiv> piece_len ps (unat index)" and "p \<equiv> ps_pieces ps ! unat index"
  defines "n \<equiv> taken (len - unat begin) (length data)"
  obtains p' where
    "AddData env ps index begin data peer =
       Some (put_piece
               (if has_data p then ps
                else ps\<lparr>ps_allocated := ps_allocated ps + int len, ps_count := ps_count ps + 1\<rparr>) index p',
             of_nat n, bitmap_All (pc_bitmap p') (n_chunks len), None)"
    and "added_piece len (unat begin) n data p p'"
    and "set (pc_peers p') \<subseteq> set (pc_peers p) \<union> ({peer} - {0, - 1})"
proof -
  have g: "geometry ps" using inv by (rule pieces_invD)
  have ok: "piece_ok sha1 (hashes ! unat index) len p"
    unfolding len_def p_def using inv i by (rule pieces_invD)
  have conds: "begin mod ChunkSize \<noteq> 0 \<longleftrightarrow> unat begin mod 16384 \<noteq> 0"
    "of_nat len \<le> begin \<longleftrightarrow> len \<le> unat begin"
    by (metis unat_ChunkSize unat_eq_zero unat_mod_u32)
      (simp add: unat_le_iff_u32 piece_len_u32 len_def)
  note [simp] = piece_len_u32 [of ps "unat index", folded len_def]
  have nr: "\<not> busyOrComplete p" "\<not> ps_deleted ps" "unat begin mod 16384 = 0" "unat begin < len"
    "has_data p \<or> len < alloc_cutoff \<or> mmap_ok env"
    using r by (auto simp: AddData_refuses_def Let_def p_def len_def has_data_def split: if_splits)
  define d where "d = data_or_zero len p"
  have ld: "length d = len"
    using ok by (auto simp: d_def data_or_zero_def piece_ok_def split: option.splits)
  let ?s = "\<lparr>al_count = 0, al_offset = begin, al_data = d, al_bitmap = pc_bitmap p, al_added = False\<rparr>"
  obtain s' where s': "AddData_loop (of_nat len) data ?s = Some s'" "loop_effect data ?s n s'"
    using AddData_loop_effect [of ?s "of_nat len" data] nr(3,4) ld data
    by (auto simp: n_def dvd_eq_mod_eq_0)
  define p1 where "p1 = p\<lparr>pc_data := Some (al_data s'), pc_bitmap := al_bitmap s'\<rparr>"
  define p' where "p' = (if al_added s' \<and> peer \<noteq> - 1 then addPeer peer p1 else p1)"
  have cnt: "al_count s' = of_nat n"
  proof -
    have "unat (al_count s') = n" using s'(2) by (simp add: loop_effect_def)
    then show ?thesis by auto
  qed
  have alloc: "(case pc_data p of
                  Some d \<Rightarrow> Some (d, ps)
                | None \<Rightarrow>
                    map_option
                      (\<lambda>(d, a). (d, ps\<lparr>ps_allocated := a, ps_count := ps_count ps + 1\<rparr>))
                      (alloc_Alloc env (unat (of_nat len :: u32)) (ps_allocated ps)))
      = Some (d, if has_data p then ps
                else ps\<lparr>ps_allocated := ps_allocated ps + int len, ps_count := ps_count ps + 1\<rparr>)"
    using nr(5) by (auto simp: d_def data_or_zero_def has_data_def alloc_Alloc_def split: option.splits)
  show thesis
  proof (rule that [of p'])
    show "added_piece len (unat begin) n data p p'"
      using s'(2) by (auto simp: added_piece_def loop_effect_def p'_def p1_def covered_def d_def ld [unfolded d_def])
    show "set (pc_peers p') \<subseteq> set (pc_peers p) \<union> ({peer} - {0, - 1})"
      using set_addPeer [of peer p1] by (auto simp: p'_def p1_def)
    have bm: "al_bitmap s' = pc_bitmap p'" by (simp add: p'_def p1_def)
    show "AddData env ps index begin data peer =
       Some (put_piece
               (if has_data p then ps
                else ps\<lparr>ps_allocated := ps_allocated ps + int len, ps_count := ps_count ps + 1\<rparr>) index p',
             of_nat n, bitmap_All (pc_bitmap p') (n_chunks len), None)"
      unfolding AddData_def
      using nr conds i s'(1)
      by (simp add: piece_at_def PieceLength_value [OF g] pieceChunks_value [OF g]
          flip: p_def len_def)
        (simp add: alloc cnt Let_def bm [symmetric] p'_def p1_def pieceChunks_value [OF g]
          flip: len_def)
  qed
qed

text \<open>A piece to which data has been added is still in order.\<close>

lemma added_piece_ok:
  assumes ok: "piece_ok sha1 h len p" and st: "pc_state p = 0"
    and add: "added_piece len off r data p p'" and r: "off + r \<le> len"
  shows "piece_ok sha1 h len p'"
proof -
  have "bitmap_Get (pc_bitmap p) c \<Longrightarrow> c < n_chunks len" for c
    using ok by (auto simp: piece_ok_def bitset_simps bitmap_Len_le_iff split: option.splits)
  moreover have "covered off r c \<Longrightarrow> c < n_chunks len" for c
    using r by (auto simp: covered_def n_chunks_less)
  ultimately have "bitmap_Len (pc_bitmap p') \<le> n_chunks len"
    using add by (auto simp: bitmap_Len_le_iff added_piece_def)
  then show ?thesis using add st by (auto simp: added_piece_def piece_ok_def)
qed

lemma added_piece_data: "added_piece len off r data p p' \<Longrightarrow> has_data p' \<and> length (piece_bytes p') = len"
  by (auto simp: added_piece_def has_data_def piece_bytes_def)

lemma AddData_inv:
  assumes inv: "pieces_inv sha1 hashes ps" and cnt: "counts_inv ps"
    and i: "unat index < length (ps_pieces ps)" and data: "length data < 2147483648"
  shows "\<exists>ps' n c e. AddData env ps index begin data peer = Some (ps', n, c, e) \<and>
    pieces_inv sha1 hashes ps' \<and> counts_inv ps' \<and>
    (\<exists>p'. ps_pieces ps' = (ps_pieces ps)[unat index := p'] \<and>
       (busyOrComplete (ps_pieces ps ! unat index) \<longrightarrow> p' = ps_pieces ps ! unat index) \<and>
       pc_state p' = pc_state (ps_pieces ps ! unat index))"
proof (cases "AddData_refuses env ps index begin")
  case None
  let ?p = "ps_pieces ps ! unat index" and ?len = "piece_len ps (unat index)"
  let ?n = "taken (?len - unat begin) (length data)"
  let ?ps1 = "if has_data ?p then ps
      else ps\<lparr>ps_allocated := ps_allocated ps + int ?len, ps_count := ps_count ps + 1\<rparr>"
  obtain p' where res: "AddData env ps index begin data peer =
       Some (put_piece ?ps1 index p', of_nat ?n, bitmap_All (pc_bitmap p') (n_chunks ?len), None)"
    and add: "added_piece ?len (unat begin) ?n data ?p p'"
    using AddData_accepts [OF inv i None data] by metis
  have ok: "piece_ok sha1 (hashes ! unat index) ?len ?p" using inv i by (rule pieces_invD)
  have nr: "\<not> busyOrComplete ?p" "unat begin < ?len"
    using None by (auto simp: AddData_refuses_def Let_def split: if_splits)
  then have st: "pc_state ?p = 0" by (simp add: busyOrComplete_def)
  have "piece_ok sha1 (hashes ! unat index) ?len p'"
    using taken_le(2) [of "?len - unat begin" "length data"] nr(2)
    by (intro added_piece_ok [OF ok st add]) linarith
  then have "pieces_inv sha1 hashes (put_piece ?ps1 index p')"
    using inv i by (intro pieces_inv_put) simp_all
  moreover have "counts_inv (put_piece ?ps1 index p')"
  proof (rule counts_put [OF cnt i])
    have "has_data ?p \<Longrightarrow> length (piece_bytes ?p) = ?len" and "\<not> has_data ?p \<Longrightarrow> piece_bytes ?p = []"
      using ok by (auto simp: piece_ok_def has_data_def piece_bytes_def split: option.splits)
    then show "ps_allocated (put_piece ?ps1 index p') = ps_allocated ps + int (length (piece_bytes p'))
           - int (length (piece_bytes ?p))"
      using added_piece_data [OF add] by (auto simp: put_piece_def)
  qed (use added_piece_data [OF add] in \<open>auto simp: put_piece_def\<close>)
  moreover have "ps_pieces (put_piece ?ps1 index p') = (ps_pieces ps)[unat index := p']"
    by (simp add: put_piece_def)
  ultimately show ?thesis using res nr(1) add unfolding added_piece_def by blast
next
  case (Some e)
  then show ?thesis
    using AddData_refused [OF pieces_invD(1) [OF inv] i Some] inv cnt
    by (auto intro!: exI [of _ "ps_pieces ps ! unat index"])
qed

subsection \<open>UpdateTime\<close>

lemma UpdateTime_inv:
  assumes "pieces_inv sha1 hashes ps" and "counts_inv ps" and "unat i < length (ps_pieces ps)"
  defines "p \<equiv> ps_pieces ps ! unat i"
  shows "\<exists>ps'. UpdateTime now ps i = Some (ps', piece_complete p) \<and>
    pieces_inv sha1 hashes ps' \<and> counts_inv ps' \<and>
    ps_pieces ps' = (ps_pieces ps)[unat i := p\<lparr>pc_time := max (pc_time p) now\<rparr>]"
proof -
  have p: "(if pc_time p < now then p\<lparr>pc_time := now\<rparr> else p) = p\<lparr>pc_time := max (pc_time p) now\<rparr>"
    by (auto simp: max_def)
  have "piece_ok sha1 (hashes ! unat i) (piece_len ps (unat i)) (p\<lparr>pc_time := max (pc_time p) now\<rparr>)"
    using pieces_invD(3) [OF assms(1,3)] by (simp add: p_def piece_ok_def split: option.splits)
  then have "pieces_inv sha1 hashes (put_piece ps i (p\<lparr>pc_time := max (pc_time p) now\<rparr>))"
    by (rule pieces_inv_put [OF assms(1,3)])
  moreover have "counts_inv (put_piece ps i (p\<lparr>pc_time := max (pc_time p) now\<rparr>))"
    by (rule counts_put [OF assms(2,3)]) (simp_all add: put_piece_def has_data_def piece_bytes_def p_def)
  ultimately show ?thesis
    using assms(3) unfolding UpdateTime_def piece_at_def Let_def
    by (simp add: p piece_complete_def flip: p_def) (simp add: put_piece_def)
qed

subsection \<open>Deletion\<close>

text \<open>A deleted piece keeps its access time only.\<close>

definition cleared :: "piece \<Rightarrow> piece" where
  "cleared p = empty_piece\<lparr>pc_time := pc_time p\<rparr>"

lemma cleared_ok [simp]: "piece_ok sha1 h len (cleared p)"
  by (simp add: piece_ok_def cleared_def empty_piece_def bitset_simps)

lemma cleared_fields [simp]:
  "\<not> has_data (cleared p)" "piece_bytes (cleared p) = []" "pc_state (cleared p) = 0" "pc_data (cleared p) = None"
  by (simp_all add: cleared_def empty_piece_def has_data_def piece_bytes_def)

lemma count_pos:
  assumes "counts_inv ps" "i < length (ps_pieces ps)" "has_data (ps_pieces ps ! i)"
  shows "1 \<le> ps_count ps"
proof -
  have "ps_pieces ps ! i \<in> set (filter has_data (ps_pieces ps))" using assms by simp
  then have "0 < length (filter has_data (ps_pieces ps))" by (rule length_pos_if_in_set)
  then show ?thesis using assms(1) unfolding counts_inv_def by linarith
qed

lemma piece_ok_state: "piece_ok sha1 h len p \<Longrightarrow> \<not> piece_complete p \<Longrightarrow> \<not> piece_busy p \<Longrightarrow> pc_state p = 0"
  by (auto simp: piece_ok_def piece_complete_def piece_busy_def stateComplete_def stateBusy_def split: option.splits)

text \<open>
  \<open>del_body\<close> on a piece that is not busy: the piece is cleared and the counters follow. This
  is also true of a piece that has no data, except for the counter, which goes down anyway.
\<close>

lemma del_body_value:
  assumes inv: "pieces_inv sha1 hashes ps" and i: "unat i < length (ps_pieces ps)"
    and nb: "\<not> piece_busy (ps_pieces ps ! unat i)" and env: "munmap_ok env"
  defines "p \<equiv> ps_pieces ps ! unat i"
  shows "del_body env ps i =
    (if ps_count ps - 1 < 0 then None
     else Some ((put_piece ps i (cleared p))\<lparr>ps_allocated := ps_allocated ps - int (length (piece_bytes p)),
                  ps_count := ps_count ps - 1\<rparr>, piece_complete p))"
proof -
  have ok: "piece_ok sha1 (hashes ! unat i) (piece_len ps (unat i)) p"
    unfolding p_def using inv i by (rule pieces_invD)
  have st: "\<not> piece_complete p \<Longrightarrow> pc_state p = 0"
    using piece_ok_state [OF ok] nb by (simp add: p_def)
  have clr: "(if piece_complete p then setState stateComplete 0 (p\<lparr>pc_data := None, pc_peers := [], pc_bitmap := []\<rparr>)
      else Some (p\<lparr>pc_data := None, pc_peers := [], pc_bitmap := []\<rparr>)) = Some (cleared p)"
    using st by (auto simp: setState_def piece_complete_def cleared_def empty_piece_def)
  show ?thesis
    using i env clr unfolding del_body_def piece_at_def Let_def
    by (simp add: alloc_Free_def put_piece_def flip: p_def)
qed

lemma del_body_inv:
  assumes inv: "pieces_inv sha1 hashes ps" and i: "unat i < length (ps_pieces ps)"
    and nb: "\<not> piece_busy (ps_pieces ps ! unat i)" and env: "munmap_ok env"
    and res: "del_body env ps i = Some (ps', c)"
  shows "pieces_inv sha1 hashes ps'" and "ps_pieces ps' = (ps_pieces ps)[unat i := cleared (ps_pieces ps ! unat i)]"
proof -
  have "pieces_inv sha1 hashes (put_piece ps i (cleared (ps_pieces ps ! unat i)))"
    by (rule pieces_inv_put [OF inv i]) simp
  then show "pieces_inv sha1 hashes ps'" "ps_pieces ps' = (ps_pieces ps)[unat i := cleared (ps_pieces ps ! unat i)]"
    using res unfolding del_body_value [OF inv i nb env]
    by (auto simp: put_piece_def split: if_splits)
qed

lemma del_body_counts:
  assumes inv: "pieces_inv sha1 hashes ps" and cnt: "counts_inv ps" and i: "unat i < length (ps_pieces ps)"
    and nb: "\<not> piece_busy (ps_pieces ps ! unat i)" and env: "munmap_ok env"
    and d: "has_data (ps_pieces ps ! unat i)"
  shows "\<exists>ps'. del_body env ps i = Some (ps', piece_complete (ps_pieces ps ! unat i)) \<and>
    counts_inv ps' \<and> ps_count ps' = ps_count ps - 1"
proof -
  let ?ps = "(put_piece ps i (cleared (ps_pieces ps ! unat i)))
      \<lparr>ps_allocated := ps_allocated ps - int (length (piece_bytes (ps_pieces ps ! unat i))),
       ps_count := ps_count ps - 1\<rparr>"
  have "counts_inv ?ps"
    by (rule counts_put [OF cnt i, of _ "cleared (ps_pieces ps ! unat i)"]) (simp_all add: put_piece_def d)
  then show ?thesis
    using del_body_value [OF inv i nb env] count_pos [OF cnt i d] by simp
qed

text \<open>\<^verbatim>\<open>del\<close> on a piece that is not busy, or that is not forced: it never panics.\<close>

definition del_outcome :: "pieces \<Rightarrow> u32 \<Rightarrow> bool" where
  "del_outcome ps i \<longleftrightarrow> has_data (ps_pieces ps ! unat i) \<and> \<not> piece_busy (ps_pieces ps ! unat i)"

lemma del_enter_inv:
  assumes inv: "pieces_inv sha1 hashes ps" and cnt: "counts_inv ps" and i: "unat i < length (ps_pieces ps)"
    and nb: "force \<Longrightarrow> \<not> piece_busy (ps_pieces ps ! unat i)" and env: "munmap_ok env"
  shows "\<exists>ps'. del_enter env ps i force =
      Some (Del_returns ps' (del_outcome ps i) (del_outcome ps i \<and> piece_complete (ps_pieces ps ! unat i))) \<and>
    pieces_inv sha1 hashes ps' \<and> counts_inv ps' \<and>
    ps_count ps' = ps_count ps - of_bool (del_outcome ps i) \<and> ps_pieceSize ps' = ps_pieceSize ps \<and>
    ps_pieces ps' =
      (if del_outcome ps i then (ps_pieces ps)[unat i := cleared (ps_pieces ps ! unat i)] else ps_pieces ps)"
proof (cases "del_outcome ps i")
  case True
  then have d: "has_data (ps_pieces ps ! unat i)" and nbusy: "\<not> piece_busy (ps_pieces ps ! unat i)"
    by (simp_all add: del_outcome_def)
  obtain ps' where ps': "del_body env ps i = Some (ps', piece_complete (ps_pieces ps ! unat i))"
    "counts_inv ps'" "ps_count ps' = ps_count ps - 1"
    using del_body_counts [OF inv cnt i nbusy env d] by blast
  moreover have "ps_pieceSize ps' = ps_pieceSize ps"
    using ps'(1) unfolding del_body_value [OF inv i nbusy env] by (auto simp: put_piece_def split: if_splits)
  ultimately show ?thesis
    using True d nbusy i del_body_inv [OF inv i nbusy env ps'(1)]
    by (auto simp: del_enter_def piece_at_def has_data_def)
next
  case False
  then show ?thesis using i nb inv cnt
    by (auto simp: del_enter_def piece_at_def has_data_def del_outcome_def)
qed

subsection \<open>Finalise\<close>

lemma bitmap_Count_full:
  assumes "bitmap_Len b \<le> n"
  shows "bitmap_Count b = n \<longleftrightarrow> bitmap_All b n"
proof -
  have sub: "{i. bitmap_Get b i} \<subseteq> {..<n}"
    using assms by (auto simp: bitmap_Len_le_iff)
  have "bitmap_Count b = n \<longleftrightarrow> {i. bitmap_Get b i} = {..<n}"
    unfolding bitmap_Count_card using card_subset_eq [OF finite_lessThan sub] by (metis card_lessThan)
  also have "\<dots> \<longleftrightarrow> bitmap_All b n"
    using bitmap_All_exact [of b n] assms by (auto simp: bitmap_Len_le_iff)
  finally show ?thesis .
qed

lemma piece_busy_iff: "piece_ok sha1 h len p \<Longrightarrow> has_data p \<Longrightarrow> bitmap_All (pc_bitmap p) (n_chunks len) \<Longrightarrow>
    piece_ok sha1 h len (p\<lparr>pc_state := 2\<rparr>)"
  by (auto simp: piece_ok_def has_data_def)

text \<open>Whether \<^verbatim>\<open>Finalise\<close> goes on to compute the hash.\<close>

definition ready :: "pieces \<Rightarrow> u32 \<Rightarrow> bool" where
  "ready ps i \<longleftrightarrow> \<not> busyOrComplete (ps_pieces ps ! unat i) \<and> \<not> ps_deleted ps \<and>
     bitmap_All (pc_bitmap (ps_pieces ps ! unat i)) (n_chunks (piece_len ps (unat i)))"

lemma Finalise_begin_value:
  assumes inv: "pieces_inv sha1 hashes ps" and i: "unat i < length (ps_pieces ps)"
  defines "p \<equiv> ps_pieces ps ! unat i"
  shows "Finalise_begin ps i =
    (if ready ps i then Some (put_piece ps i (p\<lparr>pc_state := 2\<rparr>), Finalise_hashes (piece_bytes p))
     else Some (ps, Finalise_returns False []
                      (if \<not> busyOrComplete p \<and> ps_deleted ps then Some ErrDeleted else None)))"
    and "ready ps i \<Longrightarrow> pc_data p = Some (piece_bytes p) \<and> pc_state p = 0"
proof -
  have g: "geometry ps" using inv by (rule pieces_invD)
  let ?n = "n_chunks (piece_len ps (unat i))"
  have ok: "piece_ok sha1 (hashes ! unat i) (piece_len ps (unat i)) p"
    unfolding p_def using inv i by (rule pieces_invD)
  then have "bitmap_Len (pc_bitmap p) \<le> ?n"
    by (auto simp: piece_ok_def bitset_simps bitmap_Len_le_iff split: option.splits)
  note full = bitmap_Count_full [OF this]
  show "Finalise_begin ps i =
    (if ready ps i then Some (put_piece ps i (p\<lparr>pc_state := 2\<rparr>), Finalise_hashes (piece_bytes p))
     else Some (ps, Finalise_returns False []
                      (if \<not> busyOrComplete p \<and> ps_deleted ps then Some ErrDeleted else None)))"
    unfolding Finalise_begin_def ready_def
    using i full
    by (auto simp: piece_at_def pieceChunks_value [OF g] setState_def busyOrComplete_def stateBusy_def
        simp flip: p_def)
  show "pc_data p = Some (piece_bytes p) \<and> pc_state p = 0" if "ready ps i"
  proof (cases "pc_data p")
    case None
    then have "bitmap_Count (pc_bitmap p) = 0"
      using ok by (simp add: piece_ok_def bitset_simps bitmap_Count_card)
    then show ?thesis using that full n_chunks_piece [OF g i] by (simp add: ready_def p_def)
  qed (use that in \<open>auto simp: ready_def busyOrComplete_def p_def piece_bytes_def\<close>)
qed

lemma Finalise_begin_inv:
  assumes inv: "pieces_inv sha1 hashes ps" and i: "unat i < length (ps_pieces ps)"
    and "ready ps i"
  shows "pieces_inv sha1 hashes (put_piece ps i ((ps_pieces ps ! unat i)\<lparr>pc_state := 2\<rparr>))"
    and "counts_inv ps \<Longrightarrow> counts_inv (put_piece ps i ((ps_pieces ps ! unat i)\<lparr>pc_state := 2\<rparr>))"
proof -
  have "has_data (ps_pieces ps ! unat i)"
    using Finalise_begin_value(2) [OF inv i assms(3)] by (simp add: has_data_def)
  then have "piece_ok sha1 (hashes ! unat i) (piece_len ps (unat i)) ((ps_pieces ps ! unat i)\<lparr>pc_state := 2\<rparr>)"
    using piece_busy_iff [OF pieces_invD(3) [OF inv i]] assms(3) by (simp add: ready_def)
  then show "pieces_inv sha1 hashes (put_piece ps i ((ps_pieces ps ! unat i)\<lparr>pc_state := 2\<rparr>))"
    by (rule pieces_inv_put [OF inv i])
  show "counts_inv (put_piece ps i ((ps_pieces ps ! unat i)\<lparr>pc_state := 2\<rparr>))" if "counts_inv ps"
    by (rule counts_put [OF that i]) (simp_all add: put_piece_def has_data_def piece_bytes_def)
qed

lemma Finalise_ready:
  assumes inv: "pieces_inv sha1 hashes ps" and cnt: "counts_inv ps" and i: "unat i < length (ps_pieces ps)"
    and "ready ps i"
  defines "p \<equiv> ps_pieces ps ! unat i"
  obtains ps1 where "pieces_inv sha1 hashes ps1" "counts_inv ps1" "unat i < length (ps_pieces ps1)"
    "piece_busy (ps_pieces ps1 ! unat i)" "pc_data (ps_pieces ps1 ! unat i) = Some (piece_bytes p)"
    "ps_pieces ps1 = (ps_pieces ps)[unat i := p\<lparr>pc_state := 2\<rparr>]"
    "\<And>env h. Finalise env sha1 ps i h = Finalise_end env ps1 i (sha1 (piece_bytes p)) h"
proof (rule that [of "put_piece ps i (p\<lparr>pc_state := 2\<rparr>)"])
  show "Finalise env sha1 ps i h =
      Finalise_end env (put_piece ps i (p\<lparr>pc_state := 2\<rparr>)) i (sha1 (piece_bytes p)) h" for env h
    using Finalise_begin_value(1) [OF inv i] assms(4) by (simp add: Finalise_def p_def)
qed (use Finalise_begin_inv [OF inv i assms(4)] Finalise_begin_value(2) [OF inv i assms(4)] cnt i
    in \<open>simp_all add: p_def put_piece_def piece_busy_def stateBusy_def\<close>)

text \<open>The end of \<^verbatim>\<open>Finalise\<close> on a busy piece with the data \<open>d\<close>.\<close>

lemma Finalise_end_match:
  assumes inv: "pieces_inv sha1 hashes ps" and i: "unat i < length (ps_pieces ps)"
    and b: "piece_busy (ps_pieces ps ! unat i)" and d: "pc_data (ps_pieces ps ! unat i) = Some d"
    and h: "length (hashes ! unat i) = 20" and eq: "sha1 d = hashes ! unat i"
  defines "p' \<equiv> (ps_pieces ps ! unat i)\<lparr>pc_peers := [], pc_state := 1\<rparr>"
  shows "Finalise_end env ps i (sha1 d) (hashes ! unat i) =
      Some (put_piece ps i p', True, pc_peers (ps_pieces ps ! unat i), None)"
    and "pieces_inv sha1 hashes (put_piece ps i p')"
    and "counts_inv ps \<Longrightarrow> counts_inv (put_piece ps i p')"
proof -
  have st: "pc_state (ps_pieces ps ! unat i) = 2" using b by (simp add: piece_busy_def stateBusy_def)
  show "Finalise_end env ps i (sha1 d) (hashes ! unat i) =
      Some (put_piece ps i p', True, pc_peers (ps_pieces ps ! unat i), None)"
    using i st eq h by (simp add: Finalise_end_def piece_at_def hash_Equal_Some setState_def
        stateBusy_def stateComplete_def p'_def)
  have "piece_ok sha1 (hashes ! unat i) (piece_len ps (unat i)) p'"
    using pieces_invD(3) [OF inv i] st d eq by (simp add: piece_ok_def p'_def)
  then show "pieces_inv sha1 hashes (put_piece ps i p')" by (rule pieces_inv_put [OF inv i])
  show "counts_inv (put_piece ps i p')" if "counts_inv ps"
    by (rule counts_put [OF that i]) (simp_all add: put_piece_def p'_def has_data_def piece_bytes_def)
qed

lemma Finalise_end_mismatch:
  assumes inv: "pieces_inv sha1 hashes ps" and i: "unat i < length (ps_pieces ps)"
    and b: "piece_busy (ps_pieces ps ! unat i)" and d: "pc_data (ps_pieces ps ! unat i) = Some d"
    and h: "length (hashes ! unat i) = 20" "length (sha1 d) = 20" and ne: "sha1 d \<noteq> hashes ! unat i"
    and env: "munmap_ok env" and cnt: "counts_inv ps"
  shows "\<exists>ps'. Finalise_end env ps i (sha1 d) (hashes ! unat i) =
      Some (ps', False, pc_peers (ps_pieces ps ! unat i), Some ErrHashMismatch) \<and>
    pieces_inv sha1 hashes ps' \<and> counts_inv ps' \<and>
    ps_pieces ps' = (ps_pieces ps)[unat i := cleared (ps_pieces ps ! unat i)]"
proof -
  define q where "q = (ps_pieces ps ! unat i)\<lparr>pc_peers := [], pc_state := 0\<rparr>"
  define ps1 where "ps1 = put_piece ps i q"
  have st: "pc_state (ps_pieces ps ! unat i) = 2" using b by (simp add: piece_busy_def stateBusy_def)
  have q: "piece_ok sha1 (hashes ! unat i) (piece_len ps (unat i)) q"
    using pieces_invD(3) [OF inv i] d by (simp add: piece_ok_def q_def)
  have inv1: "pieces_inv sha1 hashes ps1" unfolding ps1_def using q by (rule pieces_inv_put [OF inv i])
  have cnt1: "counts_inv ps1" unfolding ps1_def
    by (rule counts_put [OF cnt i]) (simp_all add: put_piece_def q_def has_data_def piece_bytes_def)
  have at: "ps_pieces ps1 ! unat i = q" "unat i < length (ps_pieces ps1)"
    using i by (simp_all add: ps1_def put_piece_def)
  have out: "del_outcome ps1 i"
    using d by (simp add: del_outcome_def at has_data_def q_def piece_busy_def stateBusy_def)
  obtain ps' c where ps': "del_enter env ps1 i True = Some (Del_returns ps' True c)"
    "pieces_inv sha1 hashes ps'" "counts_inv ps'" "ps_pieces ps' = (ps_pieces ps1)[unat i := cleared q]"
    using del_enter_inv [OF inv1 cnt1 at(2) _ env, of True] out at by (auto simp: del_outcome_def)
  have "ps_pieces ps' = (ps_pieces ps)[unat i := cleared (ps_pieces ps ! unat i)]"
    unfolding ps'(4) by (simp add: ps1_def put_piece_def cleared_def q_def)
  moreover have "Finalise_end env ps i (sha1 d) (hashes ! unat i) =
      Some (ps', False, pc_peers (ps_pieces ps ! unat i), Some ErrHashMismatch)"
    using i st ne h ps'(1) unfolding ps1_def q_def
    by (simp add: Finalise_end_def piece_at_def hash_Equal_Some setState_def stateBusy_def)
  ultimately show ?thesis using ps' by blast
qed

end
