(* ===== verification/Piece_Expire.thy ===== *)
theory Piece_Expire
  imports Piece_Ops
begin

section \<open>Eviction and deletion of the contents\<close>

text \<open>
  \<^verbatim>\<open>Expire\<close> deletes the first pieces it can of the order it is given, and just as many as it
  takes to come down to the target; \<^verbatim>\<open>Del\<close> deletes everything.
\<close>

text \<open>A piece that can be deleted: it holds data and is not being hashed.\<close>

definition deletable :: "piece \<Rightarrow> bool" where
  "deletable p \<longleftrightarrow> has_data p \<and> \<not> piece_busy p"

text \<open>How many pieces of \<open>sz\<close> bytes to delete to free \<open>todo\<close> bytes.\<close>

definition excess :: "int \<Rightarrow> int \<Rightarrow> nat" where
  "excess sz todo = nat ((todo + sz - 1) div sz)"

definition clear_at :: "nat \<Rightarrow> piece list \<Rightarrow> piece list" where
  "clear_at i xs = xs[i := cleared (xs ! i)]"

lemma length_clear_at [simp]: "length (clear_at i xs) = length xs"
  by (simp add: clear_at_def)

lemma nth_clear_at: "i < length xs \<Longrightarrow> clear_at i xs ! j = (if j = i then cleared (xs ! i) else xs ! j)"
  by (simp add: clear_at_def nth_list_update)

lemma excess_0: "0 < sz \<Longrightarrow> todo \<le> 0 \<Longrightarrow> excess sz todo = 0"
  by (simp add: excess_def) (metis add_le_cancel_right add_0 div_neg_pos_less0 int_one_le_iff_zero_less
      le_less linorder_not_le nonneg1_imp_zdiv_pos_iff pos_imp_zdiv_pos_iff zle_diff1_eq)

lemma excess_Suc:
  assumes "0 < sz" "0 < todo"
  shows "excess sz todo = Suc (excess sz (todo - sz))"
proof -
  have "todo + sz - 1 = (todo - sz + sz - 1) + sz" by simp
  then have "(todo + sz - 1) div sz = (todo - sz + sz - 1) div sz + 1"
    using assms(1) by (metis div_add_self2 less_irrefl)
  moreover have "0 \<le> (todo - sz + sz - 1) div sz"
    using assms by (simp add: pos_imp_zdiv_nonneg_iff)
  ultimately show ?thesis unfolding excess_def by simp
qed

lemma fold_clear_at:
  "distinct ds \<Longrightarrow> \<forall>i \<in> set ds. i < length xs \<Longrightarrow>
   fold clear_at ds xs = map (\<lambda>j. if j \<in> set ds then cleared (xs ! j) else xs ! j) [0..<length xs]"
proof (induction ds arbitrary: xs)
  case Nil
  then show ?case by (simp add: map_nth)
next
  case (Cons i ds)
  then have "fold clear_at (i # ds) xs
      = map (\<lambda>j. if j \<in> set ds then cleared (clear_at i xs ! j) else clear_at i xs ! j) [0..<length xs]"
    by simp
  also have "\<dots> = map (\<lambda>j. if j \<in> set (i # ds) then cleared (xs ! j) else xs ! j) [0..<length xs]"
    using Cons.prems by (intro map_cong) (auto simp: nth_clear_at)
  finally show ?case .
qed

lemma unat_index_u32:
  "geometry ps \<Longrightarrow> i < length (ps_pieces ps) \<Longrightarrow> unat (of_nat i :: u32) = i"
  by (simp add: geometry_def unat_of_nat_u32)

text \<open>The pieces that are deleted are the first deletable ones, as many as needed.\<close>

definition evicted :: "pieces \<Rightarrow> int \<Rightarrow> nat list \<Rightarrow> nat list" where
  "evicted ps todo is =
     take (excess (uint (ps_pieceSize ps)) todo) (filter (\<lambda>i. deletable (ps_pieces ps ! i)) is)"

lemma Expire_loop_spec:
  assumes "pieces_inv sha1 hashes ps" "counts_inv ps" "munmap_ok env"
    and "distinct is" "\<forall>i \<in> set is. i < length (ps_pieces ps)"
  shows "\<exists>ps'. Expire_loop env ps todo is =
      Some (ps', length (evicted ps todo is), map of_nat (filter (\<lambda>i. piece_complete (ps_pieces ps ! i)) (evicted ps todo is))) \<and>
    pieces_inv sha1 hashes ps' \<and> counts_inv ps' \<and> ps_pieceSize ps' = ps_pieceSize ps \<and>
    ps_count ps' = ps_count ps - int (length (evicted ps todo is)) \<and>
    ps_pieces ps' = fold clear_at (evicted ps todo is) (ps_pieces ps)"
  using assms unfolding evicted_def
proof (induction "is" arbitrary: ps todo)
  case Nil
  then show ?case by simp
next
  case (Cons i js)
  let ?S = "uint (ps_pieceSize ps)"
  have g: "geometry ps" using Cons.prems(1) by (rule pieces_invD)
  have "0 < int (unat (ps_pieceSize ps))" using geometry_pos [OF g] by linarith
  then have S: "0 < ?S" by simp
  have ui: "unat (of_nat i :: u32) = i" using Cons.prems(5) by (intro unat_index_u32 [OF g]) simp
  have i: "unat (of_nat i :: u32) < length (ps_pieces ps)" using Cons.prems(5) ui by simp
  have out: "del_outcome ps (of_nat i) = deletable (ps_pieces ps ! i)"
    by (simp only: del_outcome_def deletable_def ui)
  show ?case
  proof (cases "todo \<le> 0")
    case True
    then show ?thesis using Cons.prems excess_0 [OF S True] by simp
  next
    case pos: False
    obtain ps1 where e: "del_enter env ps (of_nat i) False =
          Some (Del_returns ps1 (deletable (ps_pieces ps ! i))
            (deletable (ps_pieces ps ! i) \<and> piece_complete (ps_pieces ps ! i)))"
      and ps1: "pieces_inv sha1 hashes ps1" "counts_inv ps1" "ps_pieceSize ps1 = ps_pieceSize ps"
        "ps_count ps1 = ps_count ps - of_bool (deletable (ps_pieces ps ! i))"
        "ps_pieces ps1 = (if deletable (ps_pieces ps ! i) then clear_at i (ps_pieces ps) else ps_pieces ps)"
      using del_enter_inv [OF Cons.prems(1,2) i _ Cons.prems(3), of False]
      unfolding out ui clear_at_def by auto
    have len: "\<forall>i \<in> set js. i < length (ps_pieces ps1)" and dj: "distinct js" and ni: "i \<notin> set js"
      using Cons.prems(4,5) ps1(5) by (auto simp: clear_at_def)
    have same: "ps_pieces ps1 ! j = ps_pieces ps ! j" if "j \<in> set js" for j
      using that ni i ui by (auto simp: ps1(5) nth_clear_at)
    have fl: "filter (\<lambda>i. deletable (ps_pieces ps1 ! i)) js = filter (\<lambda>i. deletable (ps_pieces ps ! i)) js"
      "\<And>n. filter (\<lambda>i. piece_complete (ps_pieces ps1 ! i)) (take n (filter (\<lambda>i. deletable (ps_pieces ps ! i)) js))
         = filter (\<lambda>i. piece_complete (ps_pieces ps ! i)) (take n (filter (\<lambda>i. deletable (ps_pieces ps ! i)) js))"
      using same by (auto intro!: filter_cong dest!: in_set_takeD)
    note IH = Cons.IH [OF ps1(1,2) Cons.prems(3) dj len, unfolded fl ps1(3)]
    show ?thesis
    proof (cases "deletable (ps_pieces ps ! i)")
      case True
      have ex: "excess ?S todo = Suc (excess ?S (todo - ?S))" using S pos by (intro excess_Suc) auto
      show ?thesis
        using IH [of "todo - ?S"] True pos e ps1(4,5) by (auto simp: ex)
    next
      case False
      show ?thesis using IH [of todo] False pos e ps1(4,5) by auto
    qed
  qed
qed

definition expire_order :: "u32 \<Rightarrow> pieces \<Rightarrow> u16 list \<Rightarrow> nat list \<Rightarrow> nat list" where
  "expire_order now ps available perm = SortFunc (expire_cmp (piece_ages now ps) available) perm"

lemma Expire_spec:
  fixes bytes :: int and now :: u32 and available :: "u16 list"
  assumes "pieces_inv sha1 hashes ps" "counts_inv ps" "munmap_ok env"
    and perm: "distinct perm" "\<forall>i \<in> set perm. i < length (ps_pieces ps)"
  defines "ds \<equiv> evicted ps (Pieces_Bytes ps - bytes) (expire_order now ps available perm)"
  shows "\<exists>ps'. Expire env ps now bytes available perm =
      Some (ps', length ds, map of_nat (filter (\<lambda>i. piece_complete (ps_pieces ps ! i)) ds)) \<and>
    pieces_inv sha1 hashes ps' \<and> counts_inv ps' \<and>
    Pieces_Bytes ps' = Pieces_Bytes ps - int (length ds) * uint (ps_pieceSize ps) \<and>
    ps_pieces ps' =
      map (\<lambda>j. if j \<in> set ds then cleared (ps_pieces ps ! j) else ps_pieces ps ! j) [0..<length (ps_pieces ps)]"
proof -
  let ?is = "expire_order now ps available perm"
  have isr: "distinct ?is" "\<forall>i \<in> set ?is. i < length (ps_pieces ps)"
    using perm by (simp_all add: expire_order_def)
  have sub: "set ds \<subseteq> set ?is" and d: "distinct ds"
    using isr(1) by (auto simp: ds_def evicted_def dest!: in_set_takeD)
  obtain ps' where "Expire_loop env ps (Pieces_Bytes ps - bytes) ?is =
      Some (ps', length ds, map of_nat (filter (\<lambda>i. piece_complete (ps_pieces ps ! i)) ds))"
    "pieces_inv sha1 hashes ps'" "counts_inv ps'" "ps_pieceSize ps' = ps_pieceSize ps"
    "ps_count ps' = ps_count ps - int (length ds)" "ps_pieces ps' = fold clear_at ds (ps_pieces ps)"
    using Expire_loop_spec [OF assms(1-3) isr] unfolding ds_def by blast
  moreover from this have "Pieces_Bytes ps' = Pieces_Bytes ps - int (length ds) * uint (ps_pieceSize ps)"
    by (simp add: Pieces_Bytes_def left_diff_distrib)
  ultimately show ?thesis
    using fold_clear_at [OF d, of "ps_pieces ps"] sub isr(2) unfolding Expire_def expire_order_def by auto
qed

text \<open>
  After \<^verbatim>\<open>Expire\<close> has gone over all the pieces, the estimate of the memory used is down to
  the target, or nothing is left that could be deleted; and one deletion less would not
  have been enough.
\<close>

lemma excess_bounds:
  assumes "0 < sz"
  shows "todo \<le> int (excess sz todo) * sz" and "n < excess sz todo \<Longrightarrow> int n * sz < todo"
proof -
  have e: "int (excess sz todo) = max 0 ((todo + sz - 1) div sz)" by (simp add: excess_def)
  have "todo + sz - 1 < ((todo + sz - 1) div sz + 1) * sz"
    using div_mult_mod_eq [of "todo + sz - 1" sz] pos_mod_bound [OF assms, of "todo + sz - 1"]
    unfolding distrib_right by linarith
  then have "todo \<le> (todo + sz - 1) div sz * sz" by (simp add: distrib_right)
  also have "\<dots> \<le> int (excess sz todo) * sz" unfolding e using assms by (intro mult_right_mono) auto
  finally show "todo \<le> int (excess sz todo) * sz" .
  assume "n < excess sz todo"
  then have "int n + 1 \<le> (todo + sz - 1) div sz" unfolding excess_def by linarith
  then have "(int n + 1) * sz \<le> (todo + sz - 1) div sz * sz" using assms by (intro mult_right_mono) auto
  also have "\<dots> \<le> todo + sz - 1"
    using div_mult_mod_eq [of "todo + sz - 1" sz] pos_mod_sign [OF assms, of "todo + sz - 1"] by linarith
  finally show "int n * sz < todo" by (simp add: distrib_right)
qed

lemma evicted_enough:
  fixes todo :: int
  assumes "geometry ps" and "set is = {..<length (ps_pieces ps)}"
  defines "ds \<equiv> evicted ps todo is"
  shows "todo \<le> int (length ds) * uint (ps_pieceSize ps) \<or>
      (\<forall>j < length (ps_pieces ps). deletable (ps_pieces ps ! j) \<longrightarrow> j \<in> set ds)"
    and "n < length ds \<Longrightarrow> int n * uint (ps_pieceSize ps) < todo"
proof -
  let ?c = "filter (\<lambda>i. deletable (ps_pieces ps ! i)) is"
  have "0 < int (unat (ps_pieceSize ps))" using geometry_pos [OF assms(1)] by linarith
  then have S: "0 < uint (ps_pieceSize ps)" by simp
  show "todo \<le> int (length ds) * uint (ps_pieceSize ps) \<or>
      (\<forall>j < length (ps_pieces ps). deletable (ps_pieces ps ! j) \<longrightarrow> j \<in> set ds)"
  proof (cases "excess (uint (ps_pieceSize ps)) todo \<le> length ?c")
    case True
    then show ?thesis using excess_bounds(1) [OF S, of todo] by (simp add: ds_def evicted_def)
  next
    case False
    then have "ds = ?c" by (simp add: ds_def evicted_def)
    then show ?thesis using assms(2) by auto
  qed
  show "n < length ds \<Longrightarrow> int n * uint (ps_pieceSize ps) < todo"
    by (rule excess_bounds(2) [OF S]) (simp add: ds_def evicted_def)
qed

subsection \<open>The order of eviction\<close>

text \<open>
  The comparison \<^verbatim>\<open>Expire\<close> sorts with is a total preorder, as \<^verbatim>\<open>slices.SortFunc\<close> requires:
  pieces not requested for two hours come first, the commonest of them first, then the
  others from the least to the most recently requested.
\<close>

definition expire_le :: "u32 list \<Rightarrow> u16 list \<Rightarrow> nat \<Rightarrow> nat \<Rightarrow> bool" where
  "expire_le t available i j \<longleftrightarrow> expire_cmp t available i j \<le> 0"

lemma expire_cmp_antisym: "expire_cmp t av j i = - expire_cmp t av i j"
  by (auto simp: expire_cmp_def cmp_Compare_def Let_def)

lemma expire_le_total: "expire_le t av i j \<or> expire_le t av j i"
  using expire_cmp_antisym [of t av i j] unfolding expire_le_def by linarith

definition avail_of :: "u16 list \<Rightarrow> nat \<Rightarrow> u16" where
  "avail_of av i = (if i < length av then av ! i else 0)"

lemma expire_cmp_avail:
  "expire_cmp t av i j =
     (if t ! i \<ge> 7200 \<and> t ! j \<ge> 7200 \<and> avail_of av i \<noteq> avail_of av j
      then cmp_Compare (avail_of av j) (avail_of av i) else cmp_Compare (t ! j) (t ! i))"
  unfolding expire_cmp_def avail_of_def Let_def by (rule refl)

lemma cmp_Compare_le: "cmp_Compare a b \<le> 0 \<longleftrightarrow> a \<le> b"
  by (auto simp: cmp_Compare_def)

lemma expire_le_iff:
  "expire_le t av i j \<longleftrightarrow>
     (if t ! i \<ge> 7200 \<and> t ! j \<ge> 7200 \<and> avail_of av i \<noteq> avail_of av j
      then avail_of av j \<le> avail_of av i else t ! j \<le> t ! i)"
  unfolding expire_le_def expire_cmp_avail by (simp add: cmp_Compare_le)

lemma expire_le_trans: "expire_le t av i j \<Longrightarrow> expire_le t av j k \<Longrightarrow> expire_le t av i k"
  unfolding expire_le_iff by (auto split: if_splits)

lemma sorted_expire_order:
  "sorted_wrt (expire_le (piece_ages now ps) available) (expire_order now ps available perm)"
  unfolding expire_order_def expire_le_def
  by (rule sorted_SortFunc)
    (use expire_le_total expire_le_trans in \<open>unfold expire_le_def, blast+\<close>)

subsection \<open>Del\<close>

text \<open>When no piece is being hashed, \<^verbatim>\<open>Del\<close> runs to its end and nothing is left.\<close>

lemma Del_loop_spec:
  assumes "pieces_inv sha1 hashes ps" "counts_inv ps" "munmap_ok env"
    and "\<forall>i < length (ps_pieces ps). \<not> piece_busy (ps_pieces ps ! i)"
    and "\<forall>i \<in> set is. i < length (ps_pieces ps)"
  shows "\<exists>ps'. Del_loop env ps is = Some (Del_finished ps') \<and>
    pieces_inv sha1 hashes ps' \<and> counts_inv ps' \<and> ps_deleted ps' \<and>
    length (ps_pieces ps') = length (ps_pieces ps) \<and>
    (\<forall>j < length (ps_pieces ps). \<not> piece_busy (ps_pieces ps' ! j) \<and>
       (j \<in> set is \<or> \<not> has_data (ps_pieces ps ! j) \<longrightarrow> \<not> has_data (ps_pieces ps' ! j)))"
  using assms
proof (induction "is" arbitrary: ps)
  case Nil
  then show ?case by (auto simp: counts_inv_def)
next
  case (Cons i js)
  have g: "geometry ps" using Cons.prems(1) by (rule pieces_invD)
  have ui: "unat (of_nat i :: u32) = i" using Cons.prems(5) by (intro unat_index_u32 [OF g]) simp
  have i: "unat (of_nat i :: u32) < length (ps_pieces ps)" "i < length (ps_pieces ps)"
    using Cons.prems(5) ui by simp_all
  have nb: "\<not> piece_busy (ps_pieces ps ! unat (of_nat i :: u32))"
    using Cons.prems(4) i(1) by blast
  obtain ps1 b c where ps1: "del_enter env ps (of_nat i) True = Some (Del_returns ps1 b c)"
    "pieces_inv sha1 hashes ps1" "counts_inv ps1"
    "ps_pieces ps1 = (if del_outcome ps (of_nat i) then clear_at i (ps_pieces ps) else ps_pieces ps)"
    using del_enter_inv [OF Cons.prems(1,2) i(1) nb Cons.prems(3)] unfolding clear_at_def ui by blast
  have len: "length (ps_pieces ps1) = length (ps_pieces ps)" using ps1(4) by simp
  have d1: "\<not> has_data (ps_pieces ps1 ! i)"
    and d2: "\<And>j. \<not> has_data (ps_pieces ps ! j) \<Longrightarrow> \<not> has_data (ps_pieces ps1 ! j)"
    and b1: "\<forall>j < length (ps_pieces ps1). \<not> piece_busy (ps_pieces ps1 ! j)"
    using ps1(4) Cons.prems(4) i(2) ui nb
    by (auto simp: nth_clear_at del_outcome_def piece_busy_def stateBusy_def split: if_splits)
  have js: "\<forall>i \<in> set js. i < length (ps_pieces ps1)" using Cons.prems(5) len by simp
  show ?case using Cons.IH [OF ps1(2,3) Cons.prems(3) b1 js] ps1(1) d1 d2 len by auto
qed

end
