(* ===== verification/Piece_Queries.thy ===== *)
theory Piece_Queries
  imports Piece_Ops
begin

section \<open>Queries on the contents\<close>

text \<open>What \<^verbatim>\<open>Bitmap\<close>, \<^verbatim>\<open>All\<close>, \<^verbatim>\<open>ReadAt\<close> and \<^verbatim>\<open>Hole\<close> answer.\<close>

lemma Pieces_Bitmap_Get:
  "bitmap_Get (Pieces_Bitmap ps) i \<longleftrightarrow> i < length (ps_pieces ps) \<and> piece_complete (ps_pieces ps ! i)"
  unfolding Pieces_Bitmap_def by (auto simp: bitset_simps)

lemma Pieces_All_Bitmap: "Pieces_All ps \<longleftrightarrow> bitmap_All (Pieces_Bitmap ps) (Pieces_Num ps)"
proof -
  have "\<forall>i. bitmap_Get (Pieces_Bitmap ps) i \<longrightarrow> i < Pieces_Num ps"
    by (simp add: Pieces_Bitmap_Get Pieces_Num_def)
  note bitmap_All_exact [OF this]
  then show ?thesis
    by (auto simp: Pieces_All_def list_all_length Pieces_Bitmap_Get Pieces_Num_def)
qed

subsection \<open>ReadAt\<close>

text \<open>The piece a position of the torrent is in, and the position in that piece.\<close>

lemma ReadAt_position:
  assumes g: "geometry ps" and off: "0 \<le> off" "off < ps_length ps"
  defines "i \<equiv> nat off div unat (ps_pieceSize ps)" and "b \<equiv> nat off mod unat (ps_pieceSize ps)"
  shows "off sdiv uint (ps_pieceSize ps) = int i" and "off smod uint (ps_pieceSize ps) = int b"
    and "i < length (ps_pieces ps)" and "b < piece_len ps i"
proof -
  let ?S = "unat (ps_pieceSize ps)" and ?L = "nat (ps_length ps)"
  have S: "0 < ?S" using g by (rule geometry_pos)
  show "off sdiv uint (ps_pieceSize ps) = int i" "off smod uint (ps_pieceSize ps) = int b"
    unfolding i_def b_def by (rule sdiv_word [OF off(1) S])+
  have lt: "i * ?S + b = nat off" "nat off < ?L" using off by (simp_all add: i_def b_def)
  then have "Suc i * ?S \<le> ?L + ?S - 1" using S unfolding mult_Suc by linarith
  then have "Suc i \<le> (?L + ?S - 1) div ?S" using S by (simp only: less_eq_div_iff_mult_less_eq)
  then show "i < length (ps_pieces ps)" using g by (simp add: geometry_def)
  have "b < ?S" using S by (simp add: b_def)
  moreover have "b < ?L - i * ?S" using lt by linarith
  ultimately show "b < piece_len ps i" by (simp add: piece_len_def)
qed

text \<open>
  A read inside the torrent never panics. It returns nothing unless the piece is
  complete, and then as much as fits of the rest of a block of data whose hash is the one
  of the piece.
\<close>

lemma ReadAt_value:
  assumes inv: "pieces_inv sha1 hashes ps" and off: "0 \<le> off" "off < ps_length ps"
  defines "i \<equiv> nat off div unat (ps_pieceSize ps)" and "b \<equiv> nat off mod unat (ps_pieceSize ps)"
  shows "ReadAt ps n off =
      Some (if piece_complete (ps_pieces ps ! i) then take n (drop b (piece_bytes (ps_pieces ps ! i))) else [], False)"
    and "piece_complete (ps_pieces ps ! i) \<Longrightarrow>
      sha1 (piece_bytes (ps_pieces ps ! i)) = hashes ! i \<and>
      length (piece_bytes (ps_pieces ps ! i)) = piece_len ps i"
proof -
  have g: "geometry ps" using inv by (rule pieces_invD)
  note pos = ReadAt_position [OF g off, folded i_def b_def]
  have ok: "piece_ok sha1 (hashes ! i) (piece_len ps i) (ps_pieces ps ! i)"
    by (rule pieces_invD(3) [OF inv pos(3)])
  show verified: "sha1 (piece_bytes (ps_pieces ps ! i)) = hashes ! i \<and>
      length (piece_bytes (ps_pieces ps ! i)) = piece_len ps i" if "piece_complete (ps_pieces ps ! i)"
    using ok that by (auto simp: piece_ok_def piece_complete_def stateComplete_def piece_bytes_def split: option.splits)
  have "ps_pieceSize ps \<noteq> 0" using g by (simp add: geometry_def)
  then show "ReadAt ps n off =
      Some (if piece_complete (ps_pieces ps ! i) then take n (drop b (piece_bytes (ps_pieces ps ! i))) else [], False)"
    using verified pos(3,4) off(2) unfolding ReadAt_def Let_def pos(1,2)
    by (auto simp: linorder_not_less)
qed

subsection \<open>Hole\<close>

text \<open>Chunk \<open>c\<close> of piece \<open>i\<close> is missing.\<close>

definition missing :: "pieces \<Rightarrow> nat \<Rightarrow> nat \<Rightarrow> bool" where
  "missing ps i c \<longleftrightarrow> c * 16384 < piece_len ps i \<and> \<not> bitmap_Get (pc_bitmap (ps_pieces ps ! i)) c"

text \<open>
  What \<^verbatim>\<open>Hole\<close> promises when it answers \<open>off\<close> and \<open>len\<close>: the hole starts at the first
  missing chunk from the one asked for, all of its chunks are missing, and it ends
  where the piece ends or at a chunk that is present.
\<close>

definition is_hole :: "pieces \<Rightarrow> nat \<Rightarrow> nat \<Rightarrow> nat \<Rightarrow> nat \<Rightarrow> bool" where
  "is_hole ps i start off len \<longleftrightarrow>
     off mod 16384 = 0 \<and> start div 16384 \<le> off div 16384 \<and> 0 < len \<and> off + len \<le> piece_len ps i \<and>
     (\<forall>c. start div 16384 \<le> c \<and> c < off div 16384 \<longrightarrow> \<not> missing ps i c) \<and>
     (\<forall>c. off \<le> c * 16384 \<and> c * 16384 < off + len \<longrightarrow> missing ps i c) \<and>
     (off + len = piece_len ps i \<or> \<not> missing ps i ((off + len) div 16384) \<and> (off + len) mod 16384 = 0)"

lemma takeWhile_upt:
  assumes "n = length (takeWhile P [1..<m])"
  shows "\<forall>k. 1 \<le> k \<and> k \<le> n \<longrightarrow> P k" and "Suc n < m \<Longrightarrow> \<not> P (Suc n)" and "0 < m \<Longrightarrow> Suc n \<le> m"
proof -
  have le: "n \<le> length [1..<m]" using assms length_takeWhile_le by blast
  show "\<forall>k. 1 \<le> k \<and> k \<le> n \<longrightarrow> P k"
  proof (intro allI impI)
    fix k assume k: "1 \<le> k \<and> k \<le> n"
    then have "takeWhile P [1..<m] ! (k - 1) = [1..<m] ! (k - 1)" "k - 1 < length (takeWhile P [1..<m])"
      using assms by (auto intro: takeWhile_nth)
    then have "P ([1..<m] ! (k - 1))" by (metis nth_mem set_takeWhileD)
    moreover have "[1..<m] ! (k - 1) = k" using k le by (subst nth_upt) auto
    ultimately show "P k" by simp
  qed
  show "0 < m \<Longrightarrow> Suc n \<le> m" using le by simp
  assume "Suc n < m"
  then have "n < length [1..<m]" by simp
  then have "\<not> P ([1..<m] ! n)" using assms nth_length_takeWhile by metis
  then show "\<not> P (Suc n)" using \<open>Suc n < m\<close> by simp
qed

lemma find_upt:
  "List.find P [a..<b] = Some k \<longleftrightarrow> a \<le> k \<and> k < b \<and> P k \<and> (\<forall>j. a \<le> j \<and> j < k \<longrightarrow> \<not> P j)"
proof -
  have "List.find P [a..<b] = Some k \<longleftrightarrow> (\<exists>i < b - a. P (a + i) \<and> k = a + i \<and> (\<forall>j < i. \<not> P (a + j)))"
    unfolding find_Some_iff by (auto simp: nth_upt cong: conj_cong)
  also have "\<dots> \<longleftrightarrow> a \<le> k \<and> k < b \<and> P k \<and> (\<forall>j. a \<le> j \<and> j < k \<longrightarrow> \<not> P j)"
    by (auto simp: less_diff_conv2 le_iff_add intro!: exI [of _ "k - a"])
  finally show ?thesis .
qed

text \<open>The numbers \<^verbatim>\<open>Hole\<close> computes do not wrap around.\<close>

lemma chunk_offset_u32:
  assumes "first * 16384 \<le> piece_len ps i"
  shows "unat (of_nat first * ChunkSize :: u32) = first * 16384"
proof -
  have lt: "first * 16384 < 4294967296"
    using le_less_trans [OF order_trans [OF assms piece_len_le] unat_u32_bound] .
  then have "unat (of_nat first :: u32) = first" by (intro unat_of_nat_u32) simp
  then show ?thesis using lt by (subst unat_mult_u32) simp_all
qed

lemma Hole_found:
  assumes g: "geometry ps" and i: "unat index < length (ps_pieces ps)"
    and nb: "\<not> busyOrComplete (ps_pieces ps ! unat index)"
    and len_bm: "bitmap_Len (pc_bitmap (ps_pieces ps ! unat index)) \<le> n_chunks (piece_len ps (unat index))"
    and first: "List.find (\<lambda>c. \<not> bitmap_Get (pc_bitmap (ps_pieces ps ! unat index)) c)
      [unat (offset div ChunkSize)..<n_chunks (piece_len ps (unat index))] = Some first"
  obtains off len where "Hole ps index offset = Some (off, len)"
    and "is_hole ps (unat index) (unat offset) (unat off) (unat len)"
proof -
  define len n bm where "len = piece_len ps (unat index)" and "n = n_chunks len"
    and "bm = pc_bitmap (ps_pieces ps ! unat index)"
  define k where "k = length (takeWhile (\<lambda>k. \<not> bitmap_Get bm (first + k)) [1..<n])"
  have f: "unat offset div 16384 \<le> first" "first < n" "\<not> bitmap_Get bm first"
    "\<forall>c. unat offset div 16384 \<le> c \<and> c < first \<longrightarrow> bitmap_Get bm c"
    using first unfolding find_upt by (simp_all add: bm_def n_def len_def unat_div_u32)
  have bits: "bitmap_Get bm c \<Longrightarrow> c < n" for c
    using len_bm by (auto simp: bitmap_Len_le_iff bm_def n_def len_def)
  note tw = takeWhile_upt [OF k_def]
  have inside: "c < n \<longleftrightarrow> c * 16384 < len" for c by (simp add: n_def n_chunks_less)
  have miss: "missing ps (unat index) c \<longleftrightarrow> c < n \<and> \<not> bitmap_Get bm c" for c
    by (simp add: missing_def inside bm_def flip: len_def)
  have clear: "\<not> bitmap_Get bm c" if "first \<le> c" "c \<le> first + k" for c
  proof (cases "c = first")
    case False
    then show ?thesis using tw(1) that by (metis add_diff_inverse_nat add_le_cancel_left
        le_neq_implies_less linorder_not_less less_one nat_less_le zero_less_diff diff_is_0_eq)
  qed (use f in simp)
  have o1: "unat (of_nat first * ChunkSize :: u32) = first * 16384"
    using f(2) inside by (intro chunk_offset_u32 [of _ ps "unat index"]) (simp add: len_def less_imp_le)
  have hole: "Hole ps index offset =
      (if Suc k = n then Some (of_nat first * ChunkSize, of_nat len - of_nat first * ChunkSize)
       else Some (of_nat first * ChunkSize, of_nat (Suc k) * ChunkSize))"
    using i nb first
    by (simp add: Hole_def piece_at_def pieceChunks_value [OF g] PieceLength_value [OF g] Let_def
        k_def n_def len_def bm_def)
  show thesis
  proof (cases "Suc k = n")
    case True
    have fl: "first * 16384 < len" using f(2) inside by simp
    have upto: "c * 16384 < len \<Longrightarrow> c \<le> first + k" for c
      using inside [of c] True by linarith
    have "unat (of_nat len - of_nat first * ChunkSize :: u32) = len - first * 16384"
      using fl o1 by (subst unat_sub_u32) (simp_all add: piece_len_u32 len_def)
    moreover have "is_hole ps (unat index) (unat offset) (first * 16384) (len - first * 16384)"
      unfolding is_hole_def miss using f fl clear upto
      by (auto simp: inside simp flip: len_def)
    ultimately show thesis using that hole True o1 by simp
  next
    case False
    then have lt: "Suc k < n" using tw(3) f(2) by linarith
    then have set: "bitmap_Get bm (first + Suc k)" using tw(2) by blast
    then have fn: "first + Suc k < n" using bits by simp
    then have fl: "(first + Suc k) * 16384 < len" using inside by blast
    have o2: "unat (of_nat (Suc k) * ChunkSize :: u32) = Suc k * 16384"
      using fl by (intro chunk_offset_u32 [of _ ps "unat index"]) (simp add: len_def)
    have "is_hole ps (unat index) (unat offset) (first * 16384) (Suc k * 16384)"
      unfolding is_hole_def
    proof (intro conjI)
      have "first * 16384 + Suc k * 16384 = (first + Suc k) * 16384" by simp
      then show "first * 16384 + Suc k * 16384 = piece_len ps (unat index) \<or>
          \<not> missing ps (unat index) ((first * 16384 + Suc k * 16384) div 16384) \<and>
          (first * 16384 + Suc k * 16384) mod 16384 = 0"
        using set by (simp only: miss) simp
    qed (use f fl fn clear in \<open>auto simp: miss simp flip: len_def\<close>)
    then show thesis using that hole False o1 o2 by simp
  qed
qed

lemma Hole_cases:
  assumes g: "geometry ps" and i: "unat index < length (ps_pieces ps)"
    and len: "bitmap_Len (pc_bitmap (ps_pieces ps ! unat index)) \<le> n_chunks (piece_len ps (unat index))"
  shows "(Hole ps index offset = Some (- 1, - 1) \<and>
      (busyOrComplete (ps_pieces ps ! unat index) \<or>
       (\<forall>c \<ge> unat offset div 16384. \<not> missing ps (unat index) c))) \<or>
    (\<exists>off len. Hole ps index offset = Some (off, len) \<and> \<not> busyOrComplete (ps_pieces ps ! unat index) \<and>
       is_hole ps (unat index) (unat offset) (unat off) (unat len))"
proof -
  let ?p = "ps_pieces ps ! unat index" and ?n = "n_chunks (piece_len ps (unat index))"
  let ?f = "List.find (\<lambda>c. \<not> bitmap_Get (pc_bitmap ?p) c) [unat (offset div ChunkSize)..<?n]"
  consider "busyOrComplete ?p" | "\<not> busyOrComplete ?p" "?f = None" | f where "\<not> busyOrComplete ?p" "?f = Some f"
    by (cases "?f") auto
  then show ?thesis
  proof cases
    case 1
    then show ?thesis using i by (simp add: Hole_def piece_at_def)
  next
    case 2
    then have "\<forall>c \<ge> unat offset div 16384. \<not> missing ps (unat index) c"
      by (auto simp: find_None_iff missing_def n_chunks_less unat_div_u32)
    then show ?thesis using i 2 by (simp add: Hole_def piece_at_def pieceChunks_value [OF g])
  next
    case (3 f)
    then show ?thesis using Hole_found [OF g i _ len, of offset f] by blast
  qed
qed

text \<open>The invariant bounds the bitmap of every piece.\<close>

lemma pieces_inv_bitmap:
  assumes inv: "pieces_inv sha1 hashes ps" and i: "i < length (ps_pieces ps)"
  shows "bitmap_Len (pc_bitmap (ps_pieces ps ! i)) \<le> n_chunks (piece_len ps i)"
  using pieces_invD(3) [OF inv i]
  by (auto simp: piece_ok_def bitset_simps bitmap_Len_le_iff split: option.splits)

lemma Hole_spec:
  assumes inv: "pieces_inv sha1 hashes ps" and i: "unat index < length (ps_pieces ps)"
  shows "(Hole ps index offset = Some (- 1, - 1) \<and>
      (busyOrComplete (ps_pieces ps ! unat index) \<or>
       (\<forall>c \<ge> unat offset div 16384. \<not> missing ps (unat index) c))) \<or>
    (\<exists>off len. Hole ps index offset = Some (off, len) \<and> \<not> busyOrComplete (ps_pieces ps ! unat index) \<and>
       is_hole ps (unat index) (unat offset) (unat off) (unat len))"
  by (rule Hole_cases [OF pieces_invD(1) [OF inv] i pieces_inv_bitmap [OF inv i]])

end
