(* ===== verification/Piece_Runs.thy ===== *)
theory Piece_Runs
  imports Piece_Expire Piece_Queries
begin

section \<open>Goroutines working on the contents\<close>

text \<open>
  The goroutines of the program share one \<^verbatim>\<open>piece.Pieces\<close>: the torrent's own adds data and
  expires pieces, others finalise them, readers read. Here the operations are the steps
  of a machine, in any order, with \<^verbatim>\<open>Finalise\<close> split at the point where it releases the
  lock. \<open>cf_hashing\<close> has the data that each running \<^verbatim>\<open>Finalise\<close> is hashing.
\<close>

record conf =
  cf_pieces :: pieces
  cf_hashing :: "(nat \<times> byte list) list"

datatype piece_op =
    Op_AddData u32 u32 "byte list" u32
  | Op_UpdateTime u32 u32
  | Op_Finalise_begin u32
  | Op_Finalise_end u32
  | Op_Expire u32 int "u16 list" "nat list"
  | Op_Del

definition run_op ::
  "sysenv \<Rightarrow> (byte list \<Rightarrow> hash) \<Rightarrow> hash list \<Rightarrow> conf \<Rightarrow> piece_op \<Rightarrow> conf option" where
  "run_op env sha1 hashes c a =
     (let ps = cf_pieces c in
      case a of
        Op_AddData i begin data peer \<Rightarrow>
          map_option (\<lambda>(ps', _). c\<lparr>cf_pieces := ps'\<rparr>) (AddData env ps i begin data peer)
      | Op_UpdateTime now i \<Rightarrow>
          map_option (\<lambda>(ps', _). c\<lparr>cf_pieces := ps'\<rparr>) (UpdateTime now ps i)
      | Op_Finalise_begin i \<Rightarrow>
          map_option (\<lambda>(ps', r). c\<lparr>cf_pieces := ps',
              cf_hashing := (case r of Finalise_hashes d \<Rightarrow> (unat i, d) # cf_hashing c
                                     | _ \<Rightarrow> cf_hashing c)\<rparr>)
            (Finalise_begin ps i)
      | Op_Finalise_end i \<Rightarrow>
          (case map_of (cf_hashing c) (unat i) of
             None \<Rightarrow> None
           | Some d \<Rightarrow>
               map_option (\<lambda>(ps', _). c\<lparr>cf_pieces := ps',
                   cf_hashing := filter (\<lambda>(j, _). j \<noteq> unat i) (cf_hashing c)\<rparr>)
                 (Finalise_end env ps i (sha1 d) (hashes ! unat i)))
      | Op_Expire now bytes available perm \<Rightarrow>
          map_option (\<lambda>(ps', _). c\<lparr>cf_pieces := ps'\<rparr>) (Expire env ps now bytes available perm)
      | Op_Del \<Rightarrow>
          (case Pieces_Del env ps of
             Some (Del_finished ps') \<Rightarrow> Some (c\<lparr>cf_pieces := ps'\<rparr>)
           | _ \<Rightarrow> None))"

text \<open>
  What the callers respect: indices are in range, a buffer has less than 2 GB, \<^verbatim>\<open>rand.Perm\<close>
  gives \<^verbatim>\<open>Expire\<close> a permutation, a \<^verbatim>\<open>Finalise\<close> ends only once it has
  begun, and \<^verbatim>\<open>Del\<close> is only called when no piece is being hashed (the case when one is
  has its own lemma below).
\<close>

definition op_permitted :: "conf \<Rightarrow> piece_op \<Rightarrow> bool" where
  "op_permitted c a =
     (let num = length (ps_pieces (cf_pieces c)) in
      case a of
        Op_AddData i begin data peer \<Rightarrow> unat i < num \<and> length data < 2147483648
      | Op_UpdateTime now i \<Rightarrow> unat i < num
      | Op_Finalise_begin i \<Rightarrow> unat i < num
      | Op_Finalise_end i \<Rightarrow> unat i \<in> fst ` set (cf_hashing c)
      | Op_Expire now bytes available perm \<Rightarrow> distinct perm \<and> set perm = {..<num}
      | Op_Del \<Rightarrow> cf_hashing c = [])"

text \<open>The pieces being hashed are the busy ones, and what is hashed is what they hold.\<close>

definition hashing_ok :: "piece list \<Rightarrow> (nat \<times> byte list) list \<Rightarrow> bool" where
  "hashing_ok xs hs \<longleftrightarrow>
     (\<forall>(i, d) \<in> set hs. i < length xs \<and> pc_data (xs ! i) = Some d \<and> piece_busy (xs ! i)) \<and>
     (\<forall>i < length xs. piece_busy (xs ! i) \<longrightarrow> i \<in> fst ` set hs)"

definition conf_inv :: "(byte list \<Rightarrow> hash) \<Rightarrow> hash list \<Rightarrow> conf \<Rightarrow> bool" where
  "conf_inv sha1 hashes c \<longleftrightarrow>
     pieces_inv sha1 hashes (cf_pieces c) \<and> counts_inv (cf_pieces c) \<and>
     hashing_ok (ps_pieces (cf_pieces c)) (cf_hashing c)"

text \<open>The pieces that stay as they are as far as the hashing is concerned.\<close>

lemma hashing_ok_same:
  assumes "hashing_ok xs hs" and "length ys = length xs"
    and "\<And>j. j < length xs \<Longrightarrow> piece_busy (ys ! j) = piece_busy (xs ! j)"
    and "\<And>j. j < length xs \<Longrightarrow> piece_busy (xs ! j) \<Longrightarrow> pc_data (ys ! j) = pc_data (xs ! j)"
  shows "hashing_ok ys hs"
  using assms unfolding hashing_ok_def by fastforce

lemma hashing_ok_put:
  assumes "hashing_ok xs hs" and "i < length xs"
    and "piece_busy p = piece_busy (xs ! i)" and "piece_busy (xs ! i) \<Longrightarrow> pc_data p = pc_data (xs ! i)"
  shows "hashing_ok (xs[i := p]) hs"
  by (rule hashing_ok_same [OF assms(1)]) (use assms in \<open>auto simp: nth_list_update\<close>)

lemma hashing_ok_begin:
  assumes "hashing_ok xs hs" and "i < length xs" and "\<not> piece_busy (xs ! i)"
    and "piece_busy p" and "pc_data p = Some d"
  shows "hashing_ok (xs[i := p]) ((i, d) # hs)"
  using assms unfolding hashing_ok_def by (fastforce simp: nth_list_update)

lemma hashing_ok_end:
  assumes "hashing_ok xs hs" and "i < length xs" and "\<not> piece_busy p"
  shows "hashing_ok (xs[i := p]) (filter (\<lambda>(j, _). j \<noteq> i) hs)"
proof -
  have *: "\<forall>(j, d) \<in> set hs. j < length xs \<and> pc_data (xs ! j) = Some d \<and> piece_busy (xs ! j)"
    "\<forall>j < length xs. piece_busy (xs ! j) \<longrightarrow> j \<in> fst ` set hs"
    using assms(1) by (simp_all add: hashing_ok_def)
  have "j \<in> fst ` set (filter (\<lambda>(j, _). j \<noteq> i) hs)" if "j \<in> fst ` set hs" "j \<noteq> i" for j
    using that by force
  then have "\<forall>j < length xs. piece_busy (xs[i := p] ! j) \<longrightarrow> j \<in> fst ` set (filter (\<lambda>(j, _). j \<noteq> i) hs)"
    using *(2) assms(2,3) by (auto simp: nth_list_update)
  moreover have "\<forall>(j, d) \<in> set (filter (\<lambda>(j, _). j \<noteq> i) hs).
      j < length xs \<and> pc_data (xs[i := p] ! j) = Some d \<and> piece_busy (xs[i := p] ! j)"
    using *(1) by (auto simp: nth_list_update)
  ultimately show ?thesis unfolding hashing_ok_def by auto
qed

lemma conf_invD:
  assumes "conf_inv sha1 hashes c"
  shows "pieces_inv sha1 hashes (cf_pieces c)" and "counts_inv (cf_pieces c)"
    and "hashing_ok (ps_pieces (cf_pieces c)) (cf_hashing c)"
  using assms by (simp_all add: conf_inv_def)

lemma run_Op_AddData:
  assumes c: "conf_inv sha1 hashes c" and a: "op_permitted c (Op_AddData i off data peer)"
  shows "\<exists>c'. run_op env sha1 hashes c (Op_AddData i off data peer) = Some c' \<and> conf_inv sha1 hashes c'"
proof -
  let ?ps = "cf_pieces c" and ?hs = "cf_hashing c"
  note inv = conf_invD(1) [OF c] and cnt = conf_invD(2) [OF c] and hok = conf_invD(3) [OF c]
  have i: "unat i < length (ps_pieces ?ps)" and d: "length data < 2147483648"
    using a by (simp_all add: op_permitted_def)
  obtain ps' n b e p' where *: "AddData env ?ps i off data peer = Some (ps', n, b, e)"
    "pieces_inv sha1 hashes ps'" "counts_inv ps'" "ps_pieces ps' = (ps_pieces ?ps)[unat i := p']"
    "busyOrComplete (ps_pieces ?ps ! unat i) \<longrightarrow> p' = ps_pieces ?ps ! unat i"
    "pc_state p' = pc_state (ps_pieces ?ps ! unat i)"
    using AddData_inv [OF inv cnt i d] by blast
  have "hashing_ok (ps_pieces ps') ?hs"
    unfolding *(4) by (rule hashing_ok_put [OF hok i])
      (use *(5,6) in \<open>auto simp: piece_busy_def busyOrComplete_def stateBusy_def\<close>)
  then show ?thesis using * by (simp add: run_op_def conf_inv_def)
qed

lemma run_Op_UpdateTime:
  assumes c: "conf_inv sha1 hashes c" and a: "op_permitted c (Op_UpdateTime now i)"
  shows "\<exists>c'. run_op env sha1 hashes c (Op_UpdateTime now i) = Some c' \<and> conf_inv sha1 hashes c'"
proof -
  let ?ps = "cf_pieces c" and ?hs = "cf_hashing c"
  note inv = conf_invD(1) [OF c] and cnt = conf_invD(2) [OF c] and hok = conf_invD(3) [OF c]
  have i: "unat i < length (ps_pieces ?ps)" using a by (simp add: op_permitted_def)
  obtain ps' b where *: "UpdateTime now ?ps i = Some (ps', b)" "pieces_inv sha1 hashes ps'" "counts_inv ps'"
    "ps_pieces ps' = (ps_pieces ?ps)[unat i := (ps_pieces ?ps ! unat i)
       \<lparr>pc_time := max (pc_time (ps_pieces ?ps ! unat i)) now\<rparr>]"
    using UpdateTime_inv [OF inv cnt i] by blast
  have "hashing_ok (ps_pieces ps') ?hs"
    unfolding *(4) by (rule hashing_ok_put [OF hok i]) (simp_all add: piece_busy_def)
  then show ?thesis using * by (simp add: run_op_def conf_inv_def)
qed

lemma run_Op_Finalise_begin:
  assumes c: "conf_inv sha1 hashes c" and a: "op_permitted c (Op_Finalise_begin i)"
  shows "\<exists>c'. run_op env sha1 hashes c (Op_Finalise_begin i) = Some c' \<and> conf_inv sha1 hashes c'"
proof -
  let ?ps = "cf_pieces c" and ?hs = "cf_hashing c"
  note inv = conf_invD(1) [OF c] and cnt = conf_invD(2) [OF c] and hok = conf_invD(3) [OF c]
  have i: "unat i < length (ps_pieces ?ps)" using a by (simp add: op_permitted_def)
  note b = Finalise_begin_value [OF inv i]
  show ?thesis
  proof (cases "ready ?ps i")
    case True
    have "hashing_ok (ps_pieces (put_piece ?ps i ((ps_pieces ?ps ! unat i)\<lparr>pc_state := 2\<rparr>)))
        ((unat i, piece_bytes (ps_pieces ?ps ! unat i)) # ?hs)"
      unfolding put_piece_def
      using hashing_ok_begin [OF hok i, of "(ps_pieces ?ps ! unat i)\<lparr>pc_state := 2\<rparr>"] b(2) [OF True]
      by (simp add: piece_busy_def stateBusy_def)
    then show ?thesis
      using True b(1) Finalise_begin_inv [OF inv i True] cnt
      by (simp add: run_op_def conf_inv_def)
  next
    case False
    then show ?thesis using b(1) c by (simp add: run_op_def conf_inv_def)
  qed
qed

lemma run_Op_Finalise_end:
  assumes c: "conf_inv sha1 hashes c" and a: "op_permitted c (Op_Finalise_end i)"
    and env: "munmap_ok env"
    and h: "\<And>d. length (sha1 d) = 20" "\<And>i. i < length hashes \<Longrightarrow> length (hashes ! i) = 20"
  shows "\<exists>c'. run_op env sha1 hashes c (Op_Finalise_end i) = Some c' \<and> conf_inv sha1 hashes c'"
proof -
  let ?ps = "cf_pieces c" and ?hs = "cf_hashing c"
  note inv = conf_invD(1) [OF c] and cnt = conf_invD(2) [OF c] and hok = conf_invD(3) [OF c]
  obtain d where d: "map_of ?hs (unat i) = Some d"
    using a by (auto simp: op_permitted_def Let_def dest: weak_map_of_SomeI)
  then have i: "unat i < length (ps_pieces ?ps)" and dat: "pc_data (ps_pieces ?ps ! unat i) = Some d"
    and busy: "piece_busy (ps_pieces ?ps ! unat i)"
    using hok by (auto simp: hashing_ok_def dest: map_of_SomeD)
  have h20: "length (hashes ! unat i) = 20" using h(2) i pieces_invD(2) [OF inv] by simp
  show ?thesis
  proof (cases "sha1 d = hashes ! unat i")
    case True
    note e = Finalise_end_match [OF inv i busy dat h20 True]
    have "hashing_ok ((ps_pieces ?ps)[unat i := (ps_pieces ?ps ! unat i)\<lparr>pc_peers := [], pc_state := 1\<rparr>])
        (filter (\<lambda>(j, _). j \<noteq> unat i) ?hs)"
      by (rule hashing_ok_end [OF hok i]) (simp add: piece_busy_def stateBusy_def)
    then show ?thesis using d e(1,2) e(3) [OF cnt]
      by (simp add: run_op_def conf_inv_def) (simp add: put_piece_def)
  next
    case False
    obtain ps' pl where e: "Finalise_end env ?ps i (sha1 d) (hashes ! unat i) = Some (ps', pl)"
      "pieces_inv sha1 hashes ps'" "counts_inv ps'"
      "ps_pieces ps' = (ps_pieces ?ps)[unat i := cleared (ps_pieces ?ps ! unat i)]"
      using Finalise_end_mismatch [OF inv i busy dat h20 h(1) False env cnt] by blast
    have "hashing_ok (ps_pieces ps') (filter (\<lambda>(j, _). j \<noteq> unat i) ?hs)"
      unfolding e(4) by (rule hashing_ok_end [OF hok i]) (simp add: piece_busy_def stateBusy_def)
    then show ?thesis using d e(1,2,3) by (simp add: run_op_def conf_inv_def)
  qed
qed

lemma run_Op_Expire:
  assumes c: "conf_inv sha1 hashes c" and a: "op_permitted c (Op_Expire now bytes available perm)" and env: "munmap_ok env"
  shows "\<exists>c'. run_op env sha1 hashes c (Op_Expire now bytes available perm) = Some c' \<and> conf_inv sha1 hashes c'"
proof -
  let ?ps = "cf_pieces c" and ?hs = "cf_hashing c"
  note inv = conf_invD(1) [OF c] and cnt = conf_invD(2) [OF c] and hok = conf_invD(3) [OF c]
  have o: "distinct perm" "\<forall>i \<in> set perm. i < length (ps_pieces ?ps)"
    using a by (auto simp: op_permitted_def Let_def)
  let ?ds = "evicted ?ps (Pieces_Bytes ?ps - bytes) (expire_order now ?ps available perm)"
  obtain ps' r where e: "Expire env ?ps now bytes available perm = Some (ps', r)"
    "pieces_inv sha1 hashes ps'" "counts_inv ps'"
    "ps_pieces ps' = map (\<lambda>j. if j \<in> set ?ds then cleared (ps_pieces ?ps ! j) else ps_pieces ?ps ! j)
       [0..<length (ps_pieces ?ps)]"
    using Expire_spec [OF inv cnt env o] by blast
  have "deletable (ps_pieces ?ps ! j)" if "j \<in> set ?ds" for j
    using that by (auto simp: evicted_def dest!: in_set_takeD)
  then have "hashing_ok (ps_pieces ps') ?hs"
    unfolding e(4) by (intro hashing_ok_same [OF hok])
      (auto simp: deletable_def piece_busy_def stateBusy_def)
  then show ?thesis using e(1,2,3) by (simp add: run_op_def conf_inv_def)
qed

lemma run_Op_Del:
  assumes c: "conf_inv sha1 hashes c" and a: "op_permitted c (Op_Del)" and env: "munmap_ok env"
  shows "\<exists>c'. run_op env sha1 hashes c (Op_Del) = Some c' \<and> conf_inv sha1 hashes c'"
proof -
  let ?ps = "cf_pieces c" and ?hs = "cf_hashing c"
  note inv = conf_invD(1) [OF c] and cnt = conf_invD(2) [OF c] and hok = conf_invD(3) [OF c]
  have hs: "?hs = []" using a by (simp add: op_permitted_def)
  then have nb: "\<forall>i < length (ps_pieces ?ps). \<not> piece_busy (ps_pieces ?ps ! i)"
    using hok by (auto simp: hashing_ok_def)
  obtain ps' where e: "Pieces_Del env ?ps = Some (Del_finished ps')"
    "pieces_inv sha1 hashes ps'" "counts_inv ps'" "length (ps_pieces ps') = length (ps_pieces ?ps)"
    "\<forall>j < length (ps_pieces ?ps). \<not> piece_busy (ps_pieces ps' ! j)"
    using Del_loop_spec [OF inv cnt env nb, of "[0..<length (ps_pieces ?ps)]"]
    unfolding Pieces_Del_def by auto
  then have "hashing_ok (ps_pieces ps') ?hs" using hs by (simp add: hashing_ok_def)
  then show ?thesis using e(1,2,3) by (simp add: run_op_def conf_inv_def)
qed

lemma run_op_progress:
  assumes "conf_inv sha1 hashes c" and "op_permitted c a" and "munmap_ok env"
    and "\<And>d. length (sha1 d) = 20" "\<And>i. i < length hashes \<Longrightarrow> length (hashes ! i) = 20"
  shows "\<exists>c'. run_op env sha1 hashes c a = Some c' \<and> conf_inv sha1 hashes c'"
  using assms
  by (cases a) (metis run_Op_AddData, metis run_Op_UpdateTime, metis run_Op_Finalise_begin,
      metis run_Op_Finalise_end, metis run_Op_Expire, metis run_Op_Del)

text \<open>
  What the machine takes from outside the package: \<^verbatim>\<open>munmap\<close> of memory that was mapped
  succeeds, and hashes, the computed ones and those of the torrent, have 20 bytes.
\<close>

definition pieces_env :: "sysenv \<Rightarrow> (byte list \<Rightarrow> hash) \<Rightarrow> hash list \<Rightarrow> bool" where
  "pieces_env env sha1 hashes \<longleftrightarrow>
     munmap_ok env \<and> (\<forall>d. length (sha1 d) = 20) \<and> list_all (\<lambda>h. length h = 20) hashes"

interpretation pm: machine op_permitted "run_op env sha1 hashes"
  "\<lambda>c. pieces_env env sha1 hashes \<and> conf_inv sha1 hashes c" for env sha1 hashes
proof
  fix c a assume "pieces_env env sha1 hashes \<and> conf_inv sha1 hashes c" "op_permitted c a"
  then show "\<exists>c'. run_op env sha1 hashes c a = Some c' \<and> pieces_env env sha1 hashes \<and> conf_inv sha1 hashes c'"
    using run_op_progress [of sha1 hashes c a env] by (auto simp: pieces_env_def list_all_length)
qed

abbreviation piece_reach where
  "piece_reach env sha1 hashes \<equiv> reachable op_permitted (run_op env sha1 hashes)"

subsection \<open>The initial state\<close>

lemma Pieces_MetadataComplete_init:
  assumes "psize \<noteq> 0" "unat psize mod 16384 = 0" "0 \<le> len"
    and n: "(nat len + unat psize - 1) div unat psize < 4294967296"
    and h: "length hashes = (nat len + unat psize - 1) div unat psize"
  shows "\<exists>ps. Pieces_MetadataComplete empty_pieces psize len = Some ps \<and> ps_deleted ps = False \<and>
    ps_length ps = len \<and> ps_pieceSize ps = psize \<and> set (ps_pieces ps) \<subseteq> {empty_piece} \<and>
    pieces_inv sha1 hashes ps \<and> counts_inv ps"
proof -
  let ?n = "(nat len + unat psize - 1) div unat psize"
  have pos: "0 < unat psize" using assms(1) by (simp add: unat_gt_0)
  have "uint (psize - 1) = int (unat psize - 1)"
    using pos by (metis One_nat_def Suc_leI uint_nat unat_1 unat_sub_u32)
  then have sum: "len + uint (psize - 1) = int (nat len + unat psize - 1)" using assms(3) pos by linarith
  have num: "(len + uint (psize - 1)) sdiv uint psize = int ?n"
    unfolding sum by (subst sdiv_word [OF _ pos]) simp_all
  let ?ps = "empty_pieces\<lparr>ps_pieces := replicate ?n empty_piece, ps_pieceSize := psize, ps_length := len\<rparr>"
  have "Pieces_MetadataComplete empty_pieces psize len = Some ?ps"
    using assms(1) num by (simp add: Pieces_MetadataComplete_def empty_pieces_def)
  moreover have "pieces_inv sha1 hashes ?ps"
    using assms by (intro pieces_invI) (simp_all add: geometry_def piece_ok_def empty_piece_def bitset_simps)
  moreover have "counts_inv ?ps"
    by (simp add: counts_inv_def empty_pieces_def empty_piece_def has_data_def piece_bytes_def sum_list_replicate)
  ultimately show ?thesis by (auto simp: empty_pieces_def)
qed

lemma conf_inv_init:
  assumes "pieces_inv sha1 hashes ps" "counts_inv ps" "set (ps_pieces ps) \<subseteq> {empty_piece}"
  shows "conf_inv sha1 hashes \<lparr>cf_pieces = ps, cf_hashing = []\<rparr>"
proof -
  have "\<not> piece_busy (ps_pieces ps ! i)" if "i < length (ps_pieces ps)" for i
    using assms(3) nth_mem [OF that] by (auto simp: piece_busy_def empty_piece_def stateBusy_def)
  then show ?thesis using assms by (simp add: conf_inv_def hashing_ok_def)
qed

subsection \<open>Del during a failed verification\<close>

text \<open>
  \<^verbatim>\<open>Del\<close> that waits for a busy piece does not look again at the data of the piece. When the
  verification it waits for fails, the piece is gone, and it is counted down twice.
\<close>

lemma Del_after_mismatch:
  assumes inv: "pieces_inv sha1 hashes ps" and i: "unat i < length (ps_pieces ps)"
    and b: "piece_busy (ps_pieces ps ! unat i)" and d: "pc_data (ps_pieces ps ! unat i) = Some d"
    and h: "length (hashes ! unat i) = 20" "length (sha1 d) = 20" and ne: "sha1 d \<noteq> hashes ! unat i"
    and env: "munmap_ok env" and cnt: "counts_inv ps" "ps_count ps = 1"
  shows "\<exists>ps' r. Finalise_end env ps i (sha1 d) (hashes ! unat i) = Some (ps', r) \<and>
    Del_resume env ps' (unat i # js) = None"
proof -
  obtain ps' r where ps': "Finalise_end env ps i (sha1 d) (hashes ! unat i) = Some (ps', r)"
    "pieces_inv sha1 hashes ps'" "counts_inv ps'"
    "ps_pieces ps' = (ps_pieces ps)[unat i := cleared (ps_pieces ps ! unat i)]"
    using Finalise_end_mismatch [OF inv i b d h ne env cnt(1)] by blast
  have w: "of_nat (unat i) = i" by simp
  have "length (filter has_data (ps_pieces ps)) = 1" using cnt unfolding counts_inv_def by linarith
  moreover have "length (filter has_data ((ps_pieces ps)[unat i := cleared (ps_pieces ps ! unat i)]))
      < length (filter has_data (ps_pieces ps))"
    using i d by (subst (2) id_take_nth_drop [OF i]) (simp add: upd_conv_take_nth_drop has_data_def)
  ultimately have "ps_count ps' = 0" using ps'(3,4) unfolding counts_inv_def by simp
  moreover have "\<not> piece_busy (ps_pieces ps' ! unat i)" "unat i < length (ps_pieces ps')"
    using ps'(4) i by (simp_all add: piece_busy_def stateBusy_def)
  ultimately have "del_body env ps' i = None"
    using del_body_value [OF ps'(2) _ _ env, of i] by simp
  then show ?thesis using ps'(1) by (cases r) (simp add: Del_resume_def w)
qed

end
