(* ===== verification/Piece_Props.thy ===== *)
theory Piece_Props
  imports Piece_Runs "HOL-Library.Sublist"
begin

section \<open>Properties of the contents\<close>

text \<open>
  The properties of \<^verbatim>\<open>piece.Pieces\<close>, each with an instance on a torrent of five bytes in
  one piece of 16 kB.
\<close>

definition ex_env :: sysenv where
  "ex_env = \<lparr>mmap_ok = True, munmap_ok = True\<rparr>"

text \<open>A hash function for the examples: the first 20 bytes.\<close>

definition ex_sha1 :: "byte list \<Rightarrow> hash" where
  "ex_sha1 d = take 20 (d @ replicate 20 0)"

definition ex_hashes :: "hash list" where
  "ex_hashes = [ex_sha1 [1, 2, 3, 4, 5]]"

definition ex_conf :: conf where
  "ex_conf = \<lparr>cf_pieces = the (Pieces_MetadataComplete empty_pieces 16384 5), cf_hashing = []\<rparr>"

definition ex_after :: "piece_op list \<Rightarrow> conf" where
  "ex_after as = the (run_ops (run_op ex_env ex_sha1 ex_hashes) ex_conf as)"

definition ex_complete :: "piece_op list" where
  "ex_complete = [Op_AddData 0 0 [1, 2, 3, 4, 5] 7, Op_Finalise_begin 0, Op_Finalise_end 0]"

lemma ex_sha1_20: "length (ex_sha1 d) = 20"
  by (simp add: ex_sha1_def)

lemma ex_pieces_env: "pieces_env ex_env ex_sha1 ex_hashes"
  by (simp add: pieces_env_def ex_sha1_20 ex_env_def ex_hashes_def)

lemma ex_conf_inv: "conf_inv ex_sha1 ex_hashes ex_conf"
  by code_simp

lemma ex_reach:
  assumes "permitted_ops op_permitted (run_op ex_env ex_sha1 ex_hashes) ex_conf as"
    and "run_ops (run_op ex_env ex_sha1 ex_hashes) ex_conf as \<noteq> None"
  shows "piece_reach ex_env ex_sha1 ex_hashes ex_conf (ex_after as)"
  using assms run_ops_reachable unfolding ex_after_def by fastforce

text \<open>
  C1. Only verified data is read. Whatever the goroutines did before, in any order, a read
  inside the torrent does not panic and does not report the end of the file. It returns
  nothing unless the piece is complete, and then the rest of a block \<open>d\<close>, cut at the size of
  the buffer, where \<open>d\<close> has the length of the piece and the hash that the metadata has for it.
\<close>

theorem reads_are_verified:
  assumes "pieces_env env sha1 hashes" and "conf_inv sha1 hashes c" and "piece_reach env sha1 hashes c c'"
    and "0 \<le> off" and "off < ps_length (cf_pieces c')"
  defines "i \<equiv> nat off div unat (ps_pieceSize (cf_pieces c'))"
    and "b \<equiv> nat off mod unat (ps_pieceSize (cf_pieces c'))"
  shows "i < length (ps_pieces (cf_pieces c')) \<and> b < piece_len (cf_pieces c') i \<and>
    (if piece_complete (ps_pieces (cf_pieces c') ! i)
     then \<exists>d. sha1 d = hashes ! i \<and> length d = piece_len (cf_pieces c') i \<and>
            ReadAt (cf_pieces c') n off = Some (take n (drop b d), False)
     else ReadAt (cf_pieces c') n off = Some ([], False))"
proof -
  have "pieces_inv sha1 hashes (cf_pieces c')"
    using pm.reach_inv [OF assms(3)] assms(1,2) by (simp add: conf_inv_def)
  from ReadAt_value [OF this assms(4,5)] ReadAt_position [OF pieces_invD(1) [OF this] assms(4,5)]
  show ?thesis unfolding i_def b_def by auto
qed

theorem reads_are_verified_witness:
  "\<exists>d. ex_sha1 d = ex_hashes ! 0 \<and> length d = 5 \<and>
     ReadAt (cf_pieces (ex_after ex_complete)) 2 3 = Some (take 2 (drop 3 d), False)"
proof -
  have "permitted_ops op_permitted (run_op ex_env ex_sha1 ex_hashes) ex_conf ex_complete"
    and "run_ops (run_op ex_env ex_sha1 ex_hashes) ex_conf ex_complete \<noteq> None"
    by code_simp+
  then have r: "piece_reach ex_env ex_sha1 ex_hashes ex_conf (ex_after ex_complete)"
    by (rule ex_reach)
  have v: "3 < ps_length (cf_pieces (ex_after ex_complete))"
    "ps_pieceSize (cf_pieces (ex_after ex_complete)) = 16384"
    "piece_complete (ps_pieces (cf_pieces (ex_after ex_complete)) ! 0)"
    "piece_len (cf_pieces (ex_after ex_complete)) 0 = 5"
    by code_simp+
  then show ?thesis
    using reads_are_verified [OF ex_pieces_env ex_conf_inv r, of 3 2] by simp
qed

text \<open>
  C8. Nothing panics and the counters are exact. In every state that the goroutines reach,
  every operation they may perform runs to its end; afterwards the count is the number of
  pieces with data and the bytes allocated are the bytes the pieces hold, so that
  nothing is leaked or freed twice. They call the operations with indices of pieces that exist and with less than
  2 GB of data, and \<^verbatim>\<open>Del\<close> not while a piece is being hashed; \<^verbatim>\<open>munmap\<close> does not fail.
\<close>

theorem operations_never_panic:
  assumes "pieces_env env sha1 hashes" and "conf_inv sha1 hashes c" and "piece_reach env sha1 hashes c c'"
    and "op_permitted c' a"
  shows "\<exists>c''. run_op env sha1 hashes c' a = Some c'' \<and> conf_inv sha1 hashes c'' \<and>
    Pieces_Count (cf_pieces c'') = int (length (filter (\<lambda>p. pc_data p \<noteq> None) (ps_pieces (cf_pieces c'')))) \<and>
    ps_allocated (cf_pieces c'') = (\<Sum>p \<leftarrow> ps_pieces (cf_pieces c''). int (length (piece_bytes p)))"
proof -
  have "conf_inv sha1 hashes c'" using pm.reach_inv [OF assms(3)] assms(1,2) by simp
  then obtain c'' where "run_op env sha1 hashes c' a = Some c''" "conf_inv sha1 hashes c''"
    using pm.progress [of env sha1 hashes c' a] assms(1,4) by blast
  then show ?thesis by (auto simp: conf_inv_def counts_inv_def Pieces_Count_def has_data_def [abs_def])
qed

theorem operations_never_panic_witness:
  "\<exists>c''. run_op ex_env ex_sha1 ex_hashes (ex_after ex_complete) (Op_Expire 9 0 [] [0]) = Some c'' \<and>
     Pieces_Count (cf_pieces c'') = int (length (filter (\<lambda>p. pc_data p \<noteq> None) (ps_pieces (cf_pieces c''))))"
proof -
  have "permitted_ops op_permitted (run_op ex_env ex_sha1 ex_hashes) ex_conf ex_complete"
    and "run_ops (run_op ex_env ex_sha1 ex_hashes) ex_conf ex_complete \<noteq> None"
    and p: "op_permitted (ex_after ex_complete) (Op_Expire 9 0 [] [0])"
    by code_simp+
  then have "piece_reach ex_env ex_sha1 ex_hashes ex_conf (ex_after ex_complete)"
    by (intro ex_reach)
  from operations_never_panic [OF ex_pieces_env ex_conf_inv this p] show ?thesis by blast
qed

text \<open>
  C15. What \<^verbatim>\<open>AddData\<close> does, under the invariant. It refuses, and changes nothing, exactly in
  the cases of \<open>AddData_refuses\<close>. Otherwise it takes the rest of the piece if all of it is
  offered and whole chunks if not; the chunks they cover become present, the absent ones with
  the bytes offered for them, and all the other chunks and pieces stay as they are; it
  answers the number of bytes taken and whether the piece now has all of its chunks.
\<close>

theorem AddData_correct:
  assumes inv: "pieces_inv sha1 hashes ps" and i: "unat index < length (ps_pieces ps)"
    and data: "length data < 2147483648"
  defines "len \<equiv> piece_len ps (unat index)"
  shows "case AddData_refuses env ps index off of
      Some e \<Rightarrow> AddData env ps index off data peer = Some (ps, 0, False, e)
    | None \<Rightarrow>
        (let n = taken (len - unat off) (length data)
         in \<exists>ps' p'. AddData env ps index off data peer
                = Some (ps', of_nat n, list_all (bitmap_Get (pc_bitmap p')) [0..<n_chunks len], None) \<and>
              ps_pieces ps' = (ps_pieces ps)[unat index := p'] \<and>
              added_piece len (unat off) n data (ps_pieces ps ! unat index) p')"
proof (cases "AddData_refuses env ps index off")
  case None
  let ?n = "taken (len - unat off) (length data)" and ?p = "ps_pieces ps ! unat index"
  obtain p' where res: "AddData env ps index off data peer =
       Some (put_piece
               (if has_data ?p then ps
                else ps\<lparr>ps_allocated := ps_allocated ps + int len, ps_count := ps_count ps + 1\<rparr>) index p',
             of_nat ?n, bitmap_All (pc_bitmap p') (n_chunks len), None)"
    and add: "added_piece len (unat off) ?n data ?p p'"
    using AddData_accepts [OF inv i None data] unfolding len_def by metis
  have "unat off < len" "pc_state ?p = 0"
    using None by (auto simp: AddData_refuses_def Let_def busyOrComplete_def len_def split: if_splits)
  then have "piece_ok sha1 (hashes ! unat index) len p'"
    using taken_le(2) [of "len - unat off" "length data"] pieces_invD(3) [OF inv i]
    by (intro added_piece_ok [OF _ _ add]) (auto simp: len_def)
  then have "bitmap_All (pc_bitmap p') (n_chunks len) = list_all (bitmap_Get (pc_bitmap p')) [0..<n_chunks len]"
    using bitmap_All_exact [of "pc_bitmap p'" "n_chunks len"] add
    by (auto simp: piece_ok_def added_piece_def bitmap_Len_le_iff list_all_iff)
  then show ?thesis using None res add by (auto simp: Let_def put_piece_def)
next
  case (Some e)
  then show ?thesis using AddData_refused [OF pieces_invD(1) [OF inv] i] by simp
qed

theorem AddData_correct_witness:
  "\<exists>ps' p'. AddData ex_env (cf_pieces ex_conf) 0 0 [1, 2, 3, 4, 5, 6] 3 =
       Some (ps', 5, list_all (bitmap_Get (pc_bitmap p')) [0..<1], None) \<and>
     ps_pieces ps' = [p'] \<and>
     added_piece 5 0 5 [1, 2, 3, 4, 5, 6] empty_piece p'"
proof -
  have "AddData_refuses ex_env (cf_pieces ex_conf) 0 0 = None"
    and "ps_pieces (cf_pieces ex_conf) = [empty_piece]"
    and "piece_len (cf_pieces ex_conf) 0 = 5" and "n_chunks 5 = 1" and "taken 5 (Suc (Suc (Suc (Suc (Suc (Suc 0)))))) = 5"
    by code_simp+
  then show ?thesis
    using AddData_correct [OF conf_invD(1) [OF ex_conf_inv], where index = 0 and off = 0
        and data = "[1, 2, 3, 4, 5, 6]" and env = ex_env and peer = 3]
    by (simp add: Let_def)
qed

text \<open>
  C16. What \<^verbatim>\<open>Finalise\<close> does when no other goroutine interferes. On a piece that is not
  ready (busy or complete, deleted, or with missing chunks) it does nothing. Otherwise the
  piece becomes complete if its hash is \<open>h\<close>; if not, its data is discarded, the peers
  that sent it are reported and the piece can be downloaded again.
\<close>

theorem Finalise_correct:
  assumes inv: "pieces_inv sha1 hashes ps" and cnt: "counts_inv ps" and env: "pieces_env env sha1 hashes"
    and i: "unat index < length (ps_pieces ps)"
  defines "p \<equiv> ps_pieces ps ! unat index" and "h \<equiv> hashes ! unat index"
  shows "\<exists>ps'. pieces_inv sha1 hashes ps' \<and> counts_inv ps' \<and>
    (if \<not> ready ps index
     then ps' = ps \<and> Finalise env sha1 ps index h =
       Some (ps, False, [], if \<not> busyOrComplete p \<and> ps_deleted ps then Some ErrDeleted else None)
     else if sha1 (piece_bytes p) = h
     then Finalise env sha1 ps index h = Some (ps', True, pc_peers p, None) \<and>
       ps_pieces ps' = (ps_pieces ps)[unat index := p\<lparr>pc_peers := [], pc_state := stateComplete\<rparr>]
     else Finalise env sha1 ps index h = Some (ps', False, pc_peers p, Some ErrHashMismatch) \<and>
       ps_pieces ps' = (ps_pieces ps)[unat index := empty_piece\<lparr>pc_time := pc_time p\<rparr>])"
proof (cases "ready ps index")
  case False
  then show ?thesis using Finalise_begin_value(1) [OF inv i, folded p_def] inv cnt by (simp add: Finalise_def)
next
  case True
  have h20: "length h = 20" "length (sha1 (piece_bytes p)) = 20" "munmap_ok env"
    using env i pieces_invD(2) [OF inv] by (simp_all add: pieces_env_def list_all_length h_def)
  obtain ps1 where ps1: "pieces_inv sha1 hashes ps1" "counts_inv ps1" "unat index < length (ps_pieces ps1)"
      "piece_busy (ps_pieces ps1 ! unat index)" "pc_data (ps_pieces ps1 ! unat index) = Some (piece_bytes p)"
    and eq: "ps_pieces ps1 = (ps_pieces ps)[unat index := p\<lparr>pc_state := 2\<rparr>]"
    and fin: "Finalise env sha1 ps index h = Finalise_end env ps1 index (sha1 (piece_bytes p)) h"
    using Finalise_ready [OF inv cnt i True, folded p_def] by metis
  have at: "ps_pieces ps1 ! unat index = p\<lparr>pc_state := 2\<rparr>" using eq i by simp
  show ?thesis
  proof (cases "sha1 (piece_bytes p) = h")
    case hm: True
    note e = Finalise_end_match [OF ps1(1,3-5) h20(1) [unfolded h_def] hm [unfolded h_def], folded h_def]
    show ?thesis
      using True hm fin e(1,2) e(3) [OF ps1(2)] eq i
      by (auto simp: at stateComplete_def put_piece_def)
  next
    case False
    show ?thesis
      using True False fin eq i
        Finalise_end_mismatch [OF ps1(1,3-5) h20(1) [unfolded h_def] h20(2)
          False [unfolded h_def] h20(3) ps1(2), folded h_def]
      by (auto simp: at cleared_def)
  qed
qed

theorem Finalise_correct_witness:
  "\<exists>ps'. Finalise ex_env ex_sha1 (cf_pieces (ex_after [Op_AddData 0 0 [9, 2, 3, 4, 5] 7])) 0 (ex_hashes ! 0) =
       Some (ps', False, [7], Some ErrHashMismatch) \<and>
     ps_pieces ps' = [empty_piece]"
proof -
  let ?ps = "cf_pieces (ex_after [Op_AddData 0 0 [9, 2, 3, 4, 5] 7])"
  have "ready ?ps 0" and "ex_sha1 (piece_bytes (ps_pieces ?ps ! 0)) \<noteq> ex_hashes ! 0"
    and "pieces_inv ex_sha1 ex_hashes ?ps" and "counts_inv ?ps"
    and "length (ps_pieces ?ps) = 1" and "pc_peers (ps_pieces ?ps ! 0) = [7]"
    and "(ps_pieces ?ps)[0 := empty_piece\<lparr>pc_time := pc_time (ps_pieces ?ps ! 0)\<rparr>] = [empty_piece]"
    by code_simp+
  then show ?thesis
    using Finalise_correct [OF _ _ ex_pieces_env, of ?ps 0] by auto
qed

text \<open>
  What \<^verbatim>\<open>Hole\<close> answers, under the invariant: nothing to fetch when the piece is busy or
  complete or has no missing chunk from the offset on; otherwise the first maximal run of
  missing chunks, in bytes, cut at the end of the piece.
\<close>

theorem Hole_correct:
  assumes "pieces_inv sha1 hashes ps" and "unat index < length (ps_pieces ps)"
  shows "if busyOrComplete (ps_pieces ps ! unat index) \<or> (\<forall>c \<ge> unat offset div 16384. \<not> missing ps (unat index) c)
    then Hole ps index offset = Some (- 1, - 1)
    else \<exists>off len. Hole ps index offset = Some (off, len) \<and>
           is_hole ps (unat index) (unat offset) (unat off) (unat len)"
proof -
  have "missing ps (unat index) (off div 16384)" "unat offset div 16384 \<le> off div 16384"
    if "is_hole ps (unat index) (unat offset) off len" for off len
    using that by (auto simp: is_hole_def)
  with Hole_spec [OF assms, of offset] show ?thesis by fastforce
qed

theorem Hole_correct_witness:
  "\<exists>off len. Hole (cf_pieces ex_conf) 0 3 = Some (off, len) \<and>
     is_hole (cf_pieces ex_conf) 0 3 (unat off) (unat len)"
proof -
  have "\<not> busyOrComplete (ps_pieces (cf_pieces ex_conf) ! 0)" and "missing (cf_pieces ex_conf) 0 0"
    and "length (ps_pieces (cf_pieces ex_conf)) = 1"
    by code_simp+
  then show ?thesis
    using Hole_correct [OF conf_invD(1) [OF ex_conf_inv], of 0 3] by (auto split: if_splits)
qed

text \<open>
  C33. What \<^verbatim>\<open>Expire\<close> does, under the invariant, for any outcome of \<^verbatim>\<open>rand.Perm\<close>. It goes over the
  pieces in an order sorted by its comparison, deletes the first of them that hold data and
  are not being hashed, and calls back for the complete ones among them; the estimate of the memory used comes down to
  the target unless there is nothing left to delete, and it deletes no piece that is not
  needed for that.
\<close>

theorem Expire_correct:
  assumes inv: "pieces_inv sha1 hashes ps" and cnt: "counts_inv ps" and env: "munmap_ok env"
    and perm: "distinct perm" "set perm = {..<length (ps_pieces ps)}"
  shows "\<exists>ps' ds order. Expire env ps now bytes available perm =
      Some (ps', length ds, map of_nat (filter (\<lambda>i. piece_complete (ps_pieces ps ! i)) ds)) \<and>
    mset order = mset perm \<and> sorted_wrt (\<lambda>i j. expire_cmp (piece_ages now ps) available i j \<le> 0) order \<and>
    prefix ds (filter (\<lambda>i. pc_data (ps_pieces ps ! i) \<noteq> None \<and> \<not> piece_busy (ps_pieces ps ! i)) order) \<and>
    ps_pieces ps' = map (\<lambda>j. if j \<in> set ds then cleared (ps_pieces ps ! j) else ps_pieces ps ! j)
      [0..<length (ps_pieces ps)] \<and>
    pieces_inv sha1 hashes ps' \<and> counts_inv ps' \<and>
    (Pieces_Bytes ps' \<le> bytes \<or> (\<forall>p \<in> set (ps_pieces ps'). pc_data p = None \<or> piece_busy p)) \<and>
    (ds \<noteq> [] \<longrightarrow> bytes < Pieces_Bytes ps' + uint (ps_pieceSize ps))"
proof -
  let ?order = "expire_order now ps available perm"
  let ?ds = "evicted ps (Pieces_Bytes ps - bytes) ?order"
  have r: "\<forall>i \<in> set perm. i < length (ps_pieces ps)" and s: "set ?order = {..<length (ps_pieces ps)}"
    using perm(2) by (auto simp: expire_order_def)
  obtain ps' where ps': "Expire env ps now bytes available perm =
      Some (ps', length ?ds, map of_nat (filter (\<lambda>i. piece_complete (ps_pieces ps ! i)) ?ds))"
    "pieces_inv sha1 hashes ps'" "counts_inv ps'"
    "Pieces_Bytes ps' = Pieces_Bytes ps - int (length ?ds) * uint (ps_pieceSize ps)"
    "ps_pieces ps' = map (\<lambda>j. if j \<in> set ?ds then cleared (ps_pieces ps ! j) else ps_pieces ps ! j)
       [0..<length (ps_pieces ps)]"
    using Expire_spec [OF inv cnt env perm(1) r] by blast
  note en = evicted_enough [OF pieces_invD(1) [OF inv] s, where todo = "Pieces_Bytes ps - bytes"]
  have "Pieces_Bytes ps' \<le> bytes \<or> (\<forall>p \<in> set (ps_pieces ps'). pc_data p = None \<or> piece_busy p)"
    using en(1) unfolding ps'(4,5) by (auto simp: deletable_def has_data_def)
  moreover have "?ds \<noteq> [] \<longrightarrow> bytes < Pieces_Bytes ps' + uint (ps_pieceSize ps)"
    using en(2) [of "length ?ds - 1"] unfolding ps'(4)
    by (cases ?ds rule: rev_cases) (auto simp: algebra_simps)
  moreover have "prefix ?ds (filter (\<lambda>i. pc_data (ps_pieces ps ! i) \<noteq> None \<and> \<not> piece_busy (ps_pieces ps ! i)) ?order)"
    unfolding evicted_def deletable_def has_data_def by (rule take_is_prefix)
  ultimately show ?thesis
    using ps'(1,2,3,5) sorted_expire_order [of now ps available perm, unfolded expire_le_def]
    by (intro exI [of _ ps'] exI [of _ ?ds] exI [of _ ?order]) (simp add: expire_order_def)
qed

theorem Expire_correct_witness:
  "\<exists>ps' ds. Expire ex_env (cf_pieces (ex_after ex_complete)) 9 0 [] [0] =
     Some (ps', length ds, map of_nat (filter (\<lambda>i. piece_complete (ps_pieces (cf_pieces (ex_after ex_complete)) ! i)) ds)) \<and>
     (Pieces_Bytes ps' \<le> 0 \<or> (\<forall>p \<in> set (ps_pieces ps'). pc_data p = None \<or> piece_busy p))"
proof -
  let ?ps = "cf_pieces (ex_after ex_complete)"
  have "pieces_inv ex_sha1 ex_hashes ?ps" and "counts_inv ?ps" and "munmap_ok ex_env"
    and "length (ps_pieces ?ps) = 1"
    by code_simp+
  then show ?thesis using Expire_correct [of ex_sha1 ex_hashes ?ps ex_env "[0]" 9 0 "[]"] by auto
qed

text \<open>
  The comparison that \<^verbatim>\<open>Expire\<close> gives to \<^verbatim>\<open>slices.SortFunc\<close> is a total preorder, as that
  function requires: comparing the other way round changes the sign, and being at most 0 is
  transitive.
\<close>

theorem expire_order_is_preorder:
  "expire_cmp t av j i = - expire_cmp t av i j \<and>
   {(i, k). expire_cmp t av i k \<le> 0} O {(k, j). expire_cmp t av k j \<le> 0} \<subseteq> {(i, j). expire_cmp t av i j \<le> 0}"
proof -
  have "{(i, k). expire_cmp t av i k \<le> 0} O {(k, j). expire_cmp t av k j \<le> 0} \<subseteq> {(i, j). expire_cmp t av i j \<le> 0}"
    using expire_le_trans unfolding expire_le_def by blast
  then show ?thesis using expire_cmp_antisym [of t av j i] by simp
qed

lemma sum_pieces:
  assumes g: "geometry ps"
  shows "n * unat (ps_pieceSize ps) \<le> nat (ps_length ps) + unat (ps_pieceSize ps) - 1 \<Longrightarrow>
    (\<Sum>i < n. piece_len ps i) = min (n * unat (ps_pieceSize ps)) (nat (ps_length ps))"
proof (induction n)
  case (Suc n)
  have "0 < unat (ps_pieceSize ps)" using g by (rule geometry_pos)
  with Suc.prems have lt: "n * unat (ps_pieceSize ps) < nat (ps_length ps)"
    unfolding mult_Suc by linarith
  then have "(\<Sum>i < n. piece_len ps i) = n * unat (ps_pieceSize ps)" using Suc by simp
  moreover have "min (Suc n * unat (ps_pieceSize ps)) (nat (ps_length ps))
      = n * unat (ps_pieceSize ps) + piece_len ps n"
    unfolding piece_len_def mult_Suc using lt by linarith
  ultimately show ?case by simp
qed simp

text \<open>
  The lengths that \<^verbatim>\<open>PieceLength\<close> gives to the pieces are never more than the piece size,
  are 0 for no piece, and add up to the length of the torrent.
\<close>

theorem PieceLength_partition:
  assumes g: "geometry ps"
  shows "(\<Sum>i < length (ps_pieces ps). unat (the (PieceLength ps (of_nat i)))) = nat (ps_length ps) \<and>
    (\<forall>i < length (ps_pieces ps). \<exists>l. PieceLength ps (of_nat i) = Some l \<and> 0 < l \<and> l \<le> ps_pieceSize ps)"
proof -
  let ?S = "unat (ps_pieceSize ps)" and ?n = "length (ps_pieces ps)"
  have pl: "PieceLength ps (of_nat i) = Some (of_nat (piece_len ps i))" if "i < ?n" for i
    using PieceLength_value [OF g, of "of_nat i"] unat_index_u32 [OF g that] by simp
  have n: "?n = (nat (ps_length ps) + ?S - 1) div ?S" using g by (simp add: geometry_def)
  have S: "0 < ?S" using g by (rule geometry_pos)
  have "nat (ps_length ps) + ?S - 1 < Suc ?n * ?S"
    unfolding n using dividend_less_div_times [OF S] by (simp add: add.commute)
  then have "nat (ps_length ps) \<le> ?n * ?S" unfolding mult_Suc using S by linarith
  moreover have "(\<Sum>i < ?n. piece_len ps i) = min (?n * ?S) (nat (ps_length ps))"
    by (rule sum_pieces [OF g]) (simp add: n)
  moreover have "(\<Sum>i < ?n. unat (the (PieceLength ps (of_nat i)))) = (\<Sum>i < ?n. piece_len ps i)"
    by (rule sum.cong) (simp_all add: pl piece_len_u32)
  moreover have "0 < (of_nat (piece_len ps i) :: u32)" "of_nat (piece_len ps i) \<le> ps_pieceSize ps" if "i < ?n" for i
    using geometry_piece_pos(2) [OF g that] piece_len_le [of ps i]
    by (simp_all add: unat_less_iff_u32 unat_le_iff_u32 piece_len_u32)
  ultimately show ?thesis using pl by auto
qed

theorem PieceLength_partition_witness:
  "(\<Sum>i < 1. unat (the (PieceLength (cf_pieces ex_conf) (of_nat i)))) = 5"
proof -
  have "geometry (cf_pieces ex_conf)" and "length (ps_pieces (cf_pieces ex_conf)) = 1"
    and "ps_length (cf_pieces ex_conf) = 5"
    by code_simp+
  then show ?thesis using PieceLength_partition [of "cf_pieces ex_conf"] by simp
qed

text \<open>
  C40. A flaw: \<^verbatim>\<open>Del\<close> waiting for a piece whose verification then fails. When that piece is the
  only one with data, \<^verbatim>\<open>Finalise\<close> discards it, and \<^verbatim>\<open>del\<close>, which does not look again whether
  there is data, counts it down a second time and panics.
\<close>

theorem Del_panics_after_mismatch:
  assumes "pieces_inv sha1 hashes ps" and "counts_inv ps" and "pieces_env env sha1 hashes"
    and i: "unat i < length (ps_pieces ps)" and busy: "piece_busy (ps_pieces ps ! unat i)"
    and bad: "sha1 (piece_bytes (ps_pieces ps ! unat i)) \<noteq> hashes ! unat i" and one: "Pieces_Count ps = 1"
  shows "del_enter env ps i True = Some Del_waits \<and>
    (\<exists>ps' r. Finalise_end env ps i (sha1 (piece_bytes (ps_pieces ps ! unat i))) (hashes ! unat i) = Some (ps', r) \<and>
       Del_resume env ps' (unat i # js) = None)"
proof -
  have d: "pc_data (ps_pieces ps ! unat i) = Some (piece_bytes (ps_pieces ps ! unat i))"
    using pieces_invD(3) [OF assms(1) i] busy
    by (auto simp: piece_ok_def piece_busy_def stateBusy_def piece_bytes_def split: option.splits)
  have "length (hashes ! unat i) = 20"
    using assms(3) i pieces_invD(2) [OF assms(1)] by (simp add: pieces_env_def list_all_length)
  then show ?thesis
    using Del_after_mismatch [OF assms(1) i busy d _ _ bad _ assms(2)] assms(3) one d i busy
    by (simp add: pieces_env_def Pieces_Count_def del_enter_def piece_at_def)
qed

theorem Del_panics_after_mismatch_witness:
  "\<exists>ps' r. Finalise_end ex_env (cf_pieces (ex_after [Op_AddData 0 0 [9, 2, 3, 4, 5] 7, Op_Finalise_begin 0])) 0
       (ex_sha1 [9, 2, 3, 4, 5]) (ex_hashes ! 0) = Some (ps', r) \<and>
     Del_resume ex_env ps' [0] = None"
proof -
  let ?ps = "cf_pieces (ex_after [Op_AddData 0 0 [9, 2, 3, 4, 5] 7, Op_Finalise_begin 0])"
  have "pieces_inv ex_sha1 ex_hashes ?ps" and "counts_inv ?ps" and "Pieces_Count ?ps = 1"
    and "piece_busy (ps_pieces ?ps ! 0)" and "piece_bytes (ps_pieces ?ps ! 0) = [9, 2, 3, 4, 5]"
    and "length (ps_pieces ?ps) = 1" and "ex_sha1 [9, 2, 3, 4, 5] \<noteq> ex_hashes ! 0"
    by code_simp+
  then show ?thesis
    using Del_panics_after_mismatch [OF _ _ ex_pieces_env, of ?ps 0 "[]"] by simp
qed

end
