(* ===== verification/Requests.thy ===== *)
theory Requests
  imports Bitmap "HOL-Library.Monad_Syntax"
begin

section \<open>The queue of outgoing requests (peer/requests/requests.go)\<close>

text \<open>
  The requests of one peer connection: those waiting to be sent, those sent, and a bitmap
  of the chunks that are in either. Times are numbers of nanoseconds; the zero time, which
  stands for \<open>not yet\<close>, is 0. The callbacks of \<^verbatim>\<open>Clear\<close> and \<^verbatim>\<open>Expire\<close> are the lists of
  the indices they are called with, in order. \<open>None\<close> is a panic.
\<close>

subsection \<open>The data model\<close>

record request =
  rq_index :: u32
  rq_qtime :: gotime
  rq_rtime :: gotime
  rq_ctime :: gotime

record requests =
  rs_queue :: "request list"
  rs_requested :: "request list"
  rs_bitmap :: bitmap

definition empty_requests :: requests where
  "empty_requests = \<lparr>rs_queue = [], rs_requested = [], rs_bitmap = []\<rparr>"

definition Request_Cancel :: "gotime \<Rightarrow> request \<Rightarrow> request" where
  "Request_Cancel now r = r\<lparr>rq_ctime := now\<rparr>"

definition Request_Cancelled :: "request \<Rightarrow> bool" where
  "Request_Cancelled r \<longleftrightarrow> rq_ctime r \<noteq> 0"

subsection \<open>Operations\<close>

definition rs_Queue :: "requests \<Rightarrow> nat" where
  "rs_Queue rs = length (rs_queue rs)"

definition rs_Requested :: "requests \<Rightarrow> nat" where
  "rs_Requested rs = length (rs_requested rs)"

text \<open>\<^verbatim>\<open>Cancel\<close>: whether the request was found, and whether a cancel should be sent.\<close>

definition rs_Cancel :: "gotime \<Rightarrow> requests \<Rightarrow> u32 \<Rightarrow> requests \<times> bool \<times> bool" where
  "rs_Cancel now rs index =
     (if \<not> bitmap_Get (rs_bitmap rs) (unat index) then (rs, False, False)
      else case index_of (\<lambda>r. rq_index r = index) (rs_requested rs) of
             None \<Rightarrow> (rs, False, False)
           | Some i \<Rightarrow>
               let r = rs_requested rs ! i
               in if Request_Cancelled r then (rs, True, False)
                  else (rs\<lparr>rs_requested := (rs_requested rs)[i := Request_Cancel now r]\<rparr>, True, True))"

text \<open>
  \<^verbatim>\<open>del\<close>: whether the request was in the queue, whether it had been sent, and when. It
  panics when the bitmap has the chunk but neither list has it.
\<close>

definition rs_del :: "requests \<Rightarrow> u32 \<Rightarrow> bool \<Rightarrow> (requests \<times> bool \<times> bool \<times> gotime) option" where
  "rs_del rs index reqonly =
     (if \<not> bitmap_Get (rs_bitmap rs) (unat index) then Some (rs, False, False, 0)
      else case index_of (\<lambda>r. rq_index r = index) (rs_requested rs) of
             Some i \<Rightarrow>
               Some (rs\<lparr>rs_requested := swap_delete i (rs_requested rs),
                        rs_bitmap := bitmap_Reset (rs_bitmap rs) (unat index)\<rparr>,
                     False, True, rq_rtime (rs_requested rs ! i))
           | None \<Rightarrow>
               if reqonly then Some (rs, False, False, 0)
               else (case index_of (\<lambda>r. rq_index r = index) (rs_queue rs) of
                       Some i \<Rightarrow>
                         Some (rs\<lparr>rs_queue := swap_delete i (rs_queue rs),
                                  rs_bitmap := bitmap_Reset (rs_bitmap rs) (unat index)\<rparr>,
                               True, False, 0)
                     | None \<Rightarrow> None))"

definition rs_Del :: "requests \<Rightarrow> u32 \<Rightarrow> (requests \<times> bool \<times> bool \<times> gotime) option" where
  "rs_Del rs index = rs_del rs index False"

definition rs_DelRequested :: "requests \<Rightarrow> u32 \<Rightarrow> (requests \<times> bool) option" where
  "rs_DelRequested rs index = map_option (\<lambda>(rs', _, r, _). (rs', r)) (rs_del rs index True)"

definition rs_Enqueue :: "gotime \<Rightarrow> requests \<Rightarrow> u32 \<Rightarrow> requests \<times> bool" where
  "rs_Enqueue now rs index =
     (if bitmap_Get (rs_bitmap rs) (unat index) then (rs, False)
      else let r = \<lparr>rq_index = index, rq_qtime = now, rq_rtime = 0, rq_ctime = 0\<rparr>
           in (rs\<lparr>rs_queue := rs_queue rs @ [r],
                  rs_bitmap := bitmap_Set (rs_bitmap rs) (unat index)\<rparr>, True))"

text \<open>\<^verbatim>\<open>Dequeue\<close> panics on an empty queue.\<close>

definition rs_Dequeue :: "requests \<Rightarrow> (requests \<times> request \<times> u32) option" where
  "rs_Dequeue rs =
     (case rs_queue rs of
        [] \<Rightarrow> None
      | r # rest \<Rightarrow>
          Some (rs\<lparr>rs_bitmap := bitmap_Reset (rs_bitmap rs) (unat (rq_index r)), rs_queue := rest\<rparr>,
                r, rq_index r))"

definition rs_EnqueueRequest :: "gotime \<Rightarrow> requests \<Rightarrow> request \<Rightarrow> requests option" where
  "rs_EnqueueRequest now rs r =
     (if bitmap_Get (rs_bitmap rs) (unat (rq_index r)) then None
      else Some (rs\<lparr>rs_bitmap := bitmap_Set (rs_bitmap rs) (unat (rq_index r)),
                    rs_requested := rs_requested rs @ [r\<lparr>rq_ctime := 0, rq_rtime := now\<rparr>]\<rparr>))"

definition rs_Clear :: "requests \<Rightarrow> bool \<Rightarrow> requests \<times> u32 list" where
  "rs_Clear rs both =
     (let oldr = rs_requested rs; oldq = rs_queue rs
      in if \<not> both
         then (\<lparr>rs_queue = [], rs_requested = oldr,
                rs_bitmap = fold (\<lambda>r b. bitmap_Set b (unat (rq_index r))) oldr []\<rparr>,
               map rq_index oldq)
         else (\<lparr>rs_queue = [], rs_requested = [], rs_bitmap = []\<rparr>,
               map rq_index oldr @ map rq_index oldq))"

text \<open>
  The loop of \<^verbatim>\<open>Expire\<close> from position \<open>i\<close>: the indices it drops and those it cancels. In
  every iteration the part of the list that is left becomes shorter.
\<close>

lemma rs_del_shorter:
  assumes "rs_DelRequested rs index = Some (rs', True)" and "i < length (rs_requested rs)"
  shows "length (rs_requested rs') - i < length (rs_requested rs) - i"
proof -
  obtain j where "index_of (\<lambda>r. rq_index r = index) (rs_requested rs) = Some j"
    and rs': "rs_requested rs' = swap_delete j (rs_requested rs)"
    using assms(1) by (auto simp: rs_DelRequested_def rs_del_def split: if_splits option.splits)
  then show ?thesis using assms(2) by simp
qed

function rs_Expire_loop ::
  "gotime \<Rightarrow> gotime \<Rightarrow> gotime \<Rightarrow> requests \<Rightarrow> nat \<Rightarrow> (requests \<times> u32 list \<times> u32 list) option" where
  "rs_Expire_loop now t0 t1 rs i =
     (if \<not> i < length (rs_requested rs) then Some (rs, [], [])
      else let r = rs_requested rs ! i
           in if Request_Cancelled r \<and> rq_ctime r < t1 then
                (case rs_DelRequested rs (rq_index r) of
                   Some (rs', True) \<Rightarrow>
                     map_option (\<lambda>(rs2, ds, cs). (rs2, rq_index r # ds, cs))
                       (rs_Expire_loop now t0 t1 rs' i)
                 | _ \<Rightarrow> None)
              else if \<not> Request_Cancelled r \<and> rq_rtime r < t0 then
                map_option (\<lambda>(rs2, ds, cs). (rs2, ds, rq_index r # cs))
                  (rs_Expire_loop now t0 t1
                     (rs\<lparr>rs_requested := (rs_requested rs)[i := Request_Cancel now r]\<rparr>) (Suc i))
              else rs_Expire_loop now t0 t1 rs (Suc i))"
  by pat_completeness auto
termination
  by (relation "measure (\<lambda>(now, t0, t1, rs, i). length (rs_requested rs) - i)")
    (auto simp: rs_del_shorter)

declare rs_Expire_loop.simps [simp del]

definition rs_Expire ::
  "gotime \<Rightarrow> requests \<Rightarrow> gotime \<Rightarrow> gotime \<Rightarrow> (requests \<times> u32 list \<times> u32 list \<times> bool) option" where
  "rs_Expire now rs t0 t1 =
     map_option (\<lambda>(rs', drops, cancels). (rs', drops, cancels, drops \<noteq> []))
       (rs_Expire_loop now t0 t1 rs 0)"

subsection \<open>The invariant\<close>

text \<open>
  No chunk is in the lists twice, and the bitmap has exactly the chunks that are in one of
  them.
\<close>

definition rs_indices :: "requests \<Rightarrow> u32 list" where
  "rs_indices rs = map rq_index (rs_queue rs @ rs_requested rs)"

definition rs_inv :: "requests \<Rightarrow> bool" where
  "rs_inv rs \<longleftrightarrow>
     distinct (rs_indices rs) \<and>
     (\<forall>k. bitmap_Get (rs_bitmap rs) k \<longleftrightarrow> k \<in> set (map unat (rs_indices rs)))"

text \<open>The abstract state: the sets of chunks queued and sent.\<close>

definition queued :: "requests \<Rightarrow> u32 set" where
  "queued rs = set (map rq_index (rs_queue rs))"

definition sent :: "requests \<Rightarrow> u32 set" where
  "sent rs = set (map rq_index (rs_requested rs))"

lemma rs_inv_Get: "rs_inv rs \<Longrightarrow> bitmap_Get (rs_bitmap rs) (unat k) \<longleftrightarrow> k \<in> queued rs \<or> k \<in> sent rs"
  by (auto simp: rs_inv_def rs_indices_def queued_def sent_def image_iff word_unat_eq_iff)

lemma rs_inv_disjoint: "rs_inv rs \<Longrightarrow> queued rs \<inter> sent rs = {}"
  by (auto simp: rs_inv_def rs_indices_def queued_def sent_def)

lemma rs_inv_empty: "rs_inv empty_requests" "queued empty_requests = {}" "sent empty_requests = {}"
  by (simp_all add: rs_inv_def rs_indices_def empty_requests_def bitset_simps queued_def sent_def)

text \<open>How to show the invariant of a changed queue.\<close>

lemma rs_invI:
  assumes "distinct (map rq_index (rs_queue rs))" "distinct (map rq_index (rs_requested rs))"
    and "queued rs \<inter> sent rs = {}"
    and "\<And>k. bitmap_Get (rs_bitmap rs) k \<longleftrightarrow> k \<in> unat ` (queued rs \<union> sent rs)"
  shows "rs_inv rs"
  using assms by (auto simp: rs_inv_def rs_indices_def queued_def sent_def)

lemma rs_invD:
  assumes "rs_inv rs"
  shows "distinct (map rq_index (rs_queue rs))" "distinct (map rq_index (rs_requested rs))"
    and "bitmap_Get (rs_bitmap rs) k \<longleftrightarrow> k \<in> unat ` (queued rs \<union> sent rs)"
  using assms by (auto simp: rs_inv_def rs_indices_def queued_def sent_def)

lemma unat_image_remove: "unat ` (A - {k}) = unat ` A - {unat (k :: u32)}"
  by (auto simp: word_unat_eq_iff)

text \<open>Deleting an element of a list with distinct indices.\<close>

lemma swap_delete_index:
  assumes "distinct (map rq_index xs)" and "index_of (\<lambda>r. rq_index r = k) xs = Some i"
  shows "set (map rq_index (swap_delete i xs)) = set (map rq_index xs) - {k} \<and>
    distinct (map rq_index (swap_delete i xs)) \<and> set (swap_delete i xs) = set xs - {xs ! i}"
proof -
  have i: "i < length xs" "rq_index (xs ! i) = k" "xs \<noteq> []"
    using index_of_SomeD [OF assms(2)] by auto
  have "distinct xs" using assms(1) by (simp add: distinct_map)
  then show ?thesis
    using swap_delete_distinct [of "map rq_index xs" i] swap_delete_distinct [of xs i] assms(1) i
    by (simp add: map_swap_delete)
qed

lemma index_of_index: "index_of (\<lambda>r. rq_index r = k) xs = None \<longleftrightarrow> k \<notin> set (map rq_index xs)"
  by (auto simp: index_of_None)

text \<open>A bitmap built from a list of requests.\<close>

lemma fold_set_bits:
  "bitmap_Get (fold (\<lambda>r b. bitmap_Set b (unat (rq_index r))) xs b0) j
     \<longleftrightarrow> j \<in> unat ` rq_index ` set xs \<or> bitmap_Get b0 j"
  by (induction xs arbitrary: b0) (auto simp: bitset_simps)

subsection \<open>Every operation keeps the invariant, and what it does to the two sets\<close>

lemma rs_Cancel_spec:
  assumes inv: "rs_inv rs"
  shows "case rs_Cancel now rs k of (rs', found, send) \<Rightarrow>
    rs_inv rs' \<and> queued rs' = queued rs \<and> sent rs' = sent rs \<and> (found \<longleftrightarrow> k \<in> sent rs)"
proof (cases "index_of (\<lambda>r. rq_index r = k) (rs_requested rs)")
  case None
  moreover from None have "k \<notin> sent rs" by (simp only: index_of_index sent_def not_False_eq_True)
  ultimately show ?thesis using inv by (simp add: rs_Cancel_def)
next
  case (Some i)
  define rs' where
    "rs' = rs\<lparr>rs_requested := (rs_requested rs)[i := Request_Cancel now (rs_requested rs ! i)]\<rparr>"
  have i: "i < length (rs_requested rs)" "rq_index (rs_requested rs ! i) = k"
    using index_of_SomeD [OF Some] by simp_all
  have "map rq_index (rs_requested rs') = map rq_index (rs_requested rs)"
    using i by (simp add: rs'_def Request_Cancel_def map_update list_update_same_conv)
  then have same: "rs_inv rs' = rs_inv rs" "queued rs' = queued rs" "sent rs' = sent rs"
    by (auto simp: rs_inv_def rs_indices_def queued_def sent_def rs'_def)
  have k: "k \<in> sent rs" using i by (force simp: sent_def)
  then have "bitmap_Get (rs_bitmap rs) (unat k)" using rs_inv_Get [OF inv] by simp
  then show ?thesis using Some inv same k by (auto simp: rs_Cancel_def Let_def rs'_def)
qed

text \<open>What \<^verbatim>\<open>del\<close> does: it finds the chunk if the bitmap has it, so it never panics.\<close>

lemma rs_del_spec:
  assumes inv: "rs_inv rs"
  shows "\<exists>rs' tm. rs_del rs k reqonly = Some (rs', k \<in> queued rs \<and> \<not> reqonly, k \<in> sent rs, tm) \<and> rs_inv rs' \<and>
    sent rs' = sent rs - {k} \<and> queued rs' = (if reqonly then queued rs else queued rs - {k}) \<and>
    set (rs_requested rs') = {x \<in> set (rs_requested rs). rq_index x \<noteq> k}"
proof -
  have other: "{x \<in> set (rs_requested rs). rq_index x \<noteq> k} = set (rs_requested rs)" if "k \<notin> sent rs"
    using that by (auto simp: sent_def)
  consider (absent) "k \<notin> sent rs" "k \<notin> queued rs" | (sent) "k \<in> sent rs" "k \<notin> queued rs"
    | (queued) "k \<notin> sent rs" "k \<in> queued rs"
    using rs_inv_disjoint [OF inv] by blast
  then show ?thesis
  proof cases
    case absent
    then show ?thesis using inv rs_inv_Get [OF inv, of k] other by (auto simp: rs_del_def)
  next
    case sent
    then obtain i where i: "index_of (\<lambda>r. rq_index r = k) (rs_requested rs) = Some i"
      using index_of_index [of k "rs_requested rs"] by (cases "index_of (\<lambda>r. rq_index r = k) (rs_requested rs)")
        (auto simp: sent_def)
    let ?rs = "rs\<lparr>rs_requested := swap_delete i (rs_requested rs),
        rs_bitmap := bitmap_Reset (rs_bitmap rs) (unat k)\<rparr>"
    note sw = swap_delete_index [OF rs_invD(2) [OF inv] i]
    have q: "queued ?rs = queued rs" and s: "sent ?rs = sent rs - {k}"
      using conjunct1 [OF sw] by (simp_all add: queued_def sent_def)
    have "rs_inv ?rs"
    proof (rule rs_invI)
      show "bitmap_Get (rs_bitmap ?rs) j \<longleftrightarrow> j \<in> unat ` (queued ?rs \<union> sent ?rs)" for j
        using rs_invD(3) [OF inv, of j] sent unfolding q s
        by (auto simp: bitset_simps image_Un unat_image_remove simp flip: word_unat_eq_iff)
    qed (use sw rs_invD [OF inv] rs_inv_disjoint [OF inv] q s in auto)
    moreover have "set (rs_requested ?rs) = {x \<in> set (rs_requested rs). rq_index x \<noteq> k}"
      using sw index_of_SomeD [OF i] rs_invD(2) [OF inv] by (auto simp: distinct_map inj_on_def)
    ultimately show ?thesis using i sent q s rs_inv_Get [OF inv, of k] by (simp add: rs_del_def)
  next
    case queued
    then obtain i where i: "index_of (\<lambda>r. rq_index r = k) (rs_queue rs) = Some i"
      using index_of_index [of k "rs_queue rs"] by (cases "index_of (\<lambda>r. rq_index r = k) (rs_queue rs)")
        (auto simp: queued_def)
    have n: "index_of (\<lambda>r. rq_index r = k) (rs_requested rs) = None"
      using queued(1) by (simp add: index_of_index sent_def)
    let ?rs = "rs\<lparr>rs_queue := swap_delete i (rs_queue rs),
        rs_bitmap := bitmap_Reset (rs_bitmap rs) (unat k)\<rparr>"
    note sw = swap_delete_index [OF rs_invD(1) [OF inv] i]
    have q: "queued ?rs = queued rs - {k}" and s: "sent ?rs = sent rs"
      using conjunct1 [OF sw] by (simp_all add: queued_def sent_def)
    have "rs_inv ?rs"
    proof (rule rs_invI)
      show "bitmap_Get (rs_bitmap ?rs) j \<longleftrightarrow> j \<in> unat ` (queued ?rs \<union> sent ?rs)" for j
        using rs_invD(3) [OF inv, of j] queued unfolding q s
        by (auto simp: bitset_simps image_Un unat_image_remove simp flip: word_unat_eq_iff)
    qed (use sw rs_invD [OF inv] rs_inv_disjoint [OF inv] q s in auto)
    then show ?thesis using i n queued q s inv other rs_inv_Get [OF inv, of k] by (simp add: rs_del_def)
  qed
qed

lemma rs_Enqueue_spec:
  assumes inv: "rs_inv rs"
  shows "case rs_Enqueue now rs k of (rs', new) \<Rightarrow>
    rs_inv rs' \<and> new = (k \<notin> queued rs \<union> sent rs) \<and> sent rs' = sent rs \<and>
    queued rs' = (if new then insert k (queued rs) else queued rs)"
proof (cases "bitmap_Get (rs_bitmap rs) (unat k)")
  case True
  then show ?thesis using inv rs_inv_Get [OF inv] by (auto simp: rs_Enqueue_def)
next
  case False
  let ?rs = "rs\<lparr>rs_queue := rs_queue rs @ [\<lparr>rq_index = k, rq_qtime = now, rq_rtime = 0, rq_ctime = 0\<rparr>],
      rs_bitmap := bitmap_Set (rs_bitmap rs) (unat k)\<rparr>"
  have new: "k \<notin> queued rs" "k \<notin> sent rs" using False rs_inv_Get [OF inv] by auto
  have qs: "queued ?rs = insert k (queued rs)" "sent ?rs = sent rs" by (auto simp: queued_def sent_def)
  have "rs_inv ?rs"
  proof (rule rs_invI)
    show "bitmap_Get (rs_bitmap ?rs) j \<longleftrightarrow> j \<in> unat ` (queued ?rs \<union> sent ?rs)" for j
      using rs_invD(3) [OF inv, of j] unfolding qs by (auto simp: bitset_simps)
  qed (use new rs_invD [OF inv] rs_inv_disjoint [OF inv] qs in \<open>auto simp: queued_def\<close>)
  then show ?thesis using False new qs by (simp add: rs_Enqueue_def)
qed

lemma rs_Dequeue_spec:
  assumes inv: "rs_inv rs" and ne: "0 < rs_Queue rs"
  shows "\<exists>rs' r k. rs_Dequeue rs = Some (rs', r, k) \<and> rs_inv rs' \<and> rq_index r = k \<and>
    k \<in> queued rs \<and> queued rs' = queued rs - {k} \<and> sent rs' = sent rs"
proof -
  obtain r rest where q: "rs_queue rs = r # rest" using ne by (cases "rs_queue rs") (auto simp: rs_Queue_def)
  let ?k = "rq_index r"
  let ?rs = "rs\<lparr>rs_bitmap := bitmap_Reset (rs_bitmap rs) (unat ?k), rs_queue := rest\<rparr>"
  have "?k \<notin> set (map rq_index rest)" using rs_invD(1) [OF inv] q by simp
  then have qs: "queued ?rs = queued rs - {?k}" "sent ?rs = sent rs" by (auto simp: queued_def sent_def q)
  have k: "?k \<in> queued rs" by (simp add: queued_def q)
  then have ns: "?k \<notin> sent rs" using rs_inv_disjoint [OF inv] by blast
  have "rs_inv ?rs"
  proof (rule rs_invI)
    show "bitmap_Get (rs_bitmap ?rs) j \<longleftrightarrow> j \<in> unat ` (queued ?rs \<union> sent ?rs)" for j
      using rs_invD(3) [OF inv, of j] ns unfolding qs
      by (auto simp: bitset_simps image_Un unat_image_remove simp flip: word_unat_eq_iff)
  qed (use rs_invD [OF inv] rs_inv_disjoint [OF inv] q qs in auto)
  then show ?thesis using q qs k by (simp add: rs_Dequeue_def)
qed

lemma rs_EnqueueRequest_spec:
  assumes inv: "rs_inv rs" and new: "rq_index r \<notin> queued rs \<union> sent rs"
  shows "\<exists>rs'. rs_EnqueueRequest now rs r = Some rs' \<and> rs_inv rs' \<and>
    queued rs' = queued rs \<and> sent rs' = insert (rq_index r) (sent rs)"
proof -
  let ?rs = "rs\<lparr>rs_bitmap := bitmap_Set (rs_bitmap rs) (unat (rq_index r)),
      rs_requested := rs_requested rs @ [r\<lparr>rq_ctime := 0, rq_rtime := now\<rparr>]\<rparr>"
  have qs: "queued ?rs = queued rs" "sent ?rs = insert (rq_index r) (sent rs)" by (auto simp: queued_def sent_def)
  have "rs_inv ?rs"
  proof (rule rs_invI)
    show "bitmap_Get (rs_bitmap ?rs) j \<longleftrightarrow> j \<in> unat ` (queued ?rs \<union> sent ?rs)" for j
      using rs_invD(3) [OF inv, of j] unfolding qs by (auto simp: bitset_simps)
  qed (use new rs_invD [OF inv] rs_inv_disjoint [OF inv] qs in \<open>auto simp: sent_def\<close>)
  then show ?thesis using qs new rs_inv_Get [OF inv] by (simp add: rs_EnqueueRequest_def)
qed

lemma rs_Clear_spec:
  assumes inv: "rs_inv rs"
  shows "case rs_Clear rs both of (rs', ks) \<Rightarrow>
    rs_inv rs' \<and> distinct ks \<and> queued rs' = {} \<and>
    sent rs' = (if both then {} else sent rs) \<and>
    set ks = queued rs \<union> (if both then sent rs else {})"
proof (cases both)
  case True
  then show ?thesis
    using rs_invD(1,2) [OF inv] rs_inv_disjoint [OF inv]
    by (auto simp: rs_Clear_def Let_def rs_inv_def rs_indices_def bitset_simps queued_def sent_def)
next
  case False
  let ?rs = "\<lparr>rs_queue = [], rs_requested = rs_requested rs,
      rs_bitmap = fold (\<lambda>r b. bitmap_Set b (unat (rq_index r))) (rs_requested rs) []\<rparr>"
  have qs: "queued ?rs = {}" "sent ?rs = sent rs" by (simp_all add: queued_def sent_def)
  have "rs_inv ?rs"
  proof (rule rs_invI)
    show "bitmap_Get (rs_bitmap ?rs) j \<longleftrightarrow> j \<in> unat ` (queued ?rs \<union> sent ?rs)" for j
      unfolding qs by (auto simp: sent_def fold_set_bits bitset_simps)
  qed (use rs_invD [OF inv] qs in auto)
  then show ?thesis using False qs rs_invD(1) [OF inv] by (simp add: rs_Clear_def Let_def queued_def)
qed

subsection \<open>Expire\<close>

text \<open>
  What \<^verbatim>\<open>Expire\<close> decides about a request that has been sent: it is dropped when it was
  cancelled before \<open>t1\<close>, and cancelled when it is not yet and was sent before \<open>t0\<close>.
\<close>

definition expired :: "gotime \<Rightarrow> request \<Rightarrow> bool" where
  "expired t1 r \<longleftrightarrow> Request_Cancelled r \<and> rq_ctime r < t1"

definition overdue :: "gotime \<Rightarrow> request \<Rightarrow> bool" where
  "overdue t0 r \<longleftrightarrow> \<not> Request_Cancelled r \<and> rq_rtime r < t0"

text \<open>The invariant only depends on the indices.\<close>

lemma rs_inv_update:
  assumes "map rq_index ys = map rq_index (rs_requested rs)"
  shows "rs_inv (rs\<lparr>rs_requested := ys\<rparr>) = rs_inv rs" "queued (rs\<lparr>rs_requested := ys\<rparr>) = queued rs"
    "sent (rs\<lparr>rs_requested := ys\<rparr>) = sent rs"
proof -
  have "set (map rq_index ys) = set (map rq_index (rs_requested rs))" using assms by (rule arg_cong)
  then show "rs_inv (rs\<lparr>rs_requested := ys\<rparr>) = rs_inv rs" "queued (rs\<lparr>rs_requested := ys\<rparr>) = queued rs"
    "sent (rs\<lparr>rs_requested := ys\<rparr>) = sent rs"
    using assms by (simp_all add: rs_inv_def rs_indices_def queued_def sent_def)
qed

lemma swap_delete_split:
  assumes "i < length xs"
  shows "take i (swap_delete i xs) = take i xs" and "mset (drop i (swap_delete i xs)) = mset (drop (Suc i) xs)"
proof -
  from assms obtain ys y where xs: "xs = ys @ [y]" by (cases xs rule: rev_cases) auto
  show "take i (swap_delete i xs) = take i xs"
    using assms by (simp add: swap_delete_def xs list_update_append)
  show "mset (drop i (swap_delete i xs)) = mset (drop (Suc i) xs)"
  proof (cases "i < length ys")
    case True
    then have "drop i (ys[i := y]) = y # drop (Suc i) ys"
      by (metis Cons_nth_drop_Suc drop_update_cancel length_list_update lessI nth_list_update_eq)
    then show ?thesis using True by (simp add: swap_delete_def xs list_update_append)
  qed (use assms xs in \<open>simp add: swap_delete_def list_update_append\<close>)
qed

text \<open>The sent requests after \<^verbatim>\<open>Expire\<close>: the overdue ones are cancelled.\<close>

definition expire_update :: "gotime \<Rightarrow> gotime \<Rightarrow> request \<Rightarrow> request" where
  "expire_update now t0 r = (if overdue t0 r then Request_Cancel now r else r)"

lemma rs_DelRequested_at:
  assumes inv: "rs_inv rs" and i: "i < length (rs_requested rs)"
  shows "\<exists>rs'. rs_DelRequested rs (rq_index (rs_requested rs ! i)) = Some (rs', True) \<and> rs_inv rs' \<and>
    rs_queue rs' = rs_queue rs \<and> rs_requested rs' = swap_delete i (rs_requested rs)"
proof -
  let ?k = "rq_index (rs_requested rs ! i)"
  have d: "distinct (map rq_index (rs_requested rs))" by (rule rs_invD(2) [OF inv])
  have k: "?k \<in> sent rs" using i by (force simp: sent_def)
  then obtain j where j: "index_of (\<lambda>r. rq_index r = ?k) (rs_requested rs) = Some j"
    using index_of_index [of ?k "rs_requested rs"]
    by (cases "index_of (\<lambda>r. rq_index r = ?k) (rs_requested rs)") (auto simp: sent_def)
  then have "j = i"
    using index_of_SomeD [OF j] i nth_eq_iff_index_eq [OF d, of j i] by simp
  then have "rs_del rs ?k True = Some (rs\<lparr>rs_requested := swap_delete i (rs_requested rs),
      rs_bitmap := bitmap_Reset (rs_bitmap rs) (unat ?k)\<rparr>, False, True, rq_rtime (rs_requested rs ! i))"
    using j k rs_inv_Get [OF inv, of ?k] by (simp add: rs_del_def)
  then show ?thesis using rs_del_spec [OF inv, of ?k True] by (auto simp: rs_DelRequested_def)
qed

lemma drop_nth_mset: "i < length xs \<Longrightarrow> mset (drop i xs) = add_mset (xs ! i) (mset (drop (Suc i) xs))"
  by (simp flip: Cons_nth_drop_Suc)

text \<open>
  The effect of the loop when the requests \<open>pre\<close> have been dealt with and \<open>rest\<close> have not:
  which requests it drops and cancels, and which are left.
\<close>

definition expire_effect ::
  "gotime \<Rightarrow> gotime \<Rightarrow> gotime \<Rightarrow> request multiset \<Rightarrow> request multiset \<Rightarrow> requests \<Rightarrow> u32 list \<Rightarrow> u32 list \<Rightarrow> bool" where
  "expire_effect now t0 t1 pre rest rs' ds cs \<longleftrightarrow>
     mset ds = image_mset rq_index (filter_mset (expired t1) rest) \<and>
     mset cs = image_mset rq_index (filter_mset (overdue t0) rest) \<and>
     mset (rs_requested rs') =
       pre + image_mset (expire_update now t0) (filter_mset (\<lambda>r. \<not> expired t1 r) rest)"

lemma expire_effect_drop:
  "expired t1 r \<Longrightarrow> expire_effect now t0 t1 pre rest rs' ds cs \<Longrightarrow>
   expire_effect now t0 t1 pre (add_mset r rest) rs' (rq_index r # ds) cs"
  by (auto simp: expire_effect_def expired_def overdue_def)

lemma expire_effect_cancel:
  "overdue t0 r \<Longrightarrow> expire_effect now t0 t1 (add_mset (Request_Cancel now r) pre) rest rs' ds cs \<Longrightarrow>
   expire_effect now t0 t1 pre (add_mset r rest) rs' ds (rq_index r # cs)"
  by (auto simp: expire_effect_def expired_def overdue_def expire_update_def)

lemma expire_effect_keep:
  "\<not> expired t1 r \<Longrightarrow> \<not> overdue t0 r \<Longrightarrow> expire_effect now t0 t1 (add_mset r pre) rest rs' ds cs \<Longrightarrow>
   expire_effect now t0 t1 pre (add_mset r rest) rs' ds cs"
  by (auto simp: expire_effect_def expire_update_def)

lemma rs_Expire_loop_spec:
  assumes "rs_inv rs"
  shows "\<exists>rs' ds cs. rs_Expire_loop now t0 t1 rs i = Some (rs', ds, cs) \<and> rs_inv rs' \<and> rs_queue rs' = rs_queue rs \<and>
    expire_effect now t0 t1 (mset (take i (rs_requested rs))) (mset (drop i (rs_requested rs))) rs' ds cs"
  using assms
proof (induction "length (rs_requested rs) - i" arbitrary: rs i rule: less_induct)
  case (less rs i)
  let ?xs = "rs_requested rs"
  let ?r = "?xs ! i"
  show ?case
  proof (cases "i < length ?xs")
    case False
    then show ?thesis using less(2) by (subst rs_Expire_loop.simps) (simp add: expire_effect_def)
  next
    case i: True
    note dr = drop_nth_mset [OF i]
    have shorter: "length ?xs - Suc i < length ?xs - i" using i by simp
    consider (drop) "expired t1 ?r" | (cancel) "\<not> expired t1 ?r" "overdue t0 ?r"
      | (keep) "\<not> expired t1 ?r" "\<not> overdue t0 ?r" by blast
    then show ?thesis
    proof cases
      case drop
      obtain rs1 where rs1: "rs_DelRequested rs (rq_index ?r) = Some (rs1, True)" "rs_inv rs1"
        "rs_queue rs1 = rs_queue rs" "rs_requested rs1 = swap_delete i ?xs"
        using rs_DelRequested_at [OF less(2) i] by blast
      then obtain rs' ds cs where l: "rs_Expire_loop now t0 t1 rs1 i = Some (rs', ds, cs)" "rs_inv rs'"
        "rs_queue rs' = rs_queue rs" "expire_effect now t0 t1 (mset (take i ?xs)) (mset (drop (Suc i) ?xs)) rs' ds cs"
        using less(1) [of rs1 i] shorter swap_delete_split [OF i] by auto
      then show ?thesis using i drop rs1(1) expire_effect_drop [OF drop l(4)]
        by (subst rs_Expire_loop.simps) (simp add: Let_def expired_def dr)
    next
      case cancel
      let ?rs1 = "rs\<lparr>rs_requested := ?xs[i := Request_Cancel now ?r]\<rparr>"
      have "map rq_index (?xs[i := Request_Cancel now ?r]) = map rq_index ?xs"
        using i by (simp add: Request_Cancel_def map_update list_update_same_conv)
      note same = rs_inv_update [OF this]
      obtain rs' ds cs where l: "rs_Expire_loop now t0 t1 ?rs1 (Suc i) = Some (rs', ds, cs)" "rs_inv rs'"
        "rs_queue rs' = rs_queue rs"
        "expire_effect now t0 t1 (add_mset (Request_Cancel now ?r) (mset (take i ?xs))) (mset (drop (Suc i) ?xs)) rs' ds cs"
        using less(1) [of ?rs1 "Suc i"] shorter less(2) i same by (auto simp: take_Suc_conv_app_nth)
      then show ?thesis using i cancel expire_effect_cancel [OF cancel(2) l(4)]
        by (subst rs_Expire_loop.simps) (simp add: Let_def expired_def overdue_def dr)
    next
      case keep
      obtain rs' ds cs where l: "rs_Expire_loop now t0 t1 rs (Suc i) = Some (rs', ds, cs)" "rs_inv rs'"
        "rs_queue rs' = rs_queue rs"
        "expire_effect now t0 t1 (add_mset ?r (mset (take i ?xs))) (mset (drop (Suc i) ?xs)) rs' ds cs"
        using less(1) [of rs "Suc i"] shorter less(2) i by (auto simp: take_Suc_conv_app_nth)
      moreover have "rs_Expire_loop now t0 t1 rs i = rs_Expire_loop now t0 t1 rs (Suc i)"
        using i keep by (subst rs_Expire_loop.simps) (auto simp: Let_def expired_def overdue_def)
      ultimately show ?thesis using expire_effect_keep [OF keep l(4)] by (simp add: dr)
    qed
  qed
qed

end
