(* ===== verification/Requests_Props.thy ===== *)
theory Requests_Props
  imports Requests
begin

section \<open>Properties of the request queue\<close>

text \<open>The contract of the queue as a locale, its interpretation on the operations of the code, and every run of them.\<close>

subsection \<open>The interface the peer relies on\<close>

text \<open>
  A queue of requests as its client sees it: two disjoint sets of chunks, the ones that wait
  and the ones that have been sent, and the operations that move chunks between them.
\<close>

locale request_queue =
  fixes rinv :: "'q \<Rightarrow> bool" and waiting :: "'q \<Rightarrow> u32 set" and flying :: "'q \<Rightarrow> u32 set"
    and nwaiting :: "'q \<Rightarrow> nat" and index :: "'r \<Rightarrow> u32"
    and enqueue :: "'q \<Rightarrow> u32 \<Rightarrow> 'q \<times> bool"
    and dequeue :: "'q \<Rightarrow> ('q \<times> 'r \<times> u32) option"
    and launch :: "'q \<Rightarrow> 'r \<Rightarrow> 'q option"
    and delete :: "'q \<Rightarrow> u32 \<Rightarrow> ('q \<times> bool \<times> bool \<times> gotime) option"
    and clear :: "'q \<Rightarrow> bool \<Rightarrow> 'q \<times> u32 list"
  assumes disjoint: "rinv s \<Longrightarrow> waiting s \<inter> flying s = {}"
    and enqueue_law: "rinv s \<Longrightarrow> enqueue s k = (s', new) \<Longrightarrow>
      rinv s' \<and> new = (k \<notin> waiting s \<union> flying s) \<and> flying s' = flying s \<and> waiting s' = waiting s \<union> {k} - flying s"
    and dequeue_law: "rinv s \<Longrightarrow> 0 < nwaiting s \<Longrightarrow> \<exists>s' r k. dequeue s = Some (s', r, k) \<and> rinv s' \<and>
      index r = k \<and> k \<in> waiting s \<and> waiting s' = waiting s - {k} \<and> flying s' = flying s \<and> nwaiting s' < nwaiting s"
    and launch_law: "rinv s \<Longrightarrow> index r \<notin> waiting s \<union> flying s \<Longrightarrow>
      \<exists>s'. launch s r = Some s' \<and> rinv s' \<and> waiting s' = waiting s \<and> flying s' = insert (index r) (flying s) \<and>
        nwaiting s' = nwaiting s"
    and delete_law: "rinv s \<Longrightarrow> \<exists>s' tm. delete s k = Some (s', k \<in> waiting s, k \<in> flying s, tm) \<and> rinv s' \<and>
      waiting s' = waiting s - {k} \<and> flying s' = flying s - {k}"
    and clear_law: "rinv s \<Longrightarrow> clear s both = (s', ks) \<Longrightarrow> rinv s' \<and> distinct ks \<and> waiting s' = {} \<and>
      flying s' = (if both then {} else flying s) \<and> set ks = waiting s \<union> (if both then flying s else {})"
begin

definition outstanding :: "'q \<Rightarrow> u32 set" where
  "outstanding s = waiting s \<union> flying s"

text \<open>Sending a request: what is taken from the queue can be registered as sent, and nothing is lost.\<close>

lemma dequeue_then_launch:
  assumes "rinv s" "0 < nwaiting s"
  shows "\<exists>s1 r k s2. dequeue s = Some (s1, r, k) \<and> launch s1 r = Some s2 \<and> rinv s2 \<and>
    outstanding s2 = outstanding s \<and> k \<in> waiting s \<and> k \<in> flying s2 \<and> nwaiting s2 < nwaiting s"
proof -
  obtain s1 r k where d: "dequeue s = Some (s1, r, k)" "rinv s1" "index r = k" "k \<in> waiting s"
    "waiting s1 = waiting s - {k}" "flying s1 = flying s" "nwaiting s1 < nwaiting s"
    using dequeue_law [OF assms] by blast
  then have "index r \<notin> waiting s1 \<union> flying s1" using disjoint [OF assms(1)] by auto
  then obtain s2 where "launch s1 r = Some s2" "rinv s2" "waiting s2 = waiting s1"
    "flying s2 = insert k (flying s1)" "nwaiting s2 = nwaiting s1"
    using launch_law [OF d(2), of r] d(3) by auto
  then show ?thesis using d by (auto simp: outstanding_def)
qed

text \<open>Giving a request up: exactly that one stops being outstanding.\<close>

lemma dequeue_outstanding:
  assumes "rinv s" "0 < nwaiting s"
  shows "\<exists>s1 r k. dequeue s = Some (s1, r, k) \<and> rinv s1 \<and> k \<in> outstanding s \<and>
    outstanding s1 = outstanding s - {k} \<and> nwaiting s1 < nwaiting s"
proof -
  obtain s1 r k where d: "dequeue s = Some (s1, r, k)" "rinv s1" "k \<in> waiting s"
    "waiting s1 = waiting s - {k}" "flying s1 = flying s" "nwaiting s1 < nwaiting s"
    using dequeue_law [OF assms] by blast
  moreover have "k \<notin> flying s" using d(3) disjoint [OF assms(1)] by blast
  ultimately show ?thesis by (auto simp: outstanding_def)
qed

lemma delete_outstanding:
  assumes "rinv s"
  shows "\<exists>s' q r tm. delete s k = Some (s', q, r, tm) \<and> rinv s' \<and> (q \<or> r \<longleftrightarrow> k \<in> outstanding s) \<and>
    outstanding s' = outstanding s - {k}"
  using delete_law [OF assms, of k] by (auto simp: outstanding_def)

lemma enqueue_outstanding:
  assumes "rinv s" "enqueue s k = (s', new)"
  shows "rinv s'" "new \<longleftrightarrow> k \<notin> outstanding s" "outstanding s' = insert k (outstanding s)"
  using enqueue_law [OF assms] by (auto simp: outstanding_def)

lemma clear_outstanding:
  assumes "rinv s" "clear s both = (s', ks)"
  shows "rinv s'" "distinct ks" "set ks \<inter> outstanding s' = {}" "outstanding s = set ks \<union> outstanding s'"
    "both \<Longrightarrow> outstanding s' = {}"
  using clear_law [OF assms] disjoint [OF assms(1)] by (auto simp: outstanding_def)

end

lemma rs_Dequeue_length: "rs_Dequeue rs = Some (rs', r, k) \<Longrightarrow> rs_Queue rs' < rs_Queue rs"
  by (auto simp: rs_Dequeue_def rs_Queue_def split: list.splits)

interpretation rq: request_queue rs_inv queued sent rs_Queue rq_index
  "rs_Enqueue now" rs_Dequeue "rs_EnqueueRequest now" rs_Del rs_Clear for now
proof
  fix s k s' new assume "rs_inv s" "rs_Enqueue now s k = (s', new)"
  then show "rs_inv s' \<and> new = (k \<notin> queued s \<union> sent s) \<and> sent s' = sent s \<and> queued s' = queued s \<union> {k} - sent s"
    using rs_Enqueue_spec [of s, where now = now and k = k] rs_inv_disjoint [of s] by (auto split: if_splits)
next
  fix s assume "rs_inv s" "0 < rs_Queue s"
  then show "\<exists>s' r k. rs_Dequeue s = Some (s', r, k) \<and> rs_inv s' \<and> rq_index r = k \<and> k \<in> queued s \<and>
      queued s' = queued s - {k} \<and> sent s' = sent s \<and> rs_Queue s' < rs_Queue s"
    using rs_Dequeue_spec [of s] rs_Dequeue_length [of s] by metis
next
  fix s and r :: request assume "rs_inv s" "rq_index r \<notin> queued s \<union> sent s"
  then obtain s' where "rs_EnqueueRequest now s r = Some s'" "rs_inv s'" "queued s' = queued s"
      "sent s' = insert (rq_index r) (sent s)"
    using rs_EnqueueRequest_spec [of s r now] by blast
  moreover have "rs_Queue s' = rs_Queue s"
    using calculation(1) by (auto simp: rs_EnqueueRequest_def rs_Queue_def split: if_splits)
  ultimately show "\<exists>s'. rs_EnqueueRequest now s r = Some s' \<and> rs_inv s' \<and> queued s' = queued s \<and>
      sent s' = insert (rq_index r) (sent s) \<and> rs_Queue s' = rs_Queue s" by blast
next
  fix s k assume "rs_inv s"
  then show "\<exists>s' tm. rs_Del s k = Some (s', k \<in> queued s, k \<in> sent s, tm) \<and> rs_inv s' \<and>
      queued s' = queued s - {k} \<and> sent s' = sent s - {k}"
    using rs_del_spec [of s k False] by (auto simp: rs_Del_def)
next
  fix s both s' ks assume "rs_inv s" "rs_Clear s both = (s', ks)"
  then show "rs_inv s' \<and> distinct ks \<and> queued s' = {} \<and> sent s' = (if both then {} else sent s) \<and>
      set ks = queued s \<union> (if both then sent s else {})"
    using rs_Clear_spec [of s both] by simp
qed (rule rs_inv_disjoint)

subsection \<open>Any sequence of operations\<close>

datatype rs_op =
    Rs_Enqueue gotime u32
  | Rs_Send gotime
  | Rs_Cancel gotime u32
  | Rs_Del u32
  | Rs_DelRequested u32
  | Rs_Clear bool
  | Rs_Expire gotime gotime gotime

text \<open>\<open>Rs_Send\<close> takes the next request of the queue and registers it as sent.\<close>

definition rs_step :: "requests \<Rightarrow> rs_op \<Rightarrow> requests option" where
  "rs_step rs a =
     (case a of
        Rs_Enqueue now k \<Rightarrow> Some (fst (rs_Enqueue now rs k))
      | Rs_Send now \<Rightarrow> do { (rs1, r, k) \<leftarrow> rs_Dequeue rs; rs_EnqueueRequest now rs1 r }
      | Rs_Cancel now k \<Rightarrow> Some (fst (rs_Cancel now rs k))
      | Rs_Del k \<Rightarrow> map_option fst (rs_Del rs k)
      | Rs_DelRequested k \<Rightarrow> map_option fst (rs_DelRequested rs k)
      | Rs_Clear both \<Rightarrow> Some (fst (rs_Clear rs both))
      | Rs_Expire now t0 t1 \<Rightarrow> map_option fst (rs_Expire now rs t0 t1))"

definition rs_permitted :: "requests \<Rightarrow> rs_op \<Rightarrow> bool" where
  "rs_permitted rs a = (case a of Rs_Send now \<Rightarrow> 0 < rs_Queue rs | _ \<Rightarrow> True)"

lemma rs_step_progress:
  assumes "rs_inv rs" "rs_permitted rs a"
  shows "\<exists>rs'. rs_step rs a = Some rs' \<and> rs_inv rs'"
proof (cases a)
  case (Rs_Send now)
  then show ?thesis using rq.dequeue_then_launch [of rs now] assms by (auto simp: rs_step_def rs_permitted_def)
next
  case (Rs_Del k)
  then show ?thesis using rq.delete_law [OF assms(1), of k] by (auto simp: rs_step_def)
next
  case (Rs_DelRequested k)
  then show ?thesis using rs_del_spec [OF assms(1), of k True] by (auto simp: rs_step_def rs_DelRequested_def)
next
  case (Rs_Expire now t0 t1)
  then show ?thesis using rs_Expire_loop_spec [OF assms(1), of now t0 t1 0] by (auto simp: rs_step_def rs_Expire_def)
next
  case (Rs_Enqueue now k)
  then show ?thesis using rs_Enqueue_spec [OF assms(1), where now = now and k = k] by (auto simp: rs_step_def split: prod.splits)
next
  case (Rs_Cancel now k)
  then show ?thesis using rs_Cancel_spec [OF assms(1), where now = now and k = k] by (auto simp: rs_step_def split: prod.splits)
next
  case (Rs_Clear both)
  then show ?thesis using rs_Clear_spec [OF assms(1), of both] by (auto simp: rs_step_def split: prod.splits)
qed

interpretation rqm: machine rs_permitted rs_step rs_inv
  by unfold_locales (rule rs_step_progress)



text \<open>
  What \<^verbatim>\<open>Expire\<close> does: it drops exactly the sent requests that were cancelled before
  \<open>t1\<close>, cancels exactly those that are not cancelled and were sent before \<open>t0\<close>, each once,
  and leaves every other request as it was.
\<close>

theorem requests_Expire_correct:
  assumes "rs_inv rs"
  shows "\<exists>rs' ds cs. rs_Expire now rs t0 t1 = Some (rs', ds, cs, ds \<noteq> []) \<and> rs_inv rs' \<and>
    rs_queue rs' = rs_queue rs \<and> distinct ds \<and> distinct cs \<and>
    set ds = {rq_index r |r. r \<in> set (rs_requested rs) \<and> Request_Cancelled r \<and> rq_ctime r < t1} \<and>
    set cs = {rq_index r |r. r \<in> set (rs_requested rs) \<and> \<not> Request_Cancelled r \<and> rq_rtime r < t0} \<and>
    set (rs_requested rs') =
      (\<lambda>r. if rq_index r \<in> set cs then r\<lparr>rq_ctime := now\<rparr> else r) ` {r \<in> set (rs_requested rs). rq_index r \<notin> set ds}"
proof -
  obtain rs' ds cs where l: "rs_Expire_loop now t0 t1 rs 0 = Some (rs', ds, cs)" "rs_inv rs'"
    "rs_queue rs' = rs_queue rs" "expire_effect now t0 t1 {#} (mset (rs_requested rs)) rs' ds cs"
    using rs_Expire_loop_spec [OF assms, of now t0 t1 0] by auto
  have d: "distinct (map rq_index (rs_requested rs))" by (rule rs_invD(2) [OF assms])
  have m: "mset ds = mset (map rq_index (filter (expired t1) (rs_requested rs)))"
    "mset cs = mset (map rq_index (filter (overdue t0) (rs_requested rs)))"
    "mset (rs_requested rs') = mset (map (expire_update now t0) (filter (\<lambda>r. \<not> expired t1 r) (rs_requested rs)))"
    using l(4) by (simp_all add: expire_effect_def)
  have dist: "distinct ds" "distinct cs"
    using m(1,2) distinct_map_filter [OF d] by (metis mset_eq_imp_distinct_iff)+
  have sets: "set ds = rq_index ` {r \<in> set (rs_requested rs). expired t1 r}"
    "set cs = rq_index ` {r \<in> set (rs_requested rs). overdue t0 r}"
    "set (rs_requested rs') = expire_update now t0 ` {r \<in> set (rs_requested rs). \<not> expired t1 r}"
    using mset_eq_setD [OF m(1)] mset_eq_setD [OF m(2)] mset_eq_setD [OF m(3)] by simp_all
  have inj: "rq_index r \<in> rq_index ` {r \<in> set (rs_requested rs). P r} \<longleftrightarrow> P r" if "r \<in> set (rs_requested rs)" for r P
    using that d by (auto simp: distinct_map inj_on_def)
  have "set (rs_requested rs') =
      (\<lambda>r. if rq_index r \<in> set cs then r\<lparr>rq_ctime := now\<rparr> else r) ` {r \<in> set (rs_requested rs). rq_index r \<notin> set ds}"
  proof -
    have "{r \<in> set (rs_requested rs). rq_index r \<notin> set ds} = {r \<in> set (rs_requested rs). \<not> expired t1 r}"
      unfolding sets(1) using inj [of _ "expired t1"] by blast
    then show ?thesis
      unfolding sets(2,3) by (intro image_cong) (simp_all add: inj expire_update_def Request_Cancel_def)
  qed
  then show ?thesis
    using l(1,2,3) dist sets(1,2) by (auto simp: rs_Expire_def expired_def overdue_def)
qed

theorem requests_Expire_correct_witness:
  "\<exists>rs' ds cs. rs_Expire 9 (the (run_ops rs_step empty_requests [Rs_Enqueue 1 5, Rs_Send 3])) 4 0
      = Some (rs', ds, cs, ds \<noteq> []) \<and> set cs = {5} \<and> set ds = {}"
proof -
  let ?rs = "the (run_ops rs_step empty_requests [Rs_Enqueue 1 5, Rs_Send 3])"
  have "permitted_ops rs_permitted rs_step empty_requests [Rs_Enqueue 1 5, Rs_Send 3]"
    and r: "rs_requested ?rs = [\<lparr>rq_index = 5, rq_qtime = 1, rq_rtime = 3, rq_ctime = 0\<rparr>]"
    by code_simp+
  then have "rs_inv ?rs" using rqm.run_safe [OF rs_inv_empty(1)] by fastforce
  from requests_Expire_correct [OF this, of 9 4 0] show ?thesis
    unfolding r by (force simp: Request_Cancelled_def)
qed

end
