(* ===== verification/Requested.thy ===== *)
theory Requested
  imports Prelude "HOL-Library.AList" "HOL-Library.Monad_Syntax"
begin

section \<open>The pieces requested by clients (tor/requests.go)\<close>

text \<open>
  The set of pieces that the readers of a torrent want, with the priorities they want them
  with, and a channel per piece that is closed when the piece is complete. A channel is a
  number; the state has the channels made and closed so far, because closing a channel twice
  panics (\<open>None\<close>). Priorities are \<^verbatim>\<open>int8\<close>; \<^verbatim>\<open>IdlePriority\<close> is the smallest. The Go map
  from indices to pieces is an association list with distinct keys.
\<close>

subsection \<open>The data model\<close>

record rpiece =
  rp_prio :: "int list"
  rp_done :: "nat option"

record requested =
  rd_pieces :: "(u32 \<times> rpiece) list"
  rd_made :: nat
  rd_closed :: "nat list"

definition IdlePriority :: int where
  "IdlePriority = - 128"

definition empty_requested :: requested where
  "empty_requested = \<lparr>rd_pieces = [], rd_made = 0, rd_closed = []\<rparr>"

text \<open>\<^verbatim>\<open>close(ch)\<close>\<close>

definition close_chan :: "nat \<Rightarrow> requested \<Rightarrow> requested option" where
  "close_chan ch rs = (if ch \<in> set (rd_closed rs) then None else Some (rs\<lparr>rd_closed := ch # rd_closed rs\<rparr>))"

subsection \<open>Operations\<close>

text \<open>\<^verbatim>\<open>Add\<close>: the channel of the piece and whether its priority has been increased.\<close>

definition rd_Add :: "requested \<Rightarrow> u32 \<Rightarrow> int \<Rightarrow> bool \<Rightarrow> requested \<times> nat option \<times> bool" where
  "rd_Add rs index prio want =
     (let (r, added) =
            (case map_of (rd_pieces rs) index of
               None \<Rightarrow> (\<lparr>rp_prio = [], rp_done = None\<rparr>, True)
             | Some r \<Rightarrow> (r, False));
          (r, added) =
            (if prio > IdlePriority then (r\<lparr>rp_prio := rp_prio r @ [prio]\<rparr>, True) else (r, added));
          (r, made) =
            (if want \<and> rp_done r = None then (r\<lparr>rp_done := Some (rd_made rs)\<rparr>, Suc (rd_made rs))
             else (r, rd_made rs))
      in (rs\<lparr>rd_pieces := AList.update index r (rd_pieces rs), rd_made := made\<rparr>, rp_done r, added))"

text \<open>\<^verbatim>\<open>del\<close> dereferences the piece, so it panics when there is none.\<close>

definition rd_del :: "requested \<Rightarrow> u32 \<Rightarrow> requested option" where
  "rd_del rs index = do {
     r \<leftarrow> map_of (rd_pieces rs) index;
     rs1 \<leftarrow> (case rp_done r of None \<Rightarrow> Some rs | Some ch \<Rightarrow> close_chan ch rs);
     Some (rs1\<lparr>rd_pieces := AList.delete index (rd_pieces rs1)\<rparr>)
   }"

definition rd_Del :: "requested \<Rightarrow> u32 \<Rightarrow> int \<Rightarrow> (requested \<times> bool) option" where
  "rd_Del rs index prio =
     (case map_of (rd_pieces rs) index of
        None \<Rightarrow> Some (rs, False)
      | Some r \<Rightarrow>
          (case index_of (\<lambda>p. p = prio) (rp_prio r) of
             None \<Rightarrow> Some (rs, False)
           | Some i \<Rightarrow>
               let r' = r\<lparr>rp_prio := delete_at i (rp_prio r)\<rparr>;
                   rs' = rs\<lparr>rd_pieces := AList.update index r' (rd_pieces rs)\<rparr>
               in if rp_prio r' = [] then map_option (\<lambda>rs2. (rs2, True)) (rd_del rs' index)
                  else Some (rs', False)))"

definition rd_Count :: "(u32 \<Rightarrow> bool) \<Rightarrow> requested \<Rightarrow> nat" where
  "rd_Count f rs = length (filter (\<lambda>(i, _). f i) (rd_pieces rs))"

definition hasPriority :: "rpiece \<Rightarrow> int \<Rightarrow> bool" where
  "hasPriority r prio = (prio = IdlePriority \<or> list_ex (\<lambda>p. p = prio) (rp_prio r))"

definition rd_DelIdlePiece :: "requested \<Rightarrow> u32 \<Rightarrow> requested option" where
  "rd_DelIdlePiece rs index =
     (case map_of (rd_pieces rs) index of
        None \<Rightarrow> Some rs
      | Some r \<Rightarrow> if rp_prio r = [] then rd_del rs index else Some rs)"

definition rd_Done :: "requested \<Rightarrow> u32 \<Rightarrow> requested option" where
  "rd_Done rs index =
     (case map_of (rd_pieces rs) index of
        None \<Rightarrow> Some rs
      | Some r \<Rightarrow> do {
          rs1 \<leftarrow> (case rp_done r of
                   None \<Rightarrow> Some rs
                 | Some ch \<Rightarrow>
                     map_option (\<lambda>rs1. rs1\<lparr>rd_pieces := AList.update index (r\<lparr>rp_done := None\<rparr>) (rd_pieces rs1)\<rparr>)
                       (close_chan ch rs));
          rd_DelIdlePiece rs1 index
        })"

text \<open>The loop of \<^verbatim>\<open>DelIdle\<close> over the keys the map had at its start.\<close>

fun rd_DelIdle_loop :: "requested \<Rightarrow> u32 list \<Rightarrow> requested option" where
  "rd_DelIdle_loop rs [] = Some rs"
| "rd_DelIdle_loop rs (i # is) = do { rs1 \<leftarrow> rd_DelIdlePiece rs i; rd_DelIdle_loop rs1 is }"

definition rd_DelIdle :: "requested \<Rightarrow> requested option" where
  "rd_DelIdle rs = rd_DelIdle_loop rs (map fst (rd_pieces rs))"

subsection \<open>The invariant\<close>

text \<open>
  The channels of the pieces: made and not closed, no channel belongs to two pieces, and
  every channel that is not closed belongs to a piece.
\<close>

definition rd_chan :: "requested \<Rightarrow> u32 \<Rightarrow> nat option" where
  "rd_chan rs i = Option.bind (map_of (rd_pieces rs) i) rp_done"

definition chans_ok :: "(u32 \<Rightarrow> nat option) \<Rightarrow> nat \<Rightarrow> nat list \<Rightarrow> bool" where
  "chans_ok c made closed \<longleftrightarrow>
     (\<forall>ch \<in> set closed. ch < made) \<and>
     (\<forall>i ch. c i = Some ch \<longrightarrow> ch < made \<and> ch \<notin> set closed) \<and>
     (\<forall>i j ch. c i = Some ch \<and> c j = Some ch \<longrightarrow> i = j) \<and>
     (\<forall>ch < made. ch \<in> set closed \<or> (\<exists>i. c i = Some ch))"

definition prios_ok :: "rpiece \<Rightarrow> bool" where
  "prios_ok r \<longleftrightarrow> list_all (\<lambda>p. p > IdlePriority) (rp_prio r)"

definition rd_inv :: "requested \<Rightarrow> bool" where
  "rd_inv rs \<longleftrightarrow>
     distinct (map fst (rd_pieces rs)) \<and> chans_ok (rd_chan rs) (rd_made rs) (rd_closed rs) \<and>
     list_all (\<lambda>(i, r). prios_ok r) (rd_pieces rs)"

text \<open>The abstract state: which clients want a piece, as a multiset of priorities.\<close>

definition wanted :: "requested \<Rightarrow> u32 \<Rightarrow> int multiset option" where
  "wanted rs i = map_option (\<lambda>r. mset (rp_prio r)) (map_of (rd_pieces rs) i)"

lemma rd_inv_empty: "rd_inv empty_requested"
  by (simp add: rd_inv_def empty_requested_def rd_chan_def chans_ok_def)

lemma mset_delete_at:
  assumes "i < length xs"
  shows "mset (delete_at i xs) = mset xs - {#xs ! i#}"
proof -
  have "mset xs = mset (take i xs @ xs ! i # drop (Suc i) xs)" using id_take_nth_drop [OF assms] by simp
  then show ?thesis by (simp add: delete_at_def)
qed

text \<open>Channels under the changes the operations make.\<close>

lemma chans_ok_remove: "chans_ok c m cl \<Longrightarrow> c i = None \<Longrightarrow> chans_ok (c(i := None)) m cl"
  by (simp add: fun_upd_idem)

lemma chans_ok_make: "chans_ok c m cl \<Longrightarrow> c i = None \<Longrightarrow> chans_ok (c(i := Some m)) (Suc m) cl"
  unfolding chans_ok_def
  by (intro conjI; clarsimp split: if_splits; (metis less_SucI nat_neq_iff less_SucE option.discI)?)

lemma chans_ok_close: "chans_ok c m cl \<Longrightarrow> c i = Some ch \<Longrightarrow> chans_ok (c(i := None)) m (ch # cl)"
  unfolding chans_ok_def
  by (intro conjI; clarsimp split: if_splits; metis option.inject)

lemma chans_ok_open: "chans_ok c m cl \<Longrightarrow> c i = Some ch \<Longrightarrow> ch \<notin> set cl"
  by (auto simp: chans_ok_def)

text \<open>The map after an update and after a deletion.\<close>

lemma rd_chan_update:
  "rd_chan (rs\<lparr>rd_pieces := AList.update i r (rd_pieces rs)\<rparr>) = (rd_chan rs)(i := rp_done r)"
  "rd_chan (rs\<lparr>rd_pieces := AList.update i r (rd_pieces rs), rd_made := m\<rparr>) = (rd_chan rs)(i := rp_done r)"
  by (auto simp: rd_chan_def update_conv' fun_eq_iff)

lemma rd_chan_delete: "rd_chan (rs\<lparr>rd_pieces := AList.delete i (rd_pieces rs)\<rparr>) = (rd_chan rs)(i := None)"
  by (auto simp: rd_chan_def delete_conv' fun_eq_iff)

lemma rd_chan_closed:
  "rd_chan (rs\<lparr>rd_closed := cs, rd_pieces := AList.delete i (rd_pieces rs)\<rparr>) = (rd_chan rs)(i := None)"
  by (auto simp: rd_chan_def delete_conv' fun_eq_iff)

lemma prios_update:
  assumes "list_all (\<lambda>(i, r). Q r) xs" "Q r"
  shows "list_all (\<lambda>(i, r). Q r) (AList.update i r xs)"
  using assms by (induction xs) auto

lemma prios_delete: "list_all P xs \<Longrightarrow> list_all P (AList.delete i xs)"
  by (auto simp: list_all_iff AList.delete_eq)

lemma prios_of: "rd_inv rs \<Longrightarrow> map_of (rd_pieces rs) i = Some r \<Longrightarrow> prios_ok r"
  by (auto simp: rd_inv_def list_all_iff dest!: map_of_SomeD)

lemma wanted_update:
  "wanted (rs\<lparr>rd_pieces := AList.update i r (rd_pieces rs)\<rparr>) = (wanted rs)(i := Some (mset (rp_prio r)))"
  "wanted (rs\<lparr>rd_pieces := AList.update i r (rd_pieces rs), rd_made := m\<rparr>) = (wanted rs)(i := Some (mset (rp_prio r)))"
  "wanted (rs\<lparr>rd_pieces := AList.delete i (rd_pieces rs)\<rparr>) = (wanted rs)(i := None)"
  by (auto simp: wanted_def update_conv' delete_conv' fun_eq_iff)

subsection \<open>What the operations do\<close>

lemma rd_Add_spec:
  assumes inv: "rd_inv rs"
  shows "case rd_Add rs i prio want of (rs', ch, added) \<Rightarrow>
    rd_inv rs' \<and> rd_closed rs' = rd_closed rs \<and> ch = rd_chan rs' i \<and> (want \<longrightarrow> ch \<noteq> None) \<and>
    wanted rs' = (wanted rs)(i := Some ((case wanted rs i of None \<Rightarrow> {#} | Some m \<Rightarrow> m) +
      (if prio > IdlePriority then {#prio#} else {#}))) \<and>
    added = (wanted rs i = None \<or> prio > IdlePriority)"
proof -
  define r where "r = (case map_of (rd_pieces rs) i of None \<Rightarrow> \<lparr>rp_prio = [], rp_done = None\<rparr> | Some r \<Rightarrow> r)"
  define r1 where "r1 = (if prio > IdlePriority then r\<lparr>rp_prio := rp_prio r @ [prio]\<rparr> else r)"
  define new where "new \<longleftrightarrow> want \<and> rp_done r = None"
  define r2 where "r2 = (if new then r1\<lparr>rp_done := Some (rd_made rs)\<rparr> else r1)"
  let ?rs = "rs\<lparr>rd_pieces := AList.update i r2 (rd_pieces rs),
      rd_made := if new then Suc (rd_made rs) else rd_made rs\<rparr>"
  have res: "rd_Add rs i prio want = (?rs, rp_done r2, wanted rs i = None \<or> prio > IdlePriority)"
    by (auto simp: rd_Add_def Let_def r_def r1_def r2_def new_def wanted_def split: option.splits)
  have d: "rp_done r1 = rp_done r" "rp_done r = rd_chan rs i"
    by (auto simp: r1_def r_def rd_chan_def split: option.splits)
  have ok: "chans_ok (rd_chan rs) (rd_made rs) (rd_closed rs)" using inv by (simp add: rd_inv_def)
  have "chans_ok (rd_chan ?rs) (rd_made ?rs) (rd_closed ?rs)"
    using chans_ok_make [OF ok, of i] ok unfolding rd_chan_update by (auto simp: r2_def d new_def)
  moreover have "prios_ok r2"
    using prios_of [OF inv, of i] by (auto simp: r2_def r1_def r_def prios_ok_def split: option.splits)
  then have "list_all (\<lambda>(i, r). prios_ok r) (rd_pieces ?rs)"
    using inv by (simp add: rd_inv_def prios_update)
  moreover have "distinct (map fst (rd_pieces ?rs))"
    using inv by (simp add: rd_inv_def distinct_update)
  ultimately have "rd_inv ?rs" by (simp add: rd_inv_def)
  moreover have "mset (rp_prio r2) = (case wanted rs i of None \<Rightarrow> {#} | Some m \<Rightarrow> m) +
      (if prio > IdlePriority then {#prio#} else {#})"
    by (auto simp: r2_def r1_def r_def wanted_def split: option.splits)
  moreover have "want \<longrightarrow> rp_done r2 \<noteq> None" by (auto simp: r2_def new_def d)
  moreover have "rp_done r2 = rd_chan ?rs i" by (simp add: rd_chan_update)
  ultimately show ?thesis unfolding res by (simp add: wanted_update)
qed

text \<open>Deleting a piece: its channel, if any, is closed, for the first time.\<close>

lemma rd_del_spec:
  assumes inv: "rd_inv rs" and i: "wanted rs i \<noteq> None"
  shows "\<exists>rs'. rd_del rs i = Some rs' \<and> rd_inv rs' \<and> wanted rs' = (wanted rs)(i := None) \<and>
    set (rd_closed rs') = set (rd_closed rs) \<union> set_option (rd_chan rs i)"
proof -
  obtain r where r: "map_of (rd_pieces rs) i = Some r" using i by (auto simp: wanted_def)
  then have c: "rd_chan rs i = rp_done r" by (simp add: rd_chan_def)
  have ok: "chans_ok (rd_chan rs) (rd_made rs) (rd_closed rs)" using inv by (simp add: rd_inv_def)
  have rest: "distinct (map fst (AList.delete i (rd_pieces rs)))"
    "list_all (\<lambda>(i, r). prios_ok r) (AList.delete i (rd_pieces rs))"
    using inv prios_delete [of _ "rd_pieces rs"] by (simp_all add: rd_inv_def distinct_delete)
  show ?thesis
  proof (cases "rp_done r")
    case None
    then show ?thesis using r rest chans_ok_remove [OF ok, of i] c
      by (simp add: rd_del_def rd_inv_def rd_chan_delete wanted_update)
  next
    case (Some ch)
    let ?rs = "rs\<lparr>rd_closed := ch # rd_closed rs\<rparr>"
    have "close_chan ch rs = Some ?rs"
      using chans_ok_open [OF ok, of i ch] c Some by (simp add: close_chan_def)
    moreover have "rd_inv (?rs\<lparr>rd_pieces := AList.delete i (rd_pieces ?rs)\<rparr>)"
      using rest chans_ok_close [OF ok, of i ch] c Some
      by (simp add: rd_inv_def rd_chan_closed)
    ultimately show ?thesis using r Some c
      by (simp add: rd_del_def) (simp add: wanted_def delete_conv' fun_eq_iff)
  qed
qed

lemma rd_Del_spec:
  assumes inv: "rd_inv rs"
  shows "\<exists>rs'. rd_Del rs i prio = Some (rs', wanted rs i = Some {#prio#}) \<and> rd_inv rs' \<and>
    wanted rs' = (wanted rs)(i := if wanted rs i = Some {#prio#} then None
                                  else map_option (\<lambda>m. m - {#prio#}) (wanted rs i)) \<and>
    set (rd_closed rs') = set (rd_closed rs) \<union> (if wanted rs i = Some {#prio#} then set_option (rd_chan rs i) else {})"
proof (cases "map_of (rd_pieces rs) i")
  case None
  then have "wanted rs i = None" by (simp add: wanted_def)
  then show ?thesis using inv None by (auto simp: rd_Del_def)
next
  case (Some r)
  show ?thesis
  proof (cases "index_of (\<lambda>p. p = prio) (rp_prio r)")
    case None
    then have "prio \<notin> set (rp_prio r)" by (auto simp: index_of_None)
    then have "wanted rs i = Some (mset (rp_prio r))" "prio \<notin># mset (rp_prio r)" using Some by (simp_all add: wanted_def)
    then show ?thesis using inv Some None by (auto simp: rd_Del_def diff_single_trivial)
  next
    case k: (Some k)
    define r' where "r' = r\<lparr>rp_prio := delete_at k (rp_prio r)\<rparr>"
    define rs1 where "rs1 = rs\<lparr>rd_pieces := AList.update i r' (rd_pieces rs)\<rparr>"
    have m: "mset (rp_prio r') = mset (rp_prio r) - {#prio#}" "prio \<in># mset (rp_prio r)"
      using index_of_SomeD [OF k] by (simp_all add: r'_def mset_delete_at)
    have "prios_ok r'"
      using prios_of [OF inv Some] set_delete_at_subset [of k "rp_prio r"]
      by (auto simp: prios_ok_def list_all_iff r'_def)
    moreover have c1: "rd_chan rs1 = rd_chan rs"
      unfolding rs1_def rd_chan_update using Some by (auto simp: rd_chan_def r'_def)
    ultimately have inv1: "rd_inv rs1"
      using inv by (simp add: rd_inv_def prios_update distinct_update rs1_def)
    have w1: "wanted rs1 = (wanted rs)(i := Some (mset (rp_prio r) - {#prio#}))"
      by (simp add: rs1_def wanted_update m)
    have e: "rp_prio r' = [] \<longleftrightarrow> mset (rp_prio r) = {#prio#}"
    proof -
      have "rp_prio r' = [] \<longleftrightarrow> mset (rp_prio r) - {#prio#} = {#}" using m(1) by (metis mset_zero_iff)
      also have "\<dots> \<longleftrightarrow> mset (rp_prio r) = {#prio#}" using m(2) by (metis diff_single_trivial insert_DiffM diff_union_cancelL add_mset_add_single cancel_comm_monoid_add_class.diff_cancel)
      finally show ?thesis .
    qed
    have del: "rd_Del rs i prio = (if rp_prio r' = [] then map_option (\<lambda>rs2. (rs2, True)) (rd_del rs1 i) else Some (rs1, False))"
      using Some k by (simp add: rd_Del_def Let_def r'_def rs1_def)
    have wi: "wanted rs i = Some (mset (rp_prio r))" using Some by (simp add: wanted_def)
    show ?thesis
    proof (cases "rp_prio r' = []")
      case True
      obtain rs' where rs': "rd_del rs1 i = Some rs'" "rd_inv rs'" "wanted rs' = (wanted rs1)(i := None)"
        "set (rd_closed rs') = set (rd_closed rs1) \<union> set_option (rd_chan rs1 i)"
        using rd_del_spec [OF inv1, of i] by (auto simp: w1)
      moreover have "rd_closed rs1 = rd_closed rs" by (simp add: rs1_def)
      ultimately show ?thesis using True del e m(2) wi c1 by (simp add: w1)
    next
      case False
      moreover have "rd_closed rs1 = rd_closed rs" by (simp add: rs1_def)
      ultimately show ?thesis using del e m(2) wi inv1 w1 by simp
    qed
  qed
qed

lemma rd_DelIdlePiece_spec:
  assumes inv: "rd_inv rs"
  shows "\<exists>rs'. rd_DelIdlePiece rs i = Some rs' \<and> rd_inv rs' \<and>
    wanted rs' = (wanted rs)(i := if wanted rs i = Some {#} then None else wanted rs i) \<and>
    set (rd_closed rs') = set (rd_closed rs) \<union> (if wanted rs i = Some {#} then set_option (rd_chan rs i) else {})"
proof (cases "map_of (rd_pieces rs) i")
  case None
  then show ?thesis using inv by (auto simp: rd_DelIdlePiece_def wanted_def fun_eq_iff)
next
  case (Some r)
  then show ?thesis using inv rd_del_spec [OF inv, of i] by (auto simp: rd_DelIdlePiece_def wanted_def)
qed

lemma rd_Done_spec:
  assumes inv: "rd_inv rs"
  shows "\<exists>rs'. rd_Done rs i = Some rs' \<and> rd_inv rs' \<and>
    wanted rs' = (wanted rs)(i := if wanted rs i = Some {#} then None else wanted rs i) \<and>
    set (rd_closed rs') = set (rd_closed rs) \<union> set_option (rd_chan rs i)"
proof (cases "map_of (rd_pieces rs) i")
  case None
  then show ?thesis using inv by (auto simp: rd_Done_def wanted_def rd_chan_def fun_eq_iff)
next
  case (Some r)
  have c: "rd_chan rs i = rp_done r" using Some by (simp add: rd_chan_def)
  show ?thesis
  proof (cases "rp_done r")
    case None
    then show ?thesis using Some c rd_DelIdlePiece_spec [OF inv, of i]
      by (auto simp: rd_Done_def split: if_splits)
  next
    case ch: (Some ch)
    let ?r = "r\<lparr>rp_done := None\<rparr>"
    let ?rs = "rs\<lparr>rd_closed := ch # rd_closed rs, rd_pieces := AList.update i ?r (rd_pieces rs)\<rparr>"
    have ok: "chans_ok (rd_chan rs) (rd_made rs) (rd_closed rs)" using inv by (simp add: rd_inv_def)
    have cl: "close_chan ch rs = Some (rs\<lparr>rd_closed := ch # rd_closed rs\<rparr>)"
      using chans_ok_open [OF ok, of i ch] c ch by (simp add: close_chan_def)
    have c1: "rd_chan ?rs = (rd_chan rs)(i := None)" by (auto simp: rd_chan_def update_conv' fun_eq_iff)
    have "prios_ok ?r" using prios_of [OF inv Some] by (simp add: prios_ok_def)
    then have inv1: "rd_inv ?rs"
      using inv chans_ok_close [OF ok, of i ch] c ch
      by (simp add: rd_inv_def c1 [simplified] prios_update distinct_update)
    have w: "wanted ?rs = wanted rs" using Some by (auto simp: wanted_def update_conv' fun_eq_iff)
    show ?thesis
      using rd_DelIdlePiece_spec [OF inv1, of i] Some ch cl c
      by (auto simp: rd_Done_def w c1 split: if_splits)
  qed
qed

lemma rd_DelIdle_loop_spec:
  assumes "rd_inv rs"
  shows "\<exists>rs'. rd_DelIdle_loop rs is = Some rs' \<and> rd_inv rs' \<and>
    (\<forall>i. wanted rs' i = (if i \<in> set is \<and> wanted rs i = Some {#} then None else wanted rs i))"
  using assms
proof (induction "is" arbitrary: rs)
  case (Cons j js)
  obtain rs1 where rs1: "rd_DelIdlePiece rs j = Some rs1" "rd_inv rs1"
    "wanted rs1 = (wanted rs)(j := if wanted rs j = Some {#} then None else wanted rs j)"
    using rd_DelIdlePiece_spec [OF Cons.prems, of j] by blast
  then have w: "wanted rs1 i = (if i = j \<and> wanted rs i = Some {#} then None else wanted rs i)" for i
    by simp
  obtain rs2 where rs2: "rd_DelIdle_loop rs1 js = Some rs2" "rd_inv rs2"
    "\<forall>i. wanted rs2 i = (if i \<in> set js \<and> wanted rs1 i = Some {#} then None else wanted rs1 i)"
    using Cons.IH [OF rs1(2)] by blast
  have "wanted rs2 i = (if i \<in> set (j # js) \<and> wanted rs i = Some {#} then None else wanted rs i)" for i
    using rs2(3) w [of i] by simp
  then show ?case using rs1(1) rs2(1,2) by simp
qed simp

lemma rd_DelIdle_spec:
  assumes "rd_inv rs"
  shows "\<exists>rs'. rd_DelIdle rs = Some rs' \<and> rd_inv rs' \<and>
    wanted rs' = (\<lambda>i. if wanted rs i = Some {#} then None else wanted rs i)"
proof -
  have "wanted rs i = Some {#} \<Longrightarrow> i \<in> set (map fst (rd_pieces rs))" for i
    by (auto simp: wanted_def dest!: map_of_SomeD intro: rev_image_eqI)
  then show ?thesis
    using rd_DelIdle_loop_spec [OF assms, of "map fst (rd_pieces rs)"]
    unfolding rd_DelIdle_def by (auto simp: fun_eq_iff)
qed

subsection \<open>Properties\<close>

datatype rd_op = Rd_Add u32 int bool | Rd_Del u32 int | Rd_Done u32 | Rd_DelIdle

definition rd_step :: "requested \<Rightarrow> rd_op \<Rightarrow> requested option" where
  "rd_step rs a =
     (case a of
        Rd_Add i prio want \<Rightarrow> Some (fst (rd_Add rs i prio want))
      | Rd_Del i prio \<Rightarrow> map_option fst (rd_Del rs i prio)
      | Rd_Done i \<Rightarrow> rd_Done rs i
      | Rd_DelIdle \<Rightarrow> rd_DelIdle rs)"

interpretation rdm: machine "\<lambda>_ _. True" rd_step rd_inv
proof
  fix rs a assume inv: "rd_inv rs"
  show "\<exists>rs'. rd_step rs a = Some rs' \<and> rd_inv rs'"
  proof (cases a)
    case (Rd_Add i prio want)
    then show ?thesis using rd_Add_spec [OF inv, where i = i and prio = prio and want = want] by (auto simp: rd_step_def split: prod.splits)
  next
    case (Rd_Del i prio)
    then show ?thesis using rd_Del_spec [OF inv, of i prio] by (auto simp: rd_step_def)
  next
    case (Rd_Done i)
    then show ?thesis using rd_Done_spec [OF inv, of i] by (auto simp: rd_step_def)
  next
    case Rd_DelIdle
    then show ?thesis using rd_DelIdle_spec [OF inv] by (auto simp: rd_step_def)
  qed
qed

lemma permitted_all: "permitted_ops (\<lambda>_ _. True) step s as \<longleftrightarrow> run_ops step s as \<noteq> None"
  by (induction as arbitrary: s) (auto split: option.splits)

lemma rd_runs: "rd_inv rs \<Longrightarrow> \<exists>rs'. run_ops rd_step rs as = Some rs' \<and> rd_inv rs'"
proof (induction as arbitrary: rs)
  case (Cons a as)
  then show ?case using rdm.progress [of rs a] by auto
qed simp

text \<open>
  C32. Waiting for pieces. Any sequence of operations on the set of requested pieces runs without
  closing a channel twice, and afterwards the channels that have been handed out and are
  not closed are exactly the channels of the pieces that are still requested, so that no
  reader waits for a channel that nobody will close.
\<close>

theorem requested_channels:
  "\<exists>rs. run_ops rd_step empty_requested as = Some rs \<and> distinct (map fst (rd_pieces rs)) \<and>
     {ch. ch < rd_made rs \<and> ch \<notin> set (rd_closed rs)} = {ch. \<exists>i. rd_chan rs i = Some ch}"
proof -
  obtain rs where rs: "run_ops rd_step empty_requested as = Some rs" "rd_inv rs"
    using rd_runs [OF rd_inv_empty] by blast
  then have "chans_ok (rd_chan rs) (rd_made rs) (rd_closed rs)" "distinct (map fst (rd_pieces rs))"
    by (simp_all add: rd_inv_def)
  then show ?thesis using rs(1) unfolding chans_ok_def by blast
qed

text \<open>
  Requests of several clients. Adding a request adds its priority to those of the piece and,
  when asked to, returns a channel that is open. Withdrawing a request removes one
  occurrence of its priority; the piece is cancelled, and its channel closed, when it was
  the last. When a piece is done its channel is closed, and it stays requested only while
  clients want it.
\<close>

theorem requested_operations:
  assumes inv: "rd_inv rs"
  shows "(\<exists>rs' ch. rd_Add rs i prio want = (rs', ch, wanted rs i = None \<or> prio > IdlePriority) \<and>
      wanted rs' = (wanted rs)(i := Some ((case wanted rs i of None \<Rightarrow> {#} | Some m \<Rightarrow> m) +
        (if prio > IdlePriority then {#prio#} else {#}))) \<and>
      ch = rd_chan rs' i \<and> (want \<longrightarrow> ch \<noteq> None) \<and> set_option ch \<inter> set (rd_closed rs') = {}) \<and>
    (\<exists>rs' b. rd_Del rs i prio = Some (rs', b) \<and>
      b = (wanted rs i = Some {#prio#}) \<and>
      wanted rs' = (wanted rs)(i := if b then None else map_option (\<lambda>m. m - {#prio#}) (wanted rs i)) \<and>
      set (rd_closed rs') = set (rd_closed rs) \<union> (if b then set_option (rd_chan rs i) else {})) \<and>
    (\<exists>rs'. rd_Done rs i = Some rs' \<and>
      wanted rs' = (wanted rs)(i := if wanted rs i = Some {#} then None else wanted rs i) \<and>
      set (rd_closed rs') = set (rd_closed rs) \<union> set_option (rd_chan rs i))"
    (is "?A \<and> ?B \<and> ?C")
proof (intro conjI)
  obtain rs' ch where a: "rd_Add rs i prio want = (rs', ch, wanted rs i = None \<or> prio > IdlePriority)"
    "rd_inv rs'" "ch = rd_chan rs' i" "want \<longrightarrow> ch \<noteq> None"
    "wanted rs' = (wanted rs)(i := Some ((case wanted rs i of None \<Rightarrow> {#} | Some m \<Rightarrow> m) +
        (if prio > IdlePriority then {#prio#} else {#})))"
    using rd_Add_spec [OF inv, where i = i and prio = prio and want = want] by (auto split: prod.splits)
  then have "set_option ch \<inter> set (rd_closed rs') = {}"
    using chans_ok_open [of "rd_chan rs'"] by (auto simp: rd_inv_def)
  then show ?A using a by blast
  show ?B using rd_Del_spec [OF inv, of i prio] by blast
  show ?C using rd_Done_spec [OF inv, of i] by blast
qed

theorem requested_operations_witness:
  "\<exists>rs' b. rd_Del (the (run_ops rd_step empty_requested [Rd_Add 3 5 True, Rd_Add 3 2 False])) 3 5 = Some (rs', b) \<and>
     \<not> b \<and> wanted rs' 3 = Some {#2#}"
proof -
  let ?rs = "the (run_ops rd_step empty_requested [Rd_Add 3 5 True, Rd_Add 3 2 False])"
  have inv: "rd_inv ?rs" using rd_runs [OF rd_inv_empty, of "[Rd_Add 3 5 True, Rd_Add 3 2 False]"] by auto
  have "map_of (rd_pieces ?rs) 3 = Some \<lparr>rp_prio = [5, 2], rp_done = Some 0\<rparr>" by code_simp
  then have "wanted ?rs 3 = Some {#5, 2#}" by (simp add: wanted_def)
  with requested_operations [OF inv, of 3 5 True] show ?thesis by auto
qed

end
