(* ===== verification/Binary.thy ===== *)
theory Binary
  imports Prelude
begin

section \<open>Numbers and network addresses as bytes\<close>

text \<open>
  The big-endian encodings of \<^verbatim>\<open>encoding/binary\<close>, for numbers of any width, and the addresses
  of \<^verbatim>\<open>net/netip\<close>, as far as the program uses them.
\<close>

subsection \<open>Big-endian numbers\<close>

fun be_encode :: "nat \<Rightarrow> nat \<Rightarrow> byte list" where
  "be_encode 0 x = []"
| "be_encode (Suc n) x = be_encode n (x div 256) @ [of_nat (x mod 256)]"

definition be_decode :: "byte list \<Rightarrow> nat" where
  "be_decode bs = foldl (\<lambda>a b. a * 256 + unat b) 0 bs"

lemma length_be_encode [simp]: "length (be_encode n x) = n"
  by (induction n arbitrary: x) simp_all

lemma be_decode_Nil [simp]: "be_decode [] = 0"
  by (simp add: be_decode_def)

lemma be_decode_snoc [simp]: "be_decode (bs @ [b]) = be_decode bs * 256 + unat b"
  by (simp add: be_decode_def)

lemma unat_byte_bound: "unat (b :: byte) < 256"
  using unsigned_less [of b] by simp

lemma unat_of_nat_byte: "x < 256 \<Longrightarrow> unat (of_nat x :: byte) = x"
  by (simp add: unat_of_nat)

lemma be_decode_encode: "x < 256 ^ n \<Longrightarrow> be_decode (be_encode n x) = x"
proof (induction n arbitrary: x)
  case (Suc n)
  then have "x div 256 < 256 ^ n" by (simp add: div_less_iff_less_mult mult.commute)
  then show ?case using Suc.IH [of "x div 256"] by (simp add: unat_of_nat_byte)
qed simp

lemma be_decode_bound: "be_decode bs < 256 ^ length bs"
proof (induction bs rule: rev_induct)
  case (snoc b bs)
  have "be_decode bs * 256 + unat b < Suc (be_decode bs) * 256" using unat_byte_bound [of b] by simp
  also have "\<dots> \<le> 256 ^ length bs * 256" using snoc by (intro mult_le_mono1) simp
  finally show ?case by simp
qed simp

lemma be_encode_decode: "be_encode (length bs) (be_decode bs) = bs"
proof (induction bs rule: rev_induct)
  case (snoc b bs)
  have "(be_decode bs * 256 + unat b) div 256 = be_decode bs" "(be_decode bs * 256 + unat b) mod 256 = unat b"
    using unat_byte_bound [of b] by auto
  then show ?case using snoc by simp
qed simp

text \<open>The fixed widths.\<close>

definition put_u16 :: "u16 \<Rightarrow> byte list" where
  "put_u16 v = be_encode 2 (unat v)"

definition put_u32 :: "u32 \<Rightarrow> byte list" where
  "put_u32 v = be_encode 4 (unat v)"

definition get_u16 :: "byte list \<Rightarrow> u16" where
  "get_u16 bs = of_nat (be_decode (take 2 bs))"

definition get_u32 :: "byte list \<Rightarrow> u32" where
  "get_u32 bs = of_nat (be_decode (take 4 bs))"

lemma length_put [simp]: "length (put_u16 v) = 2" "length (put_u32 w) = 4"
  by (simp_all add: put_u16_def put_u32_def)

lemma unat_u16_bound: "unat (a :: u16) < 65536"
  using unsigned_less [of a] by simp

lemma get_put_u16 [wire_simps]: "get_u16 (put_u16 v @ bs) = v"
  using unat_u16_bound [of v] by (simp add: get_u16_def put_u16_def be_decode_encode)

lemma get_put_u32 [wire_simps]: "get_u32 (put_u32 v @ bs) = v"
  using unat_u32_bound [of v] by (simp add: get_u32_def put_u32_def be_decode_encode)

lemma put_get_u16: "length bs = 2 \<Longrightarrow> put_u16 (get_u16 bs) = bs"
  using be_decode_bound [of bs] be_encode_decode [of bs]
  by (simp add: get_u16_def put_u16_def unat_of_nat)

lemma put_get_u32: "length bs = 4 \<Longrightarrow> put_u32 (get_u32 bs) = bs"
  using be_decode_bound [of bs] be_encode_decode [of bs]
  by (simp add: get_u32_def put_u32_def unat_of_nat)

subsection \<open>Addresses\<close>

text \<open>
  \<^verbatim>\<open>netip.Addr\<close>: no address, an IPv4 address, or an IPv6 address with a zone. The address
  \<^verbatim>\<open>::ffff:a.b.c.d\<close> is an IPv6 address.
\<close>

datatype addr = NoAddr | Addr4 "32 word" | Addr6 "128 word" string

type_synonym addrport = "addr \<times> u16"

definition addr_Is4 :: "addr \<Rightarrow> bool" where
  "addr_Is4 a = (case a of Addr4 _ \<Rightarrow> True | _ \<Rightarrow> False)"

definition addr_Is6 :: "addr \<Rightarrow> bool" where
  "addr_Is6 a = (case a of Addr6 _ _ \<Rightarrow> True | _ \<Rightarrow> False)"

text \<open>\<^verbatim>\<open>AddrFromSlice\<close>\<close>

definition AddrFromSlice :: "byte list \<Rightarrow> addr option" where
  "AddrFromSlice bs =
     (if length bs = 4 then Some (Addr4 (of_nat (be_decode bs)))
      else if length bs = 16 then Some (Addr6 (of_nat (be_decode bs)) [])
      else None)"

text \<open>\<^verbatim>\<open>As4\<close>, which the program only calls on IPv4 addresses.\<close>

definition addr_As4 :: "addr \<Rightarrow> byte list" where
  "addr_As4 a = (case a of Addr4 w \<Rightarrow> be_encode 4 (unat w) | _ \<Rightarrow> [])"

text \<open>\<^verbatim>\<open>As16\<close> maps an IPv4 address into IPv6, drops the zone and is all zeroes for no address.\<close>

definition addr_As16 :: "addr \<Rightarrow> byte list" where
  "addr_As16 a =
     (case a of
        Addr6 w _ \<Rightarrow> be_encode 16 (unat w)
      | Addr4 w \<Rightarrow> replicate 10 0 @ [0xFF, 0xFF] @ be_encode 4 (unat w)
      | NoAddr \<Rightarrow> replicate 16 0)"

lemma AddrFromSlice_As4: "AddrFromSlice (addr_As4 (Addr4 w)) = Some (Addr4 w)"
proof -
  have "unat w < 2 ^ LENGTH(32)" by (rule unsigned_less)
  then show ?thesis by (simp add: AddrFromSlice_def addr_As4_def be_decode_encode)
qed

lemma AddrFromSlice_As16: "AddrFromSlice (addr_As16 (Addr6 w z)) = Some (Addr6 w [])"
proof -
  have "unat w < 2 ^ LENGTH(128)" by (rule unsigned_less)
  then have "unat w < 256 ^ 16" by simp
  then show ?thesis by (simp add: AddrFromSlice_def addr_As16_def be_decode_encode del: be_encode.simps)
qed

text \<open>
  \<^verbatim>\<open>IsGlobalUnicast\<close>: not unspecified, the IPv4 broadcast address, loopback, multicast or
  link-local. The last three tests look at an IPv4 address mapped into IPv6 as an IPv4
  address.
\<close>

definition addr_top :: "nat \<Rightarrow> nat \<Rightarrow> addr \<Rightarrow> nat" where
  "addr_top n4 n6 a = (case a of Addr4 w \<Rightarrow> unat w div 2 ^ (32 - n4) | Addr6 w _ \<Rightarrow> unat w div 2 ^ (128 - n6) | NoAddr \<Rightarrow> 0)"

definition addr_unmap :: "addr \<Rightarrow> addr" where
  "addr_unmap a =
     (case a of Addr6 w _ \<Rightarrow> if unat w div 2 ^ 32 = 0xFFFF then Addr4 (ucast w) else a | _ \<Rightarrow> a)"

definition addr_IsLoopback :: "addr \<Rightarrow> bool" where
  "addr_IsLoopback a =
     (case addr_unmap a of
        Addr4 w \<Rightarrow> addr_top 8 0 (Addr4 w) = 127 | Addr6 w z \<Rightarrow> w = 1 | NoAddr \<Rightarrow> False)"

definition addr_IsMulticast :: "addr \<Rightarrow> bool" where
  "addr_IsMulticast a =
     (case addr_unmap a of
        Addr4 w \<Rightarrow> addr_top 4 0 (Addr4 w) = 14 | Addr6 w z \<Rightarrow> addr_top 0 8 (Addr6 w z) = 255 | NoAddr \<Rightarrow> False)"

definition addr_IsLinkLocalUnicast :: "addr \<Rightarrow> bool" where
  "addr_IsLinkLocalUnicast a =
     (case addr_unmap a of
        Addr4 w \<Rightarrow> addr_top 16 0 (Addr4 w) = 0xA9FE
      | Addr6 w z \<Rightarrow> addr_top 0 10 (Addr6 w z) = 0x3FA
      | NoAddr \<Rightarrow> False)"

definition addr_IsGlobalUnicast :: "addr \<Rightarrow> bool" where
  "addr_IsGlobalUnicast a =
     (a \<noteq> NoAddr \<and> a \<noteq> Addr4 0 \<and> a \<noteq> Addr4 (- 1) \<and> a \<noteq> Addr6 0 [] \<and>
      \<not> addr_IsLoopback a \<and> \<not> addr_IsMulticast a \<and> \<not> addr_IsLinkLocalUnicast a)"

end
