(* ===== verification/Pex.thy ===== *)
theory Pex
  imports Binary
begin

section \<open>Peer exchange (pex/pex.go, and pexState of peer/peer.go)\<close>

text \<open>
  The compact representation of lists of peers, and what each connection remembers about the
  peers it has announced to the other side.
\<close>

subsection \<open>Peers and the compact format\<close>

record pex_peer =
  px_addr :: addrport
  px_flags :: byte

definition pex_Find :: "pex_peer \<Rightarrow> pex_peer list \<Rightarrow> nat option" where
  "pex_Find p l = index_of (\<lambda>q. px_addr p = px_addr q) l"

text \<open>The iteration \<open>i\<close> of the loop of \<^verbatim>\<open>ParseCompact\<close>, for addresses of \<open>l\<close> bytes.\<close>

definition compact_peer :: "nat \<Rightarrow> byte list \<Rightarrow> byte list \<Rightarrow> nat \<Rightarrow> pex_peer list" where
  "compact_peer l data flags i =
     (let j = i * (l + 2)
      in case AddrFromSlice (take l (drop j data)) of
           None \<Rightarrow> []
         | Some ip \<Rightarrow>
             [\<lparr>px_addr = (ip, get_u16 (drop (j + l) data)),
               px_flags = (if i < length flags then flags ! i else 0)\<rparr>])"

definition ParseCompact :: "byte list \<Rightarrow> byte list \<Rightarrow> bool \<Rightarrow> pex_peer list" where
  "ParseCompact data flags ipv6 =
     (let l = (if ipv6 then 16 else 4)
      in if length data mod (l + 2) \<noteq> 0 then []
         else concat (map (compact_peer l data flags) [0..<length data div (l + 2)]))"

definition format_step ::
  "byte list \<times> byte list \<times> byte list \<times> byte list \<Rightarrow> pex_peer \<Rightarrow> byte list \<times> byte list \<times> byte list \<times> byte list" where
  "format_step acc p =
     (case acc of (ipv4, flags4, ipv6, flags6) \<Rightarrow>
        if addr_Is4 (fst (px_addr p))
        then (ipv4 @ addr_As4 (fst (px_addr p)) @ put_u16 (snd (px_addr p)), flags4 @ [px_flags p], ipv6, flags6)
        else (ipv4, flags4, ipv6 @ addr_As16 (fst (px_addr p)) @ put_u16 (snd (px_addr p)), flags6 @ [px_flags p]))"

definition FormatCompact :: "pex_peer list \<Rightarrow> byte list \<times> byte list \<times> byte list \<times> byte list" where
  "FormatCompact peers = foldl format_step ([], [], [], []) peers"

subsection \<open>What has been announced to a peer\<close>

record pexState =
  pending :: "pex_peer list"
  pendingDel :: "pex_peer list"
  pex_sent :: "pex_peer list"

definition empty_pexState :: pexState where
  "empty_pexState = \<lparr>pending = [], pendingDel = [], pex_sent = []\<rparr>"

definition pexState_add :: "pexState \<Rightarrow> pex_peer \<Rightarrow> pexState" where
  "pexState_add st p =
     (case pex_Find p (pendingDel st) of
        Some i \<Rightarrow> st\<lparr>pendingDel := delete_at i (pendingDel st)\<rparr>
      | None \<Rightarrow>
          if pex_Find p (pex_sent st) \<noteq> None then st
          else if pex_Find p (pending st) \<noteq> None then st
          else st\<lparr>pending := pending st @ [p]\<rparr>)"

definition pexState_del :: "pexState \<Rightarrow> pex_peer \<Rightarrow> pexState" where
  "pexState_del st p =
     (case pex_Find p (pending st) of
        Some i \<Rightarrow> st\<lparr>pending := delete_at i (pending st)\<rparr>
      | None \<Rightarrow>
          (case pex_Find p (pex_sent st) of
             None \<Rightarrow> st
           | Some i \<Rightarrow>
               let st1 = st\<lparr>pex_sent := delete_at i (pex_sent st)\<rparr>
               in if pex_Find p (pendingDel st1) \<noteq> None then st1
                  else st1\<lparr>pendingDel := pendingDel st1 @ [p]\<rparr>))"

text \<open>\<^verbatim>\<open>computePex\<close>: the state, the peers to announce and those to withdraw, at most 50 of each.\<close>

definition computePex :: "pexState \<Rightarrow> pexState \<times> pex_peer list \<times> pex_peer list" where
  "computePex st =
     (if pending st = [] \<and> pendingDel st = [] then (st, [], [])
      else let tosend = (if length (pending st) > 50 then take 50 (pending st) else pending st);
               rest = (if length (pending st) > 50 then drop 50 (pending st) else []);
               todel = (if length (pendingDel st) > 50 then take 50 (pendingDel st) else pendingDel st);
               restDel = (if length (pendingDel st) > 50 then drop 50 (pendingDel st) else [])
           in (\<lparr>pending = rest, pendingDel = restDel, pex_sent = pex_sent st @ tosend\<rparr>, tosend, todel))"

text \<open>
  \<^verbatim>\<open>sendPex\<close>, when the peer accepts PEX and is not congested: \<open>ok\<close> says whether the message
  could be written. The result is the new state and the message, if one was sent.
\<close>

definition sendPex_state :: "bool \<Rightarrow> pexState \<Rightarrow> pexState \<times> (pex_peer list \<times> pex_peer list) option" where
  "sendPex_state ok st =
     (let (st1, tosend, todel) = computePex st
      in if tosend \<noteq> [] \<or> todel \<noteq> []
         then if ok then (st1, Some (tosend, todel))
              else (st1\<lparr>pending := tosend @ pending st1, pendingDel := todel @ pendingDel st1\<rparr>, None)
         else (st1, None))"

subsection \<open>The compact format is faithful\<close>

lemma ParseCompact_Nil [simp]: "ParseCompact [] flags ipv6 = []"
  by (simp add: ParseCompact_def)

lemma ParseCompact_block:
  assumes l: "l = (if ipv6 then 16 else 4)" and ip: "length ip = l" "AddrFromSlice ip = Some a"
  shows "ParseCompact (ip @ put_u16 port @ data) (f # flags) ipv6 =
    (if length data mod (l + 2) \<noteq> 0 then []
     else \<lparr>px_addr = (a, port), px_flags = f\<rparr> # ParseCompact data flags ipv6)"
proof -
  let ?d = "ip @ put_u16 port @ data"
  have len: "length ?d = (l + 2) + length data" using ip by simp
  have pos: "0 < l + 2" by simp
  have m: "length ?d mod (l + 2) = length data mod (l + 2)" unfolding len by (rule mod_add_self1)
  have n: "length ?d div (l + 2) = Suc (length data div (l + 2))"
    unfolding len using div_add_self1 [of "l + 2" "length data"] pos by linarith
  have upt: "[0..<Suc k] = 0 # map Suc [0..<k]" for k by (simp add: map_Suc_upt upt_conv_Cons)
  have d1: "drop (l + 2) ?d = data" using ip by simp
  have dr: "drop (Suc i * (l + 2)) ?d = drop (i * (l + 2)) data" for i
    by (metis d1 drop_drop mult_Suc add.commute)
  have dr': "drop (Suc i * (l + 2) + l) ?d = drop (i * (l + 2) + l) data" for i
    by (metis dr drop_drop add.commute)
  have "compact_peer l ?d (f # flags) (Suc i) = compact_peer l data flags i" for i
    by (simp only: compact_peer_def dr dr' Let_def) (simp split: option.split)
  moreover have "compact_peer l ?d (f # flags) 0 = [\<lparr>px_addr = (a, port), px_flags = f\<rparr>]"
    using ip by (simp add: compact_peer_def wire_simps)
  ultimately show ?thesis
    unfolding ParseCompact_def Let_def l [symmetric] m n upt by (simp add: comp_def)
qed

text \<open>The peers the format can represent: with an address, and without a zone.\<close>

definition plain_peer :: "pex_peer \<Rightarrow> bool" where
  "plain_peer p = (case fst (px_addr p) of NoAddr \<Rightarrow> False | Addr4 _ \<Rightarrow> True | Addr6 _ z \<Rightarrow> z = [])"

text \<open>The two halves of \<^verbatim>\<open>FormatCompact\<close>.\<close>

definition compact4 :: "pex_peer \<Rightarrow> byte list" where
  "compact4 p = addr_As4 (fst (px_addr p)) @ put_u16 (snd (px_addr p))"

definition compact6 :: "pex_peer \<Rightarrow> byte list" where
  "compact6 p = addr_As16 (fst (px_addr p)) @ put_u16 (snd (px_addr p))"

lemma FormatCompact_concat:
  "FormatCompact ps =
     (let p4 = filter (\<lambda>p. addr_Is4 (fst (px_addr p))) ps; p6 = filter (\<lambda>p. \<not> addr_Is4 (fst (px_addr p))) ps
      in (concat (map compact4 p4), map px_flags p4, concat (map compact6 p6), map px_flags p6))"
  unfolding FormatCompact_def
  by (induction ps rule: rev_induct)
    (auto simp: format_step_def compact4_def compact6_def Let_def split: prod.splits)

lemma ParseCompact4:
  "list_all (\<lambda>p. addr_Is4 (fst (px_addr p))) ps \<Longrightarrow>
   ParseCompact (concat (map compact4 ps)) (map px_flags ps) False = ps \<and> length (concat (map compact4 ps)) mod 6 = 0"
proof (induction ps)
  case (Cons p ps)
  then obtain w port where p: "px_addr p = (Addr4 w, port)"
    by (cases "px_addr p") (auto simp: addr_Is4_def split: addr.splits)
  have len: "length (addr_As4 (Addr4 w)) = 4" by (simp add: addr_As4_def)
  have "ParseCompact (addr_As4 (Addr4 w) @ put_u16 port @ concat (map compact4 ps)) (px_flags p # map px_flags ps) False
      = \<lparr>px_addr = (Addr4 w, port), px_flags = px_flags p\<rparr> # ps"
    using Cons ParseCompact_block [of 4 False "addr_As4 (Addr4 w)" "Addr4 w"] len AddrFromSlice_As4 by simp
  moreover have "\<lparr>px_addr = (Addr4 w, port), px_flags = px_flags p\<rparr> = p" by (simp flip: p)
  moreover have "length (concat (map compact4 (p # ps))) mod 6 = (6 + length (concat (map compact4 ps))) mod 6"
    by (simp add: compact4_def p len)
  moreover have "compact4 p = addr_As4 (Addr4 w) @ put_u16 port" by (simp add: compact4_def p)
  ultimately show ?case using Cons by simp
qed simp

lemma ParseCompact6:
  "list_all (\<lambda>p. plain_peer p \<and> \<not> addr_Is4 (fst (px_addr p))) ps \<Longrightarrow>
   ParseCompact (concat (map compact6 ps)) (map px_flags ps) True = ps \<and> length (concat (map compact6 ps)) mod 18 = 0"
proof (induction ps)
  case (Cons p ps)
  then obtain w port where p: "px_addr p = (Addr6 w [], port)"
    by (cases "px_addr p") (auto simp: addr_Is4_def plain_peer_def split: addr.splits)
  have len: "length (addr_As16 (Addr6 w [])) = 16" by (simp add: addr_As16_def)
  have "ParseCompact (addr_As16 (Addr6 w []) @ put_u16 port @ concat (map compact6 ps)) (px_flags p # map px_flags ps) True
      = \<lparr>px_addr = (Addr6 w [], port), px_flags = px_flags p\<rparr> # ps"
    using Cons ParseCompact_block [of 16 True "addr_As16 (Addr6 w [])" "Addr6 w []"] len AddrFromSlice_As16 by simp
  moreover have "\<lparr>px_addr = (Addr6 w [], port), px_flags = px_flags p\<rparr> = p" by (simp flip: p)
  moreover have "length (concat (map compact6 (p # ps))) mod 18 = (18 + length (concat (map compact6 ps))) mod 18"
    by (simp add: compact6_def p len)
  moreover have "compact6 p = addr_As16 (Addr6 w []) @ put_u16 port" by (simp add: compact6_def p)
  ultimately show ?case using Cons by simp
qed simp

text \<open>
  The compact format is faithful: what \<^verbatim>\<open>FormatCompact\<close> writes for a list of peers with
  addresses and without zones, \<^verbatim>\<open>ParseCompact\<close> reads back, the IPv4 peers and the IPv6 peers
  each in their order and with their flags.
\<close>

theorem compact_round_trip:
  assumes "list_all plain_peer ps" and "FormatCompact ps = (b4, f4, b6, f6)"
  shows "ParseCompact b4 f4 False = filter (\<lambda>p. addr_Is4 (fst (px_addr p))) ps \<and>
    ParseCompact b6 f6 True = filter (\<lambda>p. \<not> addr_Is4 (fst (px_addr p))) ps"
  using assms ParseCompact4 [of "filter (\<lambda>p. addr_Is4 (fst (px_addr p))) ps"]
    ParseCompact6 [of "filter (\<lambda>p. \<not> addr_Is4 (fst (px_addr p))) ps"]
  by (auto simp: FormatCompact_concat Let_def list_all_iff)

theorem compact_round_trip_witness:
  "ParseCompact [10, 0, 0, 1, 0x1A, 0xE1] [0x10] False = [\<lparr>px_addr = (Addr4 0x0A000001, 6881), px_flags = 0x10\<rparr>]"
proof -
  have "FormatCompact [\<lparr>px_addr = (Addr4 0x0A000001, 6881), px_flags = 0x10\<rparr>]
      = ([10, 0, 0, 1, 0x1A, 0xE1], [0x10], [], [])"
    and "list_all plain_peer [\<lparr>px_addr = (Addr4 0x0A000001, 6881), px_flags = 0x10\<rparr>]"
    by code_simp+
  from compact_round_trip [OF this(2,1)] show ?thesis by (simp add: addr_Is4_def)
qed

subsection \<open>What the other side knows\<close>

text \<open>
  The state of a connection together with what it is about: the peers that are present, as
  the torrent reports them, and the peers the other side knows of, which changes with each
  message (first the added peers, then the dropped ones).
\<close>

record pex_world =
  pw_state :: pexState
  pw_present :: "addrport set"
  pw_remote :: "addrport set"

datatype pex_op = Pex_add pex_peer | Pex_del pex_peer | Pex_send bool

definition empty_world :: pex_world where
  "empty_world = \<lparr>pw_state = empty_pexState, pw_present = {}, pw_remote = {}\<rparr>"

definition addrs :: "pex_peer list \<Rightarrow> addrport set" where
  "addrs ps = set (map px_addr ps)"

definition pex_step :: "pex_world \<Rightarrow> pex_op \<Rightarrow> pex_world option" where
  "pex_step w a =
     (case a of
        Pex_add p \<Rightarrow> Some (w\<lparr>pw_state := pexState_add (pw_state w) p, pw_present := insert (px_addr p) (pw_present w)\<rparr>)
      | Pex_del p \<Rightarrow> Some (w\<lparr>pw_state := pexState_del (pw_state w) p, pw_present := pw_present w - {px_addr p}\<rparr>)
      | Pex_send ok \<Rightarrow>
          (case sendPex_state ok (pw_state w) of
             (st, None) \<Rightarrow> Some (w\<lparr>pw_state := st\<rparr>)
           | (st, Some (added, dropped)) \<Rightarrow>
               Some (w\<lparr>pw_state := st, pw_remote := (pw_remote w \<union> addrs added) - addrs dropped\<rparr>)))"

definition pex_permitted :: "pex_world \<Rightarrow> pex_op \<Rightarrow> bool" where
  "pex_permitted w a =
     (case a of
        Pex_add p \<Rightarrow> px_addr p \<notin> addrs (pendingDel (pw_state w))
      | Pex_del p \<Rightarrow> True
      | Pex_send ok \<Rightarrow> ok)"

definition pex_inv :: "pex_world \<Rightarrow> bool" where
  "pex_inv w \<longleftrightarrow>
     (let st = pw_state w
      in distinct (map px_addr (pending st @ pendingDel st @ pex_sent st)) \<and>
         pw_present w = addrs (pending st) \<union> addrs (pex_sent st) \<and>
         pw_remote w = addrs (pex_sent st) \<union> addrs (pendingDel st))"

lemma pex_Find_None: "pex_Find p l = None \<longleftrightarrow> px_addr p \<notin> addrs l"
  by (auto simp: pex_Find_def index_of_None addrs_def)

lemma pex_Find_Some:
  assumes "pex_Find p l = Some i" "distinct (map px_addr l)"
  shows "addrs (delete_at i l) = addrs l - {px_addr p}" "distinct (map px_addr (delete_at i l))" "px_addr p \<in> addrs l"
proof -
  have i: "i < length l" "px_addr (l ! i) = px_addr p"
    using index_of_SomeD [OF assms(1) [unfolded pex_Find_def]] by simp_all
  then show "addrs (delete_at i l) = addrs l - {px_addr p}" "distinct (map px_addr (delete_at i l))" "px_addr p \<in> addrs l"
    using set_delete_at_distinct [OF assms(2), of i] nth_mem [of i "map px_addr l"]
    by (simp_all add: addrs_def map_delete_at flip: set_map)
qed

lemma pex_inv_iff:
  "pex_inv w \<longleftrightarrow>
     (let st = pw_state w
      in distinct (map px_addr (pending st)) \<and> distinct (map px_addr (pendingDel st)) \<and>
         distinct (map px_addr (pex_sent st)) \<and>
         addrs (pending st) \<inter> addrs (pendingDel st) = {} \<and> addrs (pending st) \<inter> addrs (pex_sent st) = {} \<and>
         addrs (pendingDel st) \<inter> addrs (pex_sent st) = {} \<and>
         pw_present w = addrs (pending st) \<union> addrs (pex_sent st) \<and>
         pw_remote w = addrs (pex_sent st) \<union> addrs (pendingDel st))"
  by (auto simp: pex_inv_def Let_def addrs_def)

lemma addrs_append [simp]: "addrs (xs @ ys) = addrs xs \<union> addrs ys" "addrs [] = {}" "addrs (x # xs) = insert (px_addr x) (addrs xs)"
  by (auto simp: addrs_def)

lemma distinct_snoc: "distinct (map px_addr (xs @ [p])) \<longleftrightarrow> distinct (map px_addr xs) \<and> px_addr p \<notin> addrs xs"
  by (simp add: addrs_def)

lemma pex_invD:
  assumes "pex_inv w"
  defines "st \<equiv> pw_state w"
  shows "distinct (map px_addr (pending st))" "distinct (map px_addr (pendingDel st))"
    "distinct (map px_addr (pex_sent st))" "addrs (pending st) \<inter> addrs (pendingDel st) = {}"
    "addrs (pending st) \<inter> addrs (pex_sent st) = {}" "addrs (pendingDel st) \<inter> addrs (pex_sent st) = {}"
    "pw_present w = addrs (pending st) \<union> addrs (pex_sent st)"
    "pw_remote w = addrs (pex_sent st) \<union> addrs (pendingDel st)"
  using assms unfolding pex_inv_iff Let_def by simp_all

lemma pex_invI:
  assumes "pw_state w = st" and "distinct (map px_addr (pending st))" "distinct (map px_addr (pendingDel st))"
    "distinct (map px_addr (pex_sent st))" "addrs (pending st) \<inter> addrs (pendingDel st) = {}"
    "addrs (pending st) \<inter> addrs (pex_sent st) = {}" "addrs (pendingDel st) \<inter> addrs (pex_sent st) = {}"
    "pw_present w = addrs (pending st) \<union> addrs (pex_sent st)"
    "pw_remote w = addrs (pex_sent st) \<union> addrs (pendingDel st)"
  shows "pex_inv w"
  using assms unfolding pex_inv_iff Let_def by simp

lemma pexState_add_inv:
  assumes "pex_inv w" "px_addr p \<notin> addrs (pendingDel (pw_state w))"
  shows "pex_inv (w\<lparr>pw_state := pexState_add (pw_state w) p, pw_present := insert (px_addr p) (pw_present w)\<rparr>)"
proof -
  let ?st = "pw_state w"
  have "pexState_add ?st p =
      (if px_addr p \<in> addrs (pex_sent ?st) \<union> addrs (pending ?st) then ?st else ?st\<lparr>pending := pending ?st @ [p]\<rparr>)"
    using assms(2) by (simp add: pexState_add_def pex_Find_None [THEN iffD2] pex_Find_None)
  note eq = this
  show ?thesis
  proof (cases "px_addr p \<in> addrs (pex_sent ?st) \<union> addrs (pending ?st)")
    case True
    with eq show ?thesis using pex_invD [OF assms(1)] by (intro pex_invI [OF refl]) auto
  next
    case False
    with eq have e: "pexState_add ?st p = ?st\<lparr>pending := pending ?st @ [p]\<rparr>" by simp
    have "distinct (map px_addr (pending ?st @ [p]))"
      unfolding distinct_snoc using False pex_invD(1) [OF assms(1)] by simp
    then show ?thesis unfolding e using False assms(2) pex_invD [OF assms(1)]
      by (intro pex_invI [OF refl]) simp_all
  qed
qed

lemma pexState_del_eq:
  assumes "pex_inv w"
  shows "\<exists>i. pexState_del (pw_state w) p =
    (let st = pw_state w
     in if px_addr p \<in> addrs (pending st) then st\<lparr>pending := delete_at i (pending st)\<rparr>
        else if px_addr p \<in> addrs (pex_sent st)
        then st\<lparr>pex_sent := delete_at i (pex_sent st), pendingDel := pendingDel st @ [p]\<rparr>
        else st) \<and>
    (px_addr p \<in> addrs (pending (pw_state w)) \<longrightarrow> pex_Find p (pending (pw_state w)) = Some i) \<and>
    (px_addr p \<notin> addrs (pending (pw_state w)) \<and> px_addr p \<in> addrs (pex_sent (pw_state w)) \<longrightarrow>
       pex_Find p (pex_sent (pw_state w)) = Some i)"
proof -
  let ?st = "pw_state w"
  have d: "px_addr p \<in> addrs (pex_sent ?st) \<Longrightarrow> px_addr p \<notin> addrs (pendingDel ?st)"
    using assms unfolding pex_inv_iff Let_def by blast
  show ?thesis
  proof (cases "pex_Find p (pending ?st)")
    case (Some i)
    moreover from Some have "px_addr p \<in> addrs (pending ?st)" using pex_Find_None by (metis option.discI)
    ultimately show ?thesis by (simp add: pexState_del_def Let_def)
  next
    case None
    then have n: "px_addr p \<notin> addrs (pending ?st)" by (simp add: pex_Find_None)
    show ?thesis
    proof (cases "pex_Find p (pex_sent ?st)")
      case None': None
      then have "px_addr p \<notin> addrs (pex_sent ?st)" by (simp add: pex_Find_None)
      then show ?thesis using None None' n by (simp add: pexState_del_def Let_def)
    next
      case (Some i)
      then have "px_addr p \<in> addrs (pex_sent ?st)" using pex_Find_None by (metis option.discI)
      moreover from d [OF this] have "pex_Find p (pendingDel ?st) = None" by (simp add: pex_Find_None)
      ultimately show ?thesis using None Some n by (simp add: pexState_del_def Let_def)
    qed
  qed
qed

lemma pexState_del_inv:
  assumes "pex_inv w"
  shows "pex_inv (w\<lparr>pw_state := pexState_del (pw_state w) p, pw_present := pw_present w - {px_addr p}\<rparr>)"
proof -
  let ?st = "pw_state w" and ?a = "px_addr p"
  obtain i where e: "pexState_del ?st p =
      (let st = ?st
       in if ?a \<in> addrs (pending st) then st\<lparr>pending := delete_at i (pending st)\<rparr>
          else if ?a \<in> addrs (pex_sent st)
          then st\<lparr>pex_sent := delete_at i (pex_sent st), pendingDel := pendingDel st @ [p]\<rparr>
          else st)"
    and f: "?a \<in> addrs (pending ?st) \<Longrightarrow> pex_Find p (pending ?st) = Some i"
      "?a \<notin> addrs (pending ?st) \<Longrightarrow> ?a \<in> addrs (pex_sent ?st) \<Longrightarrow> pex_Find p (pex_sent ?st) = Some i"
    using pexState_del_eq [OF assms] by blast
  have d: "distinct (map px_addr (pending ?st))" "distinct (map px_addr (pex_sent ?st))"
    using assms unfolding pex_inv_iff Let_def by blast+
  consider (p) "?a \<in> addrs (pending ?st)" | (s) "?a \<notin> addrs (pending ?st)" "?a \<in> addrs (pex_sent ?st)"
    | (n) "?a \<notin> addrs (pending ?st)" "?a \<notin> addrs (pex_sent ?st)" by blast
  then show ?thesis
  proof cases
    case p
    then have e': "pexState_del ?st p = ?st\<lparr>pending := delete_at i (pending ?st)\<rparr>" using e by (simp add: Let_def)
    show ?thesis unfolding e' using p pex_invD [OF assms] pex_Find_Some [OF f(1) [OF p] d(1)]
      by (intro pex_invI [OF refl]) (simp_all, blast+)
  next
    case s
    then have e': "pexState_del ?st p =
        ?st\<lparr>pex_sent := delete_at i (pex_sent ?st), pendingDel := pendingDel ?st @ [p]\<rparr>"
      using e by (simp add: Let_def)
    have "px_addr p \<notin> addrs (pendingDel ?st)" using s pex_invD(6) [OF assms] by blast
    then have "distinct (map px_addr (pendingDel ?st @ [p]))"
      unfolding distinct_snoc using pex_invD(2) [OF assms] by simp
    then show ?thesis unfolding e' using s pex_invD [OF assms] pex_Find_Some [OF f(2) [OF s] d(2)]
      by (intro pex_invI [OF refl]) (simp_all, blast+)
  next
    case n
    then have e': "pexState_del ?st p = ?st" using e by (simp add: Let_def)
    show ?thesis unfolding e' using n pex_invD [OF assms] by (intro pex_invI [OF refl]) simp_all
  qed
qed

lemma computePex_take:
  "computePex st = (\<lparr>pending = drop 50 (pending st), pendingDel = drop 50 (pendingDel st),
     pex_sent = pex_sent st @ take 50 (pending st)\<rparr>, take 50 (pending st), take 50 (pendingDel st))"
  by (cases st) (auto simp: computePex_def Let_def)

lemma addrs_split: "addrs (take n xs) \<union> addrs (drop n xs) = addrs xs"
  by (metis addrs_append(1) append_take_drop_id)

lemma distinct_split:
  assumes "distinct (map px_addr xs)"
  shows "distinct (map px_addr (take n xs))" "distinct (map px_addr (drop n xs))"
    "addrs (take n xs) \<inter> addrs (drop n xs) = {}"
  using assms set_take_disj_set_drop_if_distinct [of "map px_addr xs" n n]
  by (simp_all add: addrs_def take_map drop_map distinct_drop flip: take_map drop_map)

definition pex_sent_world :: "pex_world \<Rightarrow> pex_world" where
  "pex_sent_world w =
     w\<lparr>pw_state := \<lparr>pending = drop 50 (pending (pw_state w)), pendingDel = drop 50 (pendingDel (pw_state w)),
          pex_sent = pex_sent (pw_state w) @ take 50 (pending (pw_state w))\<rparr>,
        pw_remote := (pw_remote w \<union> addrs (take 50 (pending (pw_state w)))) - addrs (take 50 (pendingDel (pw_state w)))\<rparr>"

lemma pex_step_send: "pex_step w (Pex_send True) = Some (pex_sent_world w)"
  by (auto simp: pex_step_def sendPex_state_def computePex_take pex_sent_world_def)

lemma pex_sent_world_inv:
  assumes "pex_inv w"
  shows "pex_inv (pex_sent_world w)"
proof -
  let ?p = "pending (pw_state w)" and ?d = "pendingDel (pw_state w)"
  have i: "distinct (map px_addr ?p)" "distinct (map px_addr ?d)" "distinct (map px_addr (pex_sent (pw_state w)))"
    "addrs ?p \<inter> addrs ?d = {}" "addrs ?p \<inter> addrs (pex_sent (pw_state w)) = {}"
    "addrs ?d \<inter> addrs (pex_sent (pw_state w)) = {}"
    "pw_present w = addrs ?p \<union> addrs (pex_sent (pw_state w))"
    "pw_remote w = addrs (pex_sent (pw_state w)) \<union> addrs ?d"
    using assms unfolding pex_inv_iff Let_def by blast+
  note p = distinct_split [OF i(1), of 50] addrs_split [of 50 ?p]
  note d = distinct_split [OF i(2), of 50] addrs_split [of 50 ?d]
  have "addrs (pex_sent (pw_state w)) \<inter> addrs (take 50 ?p) = {}" using i(5) p(4) by blast
  then have "distinct (map px_addr (pex_sent (pw_state w) @ take 50 ?p))"
    using i(3) p(1) by (simp add: addrs_def)
  then show ?thesis
    unfolding pex_inv_iff Let_def using p d i(4-8) by (auto simp: pex_sent_world_def)
qed

interpretation pxm: machine pex_permitted pex_step pex_inv
proof
  fix w a assume "pex_inv w" "pex_permitted w a"
  then show "\<exists>w'. pex_step w a = Some w' \<and> pex_inv w'"
    using pexState_add_inv [of w] pexState_del_inv [of w] pex_sent_world_inv [of w] pex_step_send [of w]
    by (cases a) (auto simp: pex_step_def pex_permitted_def)
qed

lemma pex_inv_empty: "pex_inv empty_world"
  by (simp add: pex_inv_def empty_world_def empty_pexState_def)

text \<open>Enough messages deliver everything.\<close>

lemma pex_sends:
  assumes "pex_inv w" "length (pending (pw_state w)) \<le> 50 * n" "length (pendingDel (pw_state w)) \<le> 50 * n"
  shows "\<exists>w'. run_ops pex_step w (replicate n (Pex_send True)) = Some w' \<and> pex_inv w' \<and>
    pw_present w' = pw_present w \<and> pending (pw_state w') = [] \<and> pendingDel (pw_state w') = []"
  using assms
proof (induction n arbitrary: w)
  case (Suc n)
  then show ?case
    using Suc.IH [of "pex_sent_world w"] pex_sent_world_inv [of w]
    by (auto simp: pex_step_send pex_sent_world_def)
qed simp



text \<open>
  A flaw: a peer that comes back while its departure is pending and then leaves again is never
  withdrawn. \<^verbatim>\<open>add\<close> takes it off the pending departures but does not put it back among the
  peers that were sent, so that the second \<^verbatim>\<open>del\<close> does not find it; nothing is pending and the
  other side keeps the peer.
\<close>

theorem pex_forgets_readded_peer:
  "\<exists>w. run_ops pex_step empty_world
       [Pex_add p, Pex_send True, Pex_del p, Pex_add p, Pex_del p, Pex_send True] = Some w \<and>
     pw_present w = {} \<and> pw_remote w = {px_addr p} \<and> pending (pw_state w) = [] \<and> pendingDel (pw_state w) = []"
  by (simp add: pex_step_def pexState_add_def pexState_del_def sendPex_state_def computePex_def Let_def
      pex_Find_def empty_world_def empty_pexState_def delete_at_def)

end
