(* ===== verification/Path.thy ===== *)
theory Path
  imports Main "HOL-Library.Char_ord" "HOL-Library.List_Lexorder" "HOL-Library.Sublist"
begin

section \<open>File paths (path/path.go)\<close>

text \<open>
  Paths as lists of strings. Strings are compared byte by byte, which is the lexicographic
  order on lists of characters.
\<close>

type_synonym path = "string list"

subsection \<open>Operations\<close>

text \<open>\<^verbatim>\<open>strings.Join(p, "/")\<close> and \<^verbatim>\<open>strings.Split(f, "/")\<close>\<close>

fun path_String :: "path \<Rightarrow> string" where
  "path_String [] = []"
| "path_String [x] = x"
| "path_String (x # y # ys) = x @ CHR ''/'' # path_String (y # ys)"

fun split_slash :: "string \<Rightarrow> path" where
  "split_slash [] = [[]]"
| "split_slash (c # cs) =
     (if c = CHR ''/'' then [] # split_slash cs
      else case split_slash cs of [] \<Rightarrow> [[c]] | x # xs \<Rightarrow> (c # x) # xs)"

text \<open>The two loops of \<^verbatim>\<open>Parse\<close> remove empty components at the two ends.\<close>

fun drop_last_empty :: "path \<Rightarrow> path" where
  "drop_last_empty p = rev (dropWhile (\<lambda>x. x = []) (rev p))"

definition path_Parse :: "string \<Rightarrow> path" where
  "path_Parse f = drop_last_empty (dropWhile (\<lambda>x. x = []) (split_slash f))"

definition path_Equal :: "path \<Rightarrow> path \<Rightarrow> bool" where
  "path_Equal p q = (length p = length q \<and> list_all (\<lambda>i. p ! i = q ! i) [0..<length p])"

definition path_Within :: "path \<Rightarrow> path \<Rightarrow> bool" where
  "path_Within p d = (length d < length p \<and> list_all (\<lambda>i. p ! i = d ! i) [0..<length d])"

text \<open>\<^verbatim>\<open>Compare\<close>; the loop runs over the components of the first path.\<close>

fun path_Compare :: "path \<Rightarrow> path \<Rightarrow> int" where
  "path_Compare [] b = (if 0 < length b then - 1 else 0)"
| "path_Compare (x # a) [] = 1"
| "path_Compare (x # a) (y # b) =
     (if x < y then - 1 else if x > y then 1 else path_Compare a b)"

subsection \<open>Properties\<close>

lemma split_slash_not_Nil: "split_slash s \<noteq> []"
  by (induction s) (auto split: list.splits)

lemma split_slash_plain: "CHR ''/'' \<notin> set s \<Longrightarrow> split_slash s = [s]"
  by (induction s) auto

lemma split_slash_append: "CHR ''/'' \<notin> set s \<Longrightarrow> split_slash (s @ CHR ''/'' # t) = s # split_slash t"
  by (induction s) auto

lemma split_slash_String: "p \<noteq> [] \<Longrightarrow> list_all (\<lambda>x. CHR ''/'' \<notin> set x) p \<Longrightarrow> split_slash (path_String p) = p"
  by (induction p rule: path_String.induct) (auto simp: split_slash_plain split_slash_append)

lemma drop_empties: "list_all (\<lambda>x. x \<noteq> []) p \<Longrightarrow> dropWhile (\<lambda>x. x = []) p = p"
  by (cases p) auto

lemma Parse_String:
  assumes "list_all (\<lambda>x. x \<noteq> [] \<and> CHR ''/'' \<notin> set x) p"
  shows "path_Parse (path_String p) = p"
proof (cases "p = []")
  case True
  then show ?thesis by (simp add: path_Parse_def)
next
  case False
  have "list_all (\<lambda>x. CHR ''/'' \<notin> set x) p" "list_all (\<lambda>x. x \<noteq> []) p" "list_all (\<lambda>x. x \<noteq> []) (rev p)"
    using assms by (auto simp: list_all_iff)
  then show ?thesis using split_slash_String [OF False] by (simp add: path_Parse_def drop_empties)
qed

text \<open>What \<^verbatim>\<open>Parse\<close> returns never starts or ends with an empty component and has no slash in it.\<close>

lemma split_slash_no_slash: "x \<in> set (split_slash s) \<Longrightarrow> CHR ''/'' \<notin> set x"
proof (induction s arbitrary: x)
  case (Cons c cs)
  then show ?case by (cases "split_slash cs") (auto split: if_splits)
qed simp

lemma Parse_ends:
  assumes "path_Parse s \<noteq> []"
  shows "hd (path_Parse s) \<noteq> []" "last (path_Parse s) \<noteq> []"
proof -
  define q where "q = dropWhile (\<lambda>x. x = []) (split_slash s)"
  have pq: "path_Parse s = rev (dropWhile (\<lambda>x. x = []) (rev q))" by (simp add: path_Parse_def q_def)
  then show "last (path_Parse s) \<noteq> []"
    using assms hd_dropWhile [of "\<lambda>x. x = []" "rev q"] by (simp add: last_rev)
  have ne: "q \<noteq> []" using assms pq by auto
  have hq: "hd q \<noteq> []" using ne hd_dropWhile [of "\<lambda>x. x = []" "split_slash s"] by (simp add: q_def)
  have "prefix (rev (dropWhile (\<lambda>x. x = []) (rev q))) q"
    using suffix_dropWhile [of "\<lambda>x. x = []" "rev q"] by (simp add: suffix_to_prefix)
  then have "hd (path_Parse s) = hd q" using assms pq by (metis prefix_def hd_append2)
  then show "hd (path_Parse s) \<noteq> []" using hq by simp
qed

lemma path_Equal_iff: "path_Equal p q \<longleftrightarrow> p = q"
  by (auto simp: path_Equal_def list_all_iff intro: nth_equalityI)

lemma path_Within_iff: "path_Within p d \<longleftrightarrow> strict_prefix d p"
proof
  assume "path_Within p d"
  then have len: "length d < length p" and eq: "\<forall>i < length d. p ! i = d ! i"
    by (auto simp: path_Within_def list_all_iff)
  then have "take (length d) p = d" by (intro nth_equalityI) auto
  then show "strict_prefix d p"
    using len by (metis less_irrefl strict_prefix_def take_is_prefix)
next
  assume "strict_prefix d p"
  then obtain e where "p = d @ e" "e \<noteq> []" by (auto simp: strict_prefix_def prefix_def)
  then show "path_Within p d" by (simp add: path_Within_def list_all_iff nth_append)
qed

lemma path_Compare_order: "path_Compare a b = (if a < b then - 1 else if a = b then 0 else 1)"
proof (induction a b rule: path_Compare.induct)
  case (1 b)
  then show ?case by (cases b) auto
qed auto

text \<open>
  C35. Paths. Printing and parsing a path of non-empty components without slashes gives the path
  back; \<^verbatim>\<open>Equal\<close> is equality and \<^verbatim>\<open>Within\<close> is being a proper prefix, so that it is a strict
  order; \<^verbatim>\<open>Compare\<close> is the lexicographic order.
\<close>

theorem path_operations:
  "path_Equal p q = (p = q) \<and> path_Within p d = strict_prefix d p \<and>
   path_Compare p q = (if p < q then - 1 else if p = q then 0 else 1) \<and>
   {r. path_Parse (path_String r) = r} \<supseteq> {r. list_all (\<lambda>x. x \<noteq> [] \<and> CHR ''/'' \<notin> set x) r}"
  using path_Equal_iff path_Within_iff path_Compare_order Parse_String by auto

end
