(* ===== verification/Known.thy ===== *)
theory Known
  imports Binary Hash "HOL-Library.AList" "HOL-Library.Monad_Syntax"
begin

section \<open>Known peers (known/known.go)\<close>

text \<open>
  The peers a torrent has heard of, with the times they were heard of, and how badly they
  behaved. The Go map of pointers is an association list; \<^verbatim>\<open>Find\<close> returns what the pointer
  it returns points to.
\<close>

subsection \<open>The data model\<close>

record known_peer =
  kp_Addr :: addrport
  kp_Id :: "hash option"
  kp_TrackerTime :: gotime
  kp_DHTTime :: gotime
  kp_PEXTime :: gotime
  kp_HeardTime :: gotime
  kp_SeenTime :: gotime
  kp_ActiveTime :: gotime
  kp_ConnectAttemptTime :: gotime
  kp_BadTime :: gotime
  kp_Attempts :: nat
  kp_Badness :: int
  kp_Version :: string

type_synonym known_peers = "(addrport \<times> known_peer) list"

datatype known_kind =
    KNone | KTracker | KDHT | KPEX | KHeard | KSeen | KActive | KActiveNoReset | KConnectAttempt | KGood | KBad

definition new_known :: "addrport \<Rightarrow> hash option \<Rightarrow> known_peer" where
  "new_known addr pid =
     \<lparr>kp_Addr = addr, kp_Id = pid, kp_TrackerTime = 0, kp_DHTTime = 0, kp_PEXTime = 0, kp_HeardTime = 0,
      kp_SeenTime = 0, kp_ActiveTime = 0, kp_ConnectAttemptTime = 0, kp_BadTime = 0, kp_Attempts = 0,
      kp_Badness = 0, kp_Version = []\<rparr>"

subsection \<open>Operations\<close>

definition known_Update :: "gotime \<Rightarrow> known_peer \<Rightarrow> string \<Rightarrow> known_kind \<Rightarrow> known_peer" where
  "known_Update now kp version kind =
     (let kp1 =
        (case kind of
           KNone \<Rightarrow> kp
         | KTracker \<Rightarrow> kp\<lparr>kp_TrackerTime := now\<rparr>
         | KDHT \<Rightarrow> kp\<lparr>kp_DHTTime := now\<rparr>
         | KPEX \<Rightarrow> kp\<lparr>kp_PEXTime := now\<rparr>
         | KHeard \<Rightarrow> kp\<lparr>kp_HeardTime := now\<rparr>
         | KSeen \<Rightarrow> kp\<lparr>kp_SeenTime := now\<rparr>
         | KActive \<Rightarrow> kp\<lparr>kp_ActiveTime := now, kp_Attempts := 0\<rparr>
         | KActiveNoReset \<Rightarrow> kp\<lparr>kp_ActiveTime := now\<rparr>
         | KConnectAttempt \<Rightarrow> kp\<lparr>kp_ConnectAttemptTime := now, kp_Attempts := kp_Attempts kp + 1\<rparr>
         | KGood \<Rightarrow> if kp_Badness kp > 0 then kp\<lparr>kp_Badness := kp_Badness kp - 1\<rparr> else kp
         | KBad \<Rightarrow> kp\<lparr>kp_BadTime := now, kp_Badness := kp_Badness kp + 5\<rparr>)
      in if version \<noteq> [] then kp1\<lparr>kp_Version := version\<rparr> else kp1)"

definition known_Recent :: "gotime \<Rightarrow> known_peer \<Rightarrow> bool" where
  "known_Recent now kp =
     (if now - kp_ActiveTime kp < time_Hour then True
      else if now - kp_SeenTime kp < time_Hour then True
      else if now - kp_DHTTime kp < 35 * time_Minute then True
      else if now - kp_TrackerTime kp < 35 * time_Minute then True
      else if now - kp_HeardTime kp < time_Hour then True
      else if now - kp_PEXTime kp < time_Hour then True
      else False)"

definition known_Bad :: "known_peer \<Rightarrow> bool" where
  "known_Bad kp = (kp_Badness kp > 20)"

definition known_ReallyBad :: "known_peer \<Rightarrow> bool" where
  "known_ReallyBad kp = (kp_Badness kp > 50)"

definition known_age :: "gotime \<Rightarrow> known_peer \<Rightarrow> gotime" where
  "known_age now kp =
     now - Max (set [kp_ActiveTime kp, kp_SeenTime kp, kp_HeardTime kp, kp_ActiveTime kp,
                     kp_TrackerTime kp, kp_DHTTime kp, kp_PEXTime kp])"

definition known_Count :: "known_peers \<Rightarrow> nat" where
  "known_Count ps = length ps"

text \<open>One iteration of \<^verbatim>\<open>Expire\<close>, and the loop over the map.\<close>

definition known_expire_one :: "gotime \<Rightarrow> addrport \<times> known_peer \<Rightarrow> known_peers" where
  "known_expire_one now e =
     (case e of (k, p) \<Rightarrow>
        if known_age now p > time_Hour then []
        else if kp_Badness p > 0 \<and> now - kp_BadTime p > 15 * time_Minute then [(k, p\<lparr>kp_Badness := 0\<rparr>)]
        else [(k, p)])"

definition known_Expire :: "gotime \<Rightarrow> known_peers \<Rightarrow> known_peers" where
  "known_Expire now ps = concat (map (known_expire_one now) ps)"

text \<open>\<^verbatim>\<open>Find\<close> updates the entry of an address or makes one. It panics on an id of a wrong length.\<close>

definition known_Find ::
  "gotime \<Rightarrow> known_peers \<Rightarrow> addrport \<Rightarrow> hash option \<Rightarrow> string \<Rightarrow> known_kind \<Rightarrow> (known_peers \<times> known_peer option) option" where
  "known_Find now peers addr pid version kind =
     (case map_of peers addr of
        Some kp \<Rightarrow> do {
          kp1 \<leftarrow> (case (pid, kp_Id kp) of
                   (Some h, Some h') \<Rightarrow> map_option (\<lambda>same. if \<not> same then kp\<lparr>kp_Id := None\<rparr> else kp) (hash_Equal h h')
                 | _ \<Rightarrow> Some kp);
          let kp2 = (if kp_Id kp1 = None then kp1\<lparr>kp_Id := pid\<rparr> else kp1);
          let kp3 = known_Update now kp2 version kind;
          Some (AList.update addr kp3 peers, Some kp3)
        }
      | None \<Rightarrow>
          if kind = KNone then Some (peers, None)
          else if \<not> addr_IsGlobalUnicast (fst addr) then Some (peers, None)
          else let kp = known_Update now (new_known addr pid) version kind
               in Some (AList.update addr kp peers, Some kp))"

text \<open>\<^verbatim>\<open>FindId\<close>: \<open>order\<close> is the order in which the map is iterated over.\<close>

fun known_FindId :: "known_peers \<Rightarrow> hash \<Rightarrow> addrport \<Rightarrow> known_peer option option" where
  "known_FindId [] pid addr = Some None"
| "known_FindId ((k, kp) # order) pid addr =
     (if kp_Addr kp = addr \<or> (snd addr = 0 \<and> fst (kp_Addr kp) = fst addr)
      then (case kp_Id kp of
              None \<Rightarrow> known_FindId order pid addr
            | Some h \<Rightarrow>
                (case hash_Equal pid h of
                   None \<Rightarrow> None
                 | Some True \<Rightarrow> Some (Some kp)
                 | Some False \<Rightarrow> known_FindId order pid addr))
      else known_FindId order pid addr)"

subsection \<open>The invariant\<close>

text \<open>Every entry is under its own address, which is a global one, and ids have 20 bytes.\<close>

definition known_entry_ok :: "addrport \<times> known_peer \<Rightarrow> bool" where
  "known_entry_ok e = (case e of (k, kp) \<Rightarrow>
     kp_Addr kp = k \<and> addr_IsGlobalUnicast (fst k) \<and> 0 \<le> kp_Badness kp \<and>
     (case kp_Id kp of None \<Rightarrow> True | Some h \<Rightarrow> length h = 20))"

definition known_inv :: "known_peers \<Rightarrow> bool" where
  "known_inv ps \<longleftrightarrow> distinct (map fst ps) \<and> list_all known_entry_ok ps"

lemma known_Update_fields [simp]:
  "kp_Addr (known_Update now kp v k) = kp_Addr kp" "kp_Id (known_Update now kp v k) = kp_Id kp"
  by (cases k; simp add: known_Update_def Let_def)+

lemma known_Update_Badness: "0 \<le> kp_Badness kp \<Longrightarrow> 0 \<le> kp_Badness (known_Update now kp v k)"
  by (cases k; simp add: known_Update_def Let_def)

lemma known_entry_update:
  assumes "known_inv ps" "known_entry_ok (k, kp)"
  shows "known_inv (AList.update k kp ps)"
proof -
  have "list_all known_entry_ok ps \<Longrightarrow> list_all known_entry_ok (AList.update k kp ps)" for ps
    using assms(2) by (induction ps) auto
  then show ?thesis using assms(1) by (simp add: known_inv_def distinct_update)
qed

text \<open>
  What \<^verbatim>\<open>Find\<close> answers. Where the address is known: its entry, updated; an id that contradicts
  the one known replaces it, no id leaves it. Where it is not: nothing if the caller only
  asks or the address is not global; a new entry otherwise.
\<close>

definition known_found :: "gotime \<Rightarrow> known_peers \<Rightarrow> addrport \<Rightarrow> hash option \<Rightarrow> string \<Rightarrow> known_kind \<Rightarrow> known_peer option" where
  "known_found now ps addr pid v k =
     (case map_of ps addr of
        Some kp \<Rightarrow> Some (known_Update now (kp\<lparr>kp_Id := (if pid = None then kp_Id kp else pid)\<rparr>) v k)
      | None \<Rightarrow> if k = KNone \<or> \<not> addr_IsGlobalUnicast (fst addr) then None
                else Some (known_Update now (new_known addr pid) v k))"

lemma known_Find_value:
  assumes inv: "known_inv ps" and pid: "case pid of None \<Rightarrow> True | Some h \<Rightarrow> length h = 20"
  shows "known_Find now ps addr pid v k =
    Some (case known_found now ps addr pid v k of
            None \<Rightarrow> (ps, None) | Some kp \<Rightarrow> (AList.update addr kp ps, Some kp))"
proof (cases "map_of ps addr")
  case None
  then show ?thesis by (auto simp: known_Find_def known_found_def Let_def)
next
  case (Some kp)
  have ok: "known_entry_ok (addr, kp)" using inv map_of_SomeD [OF Some] by (auto simp: known_inv_def list_all_iff)
  show ?thesis
  proof (cases "kp_Id kp")
    case None
    then show ?thesis using Some by (auto simp: known_Find_def known_found_def Let_def split: option.splits)
  next
    case h': (Some h')
    have same: "kp\<lparr>kp_Id := Some h'\<rparr> = kp" using h' by (intro known_peer.equality) simp_all
    show ?thesis
    proof (cases pid)
      case None
      then show ?thesis using Some h' by (simp add: known_Find_def known_found_def Let_def same)
    next
      case h: (Some h)
      have "hash_Equal h h' = Some (h = h')" using ok pid h h' by (simp add: hash_Equal_Some known_entry_ok_def)
      then show ?thesis using Some h h' by (auto simp: known_Find_def known_found_def Let_def same)
    qed
  qed
qed

lemma known_found_ok:
  assumes inv: "known_inv ps" and pid: "case pid of None \<Rightarrow> True | Some h \<Rightarrow> length h = 20"
    and "known_found now ps addr pid v k = Some kp"
  shows "known_entry_ok (addr, kp)"
  using assms known_Update_Badness
  by (fastforce simp: known_found_def known_entry_ok_def known_inv_def list_all_iff new_known_def
      split: option.splits if_splits dest: map_of_SomeD)

lemma map_of_expire:
  assumes "distinct (map fst ps)"
  shows "map_of (known_Expire now ps) k =
    (case map_of ps k of
       None \<Rightarrow> None
     | Some p \<Rightarrow> if known_age now p > time_Hour then None
                 else Some (if now - kp_BadTime p > 15 * time_Minute \<and> kp_Badness p > 0 then p\<lparr>kp_Badness := 0\<rparr> else p))"
  using assms
proof (induction ps)
  case (Cons e ps)
  obtain k' p where e: "e = (k', p)" by (cases e)
  have "map_of (known_Expire now ps) k = None" if "k \<notin> fst ` set ps"
  proof -
    have "map_of ps k = None" using that by (auto simp: map_of_eq_None_iff)
    then show ?thesis using Cons by simp
  qed
  then show ?case using Cons by (auto simp: known_Expire_def known_expire_one_def e)
qed (simp add: known_Expire_def)

lemma keys_expire: "map fst (known_Expire now ps) = map fst (filter (\<lambda>(k, p). \<not> known_age now p > time_Hour) ps)"
  by (induction ps) (auto simp: known_Expire_def known_expire_one_def)

lemma known_Expire_inv:
  assumes "known_inv ps"
  shows "known_inv (known_Expire now ps)"
proof -
  have "list_all known_entry_ok ps \<Longrightarrow> list_all known_entry_ok (known_Expire now ps)"
    by (induction ps) (auto simp: known_Expire_def known_expire_one_def known_entry_ok_def)
  then show ?thesis
    using assms distinct_map_filter [of fst ps] by (simp add: known_inv_def keys_expire)
qed

subsection \<open>Properties\<close>

datatype known_op =
    Known_Find gotime addrport "hash option" string known_kind
  | Known_Expire gotime

definition known_step :: "known_peers \<Rightarrow> known_op \<Rightarrow> known_peers option" where
  "known_step ps a =
     (case a of
        Known_Find now addr pid v k \<Rightarrow> map_option fst (known_Find now ps addr pid v k)
      | Known_Expire now \<Rightarrow> Some (known_Expire now ps))"

definition known_permitted :: "known_peers \<Rightarrow> known_op \<Rightarrow> bool" where
  "known_permitted ps a =
     (case a of Known_Find now addr (Some h) v k \<Rightarrow> length h = 20 | _ \<Rightarrow> True)"

interpretation knm: machine known_permitted known_step known_inv
proof
  fix ps a assume inv: "known_inv ps" and p: "known_permitted ps a"
  show "\<exists>ps'. known_step ps a = Some ps' \<and> known_inv ps'"
  proof (cases a)
    case (Known_Find now addr pid v k)
    then have pid: "case pid of None \<Rightarrow> True | Some h \<Rightarrow> length h = 20"
      using p by (auto simp: known_permitted_def split: option.splits)
    show ?thesis
      using Known_Find known_Find_value [OF inv pid, of now addr v k] inv
        known_entry_update [OF inv known_found_ok [OF inv pid]]
      by (auto simp: known_step_def split: option.splits)
  next
    case (Known_Expire now)
    then show ?thesis using known_Expire_inv [OF inv] by (simp add: known_step_def)
  qed
qed

text \<open>
  C34. The table of known peers. Any sequence of lookups and expiries that only uses ids of 20
  bytes runs without a panic, and afterwards every entry is stored under its own address,
  once, and every address is a global unicast one.
\<close>

theorem known_peers_consistent:
  assumes "permitted_ops known_permitted known_step [] as"
  shows "\<exists>ps. run_ops known_step [] as = Some ps \<and> distinct (map fst ps) \<and>
    list_all (\<lambda>(k, kp). kp_Addr kp = k \<and> addr_IsGlobalUnicast (fst k) \<and> 0 \<le> kp_Badness kp) ps"
proof -
  have "known_inv []" by (simp add: known_inv_def)
  from knm.run_safe [OF this assms] show ?thesis
    by (auto simp: known_inv_def known_entry_ok_def list_all_iff)
qed

theorem known_peers_consistent_witness:
  "\<exists>ps. run_ops known_step []
      [Known_Find 5 (Addr4 0x08080808, 6881) (Some (replicate 20 1)) ''x'' KTracker,
       Known_Find 6 (Addr4 0x7F000001, 80) None [] KPEX, Known_Expire 7] = Some ps \<and> distinct (map fst ps)"
proof -
  have "permitted_ops known_permitted known_step []
      [Known_Find 5 (Addr4 0x08080808, 6881) (Some (replicate 20 1)) ''x'' KTracker,
       Known_Find 6 (Addr4 0x7F000001, 80) None [] KPEX, Known_Expire 7]"
    by code_simp
  from known_peers_consistent [OF this] show ?thesis by blast
qed

text \<open>
  What a lookup and an expiry do. \<^verbatim>\<open>Find\<close> answers and stores exactly the entry of
  \<open>known_found\<close>; \<^verbatim>\<open>Expire\<close> removes the entries that nothing has been heard of for an hour,
  forgives the badness of those that were not bad in the last 15 minutes and keeps the
  others.
\<close>

theorem known_operations:
  assumes inv: "known_inv ps" and pid: "case pid of None \<Rightarrow> True | Some h \<Rightarrow> length h = 20"
  shows "\<exists>ps'. known_Find now ps addr pid v k = Some (ps', known_found now ps addr pid v k) \<and>
    map_of ps' = (case known_found now ps addr pid v k of None \<Rightarrow> map_of ps | Some kp \<Rightarrow> (map_of ps)(addr \<mapsto> kp)) \<and>
    map_of (known_Expire now ps) = (\<lambda>a.
      case map_of ps a of
        None \<Rightarrow> None
      | Some p \<Rightarrow> if known_age now p > time_Hour then None
                  else Some (if now - kp_BadTime p > 15 * time_Minute then p\<lparr>kp_Badness := 0\<rparr> else p))"
proof -
  have "p\<lparr>kp_Badness := 0\<rparr> = p" if "map_of ps a = Some p" "\<not> kp_Badness p > 0" for a p
    using inv that by (auto simp: known_inv_def list_all_iff known_entry_ok_def dest!: map_of_SomeD)
  then have "map_of (known_Expire now ps) a =
      (case map_of ps a of
        None \<Rightarrow> None
      | Some p \<Rightarrow> if known_age now p > time_Hour then None
                  else Some (if now - kp_BadTime p > 15 * time_Minute then p\<lparr>kp_Badness := 0\<rparr> else p))" for a
    using map_of_expire [of ps now a] inv by (auto simp: known_inv_def split: option.splits)
  then show ?thesis
    unfolding known_Find_value [OF assms] by (auto split: option.splits simp: update_conv')
qed

theorem known_operations_witness:
  "\<exists>ps'. known_Find 9 [] (Addr4 0x08080808, 6881) None [] KDHT =
     Some (ps', known_found 9 [] (Addr4 0x08080808, 6881) None [] KDHT)"
  using known_operations [of "[]" None 9 "(Addr4 0x08080808, 6881)" "[]" KDHT] by (auto simp: known_inv_def)

end
