(* ===== verification/Protocol.thy ===== *)
theory Protocol
  imports Pex "HOL-Library.Monad_Syntax"
begin

section \<open>The wire protocol (protocol/requests.go, reader.go, writer.go)\<close>

text \<open>
  Reading and writing messages. The input is the list of the bytes that will arrive before
  the end of the stream, and \<open>Read\<close> returns what it leaves of it. The package
  \<^verbatim>\<open>github.com/zeebo/bencode\<close> is a parameter, the record \<open>codec\<close> of the encoders and decoders
  for the three structures that are sent with it: a decoder returns the value and the number
  of bytes it used, as \<^verbatim>\<open>BytesParsed\<close> does. Logging and the pool of buffers have no effect
  on what is read and written and are left out. A nil slice and an empty one, and a nil and
  an empty map of messages, mean the same in these structures.
\<close>

subsection \<open>Messages\<close>

definition ExtPex :: byte where "ExtPex = 1"
definition ExtMetadata :: byte where "ExtMetadata = 2"
definition ExtDontHave :: byte where "ExtDontHave = 3"
definition ExtUploadOnly :: byte where "ExtUploadOnly = 4"

record extensionInfo =
  ei_Version :: string
  ei_IPv4 :: "byte list"
  ei_IPv6 :: "byte list"
  ei_Port :: u16
  ei_ReqQ :: u32
  ei_MetadataSize :: u32
  ei_Messages :: "(string \<times> byte) list"
  ei_UploadOnly :: bool
  ei_Encrypt :: bool

record pexInfo =
  pi_Added :: "byte list"
  pi_AddedF :: "byte list"
  pi_Added6 :: "byte list"
  pi_Added6F :: "byte list"
  pi_Dropped :: "byte list"
  pi_Dropped6 :: "byte list"

record metadataInfo =
  mi_Type :: "byte option"
  mi_Piece :: "u32 option"
  mi_TotalSize :: "u32 option"

record codec =
  enc_ext :: "extensionInfo \<Rightarrow> byte list option"
  dec_ext :: "byte list \<Rightarrow> (extensionInfo \<times> nat) option"
  enc_pex :: "pexInfo \<Rightarrow> byte list option"
  dec_pex :: "byte list \<Rightarrow> (pexInfo \<times> nat) option"
  enc_meta :: "metadataInfo \<Rightarrow> byte list option"
  dec_meta :: "byte list \<Rightarrow> (metadataInfo \<times> nat) option"

record extended0 =
  e0_Version :: string
  e0_Port :: u16
  e0_ReqQ :: u32
  e0_IPv4 :: addr
  e0_IPv6 :: addr
  e0_MetadataSize :: u32
  e0_Messages :: "(string \<times> byte) list"
  e0_UploadOnly :: bool
  e0_Encrypt :: bool

datatype read_error = ErrParse | ErrTooLong | ErrEOF | ErrBencode

datatype message =
    Error read_error
  | Flush
  | KeepAlive
  | Choke
  | Unchoke
  | Interested
  | NotInterested
  | Have u32
  | Bitfield "byte list"
  | Request u32 u32 u32
  | Piece u32 u32 "byte list"
  | Cancel u32 u32 u32
  | Port u16
  | SuggestPiece u32
  | RejectRequest u32 u32 u32
  | AllowedFast u32
  | HaveAll
  | HaveNone
  | Extended0 extended0
  | ExtendedPex byte "pex_peer list" "pex_peer list"
  | ExtendedMetadata byte byte u32 u32 "byte list"
  | ExtendedDontHave byte u32
  | ExtendedUploadOnly byte bool
  | ExtendedUnknown byte
  | Unknown byte

subsection \<open>Reading\<close>

text \<open>
  The result of \<^verbatim>\<open>Read\<close>: a message, an error, or no message and no error.
\<close>

datatype read_outcome =
    Read_msg message "byte list"
  | Read_err read_error
  | Read_nil "byte list"

text \<open>Reading fixed amounts; \<open>None\<close> is the end of the stream.\<close>

definition readFull :: "nat \<Rightarrow> byte list \<Rightarrow> (byte list \<times> byte list) option" where
  "readFull n r = (if length r < n then None else Some (take n r, drop n r))"

definition readUint16 :: "byte list \<Rightarrow> (u16 \<times> byte list) option" where
  "readUint16 r = map_option (\<lambda>(b, r'). (get_u16 b, r')) (readFull 2 r)"

definition readUint32 :: "byte list \<Rightarrow> (u32 \<times> byte list) option" where
  "readUint32 r = map_option (\<lambda>(b, r'). (get_u32 b, r')) (readFull 4 r)"

definition readByte :: "byte list \<Rightarrow> (byte \<times> byte list) option" where
  "readByte r = (case r of [] \<Rightarrow> None | b # r' \<Rightarrow> Some (b, r'))"

text \<open>An error of the reader ends \<^verbatim>\<open>Read\<close> with that error.\<close>

definition or_eof :: "read_outcome option \<Rightarrow> read_outcome" where
  "or_eof x = (case x of None \<Rightarrow> Read_err ErrEOF | Some out \<Rightarrow> out)"

definition read_ext0 :: "extensionInfo \<Rightarrow> extended0" where
  "read_ext0 ext =
     \<lparr>e0_Version = ei_Version ext, e0_Port = ei_Port ext, e0_ReqQ = ei_ReqQ ext,
      e0_IPv4 = (case AddrFromSlice (ei_IPv4 ext) of Some (Addr4 w) \<Rightarrow> Addr4 w | _ \<Rightarrow> NoAddr),
      e0_IPv6 = (case AddrFromSlice (ei_IPv6 ext) of Some (Addr6 w z) \<Rightarrow> Addr6 w z | _ \<Rightarrow> NoAddr),
      e0_MetadataSize = ei_MetadataSize ext, e0_Messages = ei_Messages ext,
      e0_UploadOnly = ei_UploadOnly ext, e0_Encrypt = ei_Encrypt ext\<rparr>"

definition parse_if :: "nat \<Rightarrow> byte list \<Rightarrow> byte list \<Rightarrow> bool \<Rightarrow> pex_peer list" where
  "parse_if n data flags ipv6 = (if length data mod n = 0 then ParseCompact data flags ipv6 else [])"

definition read_pex :: "pexInfo \<Rightarrow> message" where
  "read_pex info =
     ExtendedPex ExtPex
       (parse_if 6 (pi_Added info) (pi_AddedF info) False @ parse_if 18 (pi_Added6 info) (pi_Added6F info) True)
       (parse_if 6 (pi_Dropped info) [] False @ parse_if 18 (pi_Dropped6 info) [] True)"

text \<open>
  The extended messages, after the type byte has been read; \<open>len\<close> is the length in the
  header of the message. The difference \<^verbatim>\<open>length-2\<close> is an unsigned number.
\<close>

definition Read_extended :: "codec \<Rightarrow> u32 \<Rightarrow> byte list \<Rightarrow> read_outcome" where
  "Read_extended c len r = or_eof (do {
     (subtype, r1) \<leftarrow> readByte r;
     let n = unat (len - 2);
     Some
      (if subtype = 0 then
         (case dec_ext c (take n r1) of
            None \<Rightarrow> Read_err ErrBencode
          | Some (ext, _) \<Rightarrow> Read_msg (Extended0 (read_ext0 ext)) (drop n r1))
       else if subtype = ExtPex then
         (case dec_pex c (take n r1) of
            None \<Rightarrow> Read_err ErrBencode
          | Some (info, _) \<Rightarrow> Read_msg (read_pex info) (drop n r1))
       else if subtype = ExtMetadata then
         or_eof (do {
           (data, r2) \<leftarrow> readFull n r1;
           Some
             (case dec_meta c data of
                None \<Rightarrow> Read_err ErrBencode
              | Some (m, parsed) \<Rightarrow>
                  (case (mi_Type m, mi_Piece m) of
                     (Some tpe, Some index) \<Rightarrow>
                       Read_msg (ExtendedMetadata ExtMetadata tpe index
                                   (case mi_TotalSize m of None \<Rightarrow> 0 | Some s \<Rightarrow> s) (drop parsed data)) r2
                   | _ \<Rightarrow> Read_err ErrParse))
         })
       else if subtype = ExtDontHave then
         (if len - 2 \<noteq> 4 then Read_err ErrParse
          else or_eof (do { (index, r2) \<leftarrow> readUint32 r1; Some (Read_msg (ExtendedDontHave ExtDontHave index) r2) }))
       else if subtype = ExtUploadOnly then
         (if len - 2 \<noteq> 1 then Read_err ErrParse
          else case readByte r1 of
                 None \<Rightarrow> Read_err ErrParse
               | Some (v, r2) \<Rightarrow>
                   if v \<noteq> 0 \<and> v \<noteq> 1 then Read_err ErrParse
                   else Read_msg (ExtendedUploadOnly ExtUploadOnly (v = 1)) r2)
       else
         or_eof (do { (_, r2) \<leftarrow> readFull n r1; Some (Read_msg (ExtendedUnknown subtype) r2) }))
   })"

text \<open>Messages with no, one or three words after the type.\<close>

definition read0 :: "message \<Rightarrow> u32 \<Rightarrow> byte list \<Rightarrow> read_outcome" where
  "read0 m len r = (if len \<noteq> 1 then Read_err ErrParse else Read_msg m r)"

definition read1 :: "(u32 \<Rightarrow> message) \<Rightarrow> u32 \<Rightarrow> byte list \<Rightarrow> read_outcome" where
  "read1 f len r =
     (if len \<noteq> 5 then Read_err ErrParse
      else or_eof (do { (index, r1) \<leftarrow> readUint32 r; Some (Read_msg (f index) r1) }))"

definition read3 :: "(u32 \<Rightarrow> u32 \<Rightarrow> u32 \<Rightarrow> message) \<Rightarrow> u32 \<Rightarrow> byte list \<Rightarrow> read_outcome" where
  "read3 f len r =
     (if len \<noteq> 13 then Read_err ErrParse
      else or_eof (do {
        (index, r1) \<leftarrow> readUint32 r;
        (begin, r2) \<leftarrow> readUint32 r1;
        (l, r3) \<leftarrow> readUint32 r2;
        Some (Read_msg (f index begin l) r3)
      }))"

definition Read_body :: "codec \<Rightarrow> u32 \<Rightarrow> byte \<Rightarrow> byte list \<Rightarrow> read_outcome" where
  "Read_body c len tpe r =
     (if tpe = 0 then read0 Choke len r
      else if tpe = 1 then read0 Unchoke len r
      else if tpe = 2 then read0 Interested len r
      else if tpe = 3 then read0 NotInterested len r
      else if tpe = 4 then read1 Have len r
      else if tpe = 5 then
        (if len < 1 then Read_err ErrParse
         else or_eof (do { (bf, r1) \<leftarrow> readFull (unat (len - 1)) r; Some (Read_msg (Bitfield bf) r1) }))
      else if tpe = 6 then read3 Request len r
      else if tpe = 8 then read3 Cancel len r
      else if tpe = 16 then read3 RejectRequest len r
      else if tpe = 7 then
        (if len < 9 then Read_err ErrParse
         else or_eof (do {
           (index, r1) \<leftarrow> readUint32 r;
           (begin, r2) \<leftarrow> readUint32 r1;
           (data, r3) \<leftarrow> readFull (unat (len - 9)) r2;
           Some (Read_msg (Piece index begin data) r3)
         }))
      else if tpe = 9 then
        (if len \<noteq> 3 then Read_err ErrParse
         else or_eof (do { (port, r1) \<leftarrow> readUint16 r; Some (Read_msg (Port port) r1) }))
      else if tpe = 13 then read1 SuggestPiece len r
      else if tpe = 17 then read1 AllowedFast len r
      else if tpe = 14 then (if len \<noteq> 1 then Read_nil r else Read_msg HaveAll r)
      else if tpe = 15 then (if len \<noteq> 1 then Read_nil r else Read_msg HaveNone r)
      else if tpe = 20 then Read_extended c len r
      else or_eof (do { (_, r1) \<leftarrow> readFull (unat len - 1) r; Some (Read_msg (Unknown tpe) r1) }))"

definition Read :: "codec \<Rightarrow> byte list \<Rightarrow> read_outcome" where
  "Read c r = or_eof (do {
     (len, r1) \<leftarrow> readUint32 r;
     if len = 0 then Some (Read_msg KeepAlive r1)
     else if len > 1024 * 1024 then Some (Read_err ErrTooLong)
     else do {
       (tpe, r2) \<leftarrow> readByte r1;
       Some (Read_body c len tpe r2)
     }
   })"

subsection \<open>Writing\<close>

text \<open>The bytes of a message. A message that cannot be written panics (\<open>None\<close>), and an error
  of the encoder is \<open>Inl ()\<close>.\<close>

definition sendMessage :: "byte \<Rightarrow> byte list \<Rightarrow> byte list \<Rightarrow> byte list \<Rightarrow> byte list" where
  "sendMessage tpe data1 data2 data3 =
     put_u32 (of_nat (length data1 + length data2 + length data3 + 1)) @ [tpe] @ data1 @ data2 @ data3"

definition sendMessage0 :: "byte \<Rightarrow> byte list" where
  "sendMessage0 tpe = put_u32 1 @ [tpe]"

definition sendMessageShort :: "byte \<Rightarrow> u16 \<Rightarrow> byte list" where
  "sendMessageShort tpe v = put_u32 3 @ [tpe] @ put_u16 v"

definition sendMessage1 :: "byte \<Rightarrow> u32 \<Rightarrow> byte list" where
  "sendMessage1 tpe v = put_u32 5 @ [tpe] @ put_u32 v"

definition sendMessage3 :: "byte \<Rightarrow> u32 \<Rightarrow> u32 \<Rightarrow> u32 \<Rightarrow> byte list" where
  "sendMessage3 tpe v1 v2 v3 = put_u32 13 @ [tpe] @ put_u32 v1 @ put_u32 v2 @ put_u32 v3"

definition sendExtended :: "byte \<Rightarrow> byte list \<Rightarrow> byte list \<Rightarrow> byte list" where
  "sendExtended subtype data1 data2 = sendMessage 20 [subtype] data1 data2"

text \<open>\<^verbatim>\<open>AsSlice\<close> of an address; the zero address has none.\<close>

definition addr_AsSlice :: "addr \<Rightarrow> byte list" where
  "addr_AsSlice a = (case a of NoAddr \<Rightarrow> [] | Addr4 _ \<Rightarrow> addr_As4 a | Addr6 _ _ \<Rightarrow> addr_As16 a)"

definition write_ext0 :: "extended0 \<Rightarrow> extensionInfo" where
  "write_ext0 m =
     \<lparr>ei_Version = e0_Version m, ei_IPv4 = addr_AsSlice (e0_IPv4 m), ei_IPv6 = addr_AsSlice (e0_IPv6 m),
      ei_Port = e0_Port m, ei_ReqQ = e0_ReqQ m, ei_MetadataSize = e0_MetadataSize m,
      ei_Messages = e0_Messages m, ei_UploadOnly = e0_UploadOnly m, ei_Encrypt = e0_Encrypt m\<rparr>"

definition write_pex :: "pex_peer list \<Rightarrow> pex_peer list \<Rightarrow> pexInfo" where
  "write_pex added dropped =
     (case (FormatCompact added, FormatCompact dropped) of
        ((a4, f4, a6, f6), (d4, _, d6, _)) \<Rightarrow>
          \<lparr>pi_Added = a4, pi_AddedF = f4, pi_Added6 = a6, pi_Added6F = f6, pi_Dropped = d4, pi_Dropped6 = d6\<rparr>)"

definition write_meta :: "byte \<Rightarrow> u32 \<Rightarrow> u32 \<Rightarrow> metadataInfo" where
  "write_meta tpe piece totalSize =
     \<lparr>mi_Type = Some tpe, mi_Piece = Some piece, mi_TotalSize = (if totalSize > 0 then Some totalSize else None)\<rparr>"

definition encoded :: "byte list option \<Rightarrow> (byte list \<Rightarrow> byte list) \<Rightarrow> (unit + byte list) option" where
  "encoded e f = Some (case e of None \<Rightarrow> Inl () | Some b \<Rightarrow> Inr (f b))"

fun Write :: "codec \<Rightarrow> message \<Rightarrow> (unit + byte list) option" where
  "Write c KeepAlive = Some (Inr [0, 0, 0, 0])"
| "Write c Choke = Some (Inr (sendMessage0 0))"
| "Write c Unchoke = Some (Inr (sendMessage0 1))"
| "Write c Interested = Some (Inr (sendMessage0 2))"
| "Write c NotInterested = Some (Inr (sendMessage0 3))"
| "Write c (Have i) = Some (Inr (sendMessage1 4 i))"
| "Write c (Bitfield b) = Some (Inr (sendMessage 5 b [] []))"
| "Write c (Request i b l) = Some (Inr (sendMessage3 6 i b l))"
| "Write c (Piece i b d) =
     Some (Inr (put_u32 (of_nat (1 + 8 + length d)) @ [7] @ put_u32 i @ put_u32 b @ d))"
| "Write c (Cancel i b l) = Some (Inr (sendMessage3 8 i b l))"
| "Write c (Port p) = Some (Inr (sendMessageShort 9 p))"
| "Write c (SuggestPiece i) = Some (Inr (sendMessage1 13 i))"
| "Write c HaveAll = Some (Inr (sendMessage0 14))"
| "Write c HaveNone = Some (Inr (sendMessage0 15))"
| "Write c (RejectRequest i b l) = Some (Inr (sendMessage3 16 i b l))"
| "Write c (AllowedFast i) = Some (Inr (sendMessage1 17 i))"
| "Write c (Extended0 m) = encoded (enc_ext c (write_ext0 m)) (\<lambda>b. sendExtended 0 b [])"
| "Write c (ExtendedMetadata st tpe piece totalSize d) =
     (case enc_meta c (write_meta tpe piece totalSize) of
        None \<Rightarrow> Some (Inl ())
      | Some b \<Rightarrow> if st = 0 then None else Some (Inr (sendExtended st b d)))"
| "Write c (ExtendedPex st added dropped) =
     encoded (enc_pex c (write_pex added dropped)) (\<lambda>b. sendExtended st b [])"
| "Write c (ExtendedDontHave st i) =
     (if st = 0 then None else Some (Inr (sendExtended st (put_u32 i) [])))"
| "Write c (Error e) = None"
| "Write c Flush = None"
| "Write c (ExtendedUploadOnly st v) = None"
| "Write c (ExtendedUnknown st) = None"
| "Write c (Unknown t) = None"

subsection \<open>Streams of messages\<close>

text \<open>
  The first \<open>n\<close> messages that \<^verbatim>\<open>Reader\<close> sends on its channel, for the bytes \<open>r\<close>; \<open>None\<close> is
  the nil message. What a connection delivers after an error is not modelled, the list ends
  with the first \<open>Error\<close>.
\<close>

fun Reader_loop :: "codec \<Rightarrow> nat \<Rightarrow> byte list \<Rightarrow> message option list" where
  "Reader_loop c 0 r = []"
| "Reader_loop c (Suc n) r =
     (case Read c r of
        Read_msg m r' \<Rightarrow> Some m # Reader_loop c n r'
      | Read_nil r' \<Rightarrow> None # Reader_loop c n r'
      | Read_err e \<Rightarrow> [Some (Error e)])"

definition Reader :: "codec \<Rightarrow> nat \<Rightarrow> byte list \<Rightarrow> byte list \<Rightarrow> message option list" where
  "Reader c n init conn = Reader_loop c n (init @ conn)"

text \<open>
  \<^verbatim>\<open>Writer\<close>, for the messages that the channel yields. The bytes are those given to the
  buffered writer, in order; the second component is whether the loop is left with an
  error. \<open>None\<close> is a panic of \<^verbatim>\<open>Write\<close>.
\<close>

fun Writer :: "codec \<Rightarrow> message list \<Rightarrow> (byte list \<times> bool) option" where
  "Writer c [] = Some ([], False)"
| "Writer c (m # ms) =
     (case Write c m of
        None \<Rightarrow> None
      | Some (Inl _) \<Rightarrow> Some ([], True)
      | Some (Inr b) \<Rightarrow> map_option (\<lambda>(bs, e). (b @ bs, e)) (Writer c ms))"

end
