(* ===== verification/Protocol_Props.thy ===== *)
theory Protocol_Props
  imports Protocol
begin

section \<open>What is written is what is read\<close>

text \<open>
  The messages this program writes are read back by the same program at the other end of the
  connection, one after another and with nothing left over or lost between them.
\<close>

subsection \<open>Reading what has been put\<close>

lemma readFull_append [wire_simps]: "length b = n \<Longrightarrow> readFull n (b @ r) = Some (b, r)"
  by (simp add: readFull_def)

lemma readUint32_put [wire_simps]: "readUint32 (put_u32 v @ r) = Some (v, r)"
  using get_put_u32 [of v "[]"] by (simp add: readUint32_def readFull_append)

lemma readUint32_put_end [wire_simps]: "readUint32 (put_u32 v) = Some (v, [])"
  using readUint32_put [of v "[]"] by simp

lemma readUint16_put [wire_simps]: "readUint16 (put_u16 v @ r) = Some (v, r)"
  using get_put_u16 [of v "[]"] by (simp add: readUint16_def readFull_append)

lemma readByte_Cons [wire_simps]: "readByte (b # r) = Some (b, r)"
  by (simp add: readByte_def)

lemma or_eof_simps [wire_simps]: "or_eof None = Read_err ErrEOF" "or_eof (Some x) = x"
  by (simp_all add: or_eof_def)

text \<open>The header of a message of at most one megabyte.\<close>

lemma Read_header:
  assumes "n < 2 ^ 20"
  shows "Read c (put_u32 (of_nat (Suc n)) @ tpe # r) = Read_body c (of_nat (Suc n)) tpe r"
proof -
  have u: "unat (of_nat (Suc n) :: u32) = Suc n" using assms by (simp add: unat_of_nat del: of_nat_Suc)
  have "(of_nat (Suc n) :: u32) \<noteq> 0" using u by (metis nat.distinct(1) unat_0)
  moreover have "\<not> 1024 * 1024 < (of_nat (Suc n) :: u32)"
    using u assms by (simp add: word_less_nat_alt del: of_nat_Suc)
  ultimately show ?thesis
    unfolding Read_def by (simp add: wire_simps del: of_nat_Suc)
qed

lemma unat_len:
  assumes "n < 2 ^ 20" and "k \<le> Suc n"
  shows "unat (of_nat (Suc n) - of_nat k :: u32) = Suc n - k"
proof -
  have "(of_nat (Suc n) - of_nat k :: u32) = of_nat (Suc n - k)" using assms(2) by (simp add: of_nat_diff)
  then show ?thesis using assms by (simp add: unat_of_nat del: of_nat_Suc of_nat_diff)
qed

lemma Read_small:
  "n < 2 ^ 20 \<Longrightarrow> Read c (sendMessage tpe d1 d2 d3 @ r) = Read_body c (of_nat (Suc n)) tpe (d1 @ d2 @ d3 @ r)"
  if "n = length d1 + length d2 + length d3"
  using Read_header [of n c tpe "d1 @ d2 @ d3 @ r"] that by (simp add: sendMessage_def)

text \<open>The short messages are instances of the general form.\<close>

lemma sendMessage0_alt: "sendMessage0 tpe = sendMessage tpe [] [] []"
  by (simp add: sendMessage0_def sendMessage_def)

lemma sendMessage1_alt: "sendMessage1 tpe v = sendMessage tpe (put_u32 v) [] []"
  by (simp add: sendMessage1_def sendMessage_def)

lemma sendMessageShort_alt: "sendMessageShort tpe v = sendMessage tpe (put_u16 v) [] []"
  by (simp add: sendMessageShort_def sendMessage_def)

lemma sendMessage3_alt: "sendMessage3 tpe v w x = sendMessage tpe (put_u32 v) (put_u32 w) (put_u32 x)"
  by (simp add: sendMessage3_def sendMessage_def)

lemmas send_alts = sendMessage0_alt sendMessage1_alt sendMessageShort_alt sendMessage3_alt

subsection \<open>What arrives\<close>

text \<open>
  A message as the other side sees it. Of the addresses in a handshake only those of the
  right family arrive, without a zone; a list of peers arrives with the IPv4 peers first and
  the dropped ones without flags.
\<close>

definition clear_flags :: "pex_peer \<Rightarrow> pex_peer" where
  "clear_flags p = p\<lparr>px_flags := 0\<rparr>"

definition v4_first :: "pex_peer list \<Rightarrow> pex_peer list" where
  "v4_first ps = filter (\<lambda>p. addr_Is4 (fst (px_addr p))) ps @ filter (\<lambda>p. \<not> addr_Is4 (fst (px_addr p))) ps"

definition received0 :: "extended0 \<Rightarrow> extended0" where
  "received0 e = e\<lparr>e0_IPv4 := (case e0_IPv4 e of Addr4 w \<Rightarrow> Addr4 w | _ \<Rightarrow> NoAddr),
                  e0_IPv6 := (case e0_IPv6 e of Addr6 w z \<Rightarrow> Addr6 w [] | _ \<Rightarrow> NoAddr)\<rparr>"

fun received :: "message \<Rightarrow> message" where
  "received (Extended0 e) = Extended0 (received0 e)"
| "received (ExtendedPex st a d) = ExtendedPex st (v4_first a) (map clear_flags (v4_first d))"
| "received m = m"

text \<open>
  The messages written for a peer that numbers the extensions the way this program does, and
  the codec on the structure that a message carries: it can be decoded again, also when
  data follows it, and the decoder then says how much it has used.
\<close>

fun our_subtype :: "message \<Rightarrow> bool" where
  "our_subtype (ExtendedPex st a d) = (st = ExtPex \<and> list_all plain_peer a \<and> list_all plain_peer d)"
| "our_subtype (ExtendedMetadata st tpe piece totalSize d) = (st = ExtMetadata)"
| "our_subtype (ExtendedDontHave st i) = (st = ExtDontHave)"
| "our_subtype m = True"

definition decodes :: "('a \<Rightarrow> byte list option) \<Rightarrow> (byte list \<Rightarrow> ('a \<times> nat) option) \<Rightarrow> 'a \<Rightarrow> byte list \<Rightarrow> bool" where
  "decodes enc dec x d = (case enc x of None \<Rightarrow> True | Some b \<Rightarrow> dec (b @ d) = Some (x, length b))"

fun codec_inverse :: "codec \<Rightarrow> message \<Rightarrow> bool" where
  "codec_inverse c (Extended0 e) = decodes (enc_ext c) (dec_ext c) (write_ext0 e) []"
| "codec_inverse c (ExtendedPex st a d) = decodes (enc_pex c) (dec_pex c) (write_pex a d) []"
| "codec_inverse c (ExtendedMetadata st tpe piece totalSize d) =
     decodes (enc_meta c) (dec_meta c) (write_meta tpe piece totalSize) d"
| "codec_inverse c m = True"

text \<open>The structures of the extended messages.\<close>

lemma read_write_ext0: "read_ext0 (write_ext0 e) = received0 e"
proof -
  have l4: "AddrFromSlice (addr_As4 (Addr4 w)) = Some (Addr4 w)" for w by (rule AddrFromSlice_As4)
  have l6: "AddrFromSlice (addr_As16 (Addr6 w z)) = Some (Addr6 w [])" for w z by (rule AddrFromSlice_As16)
  have "AddrFromSlice [] = None" by (simp add: AddrFromSlice_def)
  then show ?thesis
    by (simp add: read_ext0_def write_ext0_def received0_def addr_AsSlice_def l4 l6 split: addr.split)
qed

lemma ParseCompact_no_flags: "ParseCompact data [] ipv6 = map clear_flags (ParseCompact data flags ipv6)"
proof -
  have "compact_peer l data [] = (\<lambda>i. map clear_flags (compact_peer l data flags i))" for l
    by (simp add: fun_eq_iff compact_peer_def clear_flags_def Let_def split: option.split)
  then show ?thesis by (simp add: ParseCompact_def Let_def map_concat comp_def)
qed

lemma read_write_pex:
  assumes "list_all plain_peer a" and "list_all plain_peer d"
  shows "read_pex (write_pex a d) = ExtendedPex ExtPex (v4_first a) (map clear_flags (v4_first d))"
proof -
  let ?i4 = "\<lambda>p. addr_Is4 (fst (px_addr p))"
  have f4: "list_all ?i4 (filter ?i4 ps)" for ps by (simp add: list_all_iff)
  have f6: "list_all (\<lambda>p. plain_peer p \<and> \<not> ?i4 p) (filter (\<lambda>p. \<not> ?i4 p) ps)" if "list_all plain_peer ps" for ps
    using that by (simp add: list_all_iff)
  note p4 = ParseCompact4 [OF f4] and p6 = ParseCompact6 [OF f6]
  have n4: "ParseCompact (concat (map compact4 (filter ?i4 d))) [] False = map clear_flags (filter ?i4 d)"
    using p4 ParseCompact_no_flags by metis
  have n6: "ParseCompact (concat (map compact6 (filter (\<lambda>p. \<not> ?i4 p) d))) [] True = map clear_flags (filter (\<lambda>p. \<not> ?i4 p) d)"
    using p6 [OF assms(2)] ParseCompact_no_flags by metis
  have w: "write_pex a d =
      \<lparr>pi_Added = concat (map compact4 (filter ?i4 a)), pi_AddedF = map px_flags (filter ?i4 a),
       pi_Added6 = concat (map compact6 (filter (\<lambda>p. \<not> ?i4 p) a)), pi_Added6F = map px_flags (filter (\<lambda>p. \<not> ?i4 p) a),
       pi_Dropped = concat (map compact4 (filter ?i4 d)), pi_Dropped6 = concat (map compact6 (filter (\<lambda>p. \<not> ?i4 p) d))\<rparr>"
    by (simp add: write_pex_def FormatCompact_concat Let_def)
  show ?thesis
    unfolding read_pex_def w v4_first_def parse_if_def
    using p4 [of a] p4 [of d] p6 [OF assms(1)] p6 [OF assms(2)] n4 n6 by simp
qed

subsection \<open>The round trip of one message\<close>

lemma Read_extended_sent:
  assumes "Suc (length b + length d) < 2 ^ 20"
  shows "Read c (sendExtended st b d @ r) =
    Read_extended c (of_nat (length b + length d + 2)) (st # b @ d @ r)"
  using Read_small [of "Suc (length b + length d)" "[st]" b d c 20 r] assms
  by (simp add: sendExtended_def Read_body_def)

lemma ext_len:
  assumes "Suc n < 2 ^ 20"
  shows "unat (of_nat (n + 2) - 2 :: u32) = n" "(of_nat (n + 2) - 2 :: u32) = of_nat n"
  using unat_len [of "Suc n" 2] assms by simp_all

lemmas sent_body = Read_body_def read0_def read1_def read3_def wire_simps

lemma Read_sendMessage0:
  "Read c (sendMessage0 tpe @ r) = Read_body c 1 tpe r"
  using Read_small [of 0 "[]" "[]" "[]" c tpe r] by (simp add: sendMessage0_alt)

lemma Read_sendMessage1:
  "Read c (sendMessage1 tpe v @ r) = Read_body c 5 tpe (put_u32 v @ r)"
  using Read_small [of 4 "put_u32 v" "[]" "[]" c tpe r] by (simp add: sendMessage1_alt)

lemma Read_sendMessageShort:
  "Read c (sendMessageShort tpe v @ r) = Read_body c 3 tpe (put_u16 v @ r)"
  using Read_small [of 2 "put_u16 v" "[]" "[]" c tpe r] by (simp add: sendMessageShort_alt)

lemma Read_sendMessage3:
  "Read c (sendMessage3 tpe v w x @ r) = Read_body c 13 tpe (put_u32 v @ put_u32 w @ put_u32 x @ r)"
  using Read_small [of 12 "put_u32 v" "put_u32 w" "put_u32 x" c tpe r] by (simp add: sendMessage3_alt)

lemmas Read_sent = Read_sendMessage0 Read_sendMessage1 Read_sendMessageShort Read_sendMessage3

text \<open>The messages whose length depends on what they carry.\<close>

lemma Read_Bitfield:
  assumes "length b < 2 ^ 20"
  shows "Read c (sendMessage 5 b [] [] @ r) = Read_msg (Bitfield b) r"
proof -
  have "unat (of_nat (Suc (length b)) - 1 :: u32) = length b" using unat_len [OF assms, of 1] by simp
  moreover have "\<not> (of_nat (Suc (length b)) :: u32) < 1"
    using assms by (simp add: word_less_nat_alt unat_of_nat del: of_nat_Suc)
  ultimately show ?thesis
    using Read_small [of "length b" b "[]" "[]" c 5 r] assms by (simp add: sent_body)
qed

lemma Read_Piece:
  assumes "8 + length d < 2 ^ 20"
  shows "Read c (put_u32 (of_nat (1 + 8 + length d)) @ [7] @ put_u32 i @ put_u32 b @ d @ r) = Read_msg (Piece i b d) r"
proof -
  have l: "unat (of_nat (Suc (8 + length d)) - 9 :: u32) = length d" using unat_len [OF assms, of 9] by simp
  have "\<not> (of_nat (Suc (8 + length d)) :: u32) < 9"
    using assms by (simp add: word_less_nat_alt unat_of_nat del: of_nat_Suc of_nat_add)
  then show ?thesis
    using Read_header [OF assms, of c 7 "put_u32 i @ put_u32 b @ d @ r"] l
    by (simp add: sent_body)
qed

lemma Read_Extended0:
  assumes "decodes (enc_ext c) (dec_ext c) (write_ext0 e) []" "enc_ext c (write_ext0 e) = Some b"
    and "Suc (length b) < 2 ^ 20"
  shows "Read c (sendExtended 0 b [] @ r) = Read_msg (Extended0 (received0 e)) r"
  using assms Read_extended_sent [of b "[]" c 0 r] ext_len [of "length b"]
  by (simp add: Read_extended_def wire_simps decodes_def read_write_ext0)

lemma Read_Pex:
  assumes "decodes (enc_pex c) (dec_pex c) (write_pex a d) []" "enc_pex c (write_pex a d) = Some b"
    and "Suc (length b) < 2 ^ 20" and "list_all plain_peer a" "list_all plain_peer d"
  shows "Read c (sendExtended ExtPex b [] @ r) = Read_msg (ExtendedPex ExtPex (v4_first a) (map clear_flags (v4_first d))) r"
  using assms(1-3) Read_extended_sent [of b "[]" c ExtPex r] ext_len [of "length b"] read_write_pex [OF assms(4,5)]
  by (simp add: Read_extended_def ExtPex_def wire_simps decodes_def)

lemma Read_Metadata:
  assumes "decodes (enc_meta c) (dec_meta c) (write_meta tpe piece totalSize) d"
    and "enc_meta c (write_meta tpe piece totalSize) = Some b" and "Suc (length b + length d) < 2 ^ 20"
  shows "Read c (sendExtended ExtMetadata b d @ r) = Read_msg (ExtendedMetadata ExtMetadata tpe piece totalSize d) r"
proof -
  have "readFull (length b + length d) (b @ d @ r) = Some (b @ d, r)"
    using readFull_append [of "b @ d" "length b + length d" r] by simp
  moreover have "(if 0 < totalSize then totalSize else 0) = totalSize" by (simp add: word_gt_0)
  ultimately show ?thesis
    using assms Read_extended_sent [of b d c ExtMetadata r] ext_len [of "length b + length d"]
    by (auto simp: Read_extended_def ExtMetadata_def ExtPex_def wire_simps decodes_def write_meta_def)
qed

lemma Read_DontHave:
  "Read c (sendExtended ExtDontHave (put_u32 i) [] @ r) = Read_msg (ExtendedDontHave ExtDontHave i) r"
  using Read_extended_sent [of "put_u32 i" "[]" c ExtDontHave r] ext_len [of 4]
  by (simp add: Read_extended_def ExtDontHave_def ExtMetadata_def ExtPex_def wire_simps)

lemma length_sendExtended: "length (sendExtended st b d) = 6 + length b + length d"
  by (simp add: sendExtended_def sendMessage_def)

lemmas Read_variable = Read_Bitfield Read_Piece Read_Extended0 Read_Pex Read_Metadata Read_DontHave

lemma Read_Write:
  assumes "Write c m = Some (Inr bs)" and "length bs \<le> 4 + 2 ^ 20" and "our_subtype m" and "codec_inverse c m"
  shows "Read c (bs @ r) = Read_msg (received m) r"
proof (cases m)
  case KeepAlive
  have "[0, 0, 0, 0] = put_u32 0" by code_simp
  then have "bs = put_u32 0" using assms KeepAlive by simp
  then show ?thesis using KeepAlive by (simp add: Read_def wire_simps)
next
  case (Bitfield b)
  then show ?thesis using assms by (auto simp: sendMessage_def Read_Bitfield [unfolded sendMessage_def, simplified])
next
  case (Piece i b d)
  then show ?thesis using assms Read_Piece [of d c i b r] by auto
next
  case (Extended0 e)
  then obtain b where "enc_ext c (write_ext0 e) = Some b" "bs = sendExtended 0 b []"
    using assms by (auto simp: encoded_def split: option.splits)
  then show ?thesis using assms Extended0 Read_Extended0 [of c e b r] by (simp add: length_sendExtended)
next
  case (ExtendedPex st a d)
  then obtain b where "enc_pex c (write_pex a d) = Some b" "bs = sendExtended ExtPex b []"
    using assms by (auto simp: encoded_def split: option.splits)
  then show ?thesis using assms ExtendedPex Read_Pex [of c a d b r] by (simp add: length_sendExtended)
next
  case (ExtendedMetadata st tpe piece totalSize d)
  then obtain b where "enc_meta c (write_meta tpe piece totalSize) = Some b" "bs = sendExtended ExtMetadata b d"
    using assms by (auto split: option.splits if_splits)
  then show ?thesis
    using assms ExtendedMetadata Read_Metadata [of c tpe piece totalSize d b r] by (simp add: length_sendExtended)
next
  case (ExtendedDontHave st i)
  then show ?thesis using assms Read_DontHave [of c i r] by (auto split: if_splits)
qed (use assms in \<open>auto simp: Read_sent sent_body\<close>)

subsection \<open>Streams\<close>

definition small_message :: "codec \<Rightarrow> message \<Rightarrow> bool" where
  "small_message c m = (case Write c m of Some (Inr b) \<Rightarrow> length b \<le> 4 + 2 ^ 20 | _ \<Rightarrow> True)"

definition readable :: "codec \<Rightarrow> message \<Rightarrow> bool" where
  "readable c m = (small_message c m \<and> our_subtype m \<and> codec_inverse c m)"

lemma Reader_loop_Writer:
  "\<lbrakk>Writer c ms = Some (bs, False); list_all (readable c) ms\<rbrakk> \<Longrightarrow>
   Reader_loop c (length ms + n) (bs @ r) = map (\<lambda>m. Some (received m)) ms @ Reader_loop c n r"
proof (induction ms arbitrary: bs)
  case (Cons m ms)
  then obtain b bs' where b: "Write c m = Some (Inr b)" "Writer c ms = Some (bs', False)" "bs = b @ bs'"
    by (auto split: option.splits sum.splits)
  have "Read c (b @ bs' @ r) = Read_msg (received m) (bs' @ r)"
    using Cons.prems(2) b by (intro Read_Write) (auto simp: readable_def small_message_def)
  then show ?case using Cons b by simp
qed simp

text \<open>
  C5. The wire protocol is faithful. When \<^verbatim>\<open>Writer\<close> has written a list of messages without an
  error, \<^verbatim>\<open>Reader\<close> at the other end, given the same bytes in any division between its initial
  data and the connection, sends exactly these messages, in their order, and goes on reading
  with the first byte behind them. This holds for messages of up to one megabyte
  whose extended subtypes are those of this program, and for a codec that decodes
  what it encodes.
\<close>

theorem messages_round_trip:
  assumes "Writer c ms = Some (bs, False)" and "list_all (readable c) ms" and "init @ conn = bs @ r"
  shows "Reader c (length ms + n) init conn = map (\<lambda>m. Some (received m)) ms @ Reader c n [] r"
  using Reader_loop_Writer [OF assms(1,2)] assms(3) by (simp add: Reader_def)

text \<open>A codec for one structure, to see the theorem at work.\<close>

definition sample_ext :: extended0 where
  "sample_ext = \<lparr>e0_Version = ''STorrent'', e0_Port = 6881, e0_ReqQ = 250, e0_IPv4 = Addr4 0x7F000001, e0_IPv6 = NoAddr,
     e0_MetadataSize = 100, e0_Messages = [(''ut_pex'', 1)], e0_UploadOnly = False, e0_Encrypt = True\<rparr>"

definition sample_codec :: codec where
  "sample_codec = \<lparr>enc_ext = (\<lambda>e. Some [1, 2, 3]), dec_ext = (\<lambda>b. Some (write_ext0 sample_ext, 3)),
     enc_pex = (\<lambda>e. None), dec_pex = (\<lambda>b. None), enc_meta = (\<lambda>e. Some [4, 5]),
     dec_meta = (\<lambda>b. Some (write_meta 1 7 0, 2))\<rparr>"

theorem messages_round_trip_witness:
  "\<exists>bs. Writer sample_codec [Extended0 sample_ext, ExtendedMetadata 2 1 7 0 [9, 9], KeepAlive, Request 1 2 3] = Some (bs, False) \<and>
     Reader sample_codec 4 (take 9 bs) (drop 9 bs) =
       [Some (Extended0 sample_ext), Some (ExtendedMetadata 2 1 7 0 [9, 9]), Some KeepAlive, Some (Request 1 2 3)]"
proof -
  let ?ms = "[Extended0 sample_ext, ExtendedMetadata 2 1 7 0 [9, 9], KeepAlive, Request 1 2 3]"
  have "list_all (readable sample_codec) ?ms" by code_simp
  moreover have "map_option snd (Writer sample_codec ?ms) = Some False" by code_simp
  then obtain bs where w: "Writer sample_codec ?ms = Some (bs, False)" by auto
  moreover have "map (\<lambda>m. Some (received m)) ?ms = map Some ?ms" by code_simp
  moreover have "length ?ms + 0 = 4" "Reader sample_codec 0 [] [] = []" by (simp_all add: Reader_def)
  ultimately have "Reader sample_codec 4 (take 9 bs) (drop 9 bs) = map Some ?ms"
    using messages_round_trip [of sample_codec ?ms bs "take 9 bs" "drop 9 bs" "[]" 0]
    by (metis append_Nil2 append_take_drop_id)
  with w show ?thesis by (intro exI [of _ bs]) simp
qed

subsection \<open>Framing\<close>

lemma readFull_Some: "readFull n r = Some (b, r') \<longleftrightarrow> n \<le> length r \<and> b = take n r \<and> r' = drop n r"
  by (auto simp: readFull_def)

lemma readUint_Some:
  "readUint32 r = Some (v, r') \<longleftrightarrow> 4 \<le> length r \<and> v = get_u32 (take 4 r) \<and> r' = drop 4 r"
  "readUint16 r = Some (w, r') \<longleftrightarrow> 2 \<le> length r \<and> w = get_u16 (take 2 r) \<and> r' = drop 2 r"
  by (auto simp: readUint32_def readUint16_def readFull_def)

lemma readByte_Some: "readByte r = Some (b, r') \<longleftrightarrow> r = b # r'"
  by (auto simp: readByte_def split: list.splits)

lemma or_eof_msg: "or_eof x = Read_msg m r \<longleftrightarrow> x = Some (Read_msg m r)"
  by (auto simp: or_eof_def split: option.splits)

lemmas read_Some = readFull_Some readUint_Some readByte_Some or_eof_msg bind_eq_Some_conv

lemma unat_minus: "k \<le> unat len \<Longrightarrow> unat (len - of_nat k :: u32) = unat len - k"
proof -
  assume k: "k \<le> unat len"
  then have "unat (of_nat k :: u32) = k" using le_less_trans [OF k unat_u32_bound] by (simp add: unat_of_nat)
  then show ?thesis using k by (metis unat_sub word_le_nat_alt)
qed

lemma Read_extended_framing:
  assumes "Read_extended c len r = Read_msg m r'" and "2 \<le> unat len" and "unat len - 1 \<le> length r"
  shows "r' = drop (unat len - 1) r"
proof -
  have n: "unat (len - 2) = unat len - 2" using unat_minus [of 2 len] assms(2) by simp
  obtain st r1 where r: "r = st # r1" using assms(2,3) by (cases r) auto
  have l: "len - 2 = 4 \<Longrightarrow> unat len = 6" "len - 2 = 1 \<Longrightarrow> unat len = 3"
    using n assms(2) by auto
  show ?thesis
    using assms(1) n l assms(2) unfolding Read_extended_def r
    by (auto simp: read_Some Let_def read_pex_def drop_Cons' numeral_2_eq_2 split: if_splits option.splits prod.splits)
qed

lemma Read_body_framing:
  assumes "Read_body c len tpe r = Read_msg m r'" and "0 < len" and "tpe \<noteq> 20 \<or> 2 \<le> unat len"
    and "unat len - 1 \<le> length r"
  shows "r' = drop (unat len - 1) r"
proof -
  have n1: "unat (len - 1) = unat len - 1" using unat_minus [of 1 len] assms(2) by (simp add: word_less_nat_alt)
  have n9: "\<not> len < 9 \<Longrightarrow> unat (len - 9) = unat len - 9 \<and> 9 \<le> unat len"
    using unat_minus [of 9 len] by (simp add: word_less_nat_alt)
  show ?thesis
  proof (cases "tpe = 20")
    case True
    then show ?thesis using Read_extended_framing assms by (simp add: Read_body_def)
  next
    case False
    then show ?thesis using assms(1,2) n1 n9
      by (auto simp: Read_body_def read0_def read1_def read3_def read_Some split: if_splits)
  qed
qed

text \<open>
  The reader stays in step. For a message whose bytes are all there, with length field
  \<open>n\<close>, \<^verbatim>\<open>Read\<close> consumes the \<open>4 + n\<close> bytes of the message and no others, whatever the message and
  the codec are, and \<open>n\<close> is at most one megabyte. The one exception is an extended
  message (type 20) that is too short to have a subtype.
\<close>

theorem Read_framing:
  assumes "Read c r = Read_msg m r'" and "get_u32 (take 4 r) = n" and "4 + unat n \<le> length r"
    and "\<not> (n = 1 \<and> r ! 4 = 20)"
  shows "r' = drop (4 + unat n) r \<and> unat n \<le> 2 ^ 20"
proof (cases "n = 0")
  case True
  then show ?thesis using assms by (auto simp: Read_def read_Some)
next
  case False
  then have pos: "0 < n" "1 \<le> unat n" by (simp_all add: word_gt_0 unat_gt_0 Suc_le_eq)
  obtain tpe r2 where d: "drop 4 r = tpe # r2" using assms(3) pos by (cases "drop 4 r") auto
  then have tpe: "r ! 4 = tpe" and r2: "r2 = drop 5 r"
    using nth_via_drop [OF d] drop_drop [of 1 4 r] by simp_all
  have body: "Read_body c n tpe r2 = Read_msg m r'" and sm: "\<not> 1024 * 1024 < n"
    using assms(1,2) False d by (auto simp: Read_def read_Some readByte_Cons split: if_splits)
  have "tpe \<noteq> 20 \<or> 2 \<le> unat n" using assms(4) tpe pos by (cases "unat n = 1") (auto simp: word_unat_eq_iff)
  then have "r' = drop (unat n - 1) r2"
    using Read_body_framing [OF body pos(1)] assms(3) r2 by simp
  then show ?thesis using r2 pos sm by (simp add: word_less_nat_alt)
qed

theorem Read_framing_witness:
  "Read sample_codec ([0, 0, 0, 5, 4, 0, 0, 0, 9] @ [1, 2, 3]) = Read_msg (Have 9) [1, 2, 3]"
proof -
  have "Read sample_codec ([0, 0, 0, 5, 4, 0, 0, 0, 9] @ [1, 2, 3]) =
      Read_msg (Have 9) (drop (4 + unat (5 :: u32)) ([0, 0, 0, 5, 4, 0, 0, 0, 9] @ [1, 2, 3]))" by code_simp
  from Read_framing [OF this] have
    "drop (4 + unat (5 :: u32)) ([0, 0, 0, 5, 4, 0, 0, 0, 9] @ [1, 2, 3]) = ([1, 2, 3] :: byte list)"
    by code_simp
  with \<open>Read _ _ = _\<close> show ?thesis by simp
qed

text \<open>
  Two kinds of malformed message are not reported as such. \<^verbatim>\<open>HaveAll\<close> or
  \<^verbatim>\<open>HaveNone\<close> with a length other than 1 yields a nil message and no error, on which the peer
  panics; and an extended message of length 1 takes the type of the next
  message for its subtype and tries to discard \<open>2 ^ 32 - 1\<close> bytes, whatever messages they hold.
\<close>

theorem Read_malformed:
  "(1 < n \<and> n \<le> 1024 * 1024 \<and> (tpe = 14 \<or> tpe = 15) \<longrightarrow> Read c (put_u32 n @ tpe # r) = Read_nil r) \<and>
   (length r < 2 ^ 32 - 1 \<and> 4 < st \<longrightarrow> Read c ([0, 0, 0, 1, 20, st] @ r) = Read_err ErrEOF)"
proof (intro conjI impI; elim conjE)
  assume n: "1 < n" "n \<le> 1024 * 1024" "tpe = 14 \<or> tpe = 15"
  then have "n \<noteq> 0" "n \<noteq> 1" "\<not> 1024 * 1024 < n" by auto
  then show "Read c (put_u32 n @ tpe # r) = Read_nil r"
    using n(3) by (auto simp: Read_def Read_body_def wire_simps)
next
  assume r: "length r < 2 ^ 32 - 1" "4 < st"
  have h: "[0, 0, 0, 1, 20, st] @ r = put_u32 (of_nat (Suc 0)) @ 20 # st # r" by (simp; code_simp)
  have st: "st \<noteq> 0" "st \<noteq> ExtPex" "st \<noteq> ExtMetadata" "st \<noteq> ExtDontHave" "st \<noteq> ExtUploadOnly"
    using r(2) by (auto simp: ExtPex_def ExtMetadata_def ExtDontHave_def ExtUploadOnly_def)
  have "unat (1 - 2 :: u32) = 2 ^ 32 - 1" by code_simp
  then have "readFull (unat (1 - 2 :: u32)) r = None" using r(1) unfolding readFull_def by simp
  then show "Read c ([0, 0, 0, 1, 20, st] @ r) = Read_err ErrEOF"
    unfolding h using Read_header [of 0 c 20 "st # r"] st
    by (simp add: Read_body_def Read_extended_def wire_simps)
qed

theorem Read_malformed_witness:
  "Read sample_codec (put_u32 2 @ 14 # [0]) = Read_nil [0] \<and>
   Read sample_codec ([0, 0, 0, 1, 20, 5] @ [0, 0, 0, 0]) = Read_err ErrEOF"
proof -
  have "1 < (2 :: u32)" "(2 :: u32) \<le> 1024 * 1024" "(4 :: byte) < 5" by simp_all
  then show ?thesis
    using Read_malformed [of 2 14 sample_codec "[0]" 5] Read_malformed [of 2 14 sample_codec "[0, 0, 0, 0]" 5] by simp
qed

end
