(* ===== verification/Peer.thy ===== *)
theory Peer
  imports Protocol Known Requests Piece
begin

unbundle bit_operations_syntax

section \<open>A connection to a peer (peer/peer.go, peer/event.go)\<close>

text \<open>
  The goroutine of one peer. Each message from the peer, each event from the torrent and
  each tick of a timer is handled by one function on the state, the record \<open>peer\<close> of
  the fields of \<^verbatim>\<open>Peer\<close>. Added to them are the messages the writer has accepted
  (\<open>pr_out\<close>), the events the torrent has received (\<open>pr_delivered\<close>), the answers to queries
  (\<open>pr_replies\<close>) and this peer's share of the counter \<^verbatim>\<open>numUnchoking\<close>.

  What the goroutine cannot determine is the record \<open>env\<close>: the time, which is read once for
  each handler; whether a channel accepts a message, a function of the number of channel
  operations so far (\<open>pr_tick\<close>), so that every sequence of outcomes is covered;
  the decisions that depend on floating-point rates; the number of other peers that are
  unchoked; and the configuration. Rate estimators are
  reduced to whether they run. A function returns \<open>None\<close> when the code panics, and
  otherwise the error and the state. Logging is left out.
\<close>

subsection \<open>Events and state\<close>

text \<open>The events that a peer sends to its torrent; the field for the peer is left out.\<close>

datatype tor_event =
    TorPeerExtended u32
  | TorAddKnown addrport "hash option" string known_kind
  | TorPeerGoaway
  | TorData u32 u32 u32 bool
  | TorDrop u32 u32 u32
  | TorMetaData u32 u32 "byte list"
  | TorPeerBitmap "bitmap option" bool
  | TorPeerHave u32 bool
  | TorPeerInterested bool
  | TorPeerUnchoke bool

datatype peer_event =
    PeerMetadataComplete "byte list"
  | PeerRequest "u32 list"
  | PeerHave u32 bool
  | PeerCancel u32
  | PeerCancelPiece u32
  | PeerInterested bool
  | PeerGetMetadata u32
  | PeerPex "pex_peer list" bool
  | PeerGetStatus
  | PeerGetStats
  | PeerGetPex
  | PeerGetFast
  | PeerGetBitmap
  | PeerGetHave u32
  | PeerUnchoke bool
  | PeerDone

text \<open>The answers; the rates and the round-trip times are left out.\<close>

datatype peer_reply =
    PeerStatus bool bool bool bool bool bool nat
  | PeerStats bool bool bool bool bool bool bool nat nat nat nat nat
  | RepPex "pex_peer option"
  | RepFast "u32 list"
  | RepBitmap "bitmap option"
  | RepHave bool

datatype peer_error =
    ErrCongested | ErrMetadataIncomplete | ErrCannotFast | ErrRange | IoEOF
  | ErrDuplicateMetadata | ErrInconsistentBitmap | ErrOverlongBitfield | ErrDuplicateExtended0
  | ErrMetadataType | ErrDontHaveSeed | ErrUnknownExtended | ErrUnknown | ErrReader read_error

record up_request =
  ur_Index :: u32
  ur_Begin :: u32
  ur_Length :: u32

definition reqQ :: nat where "reqQ = 250"

record peer =
  pr_proxy :: string
  pr_Counter :: u32
  pr_Id :: hash
  pr_IP :: addr
  pr_Port :: u32
  pr_Incoming :: bool
  pr_Info :: "byte list option"
  pr_Pieces :: pieces
  pr_myBitmap :: bitmap
  pr_bitmap :: "bitmap option"
  pr_isSeed :: bool
  pr_unchoked :: bool
  pr_interested :: bool
  pr_amUnchoking :: bool
  pr_shouldInterested :: bool
  pr_amInterested :: bool
  pr_gotExtended :: bool
  pr_canDHT :: bool
  pr_canFast :: bool
  pr_canExtended :: bool
  pr_pexExt :: byte
  pr_metadataExt :: byte
  pr_dontHaveExt :: byte
  pr_uploadOnlyExt :: byte
  pr_prefersEncryption :: bool
  pr_uploadOnly :: bool
  pr_events :: "tor_event list"
  pr_reqQ :: int
  pr_requests :: requests
  pr_requested :: "up_request list"
  pr_time :: gotime
  pr_writeTime :: gotime
  pr_pex :: "pex_peer list"
  pr_pexTorTime :: gotime
  pr_pexState :: pexState
  pr_pexSentTime :: gotime
  pr_download :: bool
  pr_upload :: bool
  pr_rtt :: int
  pr_rttvar :: int
  pr_uploadInterval :: int
  pr_uploadTicker :: bool
  pr_hasFast :: bool
  pr_fast :: "u32 list"
  pr_unchokeTime :: gotime
  pr_lastActive :: gotime
  pr_numUnchoking :: int
  pr_out :: "message list"
  pr_delivered :: "tor_event list"
  pr_replies :: "peer_reply list"
  pr_tick :: nat

datatype write_outcome = Written | WriterDone | WriterFull

record env =
  en_now :: gotime
  en_sys :: sysenv
  en_write :: "nat \<Rightarrow> write_outcome"
  en_accept :: "nat \<Rightarrow> bool"
  en_congested :: "nat \<Rightarrow> bool"
  en_slow :: "nat \<Rightarrow> bool"
  en_allow :: bool
  en_interval :: int
  en_others :: int
  en_ExternalPort :: "bool \<Rightarrow> bool \<Rightarrow> u16"
  en_ipv6 :: addr
  en_preferEncryption :: bool

type_synonym peer_result = "(peer_error option \<times> peer) option"

abbreviation (input) ok :: "peer \<Rightarrow> peer_result" where "ok p \<equiv> Some (None, p)"
abbreviation (input) fail :: "peer_error \<Rightarrow> peer \<Rightarrow> peer_result" where "fail e p \<equiv> Some (Some e, p)"

text \<open>\<^verbatim>\<open>New\<close>, for the result of a handshake; the counter of peers is an argument.\<close>

definition Peer_New :: "string \<Rightarrow> u32 \<Rightarrow> addrport \<Rightarrow> bool \<Rightarrow> hash \<Rightarrow> bool \<Rightarrow> bool \<Rightarrow> bool \<Rightarrow> pieces \<Rightarrow> peer option" where
  "Peer_New proxy counter addr incoming pid dht fast extended pieces =
     (if counter = 0 then None
      else Some
        \<lparr>pr_proxy = proxy, pr_Counter = counter, pr_Id = pid, pr_IP = fst addr, pr_Port = ucast (snd addr),
         pr_Incoming = incoming, pr_Info = None, pr_Pieces = pieces, pr_myBitmap = [], pr_bitmap = None,
         pr_isSeed = False, pr_unchoked = False, pr_interested = False, pr_amUnchoking = False,
         pr_shouldInterested = False, pr_amInterested = False, pr_gotExtended = False, pr_canDHT = dht,
         pr_canFast = fast, pr_canExtended = extended, pr_pexExt = 0, pr_metadataExt = 0, pr_dontHaveExt = 0,
         pr_uploadOnlyExt = 0, pr_prefersEncryption = False, pr_uploadOnly = False, pr_events = [], pr_reqQ = 0,
         pr_requests = empty_requests, pr_requested = [], pr_time = 0, pr_writeTime = 0, pr_pex = [],
         pr_pexTorTime = 0, pr_pexState = empty_pexState, pr_pexSentTime = 0, pr_download = False,
         pr_upload = False, pr_rtt = 0, pr_rttvar = 0, pr_uploadInterval = 0, pr_uploadTicker = False,
         pr_hasFast = False, pr_fast = [], pr_unchokeTime = 0, pr_lastActive = 0, pr_numUnchoking = 0,
         pr_out = [], pr_delivered = [], pr_replies = [], pr_tick = 0\<rparr>)"

subsection \<open>Chunks\<close>

text \<open>Chunks are numbered through the torrent, in 32 bits. A division by zero panics.\<close>

definition toChunk :: "peer \<Rightarrow> u32 \<Rightarrow> u32 \<Rightarrow> u32 option" where
  "toChunk p index begin =
     (let cpp = ps_pieceSize (pr_Pieces p) div ChunkSize
      in if cpp = 0 then None
         else if index > - 1 div cpp then Some 0
         else Some (index * cpp + begin div ChunkSize))"

definition fromChunk :: "peer \<Rightarrow> u32 \<Rightarrow> (u32 \<times> u32) option" where
  "fromChunk p chunk =
     (let ps = ps_pieceSize (pr_Pieces p)
      in if ps div ChunkSize = 0 then None
         else Some (chunk div (ps div ChunkSize), (chunk * ChunkSize) mod ps))"

definition chunkSize :: "peer \<Rightarrow> u32 \<Rightarrow> u32" where
  "chunkSize p chunk =
     (let l = ps_length (pr_Pieces p)
      in if chunk < word_of_int (l sdiv uint ChunkSize) then ChunkSize else word_of_int (l smod uint ChunkSize))"

definition numPieces :: "peer \<Rightarrow> int option" where
  "numPieces p =
     (let ps = uint (ps_pieceSize (pr_Pieces p))
      in if ps = 0 then None else Some ((ps_length (pr_Pieces p) + ps - 1) sdiv ps))"

text \<open>\<^verbatim>\<open>peer.bitmap.Get\<close>, on a bitmap that may be nil.\<close>

definition hasPiece :: "peer \<Rightarrow> nat \<Rightarrow> bool" where
  "hasPiece p i = (case pr_bitmap p of None \<Rightarrow> False | Some b \<Rightarrow> bitmap_Get b i)"

subsection \<open>Writing messages and events\<close>

definition tick :: "peer \<Rightarrow> peer" where
  "tick p = p\<lparr>pr_tick := Suc (pr_tick p)\<rparr>"

definition peer_write :: "env \<Rightarrow> message \<Rightarrow> peer \<Rightarrow> peer_error option \<times> peer" where
  "peer_write env m p =
     (case en_write env (pr_tick p) of
        Written \<Rightarrow> (None, tick (p\<lparr>pr_out := pr_out p @ [m], pr_writeTime := en_now env\<rparr>))
      | WriterDone \<Rightarrow> (Some IoEOF, tick p)
      | WriterFull \<Rightarrow> (Some ErrCongested, tick p))"

definition isCongested :: "env \<Rightarrow> peer \<Rightarrow> bool" where
  "isCongested env p = en_congested env (pr_tick p)"

definition writeEvent :: "env \<Rightarrow> tor_event \<Rightarrow> peer \<Rightarrow> peer" where
  "writeEvent env m p =
     (if pr_events p = [] \<and> en_accept env (pr_tick p)
      then tick (p\<lparr>pr_delivered := pr_delivered p @ [m]\<rparr>)
      else tick (p\<lparr>pr_events := pr_events p @ [m]\<rparr>))"

definition drop_chunk :: "env \<Rightarrow> u32 \<Rightarrow> peer \<Rightarrow> peer option" where
  "drop_chunk env chunk p = do {
     (i, b) \<leftarrow> fromChunk p chunk;
     Some (writeEvent env (TorDrop i b ChunkSize) p)
   }"

fun drop_chunks :: "env \<Rightarrow> u32 list \<Rightarrow> peer \<Rightarrow> peer option" where
  "drop_chunks env [] p = Some p"
| "drop_chunks env (c # cs) p = do { p1 \<leftarrow> drop_chunk env c p; drop_chunks env cs p1 }"

definition reject :: "env \<Rightarrow> u32 \<Rightarrow> u32 \<Rightarrow> u32 \<Rightarrow> peer \<Rightarrow> peer_error option \<times> peer" where
  "reject env index begin len p =
     (if pr_canFast p then peer_write env (RejectRequest index begin len) p else (None, p))"

definition docancel :: "env \<Rightarrow> u32 \<Rightarrow> peer \<Rightarrow> peer_result" where
  "docancel env chunk p = do {
     (i, b) \<leftarrow> fromChunk p chunk;
     Some (peer_write env (Cancel i b (chunkSize p chunk)) p)
   }"

text \<open>The answers to the callbacks of \<^verbatim>\<open>Expire\<close>; the error of a cancel is ignored.\<close>

fun docancels :: "env \<Rightarrow> u32 list \<Rightarrow> peer \<Rightarrow> peer option" where
  "docancels env [] p = Some p"
| "docancels env (c # cs) p = do { (_, p1) \<leftarrow> docancel env c p; docancels env cs p1 }"

definition cancel :: "env \<Rightarrow> u32 \<Rightarrow> peer \<Rightarrow> peer_result" where
  "cancel env chunk p =
     (let (rs, c, ca) = rs_Cancel (en_now env) (pr_requests p) chunk; p1 = p\<lparr>pr_requests := rs\<rparr>
      in if c then (if ca then docancel env chunk p1 else ok p1)
         else do {
           (rs2, q, r, _) \<leftarrow> rs_Del (pr_requests p1) chunk;
           let p2 = p1\<lparr>pr_requests := rs2\<rparr>;
           (err, p3) \<leftarrow> (if r then docancel env chunk p2 else ok p2);
           p4 \<leftarrow> (if q \<or> r then drop_chunk env chunk p3 else Some p3);
           Some (err, if rs_Requested (pr_requests p4) = 0 then p4\<lparr>pr_download := False\<rparr> else p4)
         })"

definition active :: "env \<Rightarrow> peer \<Rightarrow> peer" where
  "active env p =
     (if en_now env - pr_lastActive p > 5 * time_Second
      then (if pr_Port p \<noteq> 0
            then writeEvent env (TorAddKnown (pr_IP p, ucast (pr_Port p)) None [] KActive) p else p)
             \<lparr>pr_lastActive := en_now env\<rparr>
      else p)"

subsection \<open>Uploading\<close>

definition stopUpload :: "peer \<Rightarrow> peer" where
  "stopUpload p =
     (if \<not> pr_uploadTicker p then p
      else p\<lparr>pr_uploadTicker := False, pr_uploadInterval := 0, pr_upload := False\<rparr>)"

definition startStopUpload :: "env \<Rightarrow> peer \<Rightarrow> peer" where
  "startStopUpload env p =
     (if pr_requested p = [] then stopUpload p
      else let interval = en_interval env
           in if pr_uploadTicker p \<and> interval > (pr_uploadInterval p * 3) sdiv 4 \<and>
                 interval < (pr_uploadInterval p * 3) sdiv 2
              then p
              else p\<lparr>pr_uploadTicker := True, pr_uploadInterval := interval, pr_upload := True\<rparr>)"

text \<open>
  \<open>en_allow\<close> says whether one of the two rate estimators allows to send the next request.
\<close>

definition scheduleUpload :: "env \<Rightarrow> bool \<Rightarrow> peer \<Rightarrow> peer_result" where
  "scheduleUpload env immediate p =
     (if immediate \<and> pr_amUnchoking p \<and> pr_requested p \<noteq> [] then
        if isCongested env p \<or> \<not> en_allow env then ok (startStopUpload env p)
        else let r = hd (pr_requested p);
                 p1 = p\<lparr>pr_requested := tl (pr_requested p)\<rparr>;
                 offset = uint (ur_Index r) * uint (ps_pieceSize (pr_Pieces p)) + uint (ur_Begin r)
             in case ReadAt (pr_Pieces p) (unat (ur_Length r)) offset of
                  None \<Rightarrow> None
                | Some (data, _) \<Rightarrow>
                    if length data \<noteq> unat (ur_Length r) then
                      (case reject env (ur_Index r) (ur_Begin r) (ur_Length r) p1 of
                         (None, p2) \<Rightarrow> ok (startStopUpload env p2)
                       | (Some e, p2) \<Rightarrow> fail e p2)
                    else
                      (case peer_write env (Piece (ur_Index r) (ur_Begin r) data) p1 of
                         (None, p2) \<Rightarrow> ok (startStopUpload env (active env p2))
                       | (Some ErrCongested, p2) \<Rightarrow>
                           ok (startStopUpload env (p2\<lparr>pr_requested := r # pr_requested p2\<rparr>))
                       | (Some e, p2) \<Rightarrow> fail e p2)
      else ok (startStopUpload env p))"

text \<open>Rejecting the requests of a peer that is choked, up to the first error.\<close>

fun reject_all :: "env \<Rightarrow> up_request list \<Rightarrow> peer \<Rightarrow> peer_error option \<times> peer" where
  "reject_all env [] p = (None, p)"
| "reject_all env (r # rs) p =
     (case reject env (ur_Index r) (ur_Begin r) (ur_Length r) p of
        (None, p1) \<Rightarrow> reject_all env rs p1
      | (Some e, p1) \<Rightarrow> (Some e, p1))"

definition unchoke :: "env \<Rightarrow> bool \<Rightarrow> peer \<Rightarrow> peer_error option \<times> peer" where
  "unchoke env u p =
     (let un = (if u \<and> \<not> pr_interested p then False else u)
      in if un = pr_amUnchoking p then (None, p)
         else if un then
           (case peer_write env Unchoke p of
              (None, p1) \<Rightarrow>
                (None, p1\<lparr>pr_amUnchoking := True, pr_numUnchoking := pr_numUnchoking p1 + 1,
                          pr_unchokeTime := en_now env\<rparr>)
            | (Some e, p1) \<Rightarrow> (None, p1))
         else
           (case peer_write env Choke p of
              (None, p1) \<Rightarrow>
                (case reject_all env (pr_requested p1)
                        (p1\<lparr>pr_amUnchoking := False, pr_numUnchoking := pr_numUnchoking p1 - 1\<rparr>) of
                   (None, p2) \<Rightarrow> (None, p2\<lparr>pr_requested := [], pr_unchokeTime := en_now env\<rparr>)
                 | (Some e, p2) \<Rightarrow> (Some e, p2))
            | (Some e, p1) \<Rightarrow> (Some e, p1)))"

subsection \<open>Requesting\<close>

definition isFast :: "peer \<Rightarrow> u32 \<Rightarrow> bool" where
  "isFast p index = (index \<in> set (pr_fast p))"

definition rto :: "peer \<Rightarrow> int" where
  "rto p = pr_rtt p + 4 * pr_rttvar p"

lemma writeEvent_requests [simp]: "pr_requests (writeEvent env e p) = pr_requests p"
  by (simp add: writeEvent_def tick_def)

lemma drop_chunk_requests: "drop_chunk env c p = Some p' \<Longrightarrow> pr_requests p' = pr_requests p"
  by (auto simp: drop_chunk_def bind_eq_Some_conv)

lemma rs_Dequeue_queue: "rs_Dequeue rs = Some (rs', r, k) \<Longrightarrow> length (rs_queue rs') < length (rs_queue rs)"
  by (auto simp: rs_Dequeue_def split: list.splits)

lemma rs_EnqueueRequest_queue: "rs_EnqueueRequest now rs r = Some rs' \<Longrightarrow> rs_queue rs' = rs_queue rs"
  by (auto simp: rs_EnqueueRequest_def split: if_splits)

text \<open>
  The loop of \<^verbatim>\<open>maybeRequest\<close>; every iteration takes a request from the queue.
  \<open>en_slow nr\<close> says whether \<open>nr\<close> requests in flight take longer than the retransmission
  timeout at the current rate.
\<close>

function (sequential) maybeRequest_loop :: "env \<Rightarrow> peer \<Rightarrow> peer option" where
  "maybeRequest_loop env p =
     (let nr = rs_Requested (pr_requests p) in
      if isCongested env p \<or> rs_queue (pr_requests p) = [] then Some p
      else if nr \<ge> 2 \<and> (int nr \<ge> pr_reqQ p \<or> en_slow env nr) then Some p
      else case rs_Dequeue (pr_requests p) of
             None \<Rightarrow> None
           | Some (rs1, q, index) \<Rightarrow>
               (case fromChunk p index of
                  None \<Rightarrow> None
                | Some (i, b) \<Rightarrow>
                    if (\<not> pr_unchoked p \<and> \<not> isFast p i) \<or> \<not> hasPiece p (unat i)
                    then (case drop_chunk env index (p\<lparr>pr_requests := rs1\<rparr>) of
                            None \<Rightarrow> None
                          | Some p2 \<Rightarrow> maybeRequest_loop env p2)
                    else
                      (case peer_write env (Request i b (chunkSize p index)) (p\<lparr>pr_requests := rs1\<rparr>) of
                         (Some e, p2) \<Rightarrow> drop_chunk env index p2
                       | (None, p2) \<Rightarrow>
                           (case rs_EnqueueRequest (en_now env) rs1 q of
                              None \<Rightarrow> None
                            | Some rs2 \<Rightarrow> maybeRequest_loop env (p2\<lparr>pr_requests := rs2\<rparr>)))))"
  by pat_completeness auto

termination
  by (relation "measure (\<lambda>(env, p). length (rs_queue (pr_requests p)))")
    (auto simp: rs_Dequeue_queue drop_chunk_requests rs_EnqueueRequest_queue)

declare maybeRequest_loop.simps [simp del]

definition maybeRequest :: "env \<Rightarrow> peer \<Rightarrow> peer option" where
  "maybeRequest env p =
     (if \<not> pr_unchoked p \<and> pr_fast p = [] then Some p
      else map_option (\<lambda>p1. p1\<lparr>pr_download := (rs_Requested (pr_requests p1) > 0)\<rparr>)
             (maybeRequest_loop env p))"

definition expireRequests :: "env \<Rightarrow> peer \<Rightarrow> (bool \<times> peer) option" where
  "expireRequests env p =
     (if rs_Requested (pr_requests p) = 0 then Some (False, p)
      else let t0 = en_now env - 30 * time_Second;
               to1 = (if rto p > 5 * time_Second then 5 * time_Second else rto p);
               to2 = (if pr_canFast p then to1 + 2 * time_Second else to1);
               t1 = en_now env - to2
           in do {
             (rs, drops, cancels, dropped) \<leftarrow> rs_Expire (en_now env) (pr_requests p) t0 t1;
             p1 \<leftarrow> drop_chunks env drops (p\<lparr>pr_requests := rs\<rparr>);
             p2 \<leftarrow> docancels env cancels p1;
             Some (dropped, p2)
           })"

subsection \<open>Interest and seeds\<close>

definition maybeInterested :: "env \<Rightarrow> peer \<Rightarrow> peer_error option \<times> peer" where
  "maybeInterested env p =
     (let interested =
        (pr_shouldInterested p \<and> pr_Info p \<noteq> None \<and>
         (case pr_bitmap p of
            None \<Rightarrow> False
          | Some b \<Rightarrow> list_ex (\<lambda>i. \<not> bitmap_Get (pr_myBitmap p) i) (bitmap_AllSet b)))
      in if interested = pr_amInterested p then (None, p)
         else case peer_write env (if interested then Interested else NotInterested) p of
                (None, p1) \<Rightarrow> (None, p1\<lparr>pr_amInterested := interested\<rparr>)
              | (Some e, p1) \<Rightarrow> (Some e, p1))"

definition isSeed :: "peer \<Rightarrow> bool \<times> peer" where
  "isSeed p =
     (if pr_Info p = None then (False, p)
      else if pr_isSeed p then (True, p)
      else let seed = bitmap_All (case pr_bitmap p of None \<Rightarrow> [] | Some b \<Rightarrow> b) (Pieces_Num (pr_Pieces p))
           in (seed, if seed then p\<lparr>pr_isSeed := True\<rparr> else p))"

definition amSeed :: "peer \<Rightarrow> bool" where
  "amSeed p = (if pr_Info p = None then False else bitmap_All (pr_myBitmap p) (Pieces_Num (pr_Pieces p)))"

definition sendPex :: "env \<Rightarrow> peer \<Rightarrow> peer" where
  "sendPex env p =
     (if pr_pexExt p = 0 \<or> isCongested env p then p
      else let (st1, tosend, todel) = computePex (pr_pexState p)
           in if tosend \<noteq> [] \<or> todel \<noteq> []
              then (case peer_write env (ExtendedPex (pr_pexExt p) tosend todel) (p\<lparr>pr_pexState := st1\<rparr>) of
                      (None, p1) \<Rightarrow> p1
                    | (Some e, p1) \<Rightarrow>
                        p1\<lparr>pr_pexState := st1\<lparr>pending := tosend @ pending st1,
                                               pendingDel := todel @ pendingDel st1\<rparr>\<rparr>)
              else p\<lparr>pr_pexState := st1\<rparr>)"

end
