(* ===== verification/Peer_Handlers.thy ===== *)
theory Peer_Handlers
  imports Peer
begin

unbundle bit_operations_syntax

section \<open>The handlers of a peer (handleEvent, handleMessage and Run of peer/peer.go)\<close>

text \<open>
  One definition for each case of \<^verbatim>\<open>handleEvent\<close> and \<^verbatim>\<open>handleMessage\<close> that does more than
  set a field, and the loop of \<^verbatim>\<open>Run\<close> as a function from a state and what the \<^verbatim>\<open>select\<close>
  chooses to the next state.
\<close>

subsection \<open>Events from the torrent\<close>

definition handle_MetadataComplete :: "env \<Rightarrow> byte list \<Rightarrow> peer \<Rightarrow> peer_result" where
  "handle_MetadataComplete env info p =
     (if pr_Info p \<noteq> None then fail ErrDuplicateMetadata p
      else let p1 = p\<lparr>pr_Info := Some info\<rparr> in
        if pr_isSeed p1 then
          if pr_bitmap p1 \<noteq> None then fail ErrInconsistentBitmap p1
          else do {
            n \<leftarrow> numPieces p1;
            let b = bitmap_SetMultiple [] (nat n);
            ok (snd (maybeInterested env (writeEvent env (TorPeerBitmap (Some b) True) (p1\<lparr>pr_bitmap := Some b\<rparr>))))
          }
        else do {
          n \<leftarrow> numPieces p1;
          if int (bitmap_Len (case pr_bitmap p1 of None \<Rightarrow> [] | Some b \<Rightarrow> b)) > n
          then fail ErrOverlongBitfield p1
          else ok (snd (maybeInterested env p1))
        })"

fun enqueue_chunks :: "env \<Rightarrow> u32 list \<Rightarrow> peer \<Rightarrow> peer option" where
  "enqueue_chunks env [] p = Some p"
| "enqueue_chunks env (c # cs) p = do {
     (i, _) \<leftarrow> fromChunk p c;
     let (rs, done) = (if hasPiece p (unat i) then rs_Enqueue (en_now env) (pr_requests p) c else (pr_requests p, False));
     let p1 = p\<lparr>pr_requests := rs\<rparr>;
     p2 \<leftarrow> (if done then Some p1 else drop_chunk env c p1);
     enqueue_chunks env cs p2
   }"

definition handle_PeerRequest :: "env \<Rightarrow> u32 list \<Rightarrow> peer \<Rightarrow> peer_result" where
  "handle_PeerRequest env chunks p =
     (if pr_Info p = None then fail ErrMetadataIncomplete p
      else do {
        p1 \<leftarrow> enqueue_chunks env chunks p;
        p2 \<leftarrow> maybeRequest env p1;
        ok p2
      })"

definition handle_PeerHave :: "env \<Rightarrow> u32 \<Rightarrow> bool \<Rightarrow> peer \<Rightarrow> peer_result" where
  "handle_PeerHave env index have p =
     (let (e, p1) =
        (if have then peer_write env (Have index) (p\<lparr>pr_myBitmap := bitmap_Set (pr_myBitmap p) (unat index)\<rparr>)
         else let p' = p\<lparr>pr_myBitmap := bitmap_Reset (pr_myBitmap p) (unat index)\<rparr>
              in if pr_dontHaveExt p > 0
                 then peer_write env (ExtendedDontHave (pr_dontHaveExt p) index) p'
                 else (None, p'))
      in case e of Some e \<Rightarrow> fail e p1 | None \<Rightarrow> ok (snd (maybeInterested env p1)))"

fun cancel_chunks :: "env \<Rightarrow> u32 list \<Rightarrow> peer \<Rightarrow> peer option" where
  "cancel_chunks env [] p = Some p"
| "cancel_chunks env (c # cs) p = do { (_, p1) \<leftarrow> cancel env c p; cancel_chunks env cs p1 }"

definition handle_PeerCancel :: "env \<Rightarrow> u32 \<Rightarrow> peer \<Rightarrow> peer_result" where
  "handle_PeerCancel env chunk p =
     (if pr_Info p = None then fail ErrMetadataIncomplete p
      else do { p1 \<leftarrow> cancel_chunks env [chunk] p; ok p1 })"

definition handle_PeerCancelPiece :: "env \<Rightarrow> u32 \<Rightarrow> peer \<Rightarrow> peer_result" where
  "handle_PeerCancelPiece env index p =
     (if pr_Info p = None then fail ErrMetadataIncomplete p
      else let cpp = ps_pieceSize (pr_Pieces p) div ChunkSize
           in do { p1 \<leftarrow> cancel_chunks env (map (\<lambda>i. index * cpp + of_nat i) [0..<unat cpp]) p; ok p1 })"

definition handle_PeerGetMetadata :: "env \<Rightarrow> u32 \<Rightarrow> peer \<Rightarrow> peer_result" where
  "handle_PeerGetMetadata env index p =
     (if pr_metadataExt p = 0 \<or> isCongested env p then ok p
      else ok (snd (peer_write env (ExtendedMetadata (pr_metadataExt p) 0 index 0 []) p)))"

definition handle_PeerPex :: "pex_peer list \<Rightarrow> bool \<Rightarrow> peer \<Rightarrow> peer_result" where
  "handle_PeerPex peers add p =
     (if pr_pexExt p = 0 then ok p
      else ok (p\<lparr>pr_pexState := foldl (if add then pexState_add else pexState_del) (pr_pexState p) peers\<rparr>))"

definition pex_Encrypt :: byte where "pex_Encrypt = 0x01"
definition pex_UploadOnly :: byte where "pex_UploadOnly = 0x02"
definition pex_Outgoing :: byte where "pex_Outgoing = 0x10"

definition reply :: "peer_reply \<Rightarrow> peer \<Rightarrow> peer" where
  "reply r p = p\<lparr>pr_replies := pr_replies p @ [r]\<rparr>"

definition handle_PeerGetStatus :: "peer \<Rightarrow> peer_result" where
  "handle_PeerGetStatus p =
     (let (seed, p1) = isSeed p; rs = pr_requests p
      in ok (reply (PeerStatus (pr_unchoked p) (pr_interested p) (pr_amUnchoking p) (pr_amInterested p) seed
                     (pr_uploadOnly p) (rs_Requested rs + rs_Queue rs)) p1))"

definition handle_PeerGetStats :: "peer \<Rightarrow> peer_result" where
  "handle_PeerGetStats p =
     (let (seed, p1) = isSeed p; rs = pr_requests p
      in ok (reply (PeerStats (pr_unchoked p) (pr_interested p) (pr_amUnchoking p) (pr_amInterested p) seed
                     (pr_uploadOnly p) (pr_proxy p \<noteq> []) (rs_Requested rs) (rs_Requested rs + rs_Queue rs)
                     (length (pr_requested p))
                     (bitmap_Count (case pr_bitmap p of None \<Rightarrow> [] | Some b \<Rightarrow> b)) (length (pr_pex p))) p1))"

text \<open>The second operand of \<open>||\<close> is only evaluated when the first is false.\<close>

definition handle_PeerGetPex :: "peer \<Rightarrow> peer_result" where
  "handle_PeerGetPex p =
     (if pr_Port p > 0 then
        let (up, p1) = (if pr_uploadOnly p then (True, p) else isSeed p);
            flags = (if pr_prefersEncryption p then pex_Encrypt else 0) OR
                    (if up then pex_UploadOnly else 0) OR
                    (if \<not> pr_Incoming p then pex_Outgoing else 0)
        in ok (reply (RepPex (Some \<lparr>px_addr = (pr_IP p, ucast (pr_Port p)), px_flags = flags\<rparr>)) p1)
      else ok (reply (RepPex None) p))"

definition handle_PeerUnchoke :: "env \<Rightarrow> bool \<Rightarrow> peer \<Rightarrow> peer_result" where
  "handle_PeerUnchoke env u p =
     (case unchoke env u p of
        (Some e, p1) \<Rightarrow> fail e p1
      | (None, p1) \<Rightarrow> if pr_amUnchoking p1 then scheduleUpload env False p1 else ok (stopUpload p1))"

fun handleEvent :: "env \<Rightarrow> peer_event \<Rightarrow> peer \<Rightarrow> peer_result" where
  "handleEvent env (PeerMetadataComplete info) p = handle_MetadataComplete env info p"
| "handleEvent env (PeerRequest chunks) p = handle_PeerRequest env chunks p"
| "handleEvent env (PeerHave index have) p = handle_PeerHave env index have p"
| "handleEvent env (PeerCancel chunk) p = handle_PeerCancel env chunk p"
| "handleEvent env (PeerCancelPiece index) p = handle_PeerCancelPiece env index p"
| "handleEvent env (PeerInterested i) p = ok (snd (maybeInterested env (p\<lparr>pr_shouldInterested := i\<rparr>)))"
| "handleEvent env (PeerGetMetadata index) p = handle_PeerGetMetadata env index p"
| "handleEvent env (PeerPex peers add) p = handle_PeerPex peers add p"
| "handleEvent env PeerGetStatus p = handle_PeerGetStatus p"
| "handleEvent env PeerGetStats p = handle_PeerGetStats p"
| "handleEvent env PeerGetPex p = handle_PeerGetPex p"
| "handleEvent env PeerGetFast p = ok (reply (RepFast (pr_fast p)) p)"
| "handleEvent env PeerGetBitmap p = ok (reply (RepBitmap (bitmap_Copy (pr_bitmap p))) p)"
| "handleEvent env (PeerGetHave index) p = ok (reply (RepHave (hasPiece p (unat index))) p)"
| "handleEvent env (PeerUnchoke u) p = handle_PeerUnchoke env u p"
| "handleEvent env PeerDone p = fail IoEOF p"

subsection \<open>Messages from the peer\<close>

definition handle_Choke :: "env \<Rightarrow> peer \<Rightarrow> peer_result" where
  "handle_Choke env p =
     (let (rs, dropped) = rs_Clear (pr_requests p) (\<not> pr_canFast p)
      in do {
        p1 \<leftarrow> drop_chunks env dropped (p\<lparr>pr_unchoked := False, pr_requests := rs\<rparr>);
        ok (writeEvent env (TorPeerUnchoke False) (p1\<lparr>pr_download := False\<rparr>))
      })"

definition handle_NotInterested :: "env \<Rightarrow> peer \<Rightarrow> peer_result" where
  "handle_NotInterested env p =
     ok (writeEvent env (TorPeerInterested False) (snd (unchoke env False (p\<lparr>pr_interested := False\<rparr>))))"

text \<open>Whether an index is out of range, once the number of pieces is known.\<close>

definition out_of_range :: "peer \<Rightarrow> u32 \<Rightarrow> bool option" where
  "out_of_range p index =
     (if pr_Info p = None then Some False
      else map_option (\<lambda>n. index \<ge> word_of_int n) (numPieces p))"

definition handle_Have :: "env \<Rightarrow> u32 \<Rightarrow> peer \<Rightarrow> peer_result" where
  "handle_Have env index p = do {
     r \<leftarrow> out_of_range p index;
     if r then fail ErrRange p
     else if \<not> hasPiece p (unat index)
     then ok (snd (maybeInterested env
            (writeEvent env (TorPeerHave index True)
               (p\<lparr>pr_bitmap := Some (bitmap_Set (case pr_bitmap p of None \<Rightarrow> [] | Some b \<Rightarrow> b) (unat index))\<rparr>))))
     else ok p
   }"

text \<open>Withdrawing the bitmap from the torrent before it is replaced.\<close>

definition withdraw :: "env \<Rightarrow> peer \<Rightarrow> peer" where
  "withdraw env p =
     (if pr_bitmap p \<noteq> None
      then (writeEvent env (TorPeerBitmap (bitmap_Copy (pr_bitmap p)) False) p)\<lparr>pr_bitmap := None\<rparr>
      else p)"

definition handle_Bitfield :: "env \<Rightarrow> byte list \<Rightarrow> peer \<Rightarrow> peer_result" where
  "handle_Bitfield env b p = do {
     overlong \<leftarrow> (if pr_Info p = None then Some False
                  else map_option (\<lambda>n. int (bitmap_Len b) > n) (numPieces p));
     if overlong then fail ErrOverlongBitfield p
     else ok (snd (maybeInterested env
            (writeEvent env (TorPeerBitmap (bitmap_Copy (Some b)) True)
               ((withdraw env p)\<lparr>pr_bitmap := Some b\<rparr>))))
   }"

definition handle_Request :: "env \<Rightarrow> u32 \<Rightarrow> u32 \<Rightarrow> u32 \<Rightarrow> peer \<Rightarrow> peer_result" where
  "handle_Request env index begin len p =
     (if pr_Info p = None \<or> \<not> pr_amUnchoking p then Some (reject env index begin len p)
      else let p1 =
             (if length (pr_requested p) \<ge> reqQ then
                let r = hd (pr_requested p)
                in case reject env (ur_Index r) (ur_Begin r) (ur_Length r) p of
                     (None, p') \<Rightarrow> p'\<lparr>pr_requested := tl (pr_requested p')\<rparr>
                   | (Some e, p') \<Rightarrow> p'
              else p)
           in scheduleUpload env False
                (p1\<lparr>pr_requested := pr_requested p1 @ [\<lparr>ur_Index = index, ur_Begin = begin, ur_Length = len\<rparr>]\<rparr>))"

definition update_rtt :: "env \<Rightarrow> gotime \<Rightarrow> peer \<Rightarrow> peer" where
  "update_rtt env tm p =
     (let delay = en_now env - tm; diff = abs (delay - pr_rtt p)
      in p\<lparr>pr_rtt := (7 * pr_rtt p + delay) sdiv 8, pr_rttvar := (3 * pr_rttvar p + diff) sdiv 4\<rparr>)"

definition handle_Piece :: "env \<Rightarrow> u32 \<Rightarrow> u32 \<Rightarrow> byte list \<Rightarrow> peer \<Rightarrow> peer_result" where
  "handle_Piece env index begin data p =
     (if pr_Info p = None then fail ErrMetadataIncomplete p
      else do {
        r0 \<leftarrow> out_of_range p index;
        if r0 then fail ErrRange p
        else do {
          c \<leftarrow> toChunk p index begin;
          (rs, q, r, tm) \<leftarrow> rs_Del (pr_requests p) c;
          let p1 = p\<lparr>pr_requests := rs\<rparr>;
          p4 \<leftarrow>
            (if r \<or> q then do {
               (ps, n, complete, _) \<leftarrow> AddData (en_sys env) (pr_Pieces p1) index begin data (pr_Counter p1);
               let p2 = p1\<lparr>pr_Pieces := ps\<rparr>;
               p3 \<leftarrow>
                 (if n = of_nat (length data)
                  then Some (writeEvent env (TorData index begin (of_nat (length data)) complete) p2)
                  else map_option (active env) (drop_chunk env c p2));
               Some (if r then update_rtt env tm p3 else p3)
             } else Some p1);
          p5 \<leftarrow> maybeRequest env p4;
          ok p5
        }
      })"

definition handle_Cancel :: "env \<Rightarrow> u32 \<Rightarrow> u32 \<Rightarrow> u32 \<Rightarrow> peer \<Rightarrow> peer_result" where
  "handle_Cancel env index begin len p =
     (if pr_Info p = None then fail ErrMetadataIncomplete p
      else case index_of (\<lambda>r. ur_Index r = index \<and> ur_Begin r = begin \<and> ur_Length r = len) (pr_requested p) of
             None \<Rightarrow> ok (startStopUpload env p)
           | Some i \<Rightarrow>
               (case reject env index begin len (p\<lparr>pr_requested := delete_at i (pr_requested p)\<rparr>) of
                  (Some e, p1) \<Rightarrow> fail e p1
                | (None, p1) \<Rightarrow> ok (startStopUpload env p1)))"

definition handle_RejectRequest :: "env \<Rightarrow> u32 \<Rightarrow> u32 \<Rightarrow> peer \<Rightarrow> peer_result" where
  "handle_RejectRequest env index begin p =
     (if \<not> pr_canFast p then fail ErrCannotFast p
      else if pr_Info p = None then fail ErrMetadataIncomplete p
      else do {
        c \<leftarrow> toChunk p index begin;
        (rs, r) \<leftarrow> rs_DelRequested (pr_requests p) c;
        let p1 = p\<lparr>pr_requests := rs\<rparr>;
        p2 \<leftarrow> (if r then drop_chunk env c p1 else Some p1);
        p3 \<leftarrow> maybeRequest env p2;
        ok p3
      })"

definition handle_AllowedFast :: "u32 \<Rightarrow> peer \<Rightarrow> peer_result" where
  "handle_AllowedFast index p =
     (if \<not> pr_canFast p then fail ErrCannotFast p
      else if \<not> isFast p index then ok (p\<lparr>pr_fast := pr_fast p @ [index], pr_hasFast := True\<rparr>)
      else ok p)"

definition handle_HaveAll :: "env \<Rightarrow> peer \<Rightarrow> peer_result" where
  "handle_HaveAll env p =
     (if \<not> pr_canFast p then fail ErrCannotFast p
      else do {
        let p1 = (withdraw env p)\<lparr>pr_isSeed := True\<rparr>;
        p2 \<leftarrow> (if pr_Info p1 \<noteq> None then do {
                n \<leftarrow> numPieces p1;
                let b = bitmap_SetMultiple [] (nat n);
                Some (writeEvent env (TorPeerBitmap (Some b) True) (p1\<lparr>pr_bitmap := Some b\<rparr>))
              } else Some p1);
        ok (snd (maybeInterested env p2))
      })"

definition handle_HaveNone :: "env \<Rightarrow> peer \<Rightarrow> peer_result" where
  "handle_HaveNone env p =
     (if \<not> pr_canFast p then fail ErrCannotFast p
      else ok ((withdraw env p)\<lparr>pr_isSeed := False\<rparr>))"

text \<open>The handshake of the extension protocol; a missing name in the dictionary has number 0.\<close>

definition ext_number :: "(string \<times> byte) list \<Rightarrow> string \<Rightarrow> byte" where
  "ext_number ms name = (case map_of ms name of None \<Rightarrow> 0 | Some n \<Rightarrow> n)"

text \<open>The local function \<^verbatim>\<open>k\<close>.\<close>

definition add_known :: "env \<Rightarrow> string \<Rightarrow> addr \<Rightarrow> known_kind \<Rightarrow> peer \<Rightarrow> peer" where
  "add_known env version ip kind p =
     writeEvent env (TorAddKnown (ip, ucast (pr_Port p)) (Some (pr_Id p)) version kind) p"

definition handle_Extended0 :: "env \<Rightarrow> extended0 \<Rightarrow> peer \<Rightarrow> peer_result" where
  "handle_Extended0 env m p =
     (if pr_gotExtended p then fail ErrDuplicateExtended0 p
      else let
        p1 = p\<lparr>pr_gotExtended := True\<rparr>;
        k = add_known env (e0_Version m);
        p2 = (if e0_Port m \<noteq> 0 then
                let pa = (if pr_Port p1 \<noteq> 0 \<and> e0_Port m \<noteq> ucast (pr_Port p1) then p1
                          else p1\<lparr>pr_Port := ucast (e0_Port m)\<rparr>);
                    pb = k (pr_IP pa) KSeen (k (pr_IP pa) KActiveNoReset pa);
                    pc = (if e0_IPv4 m \<noteq> NoAddr then k (e0_IPv4 m) KHeard pb else pb)
                in if e0_IPv6 m \<noteq> NoAddr then k (e0_IPv6 m) KHeard pc else pc
              else p1);
        p3 = (if e0_ReqQ m > 0 then p2\<lparr>pr_reqQ := uint (e0_ReqQ m)\<rparr> else p2);
        p4 = (if e0_Messages m \<noteq> [] then
                p3\<lparr>pr_pexExt := ext_number (e0_Messages m) ''ut_pex'',
                   pr_metadataExt := ext_number (e0_Messages m) ''ut_metadata'',
                   pr_dontHaveExt := ext_number (e0_Messages m) ''lt_donthave'',
                   pr_uploadOnlyExt := ext_number (e0_Messages m) ''upload_only''\<rparr>
              else p3)
      in ok (writeEvent env (TorPeerExtended (e0_MetadataSize m))
               (p4\<lparr>pr_prefersEncryption := e0_Encrypt m, pr_uploadOnly := e0_UploadOnly m\<rparr>)))"

definition pex_added :: "env \<Rightarrow> peer \<Rightarrow> pex_peer \<Rightarrow> peer" where
  "pex_added env p x =
     (case pex_Find x (pr_pex p) of
        Some i \<Rightarrow> p\<lparr>pr_pex := (pr_pex p)[i := x]\<rparr>
      | None \<Rightarrow> writeEvent env (TorAddKnown (px_addr x) None [] KPEX) (p\<lparr>pr_pex := pr_pex p @ [x]\<rparr>))"

definition pex_dropped :: "peer \<Rightarrow> pex_peer \<Rightarrow> peer" where
  "pex_dropped p x =
     (case pex_Find x (pr_pex p) of
        Some i \<Rightarrow> p\<lparr>pr_pex := delete_at i (pr_pex p)\<rparr>
      | None \<Rightarrow> p)"

definition handle_ExtendedPex :: "env \<Rightarrow> pex_peer list \<Rightarrow> pex_peer list \<Rightarrow> peer \<Rightarrow> peer_result" where
  "handle_ExtendedPex env added dropped p = ok (foldl pex_dropped (foldl (pex_added env) p added) dropped)"

text \<open>Serving the metadata in blocks of 16 kB, and receiving it.\<close>

definition metadata_block :: "byte list \<Rightarrow> u32 \<Rightarrow> byte list" where
  "metadata_block info piece =
     (let offset = unat piece * (16 * 1024);
          l = (if offset + 16 * 1024 > length info then int (length info) - int offset else 16 * 1024)
      in if l > 0 then take (nat l) (drop offset info) else [])"

definition handle_ExtendedMetadata :: "env \<Rightarrow> byte \<Rightarrow> u32 \<Rightarrow> u32 \<Rightarrow> byte list \<Rightarrow> peer \<Rightarrow> peer_result" where
  "handle_ExtendedMetadata env tpe piece totalSize data p =
     (if tpe = 0 then
        if pr_metadataExt p = 0 \<or> isCongested env p then ok p
        else let info = (case pr_Info p of None \<Rightarrow> [] | Some i \<Rightarrow> i);
                 block = metadata_block info piece;
                 refusal = ExtendedMetadata (pr_metadataExt p) 2 piece 0 []
             in if block \<noteq> [] then
                  (case peer_write env
                          (ExtendedMetadata (pr_metadataExt p) 1 piece (of_nat (length info)) block) p of
                     (None, p1) \<Rightarrow> ok p1
                   | (Some ErrCongested, p1) \<Rightarrow> ok (snd (peer_write env refusal p1))
                   | (Some e, p1) \<Rightarrow> fail e p1)
                else ok (snd (peer_write env refusal p))
      else if tpe = 1 then ok (writeEvent env (TorMetaData totalSize piece data) p)
      else if tpe = 2 then ok p
      else fail ErrMetadataType p)"

definition handle_DontHave :: "env \<Rightarrow> u32 \<Rightarrow> peer \<Rightarrow> peer_result" where
  "handle_DontHave env index p =
     (if pr_isSeed p \<and> pr_Info p = None then fail ErrDontHaveSeed p
      else do {
        let p1 = p\<lparr>pr_isSeed := False\<rparr>;
        r \<leftarrow> out_of_range p1 index;
        if r then fail ErrRange p1
        else if hasPiece p1 (unat index)
        then ok (writeEvent env (TorPeerHave index False)
                   (p1\<lparr>pr_bitmap := map_option (\<lambda>b. bitmap_Reset b (unat index)) (pr_bitmap p1)\<rparr>))
        else ok p1
      })"

text \<open>\<^verbatim>\<open>handleMessage\<close>; the nil message, and a \<open>Flush\<close>, which is never received, panic.\<close>

fun handleMessage :: "env \<Rightarrow> message option \<Rightarrow> peer \<Rightarrow> peer_result" where
  "handleMessage env (Some (Error e)) p = fail (ErrReader e) p"
| "handleMessage env (Some KeepAlive) p = ok p"
| "handleMessage env (Some Choke) p = handle_Choke env p"
| "handleMessage env (Some Unchoke) p = ok (writeEvent env (TorPeerUnchoke True) (p\<lparr>pr_unchoked := True\<rparr>))"
| "handleMessage env (Some Interested) p = ok (writeEvent env (TorPeerInterested True) (p\<lparr>pr_interested := True\<rparr>))"
| "handleMessage env (Some NotInterested) p = handle_NotInterested env p"
| "handleMessage env (Some (Have index)) p = handle_Have env index p"
| "handleMessage env (Some (Bitfield b)) p = handle_Bitfield env b p"
| "handleMessage env (Some (Request i b l)) p = handle_Request env i b l p"
| "handleMessage env (Some (Piece i b d)) p = handle_Piece env i b d p"
| "handleMessage env (Some (Cancel i b l)) p = handle_Cancel env i b l p"
| "handleMessage env (Some (Port port)) p = ok p"
| "handleMessage env (Some (SuggestPiece i)) p = (if \<not> pr_canFast p then fail ErrCannotFast p else ok p)"
| "handleMessage env (Some (RejectRequest i b l)) p = handle_RejectRequest env i b p"
| "handleMessage env (Some (AllowedFast i)) p = handle_AllowedFast i p"
| "handleMessage env (Some HaveAll) p = handle_HaveAll env p"
| "handleMessage env (Some HaveNone) p = handle_HaveNone env p"
| "handleMessage env (Some (Extended0 m)) p = handle_Extended0 env m p"
| "handleMessage env (Some (ExtendedPex st a d)) p = handle_ExtendedPex env a d p"
| "handleMessage env (Some (ExtendedMetadata st tpe piece totalSize d)) p =
     handle_ExtendedMetadata env tpe piece totalSize d p"
| "handleMessage env (Some (ExtendedDontHave st i)) p = handle_DontHave env i p"
| "handleMessage env (Some (ExtendedUploadOnly st v)) p = ok (p\<lparr>pr_uploadOnly := v\<rparr>)"
| "handleMessage env (Some (ExtendedUnknown st)) p = fail ErrUnknownExtended p"
| "handleMessage env (Some (Unknown t)) p = fail ErrUnknown p"
| "handleMessage env (Some Flush) p = None"
| "handleMessage env None p = None"

subsection \<open>Run\<close>

text \<open>
  \<^verbatim>\<open>Run\<close> up to its loop. An error here leaves \<^verbatim>\<open>Run\<close> before the deferred function that
  says goodbye to the torrent is registered.
\<close>

fun write_haves :: "env \<Rightarrow> nat list \<Rightarrow> peer \<Rightarrow> peer_error option \<times> peer" where
  "write_haves env [] p = (None, p)"
| "write_haves env (i # rest) p =
     (case peer_write env (Have (of_nat i)) p of
        (None, p1) \<Rightarrow> write_haves env rest p1
      | (Some e, p1) \<Rightarrow> (Some e, p1))"

definition our_extended0 :: "env \<Rightarrow> peer \<Rightarrow> extended0" where
  "our_extended0 env p =
     \<lparr>e0_Version = (if pr_proxy p = [] then ''STorrent 0.0'' else []),
      e0_Port = (if pr_proxy p = [] then en_ExternalPort env True (addr_Is6 (pr_IP p)) else 0),
      e0_ReqQ = of_nat reqQ, e0_IPv4 = NoAddr,
      e0_IPv6 = (if pr_proxy p = [] then en_ipv6 env else NoAddr),
      e0_MetadataSize = of_nat (length (case pr_Info p of None \<Rightarrow> [] | Some i \<Rightarrow> i)),
      e0_Messages = [(''ut_pex'', ExtPex), (''ut_metadata'', ExtMetadata), (''lt_donthave'', ExtDontHave),
                     (''upload_only'', ExtUploadOnly)],
      e0_UploadOnly = False, e0_Encrypt = en_preferEncryption env\<rparr>"

text \<open>Announcing the pieces we have.\<close>

definition announce_bitmap :: "env \<Rightarrow> peer \<Rightarrow> peer_result" where
  "announce_bitmap env p =
     (if bitmap_Empty (pr_myBitmap p)
      then (if pr_canFast p then Some (peer_write env HaveNone p) else ok p)
      else if pr_canFast p \<and> amSeed p then Some (peer_write env HaveAll p)
      else do {
        n \<leftarrow> numPieces p;
        if int (bitmap_Count (pr_myBitmap p)) < n sdiv 72 then
          (case (if pr_canFast p then peer_write env HaveNone p else (None, p)) of
             (None, p1) \<Rightarrow> Some (write_haves env (bitmap_AllSet (pr_myBitmap p)) p1)
           | (Some e, p1) \<Rightarrow> fail e p1)
        else Some (peer_write env (Bitfield (bitmap_Extend (pr_myBitmap p) (nat n))) p)
      })"

definition Run_start :: "env \<Rightarrow> byte list option \<Rightarrow> bitmap \<Rightarrow> peer \<Rightarrow> peer_result" where
  "Run_start env info bm p =
     (let p1 = p\<lparr>pr_Info := info, pr_myBitmap := bm, pr_reqQ := 128, pr_time := en_now env, pr_writeTime := en_now env\<rparr>;
          p2 = (if pr_Port p1 > 0
                then writeEvent env (TorAddKnown (pr_IP p1, ucast (pr_Port p1)) (Some (pr_Id p1)) [] KActiveNoReset) p1
                else p1);
          p3 = (if pr_canDHT p2 \<and> pr_proxy p2 = []
                then snd (peer_write env (Port (en_ExternalPort env False (addr_Is6 (pr_IP p2)))) p2) else p2)
      in case (if pr_canExtended p3 then peer_write env (Extended0 (our_extended0 env p3)) p3 else (None, p3)) of
           (Some e, p4) \<Rightarrow> fail e p4
         | (None, p4) \<Rightarrow> announce_bitmap env p4)"

text \<open>The timer of two seconds; the first component is whether the loop ends.\<close>

definition Run_tick :: "env \<Rightarrow> peer \<Rightarrow> (bool \<times> peer) option" where
  "Run_tick env p = do {
     (expired, p1) \<leftarrow> expireRequests env p;
     p2 \<leftarrow> (if expired then maybeRequest env p1 else Some p1);
     let p3 = (if en_now env - pr_pexSentTime p2 \<ge> time_Minute
               then (sendPex env p2)\<lparr>pr_pexSentTime := en_now env\<rparr> else p2);
     let p4 = (if en_now env - pr_pexTorTime p3 \<ge> 20 * time_Minute
               then (foldl (\<lambda>p x. writeEvent env (TorAddKnown (px_addr x) None [] KPEX) p) p3 (pr_pex p3))
                      \<lparr>pr_pexTorTime := en_now env\<rparr>
               else p3);
     let p5 = (if en_now env - pr_writeTime p4 > 110 * time_Second
               then snd (peer_write env KeepAlive p4) else p4);
     Some (en_now env - pr_time p5 > 5 * time_Minute, p5)
   }"

text \<open>What the \<^verbatim>\<open>select\<close> of the loop chooses, and one iteration; \<open>True\<close> leaves the loop.\<close>

datatype run_input =
    In_stop
  | In_event peer_event
  | In_message "message option"
  | In_deliver
  | In_upload
  | In_tick

definition ends :: "peer_result \<Rightarrow> (bool \<times> peer) option" where
  "ends r = map_option (\<lambda>(e, p). (e \<noteq> None, p)) r"

fun Run_step :: "env \<Rightarrow> run_input \<Rightarrow> peer \<Rightarrow> (bool \<times> peer) option" where
  "Run_step env In_stop p = Some (True, p)"
| "Run_step env (In_event c) p = ends (handleEvent env c p)"
| "Run_step env (In_message m) p = ends (handleMessage env m (p\<lparr>pr_time := en_now env\<rparr>))"
| "Run_step env In_deliver p =
     (case pr_events p of
        [] \<Rightarrow> Some (False, p)
      | e # es \<Rightarrow> Some (False, p\<lparr>pr_events := es, pr_delivered := pr_delivered p @ [e]\<rparr>))"
| "Run_step env In_upload p = (if pr_uploadTicker p then ends (scheduleUpload env True p) else Some (False, p))"
| "Run_step env In_tick p = Run_tick env p"

text \<open>
  The deferred functions, last one first, when the loop is left. The torrent receives at
  most \<open>n\<close> more events before it is itself done; the other events are lost.
\<close>

definition Run_exit :: "env \<Rightarrow> nat \<Rightarrow> peer \<Rightarrow> peer option" where
  "Run_exit env n p =
     (let (rs, dropped) = rs_Clear (pr_requests p) True
      in do {
        p1 \<leftarrow> drop_chunks env dropped (p\<lparr>pr_requests := rs\<rparr>);
        let p2 = writeEvent env TorPeerGoaway (writeEvent env (TorPeerBitmap (bitmap_Copy (pr_bitmap p1)) False) p1);
        let p3 = p2\<lparr>pr_delivered := pr_delivered p2 @ take n (pr_events p2), pr_events := drop n (pr_events p2)\<rparr>;
        let p4 = stopUpload p3;
        if pr_amUnchoking p4 then
          (if en_others env + pr_numUnchoking p4 - 1 < 0 then None
           else Some (p4\<lparr>pr_numUnchoking := pr_numUnchoking p4 - 1\<rparr>))
        else Some p4
      })"

end
