(* ===== verification/Peer_Inv.thy ===== *)
theory Peer_Inv
  imports Peer_Handlers Requests_Props Piece_Runs
begin

section \<open>The invariant of a peer\<close>

text \<open>
  What a peer owes to its torrent: every chunk it has been asked for is either still
  outstanding or has been answered by an event, and the events about pieces add up to
  its current bitmap. The invariant is stated on the part of the state it depends on,
  \<open>core\<close>, so that the operations that do not touch this part need no proof.
\<close>

subsection \<open>Chunk numbers\<close>

text \<open>
  The number of a chunk determines its piece and offset and conversely, unless a chunk
  beyond the first \<open>2 ^ 18\<close> meets a piece size that is not a power of two.
\<close>

definition chunk_ok :: "u32 \<Rightarrow> u32 \<Rightarrow> bool" where
  "chunk_ok psize c \<longleftrightarrow> 2 ^ 32 mod unat psize = 0 \<or> unat c < 2 ^ 18"

definition to_chunk :: "u32 \<Rightarrow> u32 \<Rightarrow> u32 \<Rightarrow> u32 option" where
  "to_chunk psize index off =
     (let cpp = psize div ChunkSize
      in if cpp = 0 then None else if index > - 1 div cpp then Some 0 else Some (index * cpp + off div ChunkSize))"

lemma toChunk_to_chunk: "toChunk p i b = to_chunk (ps_pieceSize (pr_Pieces p)) i b"
  by (simp add: toChunk_def to_chunk_def)

lemma geometry_size:
  assumes "geometry ps"
  obtains k where "unat (ps_pieceSize ps) = 16384 * k" "0 < k" "unat (ps_pieceSize ps div ChunkSize) = k"
    "ps_pieceSize ps div ChunkSize \<noteq> 0"
proof -
  from assms have "unat (ps_pieceSize ps) mod 16384 = 0" "0 < unat (ps_pieceSize ps)"
    by (simp_all add: geometry_def unat_gt_0)
  then obtain k where k: "unat (ps_pieceSize ps) = 16384 * k" "0 < k" by auto
  then have "unat (ps_pieceSize ps div ChunkSize) = k" by (simp add: unat_div_u32)
  then show thesis using that [OF k] k(2) by (metis unat_0 less_irrefl)
qed

lemma fromChunk_Some: "geometry (pr_Pieces p) \<Longrightarrow> \<exists>i b. fromChunk p c = Some (i, b)"
  by (elim geometry_size) (simp add: fromChunk_def Let_def)

lemma toChunk_Some: "geometry (pr_Pieces p) \<Longrightarrow> \<exists>c. toChunk p i b = Some c"
  by (elim geometry_size) (simp add: toChunk_def Let_def)

lemma fromChunk_offset:
  assumes g: "geometry (pr_Pieces p)" and c: "chunk_ok (ps_pieceSize (pr_Pieces p)) c" and f: "fromChunk p c = Some (i, b)"
  shows "unat i * unat (ps_pieceSize (pr_Pieces p)) + unat b = unat c * 16384"
    and "unat b < unat (ps_pieceSize (pr_Pieces p))" and "toChunk p i b = Some c"
proof -
  define S where "S = ps_pieceSize (pr_Pieces p)"
  obtain k where k: "unat S = 16384 * k" "0 < k" "unat (S div ChunkSize) = k" "S div ChunkSize \<noteq> 0"
    using geometry_size [OF g] unfolding S_def by metis
  have i: "i = c div (S div ChunkSize)" and b: "b = (c * ChunkSize) mod S"
    using f k(4) by (auto simp: fromChunk_def Let_def S_def)
  have "(unat c * 16384) mod 2 ^ 32 mod unat S = (unat c * 16384) mod unat S"
  proof (cases "unat c < 2 ^ 18")
    case False
    then have "unat S dvd 2 ^ 32" using c by (auto simp: chunk_ok_def S_def)
    then show ?thesis by (rule mod_mod_cancel)
  qed simp
  then have ub: "unat b = 16384 * (unat c mod k)"
    by (simp add: b unat_mod_u32 unat_word_ariths k(1) mult.commute mult_mod_right)
  have ui: "unat i = unat c div k" by (simp add: i unat_div_u32 k(1))
  have "unat i * unat S + unat b = 16384 * (unat c div k * k + unat c mod k)"
    by (simp only: ui ub k(1) add_mult_distrib ac_simps)
  then show "unat i * unat (ps_pieceSize (pr_Pieces p)) + unat b = unat c * 16384" by (simp add: S_def)
  show "unat b < unat (ps_pieceSize (pr_Pieces p))"
    using ub k by (simp flip: S_def)
  have "unat (b div ChunkSize) = unat (c mod (S div ChunkSize))"
    by (simp add: unat_div_u32 unat_mod_u32 ub k(1))
  then have bd: "b div ChunkSize = c mod (S div ChunkSize)" by (simp flip: word_unat_eq_iff)
  have "unat (- 1 :: u32) = 4294967295" by code_simp
  moreover have "unat c \<le> 4294967295" using unat_u32_bound [of c] by linarith
  ultimately have "unat i \<le> unat (- 1 div (S div ChunkSize))"
    by (simp add: ui unat_div_u32 k(1) div_le_mono)
  then have "\<not> - 1 div (S div ChunkSize) < i" by (simp add: word_less_nat_alt)
  then show "toChunk p i b = Some c"
    using k(4) div_mult_mod_eq [of c "S div ChunkSize"]
    by (simp add: toChunk_def Let_def bd flip: S_def) (simp add: i)
qed

subsection \<open>What the events say\<close>

text \<open>The chunks that the events of a list answer for.\<close>

fun settles :: "u32 \<Rightarrow> tor_event \<Rightarrow> u32 multiset" where
  "settles psize (TorDrop i b l) = (case to_chunk psize i b of None \<Rightarrow> {#} | Some c \<Rightarrow> {#c#})"
| "settles psize (TorData i b l complete) = (case to_chunk psize i b of None \<Rightarrow> {#} | Some c \<Rightarrow> {#c#})"
| "settles psize e = {#}"

definition settled :: "u32 \<Rightarrow> tor_event list \<Rightarrow> u32 multiset" where
  "settled psize es = sum_list (map (settles psize) es)"

definition is_answer :: "tor_event \<Rightarrow> bool" where
  "is_answer e = (case e of TorDrop _ _ _ \<Rightarrow> True | TorData _ _ _ _ \<Rightarrow> True | _ \<Rightarrow> False)"

lemma settled_simps [simp]:
  "settled psize [] = {#}" "settled psize (e # es) = settles psize e + settled psize es"
  "settled psize (es @ fs) = settled psize es + settled psize fs"
  by (simp_all add: settled_def)

lemma settled_no_answer: "filter is_answer es = [] \<Longrightarrow> settled psize es = {#}"
proof (induction es rule: rev_induct)
  case (snoc e es)
  then show ?case by (cases e) (auto simp: is_answer_def split: if_splits)
qed simp

text \<open>The number of times that piece \<open>i\<close> is announced, less the times it is withdrawn.\<close>

fun announces :: "nat \<Rightarrow> tor_event \<Rightarrow> int" where
  "announces i (TorPeerBitmap b have) =
     (if bitmap_Get (case b of None \<Rightarrow> [] | Some c \<Rightarrow> c) i then (if have then 1 else - 1) else 0)"
| "announces i (TorPeerHave k have) = (if unat k = i then (if have then 1 else - 1) else 0)"
| "announces i e = 0"

definition announced :: "tor_event list \<Rightarrow> nat \<Rightarrow> int" where
  "announced es i = sum_list (map (announces i) es)"

lemma announced_simps [simp]:
  "announced [] i = 0" "announced (e # es) i = announces i e + announced es i"
  "announced (es @ fs) i = announced es i + announced fs i"
  by (simp_all add: announced_def)

subsection \<open>The core of the state\<close>

record core =
  c_requests :: requests
  c_Info :: "byte list option"
  c_Pieces :: pieces
  c_bitmap :: "bitmap option"
  c_log :: "tor_event list"
  c_amUnchoking :: bool
  c_num :: int

definition core :: "peer \<Rightarrow> core" where
  "core p = \<lparr>c_requests = pr_requests p, c_Info = pr_Info p, c_Pieces = pr_Pieces p, c_bitmap = pr_bitmap p,
     c_log = pr_delivered p @ pr_events p, c_amUnchoking = pr_amUnchoking p, c_num = pr_numUnchoking p\<rparr>"

definition log_event :: "tor_event \<Rightarrow> core \<Rightarrow> core" where
  "log_event e c = c\<lparr>c_log := c_log c @ [e]\<rparr>"

lemma core_writeEvent [simp]: "core (writeEvent env e p) = log_event e (core p)"
  by (simp add: core_def writeEvent_def tick_def log_event_def)

lemma core_peer_write: "core (snd (peer_write env m p)) = core p"
  by (simp add: core_def peer_write_def tick_def split: write_outcome.split)

lemma core_reject: "core (snd (reject env i b l p)) = core p"
  by (simp add: reject_def core_peer_write)

lemma core_stopUpload [simp]: "core (stopUpload p) = core p"
  by (simp add: core_def stopUpload_def)

lemma core_startStopUpload [simp]: "core (startStopUpload env p) = core p"
  by (simp add: core_def startStopUpload_def stopUpload_def Let_def)

lemma core_requested [simp]: "core (p\<lparr>pr_requested := x\<rparr>) = core p"
  by (simp add: core_def)

lemma core_reject_all: "core (snd (reject_all env rs p)) = core p"
proof (induction rs arbitrary: p)
  case (Cons r rs)
  show ?case using Cons core_reject [of env "ur_Index r" "ur_Begin r" "ur_Length r" p]
    by (auto split: prod.split option.split)
qed simp

lemma core_maybeInterested: "core (snd (maybeInterested env p)) = core p"
proof -
  have "core (snd (case peer_write env m p of (None, p1) \<Rightarrow> (None, p1\<lparr>pr_amInterested := x\<rparr>) | (Some e, p1) \<Rightarrow> (Some e, p1)))
      = core p" for m x
    using core_peer_write [of env m p] by (auto simp: core_def split: prod.split option.split)
  then show ?thesis by (simp add: maybeInterested_def Let_def)
qed

lemma core_sendPex [simp]: "core (sendPex env p) = core p"
proof -
  have "core (p\<lparr>pr_pexState := x\<rparr>) = core p" for x p by (simp add: core_def)
  moreover have "core p1 = core q" if "peer_write env m q = (e, p1)" for m e p1 q
    using core_peer_write [of env m q] that by simp
  ultimately show ?thesis
    by (auto simp: sendPex_def Let_def split: prod.split option.split)
qed

lemma core_isSeed [simp]: "core (snd (isSeed p)) = core p"
  by (simp add: isSeed_def Let_def core_def)

lemma core_update_rtt [simp]: "core (update_rtt env tm p) = core p"
  by (simp add: update_rtt_def Let_def core_def)

lemma core_reply [simp]: "core (reply r p) = core p"
  by (simp add: reply_def core_def)

text \<open>Operations that do no more than report an address.\<close>

definition irrelevant :: "tor_event \<Rightarrow> bool" where
  "irrelevant e \<longleftrightarrow> \<not> is_answer e \<and> (\<forall>i. announces i e = 0)"

lemma irrelevant_simps [simp]:
  "irrelevant (TorAddKnown a h v k)" "irrelevant (TorPeerExtended n)" "irrelevant TorPeerGoaway"
  "irrelevant (TorMetaData n i d)" "irrelevant (TorPeerInterested b)" "irrelevant (TorPeerUnchoke b)"
  by (simp_all add: irrelevant_def is_answer_def)

lemma core_active: "\<exists>es. list_all irrelevant es \<and> core (active env p) = fold log_event es (core p)"
proof -
  have "core (p\<lparr>pr_lastActive := x\<rparr>) = core p" for x p by (simp add: core_def)
  then show ?thesis
    by (auto simp: active_def intro: exI [of _ "[]"] exI [of _ "[TorAddKnown (pr_IP p, ucast (pr_Port p)) None [] KActive]"])
qed

subsection \<open>The invariant\<close>

text \<open>
  \<open>G\<close> is the multiset of the chunks the peer has been asked for, and \<open>D\<close> those that the
  current handler has taken in hand. Before the metadata is complete there are none.
\<close>

definition pieces_fit :: "(byte list \<Rightarrow> hash) \<Rightarrow> hash list \<Rightarrow> pieces \<Rightarrow> bool" where
  "pieces_fit sha1 hashes ps \<longleftrightarrow> pieces_inv sha1 hashes ps \<and> counts_inv ps"

definition outstanding :: "requests \<Rightarrow> u32 set" where
  "outstanding rs = queued rs \<union> sent rs"

definition cinv :: "(byte list \<Rightarrow> hash) \<Rightarrow> hash list \<Rightarrow> u32 multiset \<Rightarrow> u32 multiset \<Rightarrow> core \<Rightarrow> bool" where
  "cinv sha1 hashes G D c \<longleftrightarrow>
     rs_inv (c_requests c) \<and>
     (ps_length (c_Pieces c) = 0 \<or> pieces_fit sha1 hashes (c_Pieces c)) \<and>
     (c_Info c \<noteq> None \<longrightarrow> pieces_fit sha1 hashes (c_Pieces c)) \<and>
     (c_Info c = None \<longrightarrow> outstanding (c_requests c) = {} \<and> D = {#} \<and> filter is_answer (c_log c) = []) \<and>
     (\<forall>k \<in> outstanding (c_requests c) \<union> set_mset D. chunk_ok (ps_pieceSize (c_Pieces c)) k) \<and>
     G = mset_set (outstanding (c_requests c)) + settled (ps_pieceSize (c_Pieces c)) (c_log c) + D \<and>
     (\<forall>i. announced (c_log c) i = of_bool (bitmap_Get (case c_bitmap c of None \<Rightarrow> [] | Some b \<Rightarrow> b) i)) \<and>
     c_num c = of_bool (c_amUnchoking c)"

lemma finite_outstanding [simp]: "finite (outstanding rs)"
  by (simp add: outstanding_def queued_def sent_def)

lemma rq_outstanding: "rq.outstanding rs = outstanding rs"
  by (simp add: rq.outstanding_def outstanding_def)

lemma cinv_log_irrelevant:
  assumes "irrelevant e"
  shows "cinv sha1 hashes G D (log_event e c) = cinv sha1 hashes G D c"
proof -
  have "settles psize e = {#}" for psize using assms by (cases e) (auto simp: irrelevant_def is_answer_def)
  then show ?thesis using assms by (simp add: cinv_def log_event_def irrelevant_def)
qed

lemma cinv_fold_irrelevant: "list_all irrelevant es \<Longrightarrow> cinv sha1 hashes G D (fold log_event es c) = cinv sha1 hashes G D c"
  by (induction es arbitrary: c) (simp_all add: cinv_log_irrelevant)

lemma cinv_active: "cinv sha1 hashes G D (core (active env p)) = cinv sha1 hashes G D (core p)"
  using core_active [of env p] cinv_fold_irrelevant by metis

text \<open>Changing the requests: chunks move between the queue and the hands of the handler.\<close>

lemma cinv_requests:
  assumes "cinv sha1 hashes G D c" and "rs_inv rs" and "c_Info c \<noteq> None \<or> outstanding rs = {} \<and> D' = {#}"
    and "mset_set (outstanding rs) + D' = mset_set (outstanding (c_requests c)) + D"
  shows "cinv sha1 hashes G D' (c\<lparr>c_requests := rs\<rparr>)"
proof -
  have "set_mset (mset_set (outstanding rs) + D') = set_mset (mset_set (outstanding (c_requests c)) + D)"
    using assms(4) by simp
  then have "outstanding rs \<union> set_mset D' = outstanding (c_requests c) \<union> set_mset D" by simp
  moreover have "G = mset_set (outstanding rs) + settled (ps_pieceSize (c_Pieces c)) (c_log c) + D'"
    using assms(1,4) by (simp add: cinv_def union_commute union_lcomm)
  ultimately show ?thesis using assms(1-3) by (auto simp: cinv_def)
qed

lemma core_requests [simp]: "core (p\<lparr>pr_requests := rs\<rparr>) = (core p)\<lparr>c_requests := rs\<rparr>"
  by (simp add: core_def)

lemma core_sel [simp]:
  "c_requests (core p) = pr_requests p" "c_Info (core p) = pr_Info p" "c_Pieces (core p) = pr_Pieces p"
  "c_bitmap (core p) = pr_bitmap p" "c_amUnchoking (core p) = pr_amUnchoking p"
  "c_num (core p) = pr_numUnchoking p"
  by (simp_all add: core_def)

lemma cinv_same_requests:
  assumes "cinv sha1 hashes G D (core p)" "rs_inv rs" "outstanding rs = outstanding (pr_requests p)"
  shows "cinv sha1 hashes G D (core (p\<lparr>pr_requests := rs\<rparr>))"
proof -
  have "pr_Info p \<noteq> None \<or> outstanding rs = {} \<and> D = {#}" using assms by (auto simp: cinv_def)
  then show ?thesis using cinv_requests [OF assms(1,2), of D] assms(3) by simp
qed

lemma cinv_geometry:
  assumes "cinv sha1 hashes G D (core p)" and "pr_Info p \<noteq> None"
  shows "geometry (pr_Pieces p)" "pieces_fit sha1 hashes (pr_Pieces p)"
  using assms by (auto simp: cinv_def pieces_fit_def dest: pieces_invD)

lemma drop_chunk_inv:
  assumes "cinv sha1 hashes G (add_mset k D) (core p)"
  shows "\<exists>p'. drop_chunk env k p = Some p' \<and> cinv sha1 hashes G D (core p')"
proof -
  have i: "pr_Info p \<noteq> None" using assms by (auto simp: cinv_def)
  note g = cinv_geometry [OF assms i]
  obtain i b where f: "fromChunk p k = Some (i, b)" using fromChunk_Some [OF g(1)] by blast
  have k: "chunk_ok (ps_pieceSize (pr_Pieces p)) k" using assms by (simp add: cinv_def)
  have "to_chunk (ps_pieceSize (pr_Pieces p)) i b = Some k"
    using fromChunk_offset(3) [OF g(1) k f] by (simp add: toChunk_to_chunk)
  then have "cinv sha1 hashes G D (log_event (TorDrop i b ChunkSize) (core p))"
    using assms i by (auto simp: cinv_def log_event_def)
  then show ?thesis using f by (simp add: drop_chunk_def)
qed

lemma drop_chunk_frame:
  assumes "drop_chunk env k p = Some p'"
  shows "pr_Info p' = pr_Info p" "pr_Pieces p' = pr_Pieces p" "pr_bitmap p' = pr_bitmap p"
  using assms by (auto simp: drop_chunk_def writeEvent_def tick_def bind_eq_Some_conv)

lemma drop_chunks_inv:
  "cinv sha1 hashes G (mset ks + D) (core p) \<Longrightarrow>
   \<exists>p'. drop_chunks env ks p = Some p' \<and> cinv sha1 hashes G D (core p')"
proof (induction ks arbitrary: p)
  case (Cons k ks)
  then obtain p1 where "drop_chunk env k p = Some p1" "cinv sha1 hashes G (mset ks + D) (core p1)"
    using drop_chunk_inv [of sha1 hashes G k "mset ks + D" p env] by auto
  then show ?case using Cons.IH by simp
qed simp

lemma drop_chunks_frame:
  "drop_chunks env ks p = Some p' \<Longrightarrow> pr_Info p' = pr_Info p"
  "drop_chunks env ks p = Some p' \<Longrightarrow> pr_bitmap p' = pr_bitmap p"
  by (induction ks arbitrary: p) (auto simp: bind_eq_Some_conv dest: drop_chunk_frame)

lemma drop_chunks_requests: "drop_chunks env ks p = Some p' \<Longrightarrow> pr_requests p' = pr_requests p"
  by (induction ks arbitrary: p) (auto simp: bind_eq_Some_conv dest: drop_chunk_requests)

lemma docancel_core: "geometry (pr_Pieces p) \<Longrightarrow> \<exists>e p'. docancel env k p = Some (e, p') \<and> core p' = core p"
proof -
  assume "geometry (pr_Pieces p)"
  then obtain i b where "fromChunk p k = Some (i, b)" using fromChunk_Some by blast
  then show ?thesis
    using core_peer_write [of env "Cancel i b (chunkSize p k)" p]
    by (cases "peer_write env (Cancel i b (chunkSize p k)) p") (simp add: docancel_def)
qed

lemma docancels_core: "geometry (pr_Pieces p) \<Longrightarrow> \<exists>p'. docancels env ks p = Some p' \<and> core p' = core p"
proof (induction ks arbitrary: p)
  case (Cons k ks)
  obtain e p1 where d: "docancel env k p = Some (e, p1)" "core p1 = core p" using docancel_core [OF Cons.prems] by blast
  then have "geometry (pr_Pieces p1)" using Cons.prems core_sel(3) by metis
  then show ?case using Cons.IH [of p1] d by auto
qed simp

subsection \<open>Requests\<close>

lemma mset_set_remove: "finite A \<Longrightarrow> k \<in> A \<Longrightarrow> mset_set (A - {k}) + add_mset k D = mset_set A + D"
  by (simp add: mset_set.remove)

text \<open>Taking a chunk out of the requests.\<close>

lemma cinv_take:
  assumes "cinv sha1 hashes G D (core p)" "rs_inv rs" "k \<in> outstanding (pr_requests p)"
    and "outstanding rs = outstanding (pr_requests p) - {k}"
  shows "cinv sha1 hashes G (add_mset k D) (core (p\<lparr>pr_requests := rs\<rparr>))"
proof -
  have "pr_Info p \<noteq> None" using assms by (auto simp: cinv_def)
  then show ?thesis
    using cinv_requests [OF assms(1,2), of "add_mset k D"] assms(3,4) mset_set_remove [OF finite_outstanding assms(3)] by simp
qed

lemma cancel_inv:
  assumes inv: "cinv sha1 hashes G D (core p)" and i: "pr_Info p \<noteq> None"
  shows "\<exists>e p'. cancel env k p = Some (e, p') \<and> cinv sha1 hashes G D (core p') \<and> pr_Info p' = pr_Info p"
proof -
  obtain rs c ca where rc: "rs_Cancel (en_now env) (pr_requests p) k = (rs, c, ca)" by (metis prod_cases3)
  have ri: "rs_inv (pr_requests p)" using inv by (simp add: cinv_def)
  have rs: "rs_inv rs" "outstanding rs = outstanding (pr_requests p)" "c \<longleftrightarrow> k \<in> sent (pr_requests p)"
    using rs_Cancel_spec [OF ri, where now = "en_now env" and k = k] rc by (auto simp: outstanding_def)
  define p1 where "p1 = p\<lparr>pr_requests := rs\<rparr>"
  have inv1: "cinv sha1 hashes G D (core p1)" unfolding p1_def by (rule cinv_same_requests [OF inv rs(1,2)])
  have i1: "pr_Info p1 = pr_Info p" "pr_requests p1 = rs" by (simp_all add: p1_def)
  have g1: "geometry (pr_Pieces p1)" using cinv_geometry(1) [OF inv1] i i1 by simp
  show ?thesis
  proof (cases c)
    case True
    have "\<exists>e p'. docancel env k p1 = Some (e, p') \<and> cinv sha1 hashes G D (core p') \<and> pr_Info p' = pr_Info p"
      using docancel_core [OF g1] inv1 i1 core_sel(2) by metis
    then show ?thesis using inv1 i1 by (simp add: cancel_def rc True flip: p1_def)
  next
    case False
    obtain rs2 q r tm where d: "rs_Del rs k = Some (rs2, q, r, tm)" "rs_inv rs2" "q \<or> r \<longleftrightarrow> k \<in> outstanding rs"
      "outstanding rs2 = outstanding rs - {k}"
      using rq.delete_outstanding [OF rs(1), of k] by (auto simp: rq_outstanding)
    define p2 where "p2 = p1\<lparr>pr_requests := rs2\<rparr>"
    define D2 where "D2 = (if q \<or> r then add_mset k D else D)"
    have inv2: "cinv sha1 hashes G D2 (core p2)"
      using cinv_take [OF inv1 d(2), of k] cinv_same_requests [OF inv1 d(2)] d(3,4) i1
      unfolding p2_def D2_def by (cases "q \<or> r") auto
    have i2: "pr_Info p2 = pr_Info p" by (simp add: p2_def p1_def)
    have "geometry (pr_Pieces p2)" using g1 by (simp add: p2_def)
    then obtain e p3 where p3: "(if r then docancel env k p2 else Some (None, p2)) = Some (e, p3)" "core p3 = core p2"
      using docancel_core [of p2 env k] by (cases r) auto
    have "\<exists>p4. (if q \<or> r then drop_chunk env k p3 else Some p3) = Some p4 \<and> cinv sha1 hashes G D (core p4)"
      using drop_chunk_inv [of sha1 hashes G k D p3 env] inv2 p3(2) by (auto simp: D2_def)
    then obtain p4 where p4: "(if q \<or> r then drop_chunk env k p3 else Some p3) = Some p4" "cinv sha1 hashes G D (core p4)" by blast
    have "pr_Info p3 = pr_Info p2" using p3(2) core_sel(2) by metis
    moreover have "pr_Info p4 = pr_Info p3"
      using p4(1) drop_chunk_frame(1) by (auto split: if_splits)
    moreover have "core (p4\<lparr>pr_download := False\<rparr>) = core p4" by (simp add: core_def)
    moreover have "cancel env k p = Some (e, if rs_Requested (pr_requests p4) = 0 then p4\<lparr>pr_download := False\<rparr> else p4)"
      using False p3(1) p4(1) d(1) unfolding p2_def p1_def by (cases r; cases q) (simp_all add: cancel_def rc Let_def)
    ultimately show ?thesis using p4(2) i2 by (cases "rs_Requested (pr_requests p4) = 0") auto
  qed
qed

lemma cancel_chunks_inv:
  "\<lbrakk>cinv sha1 hashes G D (core p); pr_Info p \<noteq> None\<rbrakk> \<Longrightarrow>
   \<exists>p'. cancel_chunks env ks p = Some p' \<and> cinv sha1 hashes G D (core p')"
proof (induction ks arbitrary: p)
  case (Cons k ks)
  then obtain e p1 where "cancel env k p = Some (e, p1)" "cinv sha1 hashes G D (core p1)" "pr_Info p1 = pr_Info p"
    using cancel_inv by blast
  then show ?case using Cons.IH [of p1] Cons.prems(2) by simp
qed simp

lemma rs_queue_nonempty: "rs_queue rs \<noteq> [] \<longleftrightarrow> 0 < rs_Queue rs"
  by (simp add: rs_Queue_def)

lemma rs_Dequeue_outstanding:
  assumes "rs_inv rs" "rs_queue rs \<noteq> []"
  shows "\<exists>rs1 q k. rs_Dequeue rs = Some (rs1, q, k) \<and> rs_inv rs1 \<and> rq_index q = k \<and> k \<in> outstanding rs \<and>
    outstanding rs1 = outstanding rs - {k}"
proof -
  obtain rs1 q k where "rs_Dequeue rs = Some (rs1, q, k)" "rs_inv rs1" "rq_index q = k" "k \<in> queued rs"
    "queued rs1 = queued rs - {k}" "sent rs1 = sent rs"
    using rs_Dequeue_spec assms rs_queue_nonempty by metis
  moreover have "k \<notin> sent rs" using calculation(4) rs_inv_disjoint [OF assms(1)] by blast
  ultimately show ?thesis by (auto simp: outstanding_def)
qed

lemma maybeRequest_loop_inv:
  "cinv sha1 hashes G {#} (core p) \<Longrightarrow> \<exists>p'. maybeRequest_loop env p = Some p' \<and> cinv sha1 hashes G {#} (core p')"
proof (induction env p rule: maybeRequest_loop.induct)
  case (1 env p)
  let ?nr = "rs_Requested (pr_requests p)"
  show ?case
  proof (cases "isCongested env p \<or> rs_queue (pr_requests p) = [] \<or> ?nr \<ge> 2 \<and> (int ?nr \<ge> pr_reqQ p \<or> en_slow env ?nr)")
    case True
    then have "maybeRequest_loop env p = Some p" by (subst maybeRequest_loop.simps) (auto simp: Let_def)
    then show ?thesis using 1(3) by simp
  next
    case go: False
    have ri: "rs_inv (pr_requests p)" using 1(3) by (simp add: cinv_def)
    obtain rs1 q k where d: "rs_Dequeue (pr_requests p) = Some (rs1, q, k)" "rs_inv rs1" "rq_index q = k"
      "k \<in> outstanding (pr_requests p)" "outstanding rs1 = outstanding (pr_requests p) - {k}"
      using rs_Dequeue_outstanding [OF ri] go by blast
    define p1 where "p1 = p\<lparr>pr_requests := rs1\<rparr>"
    have inv1: "cinv sha1 hashes G {#k#} (core p1)"
      unfolding p1_def using cinv_take [OF 1(3) d(2,4,5)] by simp
    have i: "pr_Info p \<noteq> None" using 1(3) d(4) by (auto simp: cinv_def)
    obtain pi b where f: "fromChunk p k = Some (pi, b)"
      using fromChunk_Some [OF cinv_geometry(1) [OF 1(3) i]] by blast
    let ?skip = "(\<not> pr_unchoked p \<and> \<not> isFast p pi) \<or> \<not> hasPiece p (unat pi)"
    let ?w = "peer_write env (Request pi b (chunkSize p k)) p1"
    show ?thesis
    proof (cases ?skip)
      case True
      obtain p2 where p2: "drop_chunk env k p1 = Some p2" "cinv sha1 hashes G {#} (core p2)"
        using drop_chunk_inv [OF inv1] by blast
      have "maybeRequest_loop env p = maybeRequest_loop env p2"
        using go d(1) f True p2(1) by (subst maybeRequest_loop.simps) (auto simp: p1_def Let_def)
      moreover have "\<exists>p'. maybeRequest_loop env p2 = Some p' \<and> cinv sha1 hashes G {#} (core p')"
        using 1(1) [OF refl _ _ d(1) refl refl f refl True] go p2 by (auto simp: p1_def)
      ultimately show ?thesis by simp
    next
      case False
      obtain e p2 where w: "?w = (e, p2)" by fastforce
      then have c2: "core p2 = core p1" using core_peer_write by (metis snd_conv)
      show ?thesis
      proof (cases e)
        case (Some err)
        then have "maybeRequest_loop env p = drop_chunk env k p2"
          using go d(1) f False w by (subst maybeRequest_loop.simps) (auto simp: p1_def Let_def)
        then show ?thesis using drop_chunk_inv [of sha1 hashes G k "{#}" p2 env] inv1 c2 by simp
      next
        case None
        have "rq_index q \<notin> queued rs1 \<union> sent rs1" using d(3,5) by (auto simp: outstanding_def)
        then obtain rs2 where rs2: "rs_EnqueueRequest (en_now env) rs1 q = Some rs2" "rs_inv rs2"
          "outstanding rs2 = insert k (outstanding rs1)"
          using rs_EnqueueRequest_spec [OF d(2), of q "en_now env"] d(3) by (auto simp: outstanding_def)
        let ?p3 = "p2\<lparr>pr_requests := rs2\<rparr>"
        have "core ?p3 = (core p)\<lparr>c_requests := rs2\<rparr>" using c2 by (simp add: p1_def)
        moreover have "cinv sha1 hashes G {#} ((core p)\<lparr>c_requests := rs2\<rparr>)"
          using cinv_requests [OF 1(3) rs2(2), of "{#}"] i rs2(3) d(4,5) by (simp add: insert_absorb)
        ultimately have inv3: "cinv sha1 hashes G {#} (core ?p3)" by simp
        have "maybeRequest_loop env p = maybeRequest_loop env ?p3"
          using go d(1) f False w None rs2(1) by (subst maybeRequest_loop.simps) (auto simp: p1_def Let_def)
        moreover have "\<exists>p'. maybeRequest_loop env ?p3 = Some p' \<and> cinv sha1 hashes G {#} (core p')"
          using 1(2) [OF refl _ _ d(1) refl refl f refl False _ None rs2(1)] go w None inv3 by (auto simp: p1_def)
        ultimately show ?thesis by simp
      qed
    qed
  qed
qed

end
