(* ===== verification/Peer_Steps.thy ===== *)
theory Peer_Steps
  imports Peer_Inv
begin

section \<open>Every handler keeps the invariant\<close>

text \<open>
  For each function of \<^verbatim>\<open>peer.go\<close> that changes the core of the state: it does not panic, and
  what it returns, with or without an error, satisfies the invariant.
\<close>

definition keeps :: "(byte list \<Rightarrow> hash) \<Rightarrow> hash list \<Rightarrow> u32 multiset \<Rightarrow> (peer_error option \<times> peer) option \<Rightarrow> bool" where
  "keeps sha1 hashes G r \<longleftrightarrow> (\<exists>e p'. r = Some (e, p') \<and> cinv sha1 hashes G {#} (core p'))"

lemma keeps_Some [simp]: "keeps sha1 hashes G (Some (e, p)) \<longleftrightarrow> cinv sha1 hashes G {#} (core p)"
  by (simp add: keeps_def)

lemma keeps_ok: "\<exists>p'. r = Some p' \<and> cinv sha1 hashes G {#} (core p') \<Longrightarrow> keeps sha1 hashes G (do { p' \<leftarrow> r; ok p' })"
  by (auto simp: keeps_def)

lemma keeps_pair: "cinv sha1 hashes G {#} (core (snd r)) \<Longrightarrow> keeps sha1 hashes G (Some r)"
  by (cases r) simp

subsection \<open>Requests\<close>

lemma core_download [simp]: "core (p\<lparr>pr_download := x\<rparr>) = core p"
  by (simp add: core_def)

lemma maybeRequest_inv:
  assumes "cinv sha1 hashes G {#} (core p)"
  shows "\<exists>p'. maybeRequest env p = Some p' \<and> cinv sha1 hashes G {#} (core p')"
  using assms maybeRequest_loop_inv [OF assms, of env] by (auto simp: maybeRequest_def)

lemma mset_outstanding: "rs_inv rs \<Longrightarrow> mset_set (outstanding rs) = mset (rs_indices rs)"
  using mset_set_set [of "rs_indices rs"]
  by (simp add: rs_inv_def outstanding_def queued_def sent_def rs_indices_def)

lemma rs_Expire_outstanding:
  assumes "rs_inv rs"
  shows "\<exists>rs' ds cs. rs_Expire now rs t0 t1 = Some (rs', ds, cs, ds \<noteq> []) \<and> rs_inv rs' \<and>
    mset_set (outstanding rs') + mset ds = mset_set (outstanding rs)"
proof -
  obtain rs' ds cs where e: "rs_Expire_loop now t0 t1 rs 0 = Some (rs', ds, cs)" "rs_inv rs'"
    "rs_queue rs' = rs_queue rs" "expire_effect now t0 t1 {#} (mset (rs_requested rs)) rs' ds cs"
    using rs_Expire_loop_spec [OF assms, of now t0 t1 0] by auto
  let ?M = "mset (rs_requested rs)"
  have upd: "image_mset rq_index (image_mset (expire_update now t0) M) = image_mset rq_index M" for M
    by (simp add: multiset.map_comp comp_def expire_update_def Request_Cancel_def if_distrib cong: if_cong)
  have split: "image_mset rq_index ?M =
      image_mset rq_index (filter_mset (expired t1) ?M) + image_mset rq_index (filter_mset (\<lambda>r. \<not> expired t1 r) ?M)"
    by (metis image_mset_union multiset_partition)
  have "mset (map rq_index (rs_requested rs')) + mset ds = image_mset rq_index ?M"
    using e(4) upd split unfolding expire_effect_def by (simp add: mset_map union_commute)
  then have "mset (rs_indices rs') + mset ds = mset (rs_indices rs)"
    by (simp add: rs_indices_def e(3) union_assoc)
  then show ?thesis using e(1,2) assms by (auto simp: rs_Expire_def mset_outstanding)
qed

lemma expireRequests_inv:
  assumes inv: "cinv sha1 hashes G {#} (core p)"
  shows "\<exists>b p'. expireRequests env p = Some (b, p') \<and> cinv sha1 hashes G {#} (core p')"
proof (cases "rs_Requested (pr_requests p) = 0")
  case True
  then show ?thesis using inv by (auto simp: expireRequests_def)
next
  case False
  define t1 where "t1 = en_now env - (let to1 = (if rto p > 5 * time_Second then 5 * time_Second else rto p)
    in if pr_canFast p then to1 + 2 * time_Second else to1)"
  have ri: "rs_inv (pr_requests p)" using inv by (simp add: cinv_def)
  obtain rs ds cs where x: "rs_Expire (en_now env) (pr_requests p) (en_now env - 30 * time_Second) t1 = Some (rs, ds, cs, ds \<noteq> [])"
    "rs_inv rs" "mset_set (outstanding rs) + mset ds = mset_set (outstanding (pr_requests p))"
    using rs_Expire_outstanding [OF ri] by blast
  obtain r where "r \<in> set (rs_requested (pr_requests p))"
    using False by (cases "rs_requested (pr_requests p)") (auto simp: rs_Requested_def)
  then have "rq_index r \<in> outstanding (pr_requests p)" by (simp add: outstanding_def sent_def)
  then have i: "pr_Info p \<noteq> None" using inv by (auto simp: cinv_def)
  have "cinv sha1 hashes G (mset ds + {#}) (core (p\<lparr>pr_requests := rs\<rparr>))"
    using cinv_requests [OF inv x(2), of "mset ds"] x(3) i by simp
  then obtain p1 where p1: "drop_chunks env ds (p\<lparr>pr_requests := rs\<rparr>) = Some p1" "cinv sha1 hashes G {#} (core p1)"
    using drop_chunks_inv by blast
  have "pr_Info p1 = pr_Info p" using drop_chunks_frame(1) [OF p1(1)] by simp
  then have "geometry (pr_Pieces p1)" using cinv_geometry(1) [OF p1(2)] i by simp
  then obtain p2 where "docancels env cs p1 = Some p2" "core p2 = core p1" using docancels_core by blast
  then show ?thesis using False x(1) p1 by (simp add: expireRequests_def t1_def Let_def split del: if_split)
qed

lemma enqueue_chunks_inv:
  "\<lbrakk>cinv sha1 hashes G (mset cs) (core p); pr_Info p \<noteq> None\<rbrakk> \<Longrightarrow>
   \<exists>p'. enqueue_chunks env cs p = Some p' \<and> cinv sha1 hashes G {#} (core p')"
proof (induction cs arbitrary: p)
  case (Cons k cs)
  obtain i b where f: "fromChunk p k = Some (i, b)"
    using fromChunk_Some [OF cinv_geometry(1) [OF Cons.prems]] by blast
  have ri: "rs_inv (pr_requests p)" using Cons.prems(1) by (simp add: cinv_def)
  obtain rs new where e: "(if hasPiece p (unat i) then rs_Enqueue (en_now env) (pr_requests p) k else (pr_requests p, False)) = (rs, new)"
    by fastforce
  have rs: "rs_inv rs" "outstanding rs = (if new then insert k (outstanding (pr_requests p)) else outstanding (pr_requests p))"
    "new \<Longrightarrow> k \<notin> outstanding (pr_requests p)"
    using e ri rs_Enqueue_spec [OF ri, where now = "en_now env" and k = k] by (auto simp: outstanding_def split: if_splits)
  let ?p1 = "p\<lparr>pr_requests := rs\<rparr>"
  have "\<exists>p2. (if new then Some ?p1 else drop_chunk env k ?p1) = Some p2 \<and> cinv sha1 hashes G (mset cs) (core p2) \<and> pr_Info p2 \<noteq> None"
  proof (cases new)
    case True
    then have "mset_set (outstanding rs) + mset cs = mset_set (outstanding (pr_requests p)) + mset (k # cs)"
      using rs(2,3) by simp
    then show ?thesis using cinv_requests [OF Cons.prems(1) rs(1), of "mset cs"] Cons.prems(2) True by simp
  next
    case False
    then have "cinv sha1 hashes G (add_mset k (mset cs)) (core ?p1)"
      using cinv_same_requests [OF Cons.prems(1) rs(1)] rs(2) by simp
    then show ?thesis using drop_chunk_inv [of sha1 hashes G k "mset cs" ?p1 env] False drop_chunk_frame(1) Cons.prems(2) by fastforce
  qed
  then obtain p2 where p2: "(if new then Some ?p1 else drop_chunk env k ?p1) = Some p2" "cinv sha1 hashes G (mset cs) (core p2)"
    "pr_Info p2 \<noteq> None" by blast
  have "enqueue_chunks env (k # cs) p = enqueue_chunks env cs p2"
    using p2(1) by (simp add: f e Let_def split: if_splits)
  then show ?case using Cons.IH [OF p2(2,3)] by simp
qed simp

lemma handle_PeerRequest_inv:
  assumes "cinv sha1 hashes G {#} (core p)" and "list_all (chunk_ok (ps_pieceSize (pr_Pieces p))) cs"
  shows "keeps sha1 hashes (if pr_Info p = None then G else G + mset cs) (handle_PeerRequest env cs p)"
proof (cases "pr_Info p = None")
  case False
  then have "cinv sha1 hashes (G + mset cs) (mset cs) (core p)"
    using assms by (auto simp: cinv_def list_all_iff)
  then obtain p1 where "enqueue_chunks env cs p = Some p1" "cinv sha1 hashes (G + mset cs) {#} (core p1)"
    using enqueue_chunks_inv False by blast
  then show ?thesis using maybeRequest_inv [of sha1 hashes "G + mset cs" p1 env] False by (auto simp: handle_PeerRequest_def keeps_def)
qed (use assms in \<open>simp add: handle_PeerRequest_def\<close>)

subsection \<open>Choking and uploading\<close>

lemma peer_write_core: "peer_write env m p = (e, p') \<Longrightarrow> core p' = core p"
  using core_peer_write [of env m p] by simp

lemma reject_core: "reject env i b l p = (e, p') \<Longrightarrow> core p' = core p"
  using core_reject [of env i b l p] by simp

lemma reject_all_core: "reject_all env rs p = (e, p') \<Longrightarrow> core p' = core p"
  using core_reject_all [of env rs p] by simp

lemma core_choking:
  "core (p\<lparr>pr_amUnchoking := b, pr_numUnchoking := n, pr_unchokeTime := tm\<rparr>) = (core p)\<lparr>c_amUnchoking := b, c_num := n\<rparr>"
  "core (p\<lparr>pr_amUnchoking := b, pr_numUnchoking := n\<rparr>) = (core p)\<lparr>c_amUnchoking := b, c_num := n\<rparr>"
  by (simp_all add: core_def)

lemma cinv_choking:
  assumes "cinv sha1 hashes G D (core p)" "core p' = (core p)\<lparr>c_amUnchoking := b, c_num := of_bool b\<rparr>"
  shows "cinv sha1 hashes G D (core p')"
  using assms by (simp add: cinv_def)

lemma unchoke_inv:
  assumes inv: "cinv sha1 hashes G D (core p)"
  shows "cinv sha1 hashes G D (core (snd (unchoke env u p)))"
proof -
  have num: "pr_numUnchoking p = of_bool (pr_amUnchoking p)" using inv by (simp add: cinv_def)
  have up: "cinv sha1 hashes G D (core (snd (case peer_write env Unchoke p of
      (None, p1) \<Rightarrow> (None, p1\<lparr>pr_amUnchoking := True, pr_numUnchoking := pr_numUnchoking p1 + 1, pr_unchokeTime := en_now env\<rparr>)
    | (Some e, p1) \<Rightarrow> (None, p1))))" if a: "\<not> pr_amUnchoking p"
  proof -
    obtain e p1 where w: "peer_write env Unchoke p = (e, p1)" by fastforce
    note c = peer_write_core [OF w]
    then have "pr_numUnchoking p1 = 0" using a num core_sel(6) by (metis of_bool_eq(1))
    then have "core (p1\<lparr>pr_amUnchoking := True, pr_numUnchoking := pr_numUnchoking p1 + 1, pr_unchokeTime := en_now env\<rparr>)
        = (core p)\<lparr>c_amUnchoking := True, c_num := of_bool True\<rparr>" by (simp add: core_choking c)
    from cinv_choking [OF inv this] show ?thesis using w c inv by (cases e) simp_all
  qed
  have down: "cinv sha1 hashes G D (core (snd (case peer_write env Choke p of
      (None, p1) \<Rightarrow>
        (case reject_all env (pr_requested p1) (p1\<lparr>pr_amUnchoking := False, pr_numUnchoking := pr_numUnchoking p1 - 1\<rparr>) of
           (None, p2) \<Rightarrow> (None, p2\<lparr>pr_requested := [], pr_unchokeTime := en_now env\<rparr>)
         | (Some e, p2) \<Rightarrow> (Some e, p2))
    | (Some e, p1) \<Rightarrow> (Some e, p1))))" if a: "pr_amUnchoking p"
  proof -
    obtain e p1 where w: "peer_write env Choke p = (e, p1)" by fastforce
    note c = peer_write_core [OF w]
    let ?p1 = "p1\<lparr>pr_amUnchoking := False, pr_numUnchoking := pr_numUnchoking p1 - 1\<rparr>"
    have "pr_numUnchoking p1 = 1" using c a num core_sel(6) by (metis of_bool_eq(2))
    then have c1: "core ?p1 = (core p)\<lparr>c_amUnchoking := False, c_num := of_bool False\<rparr>" by (simp add: core_choking c)
    obtain e2 p2 where r: "reject_all env (pr_requested p1) ?p1 = (e2, p2)" by fastforce
    have c2: "core p2 = (core p)\<lparr>c_amUnchoking := False, c_num := of_bool False\<rparr>" using reject_all_core [OF r] c1 by simp
    have "core (p2\<lparr>pr_requested := [], pr_unchokeTime := en_now env\<rparr>) = core p2" by (simp add: core_def)
    then show ?thesis using w c inv r cinv_choking [OF inv c2] by (cases e; cases e2) (simp_all add: cinv_def)
  qed
  show ?thesis using inv up down by (auto simp: unchoke_def Let_def)
qed

lemma ReadAt_Some:
  assumes "ps_length ps = 0 \<or> pieces_fit sha1 hashes ps" and "0 \<le> off"
  shows "\<exists>data eof. ReadAt ps n off = Some (data, eof)"
proof (cases "off < ps_length ps")
  case True
  then have "pieces_inv sha1 hashes ps" using assms by (auto simp: pieces_fit_def)
  then show ?thesis using ReadAt_value(1) [OF _ assms(2) True] by blast
qed (auto simp: ReadAt_def)

lemma scheduleUpload_inv:
  assumes inv: "cinv sha1 hashes G {#} (core p)"
  shows "keeps sha1 hashes G (scheduleUpload env immediate p)"
proof (cases "immediate \<and> pr_amUnchoking p \<and> pr_requested p \<noteq> [] \<and> \<not> isCongested env p \<and> en_allow env")
  case False
  then have "scheduleUpload env immediate p = Some (None, startStopUpload env p)"
    unfolding scheduleUpload_def by auto
  then show ?thesis using inv by simp
next
  case True
  define r where "r = hd (pr_requested p)"
  define p1 where "p1 = p\<lparr>pr_requested := tl (pr_requested p)\<rparr>"
  define off where "off = uint (ur_Index r) * uint (ps_pieceSize (pr_Pieces p)) + uint (ur_Begin r)"
  have c1: "core p1 = core p" by (simp add: p1_def)
  have "0 \<le> off" by (simp add: off_def)
  then obtain data eof where d: "ReadAt (pr_Pieces p) (unat (ur_Length r)) off = Some (data, eof)"
    using ReadAt_Some [of "pr_Pieces p" sha1 hashes off "unat (ur_Length r)"] inv by (auto simp: cinv_def)
  obtain e2 p2 where rej: "reject env (ur_Index r) (ur_Begin r) (ur_Length r) p1 = (e2, p2)" by fastforce
  obtain e3 p3 where wr: "peer_write env (Piece (ur_Index r) (ur_Begin r) data) p1 = (e3, p3)" by fastforce
  have c2: "core p2 = core p" "core p3 = core p" using reject_core [OF rej] peer_write_core [OF wr] c1 by simp_all
  have "scheduleUpload env immediate p =
    (if length data \<noteq> unat (ur_Length r)
     then (case e2 of None \<Rightarrow> Some (None, startStopUpload env p2) | Some e \<Rightarrow> Some (Some e, p2))
     else (case e3 of None \<Rightarrow> Some (None, startStopUpload env (active env p3))
           | Some ErrCongested \<Rightarrow> Some (None, startStopUpload env (p3\<lparr>pr_requested := r # pr_requested p3\<rparr>))
           | Some e \<Rightarrow> Some (Some e, p3)))"
    unfolding scheduleUpload_def using True d rej wr
    by (simp add: Let_def flip: r_def p1_def off_def)
  then show ?thesis
    using inv c2 by (auto simp: cinv_active split: option.split peer_error.split)
qed

subsection \<open>Events from the torrent\<close>

lemma cinv_maybeInterested:
  "cinv sha1 hashes G D (core (snd (maybeInterested env p))) = cinv sha1 hashes G D (core p)"
  by (simp add: core_maybeInterested)

lemma numPieces_value:
  assumes "geometry (pr_Pieces p)"
  shows "numPieces p = Some (int (length (ps_pieces (pr_Pieces p))))"
proof -
  let ?S = "unat (ps_pieceSize (pr_Pieces p))" and ?L = "nat (ps_length (pr_Pieces p))"
  have S: "0 < ?S" and L: "0 \<le> ps_length (pr_Pieces p)"
    and n: "length (ps_pieces (pr_Pieces p)) = (?L + ?S - 1) div ?S"
    using assms by (simp_all add: geometry_def unat_gt_0)
  have u: "uint (ps_pieceSize (pr_Pieces p)) = int ?S" by simp
  then have "uint (ps_pieceSize (pr_Pieces p)) \<noteq> 0" using S by linarith
  moreover have "(ps_length (pr_Pieces p) + uint (ps_pieceSize (pr_Pieces p)) - 1) sdiv uint (ps_pieceSize (pr_Pieces p))
      = int ((?L + ?S - 1) div ?S)"
  proof -
    have "ps_length (pr_Pieces p) + uint (ps_pieceSize (pr_Pieces p)) - 1 = int (?L + ?S - 1)"
      using L S u by (simp add: of_nat_diff)
    then show ?thesis using sdiv_word(1) [of "int (?L + ?S - 1)" "ps_pieceSize (pr_Pieces p)"] S
      by (simp only: nat_int of_nat_0_le_iff)
  qed
  ultimately show ?thesis using n by (simp add: numPieces_def Let_def)
qed

text \<open>Replacing the bitmap together with an event that says so.\<close>

lemma cinv_bitmap:
  assumes "cinv sha1 hashes G D (core p)" and "\<not> is_answer e" and "settles (ps_pieceSize (pr_Pieces p)) e = {#}"
    and "\<And>i. announces i e = of_bool (bitmap_Get (case bm of None \<Rightarrow> [] | Some b \<Rightarrow> b) i)
            - of_bool (bitmap_Get (case pr_bitmap p of None \<Rightarrow> [] | Some b \<Rightarrow> b) i)"
    and "core p' = log_event e ((core p)\<lparr>c_bitmap := bm\<rparr>)"
  shows "cinv sha1 hashes G D (core p')"
  using assms(1-3) unfolding assms(5) by (simp add: cinv_def log_event_def assms(4))

lemma core_bitmap [simp]: "core (p\<lparr>pr_bitmap := x\<rparr>) = (core p)\<lparr>c_bitmap := x\<rparr>"
  by (simp add: core_def)

lemma core_isSeed_field [simp]: "core (p\<lparr>pr_isSeed := x\<rparr>) = core p"
  by (simp add: core_def)

lemma core_withdraw: "core (withdraw env p) = (if pr_bitmap p = None then core p
    else log_event (TorPeerBitmap (pr_bitmap p) False) ((core p)\<lparr>c_bitmap := None\<rparr>))"
  by (auto simp: withdraw_def log_event_def)

lemma withdraw_frame [simp]: "pr_bitmap (withdraw env p) = None" "pr_Info (withdraw env p) = pr_Info p"
  "pr_Pieces (withdraw env p) = pr_Pieces p" "pr_canFast (withdraw env p) = pr_canFast p"
  by (simp_all add: withdraw_def writeEvent_def tick_def)

lemma withdraw_inv:
  assumes "cinv sha1 hashes G D (core p)"
  shows "cinv sha1 hashes G D (core (withdraw env p))"
proof (cases "pr_bitmap p")
  case (Some b)
  show ?thesis
    by (rule cinv_bitmap [OF assms, of "TorPeerBitmap (pr_bitmap p) False" None])
      (simp_all add: core_withdraw Some is_answer_def bitset_simps)
qed (use assms in \<open>simp add: core_withdraw\<close>)

lemma announce_inv:
  assumes "cinv sha1 hashes G D (core p)" and "pr_bitmap p = None"
  shows "cinv sha1 hashes G D (core (writeEvent env (TorPeerBitmap (Some b) True) (p\<lparr>pr_bitmap := Some b\<rparr>)))"
  by (rule cinv_bitmap [OF assms(1), of "TorPeerBitmap (Some b) True" "Some b"])
    (simp_all add: assms(2) is_answer_def bitset_simps)

lemma handle_MetadataComplete_inv:
  assumes inv: "cinv sha1 hashes G {#} (core p)" and fit: "pieces_fit sha1 hashes (pr_Pieces p)"
  shows "keeps sha1 hashes G (handle_MetadataComplete env info p)"
proof (cases "pr_Info p")
  case None
  let ?p1 = "p\<lparr>pr_Info := Some info\<rparr>"
  have c1: "core ?p1 = (core p)\<lparr>c_Info := Some info\<rparr>" by (simp add: core_def)
  have inv1: "cinv sha1 hashes G {#} (core ?p1)" using inv fit None by (simp add: cinv_def c1)
  have n: "numPieces ?p1 = Some (int (length (ps_pieces (pr_Pieces p))))"
    using numPieces_value [of ?p1] fit pieces_invD(1) by (auto simp: pieces_fit_def)
  have "cinv sha1 hashes G {#} (core (writeEvent env (TorPeerBitmap (Some b) True) (?p1\<lparr>pr_bitmap := Some b\<rparr>)))"
    if "pr_bitmap p = None" for b using announce_inv [OF inv1] that by simp
  then show ?thesis
    using None n inv1 by (auto simp: handle_MetadataComplete_def Let_def cinv_maybeInterested simp del: core_writeEvent core_bitmap)
qed (use inv in \<open>simp add: handle_MetadataComplete_def\<close>)

lemma handle_PeerHave_inv:
  assumes "cinv sha1 hashes G {#} (core p)"
  shows "keeps sha1 hashes G (handle_PeerHave env index have p)"
proof -
  define r where "r = (if have then peer_write env (Have index) (p\<lparr>pr_myBitmap := bitmap_Set (pr_myBitmap p) (unat index)\<rparr>)
         else let p' = p\<lparr>pr_myBitmap := bitmap_Reset (pr_myBitmap p) (unat index)\<rparr>
              in if pr_dontHaveExt p > 0
                 then peer_write env (ExtendedDontHave (pr_dontHaveExt p) index) p'
                 else (None, p'))"
  have my: "core (p\<lparr>pr_myBitmap := x\<rparr>) = core p" for x by (simp add: core_def)
  have "core (snd r) = core p" by (simp add: r_def Let_def core_peer_write my)
  then show ?thesis
    using assms unfolding handle_PeerHave_def r_def [symmetric]
    by (cases r) (auto simp: core_maybeInterested split: option.split)
qed

lemma handle_PeerUnchoke_inv:
  assumes "cinv sha1 hashes G {#} (core p)"
  shows "keeps sha1 hashes G (handle_PeerUnchoke env u p)"
  using unchoke_inv [OF assms, of env u]
  by (cases "unchoke env u p") (auto simp: handle_PeerUnchoke_def scheduleUpload_inv split: option.split)

lemma handle_cancels_inv:
  assumes "cinv sha1 hashes G {#} (core p)"
  shows "keeps sha1 hashes G (handle_PeerCancel env c p)" "keeps sha1 hashes G (handle_PeerCancelPiece env i p)"
proof -
  have "keeps sha1 hashes G (if pr_Info p = None then fail ErrMetadataIncomplete p
      else do { p1 \<leftarrow> cancel_chunks env ks p; ok p1 })" for ks
    using assms cancel_chunks_inv [OF assms, of env ks] keeps_ok by simp
  then show "keeps sha1 hashes G (handle_PeerCancel env c p)" "keeps sha1 hashes G (handle_PeerCancelPiece env i p)"
    by (simp_all only: handle_PeerCancel_def handle_PeerCancelPiece_def Let_def)
qed

lemma handle_queries_inv:
  assumes "cinv sha1 hashes G {#} (core p)"
  shows "keeps sha1 hashes G (handle_PeerGetStatus p)" "keeps sha1 hashes G (handle_PeerGetStats p)"
    "keeps sha1 hashes G (handle_PeerGetPex p)" "keeps sha1 hashes G (handle_PeerPex ps add p)"
    "keeps sha1 hashes G (handle_PeerGetMetadata env index p)"
proof -
  have px: "core (p\<lparr>pr_pexState := x\<rparr>) = core p" for x by (simp add: core_def)
  have s: "core q = core p" if "isSeed p = (b, q)" for b q using core_isSeed [of p] that by simp
  show "keeps sha1 hashes G (handle_PeerGetStatus p)" "keeps sha1 hashes G (handle_PeerGetStats p)"
    "keeps sha1 hashes G (handle_PeerGetPex p)"
    using assms s by (auto simp: handle_PeerGetStatus_def handle_PeerGetStats_def handle_PeerGetPex_def Let_def split: prod.split)
  show "keeps sha1 hashes G (handle_PeerPex ps add p)" "keeps sha1 hashes G (handle_PeerGetMetadata env index p)"
    using assms by (simp_all add: handle_PeerPex_def handle_PeerGetMetadata_def px core_peer_write)
qed

lemma handleEvent_inv:
  assumes "cinv sha1 hashes G {#} (core p)" and "\<And>cs. c \<noteq> PeerRequest cs"
    and "\<And>info. c = PeerMetadataComplete info \<Longrightarrow> pieces_fit sha1 hashes (pr_Pieces p)"
  shows "keeps sha1 hashes G (handleEvent env c p)"
proof -
  have si: "core (p\<lparr>pr_shouldInterested := x\<rparr>) = core p" for x by (simp add: core_def)
  show ?thesis
    using assms by (cases c) (auto simp: handle_MetadataComplete_inv handle_PeerHave_inv handle_cancels_inv
        handle_queries_inv handle_PeerUnchoke_inv cinv_maybeInterested si)
qed

subsection \<open>Messages from the peer\<close>

lemma handle_Choke_inv:
  assumes inv: "cinv sha1 hashes G {#} (core p)"
  shows "keeps sha1 hashes G (handle_Choke env p)"
proof -
  obtain rs ds where c: "rs_Clear (pr_requests p) (\<not> pr_canFast p) = (rs, ds)" by fastforce
  have ri: "rs_inv (pr_requests p)" using inv by (simp add: cinv_def)
  note cl = rq.clear_outstanding [OF ri c, unfolded rq_outstanding]
  have i: "pr_Info p \<noteq> None \<or> outstanding rs = {} \<and> mset ds = {#}"
    using inv cl(4) by (auto simp: cinv_def)
  have "mset_set (outstanding rs) + mset ds = mset_set (outstanding (pr_requests p)) + {#}"
    using cl(2,3,4) mset_set_set [OF cl(2)] mset_set_Union [of "set ds" "outstanding rs"] by (simp add: union_commute)
  then have "cinv sha1 hashes G (mset ds + {#}) (core (p\<lparr>pr_requests := rs\<rparr>))"
    using cinv_requests [OF inv cl(1), of "mset ds"] i by simp
  moreover have "core (p\<lparr>pr_unchoked := False, pr_requests := rs\<rparr>) = core (p\<lparr>pr_requests := rs\<rparr>)" by (simp add: core_def)
  ultimately obtain p1 where "drop_chunks env ds (p\<lparr>pr_unchoked := False, pr_requests := rs\<rparr>) = Some p1" "cinv sha1 hashes G {#} (core p1)"
    using drop_chunks_inv by metis
  then show ?thesis using c by (simp add: handle_Choke_def cinv_log_irrelevant)
qed

lemma handle_NotInterested_inv:
  assumes "cinv sha1 hashes G {#} (core p)"
  shows "keeps sha1 hashes G (handle_NotInterested env p)"
proof -
  have "core (p\<lparr>pr_interested := False\<rparr>) = core p" by (simp add: core_def)
  then show ?thesis using unchoke_inv [of sha1 hashes G "{#}" "p\<lparr>pr_interested := False\<rparr>" env False] assms
    by (simp add: handle_NotInterested_def cinv_log_irrelevant)
qed

lemma out_of_range_value:
  assumes "cinv sha1 hashes G D (core p)"
  shows "out_of_range p index = Some (pr_Info p \<noteq> None \<and> index \<ge> of_nat (length (ps_pieces (pr_Pieces p))))"
  using cinv_geometry(1) [OF assms] numPieces_value [of p] by (auto simp: out_of_range_def)

lemma handle_Have_inv:
  assumes inv: "cinv sha1 hashes G {#} (core p)"
  shows "keeps sha1 hashes G (handle_Have env index p)"
proof -
  let ?b = "case pr_bitmap p of None \<Rightarrow> [] | Some b \<Rightarrow> b"
  have get: "hasPiece p i = bitmap_Get ?b i" for i by (simp add: hasPiece_def bitset_simps split: option.split)
  have "cinv sha1 hashes G {#} (core (writeEvent env (TorPeerHave index True) (p\<lparr>pr_bitmap := Some (bitmap_Set ?b (unat index))\<rparr>)))"
    if "\<not> hasPiece p (unat index)"
    using that by (intro cinv_bitmap [OF inv, of "TorPeerHave index True" "Some (bitmap_Set ?b (unat index))"])
      (auto simp: is_answer_def bitset_simps get)
  then show ?thesis
    using inv by (auto simp: handle_Have_def out_of_range_value [OF inv] cinv_maybeInterested simp del: core_writeEvent core_bitmap)
qed

lemma handle_DontHave_inv:
  assumes inv: "cinv sha1 hashes G {#} (core p)"
  shows "keeps sha1 hashes G (handle_DontHave env index p)"
proof -
  let ?p1 = "p\<lparr>pr_isSeed := False\<rparr>"
  have inv1: "cinv sha1 hashes G {#} (core ?p1)" using inv by simp
  have "cinv sha1 hashes G {#} (core (writeEvent env (TorPeerHave index False)
      (?p1\<lparr>pr_bitmap := map_option (\<lambda>b. bitmap_Reset b (unat index)) (pr_bitmap ?p1)\<rparr>)))" if "hasPiece ?p1 (unat index)"
    using that by (intro cinv_bitmap [OF inv1, of "TorPeerHave index False" "map_option (\<lambda>b. bitmap_Reset b (unat index)) (pr_bitmap ?p1)"])
      (auto simp: is_answer_def bitset_simps hasPiece_def split: option.splits)
  then show ?thesis
    using inv by (auto simp: handle_DontHave_def Let_def out_of_range_value [OF inv1] simp del: core_writeEvent core_bitmap)
qed

lemma handle_Bitfield_inv:
  assumes inv: "cinv sha1 hashes G {#} (core p)"
  shows "keeps sha1 hashes G (handle_Bitfield env b p)"
proof -
  have "\<exists>x. (if pr_Info p = None then Some False else map_option (\<lambda>n. int (bitmap_Len b) > n) (numPieces p)) = Some x"
    using cinv_geometry(1) [OF inv] numPieces_value [of p] by auto
  moreover have "cinv sha1 hashes G {#} (core (writeEvent env (TorPeerBitmap (Some b) True) ((withdraw env p)\<lparr>pr_bitmap := Some b\<rparr>)))"
    by (rule announce_inv [OF withdraw_inv [OF inv]]) simp
  ultimately show ?thesis
    using inv by (auto simp: handle_Bitfield_def cinv_maybeInterested simp del: core_writeEvent core_bitmap)
qed

lemma handle_HaveAll_inv:
  assumes inv: "cinv sha1 hashes G {#} (core p)"
  shows "keeps sha1 hashes G (handle_HaveAll env p)"
proof -
  let ?p1 = "(withdraw env p)\<lparr>pr_isSeed := True\<rparr>"
  have inv1: "cinv sha1 hashes G {#} (core ?p1)" using withdraw_inv [OF inv] by simp
  have n: "pr_Info p \<noteq> None \<Longrightarrow> numPieces ?p1 = Some (int (length (ps_pieces (pr_Pieces p))))"
    using numPieces_value [of ?p1] cinv_geometry(1) [OF inv] by auto
  have "cinv sha1 hashes G {#} (core (writeEvent env (TorPeerBitmap (Some b) True) (?p1\<lparr>pr_bitmap := Some b\<rparr>)))" for b
    by (rule announce_inv [OF inv1]) simp
  then show ?thesis
    using inv inv1 n by (auto simp: handle_HaveAll_def Let_def cinv_maybeInterested simp del: core_writeEvent core_bitmap core_isSeed_field)
qed

lemma handle_HaveNone_inv:
  "cinv sha1 hashes G {#} (core p) \<Longrightarrow> keeps sha1 hashes G (handle_HaveNone env p)"
  using withdraw_inv by (auto simp: handle_HaveNone_def)

lemma handle_Request_inv:
  assumes inv: "cinv sha1 hashes G {#} (core p)"
  shows "keeps sha1 hashes G (handle_Request env i b l p)"
proof -
  have rej: "core (snd (reject env i b l p)) = core p" for i b l by (rule core_reject)
  have "core (case reject env x y z p of (None, p') \<Rightarrow> p'\<lparr>pr_requested := tl (pr_requested p')\<rparr> | (Some e, p') \<Rightarrow> p') = core p"
    for x y z using rej [of x y z] by (cases "reject env x y z p") (auto split: option.split)
  then show ?thesis
    using inv rej by (auto simp: handle_Request_def Let_def intro!: scheduleUpload_inv keeps_pair)
qed

lemma handle_Cancel_inv:
  assumes inv: "cinv sha1 hashes G {#} (core p)"
  shows "keeps sha1 hashes G (handle_Cancel env i b l p)"
proof -
  have "keeps sha1 hashes G (case reject env i b l (p\<lparr>pr_requested := x\<rparr>) of
      (Some e, p1) \<Rightarrow> Some (Some e, p1) | (None, p1) \<Rightarrow> Some (None, startStopUpload env p1))" for x
    using core_reject [of env i b l "p\<lparr>pr_requested := x\<rparr>"] inv
    by (cases "reject env i b l (p\<lparr>pr_requested := x\<rparr>)") (auto split: option.split)
  then show ?thesis using inv by (auto simp: handle_Cancel_def split: option.split)
qed

lemma AddData_geometry:
  "AddData env ps index off data peer = Some (ps', n, c, e) \<Longrightarrow> ps_pieceSize ps' = ps_pieceSize ps \<and> ps_length ps' = ps_length ps"
  by (auto simp: AddData_def bind_eq_Some_conv put_piece_def Let_def split: if_splits option.splits prod.splits)

lemma cinv_pieces:
  assumes "cinv sha1 hashes G D (core p)" "pieces_fit sha1 hashes ps" "ps_pieceSize ps = ps_pieceSize (pr_Pieces p)"
  shows "cinv sha1 hashes G D (core (p\<lparr>pr_Pieces := ps\<rparr>))"
proof -
  have "core (p\<lparr>pr_Pieces := ps\<rparr>) = (core p)\<lparr>c_Pieces := ps\<rparr>" by (simp add: core_def)
  then show ?thesis using assms by (simp add: cinv_def)
qed

text \<open>A chunk in hand is settled by the event for its data.\<close>

lemma TorData_inv:
  assumes "cinv sha1 hashes G (add_mset k D) (core p)" and "toChunk p i b = Some k"
  shows "cinv sha1 hashes G D (core (writeEvent env (TorData i b l c) p))"
  using assms by (auto simp: cinv_def log_event_def toChunk_to_chunk)

lemma handle_Piece_inv:
  assumes inv: "cinv sha1 hashes G {#} (core p)" and len: "length data < 2147483648"
  shows "keeps sha1 hashes G (handle_Piece env i b data p)"
proof (cases "pr_Info p = None \<or> i \<ge> of_nat (length (ps_pieces (pr_Pieces p)))")
  case True
  then show ?thesis using inv by (auto simp: handle_Piece_def out_of_range_value [OF inv])
next
  case False
  then have info: "pr_Info p \<noteq> None" by simp
  note g = cinv_geometry [OF inv info]
  have num: "length (ps_pieces (pr_Pieces p)) < 4294967296" using g(1) by (simp add: geometry_def)
  then have i: "unat i < length (ps_pieces (pr_Pieces p))"
    using False by (simp add: word_le_nat_alt unat_of_nat_u32 not_le)
  obtain k where k: "toChunk p i b = Some k" using toChunk_Some [OF g(1)] by blast
  have ri: "rs_inv (pr_requests p)" using inv by (simp add: cinv_def)
  obtain rs q r tm where d: "rs_Del (pr_requests p) k = Some (rs, q, r, tm)" "rs_inv rs" "q \<or> r \<longleftrightarrow> k \<in> outstanding (pr_requests p)"
    "outstanding rs = outstanding (pr_requests p) - {k}"
    using rq.delete_outstanding [OF ri, of k] by (auto simp: rq_outstanding)
  define p1 where "p1 = p\<lparr>pr_requests := rs\<rparr>"
  obtain ps n c e where a: "AddData (en_sys env) (pr_Pieces p1) i b data (pr_Counter p1) = Some (ps, n, c, e)"
    and fit: "pieces_fit sha1 hashes ps"
    using AddData_inv [of sha1 hashes "pr_Pieces p1" i data "en_sys env" b "pr_Counter p1"] g(2) i len
    by (auto simp: pieces_fit_def p1_def)
  define p2 where "p2 = p1\<lparr>pr_Pieces := ps\<rparr>"
  have size: "ps_pieceSize ps = ps_pieceSize (pr_Pieces p1)" using AddData_geometry [OF a] by simp
  have k2: "toChunk p2 i b = Some k" using k size by (simp add: toChunk_to_chunk p2_def p1_def)
  let ?r = "if r \<or> q then do {
       p3 \<leftarrow> (if n = of_nat (length data) then Some (writeEvent env (TorData i b (of_nat (length data)) c) p2)
              else map_option (active env) (drop_chunk env k p2));
       Some (if r then update_rtt env tm p3 else p3) } else Some p1"
  have "\<exists>p4. ?r = Some p4 \<and> cinv sha1 hashes G {#} (core p4)"
  proof (cases "r \<or> q")
    case True
    have inv2: "cinv sha1 hashes G {#k#} (core p2)"
      unfolding p2_def using d(2-4) True size
      by (intro cinv_pieces [OF _ fit]) (auto simp: p1_def simp del: core_requests intro!: cinv_take [OF inv])
    have "\<exists>p3. (if n = of_nat (length data) then Some (writeEvent env (TorData i b (of_nat (length data)) c) p2)
              else map_option (active env) (drop_chunk env k p2)) = Some p3 \<and> cinv sha1 hashes G {#} (core p3)"
      using TorData_inv [OF inv2 k2] drop_chunk_inv [OF inv2, of env] by (auto simp: cinv_active simp del: core_writeEvent)
    then show ?thesis using True by auto
  next
    case no: False
    then have "cinv sha1 hashes G {#} (core p1)"
      unfolding p1_def using d by (intro cinv_same_requests [OF inv]) auto
    then show ?thesis using no by auto
  qed
  then obtain p4 where p4: "?r = Some p4" "cinv sha1 hashes G {#} (core p4)" by blast
  obtain p5 where p5: "maybeRequest env p4 = Some p5" "cinv sha1 hashes G {#} (core p5)"
    using maybeRequest_inv [OF p4(2)] by blast
  have "handle_Piece env i b data p = Some (None, p5)"
    using False info k d(1) a p4(1) p5(1)
    by (simp add: handle_Piece_def out_of_range_value [OF inv] Let_def flip: p1_def p2_def) (auto simp: p1_def [symmetric] p2_def [symmetric] bind_eq_Some_conv)
  then show ?thesis using p5(2) by simp
qed

lemma handle_RejectRequest_inv:
  assumes inv: "cinv sha1 hashes G {#} (core p)"
  shows "keeps sha1 hashes G (handle_RejectRequest env i b p)"
proof (cases "pr_canFast p \<and> pr_Info p \<noteq> None")
  case True
  then have info: "pr_Info p \<noteq> None" by simp
  obtain k where k: "toChunk p i b = Some k" using toChunk_Some [OF cinv_geometry(1) [OF inv info]] by blast
  have ri: "rs_inv (pr_requests p)" using inv by (simp add: cinv_def)
  obtain rs where d: "rs_DelRequested (pr_requests p) k = Some (rs, k \<in> sent (pr_requests p))" "rs_inv rs"
    "sent rs = sent (pr_requests p) - {k}" "queued rs = queued (pr_requests p)"
    using rs_del_spec [OF ri, of k True] by (auto simp: rs_DelRequested_def)
  have "outstanding rs = (if k \<in> sent (pr_requests p) then outstanding (pr_requests p) - {k} else outstanding (pr_requests p))"
    using d(3,4) rs_inv_disjoint [OF ri] by (auto simp: outstanding_def)
  then have "\<exists>p2. (if k \<in> sent (pr_requests p) then drop_chunk env k (p\<lparr>pr_requests := rs\<rparr>) else Some (p\<lparr>pr_requests := rs\<rparr>)) = Some p2
      \<and> cinv sha1 hashes G {#} (core p2)"
    using cinv_take [OF inv d(2), of k] cinv_same_requests [OF inv d(2)]
      drop_chunk_inv [of sha1 hashes G k "{#}" "p\<lparr>pr_requests := rs\<rparr>" env]
    by (auto simp: outstanding_def simp del: core_requests)
  then obtain p2 where p2: "(if k \<in> sent (pr_requests p) then drop_chunk env k (p\<lparr>pr_requests := rs\<rparr>) else Some (p\<lparr>pr_requests := rs\<rparr>)) = Some p2"
    "cinv sha1 hashes G {#} (core p2)" by blast
  obtain p3 where "maybeRequest env p2 = Some p3" "cinv sha1 hashes G {#} (core p3)" using maybeRequest_inv [OF p2(2)] by blast
  then show ?thesis using True info k d(1) p2(1) by (auto simp: handle_RejectRequest_def Let_def split: if_splits)
qed (use inv in \<open>auto simp: handle_RejectRequest_def\<close>)

lemma handle_Extended0_inv:
  assumes "cinv sha1 hashes G {#} (core p)"
  shows "keeps sha1 hashes G (handle_Extended0 env m p)"
proof -
  have f: "core (p\<lparr>pr_gotExtended := a\<rparr>) = core p" "core (p\<lparr>pr_Port := b\<rparr>) = core p" "core (p\<lparr>pr_reqQ := c\<rparr>) = core p"
    "core (p\<lparr>pr_pexExt := d1, pr_metadataExt := d2, pr_dontHaveExt := d3, pr_uploadOnlyExt := d4\<rparr>) = core p"
    "core (p\<lparr>pr_prefersEncryption := e, pr_uploadOnly := f\<rparr>) = core p" for p a b c d1 d2 d3 d4 e f
    by (simp_all add: core_def)
  have k: "core (add_known env v ip kind p) = log_event (TorAddKnown (ip, ucast (pr_Port p)) (Some (pr_Id p)) v kind) (core p)"
    for v ip kind p by (simp add: add_known_def)
  show ?thesis using assms by (simp add: handle_Extended0_def Let_def f k cinv_log_irrelevant)
qed

lemma cinv_pex_added: "cinv sha1 hashes G D (core (pex_added env p x)) = cinv sha1 hashes G D (core p)"
proof -
  have "core (p\<lparr>pr_pex := y\<rparr>) = core p" for y by (simp add: core_def)
  then show ?thesis by (simp add: pex_added_def cinv_log_irrelevant split: option.split)
qed

lemma core_pex_dropped: "core (pex_dropped p x) = core p"
proof -
  have "core (p\<lparr>pr_pex := y\<rparr>) = core p" for y by (simp add: core_def)
  then show ?thesis by (simp add: pex_dropped_def split: option.split)
qed

lemma handle_ExtendedPex_inv:
  assumes "cinv sha1 hashes G {#} (core p)"
  shows "keeps sha1 hashes G (handle_ExtendedPex env a d p)"
proof -
  have "cinv sha1 hashes G {#} (core (foldl (pex_added env) p a))"
    using assms by (induction a arbitrary: p) (simp_all add: cinv_pex_added)
  moreover have "core (foldl pex_dropped q d) = core q" for q
    by (induction d arbitrary: q) (simp_all add: core_pex_dropped)
  ultimately show ?thesis by (simp add: handle_ExtendedPex_def)
qed

lemma handle_ExtendedMetadata_inv:
  assumes "cinv sha1 hashes G {#} (core p)"
  shows "keeps sha1 hashes G (handle_ExtendedMetadata env tpe piece n d p)"
proof -
  have "keeps sha1 hashes G (case peer_write env m1 p of
      (None, p1) \<Rightarrow> Some (None, p1)
    | (Some ErrCongested, p1) \<Rightarrow> Some (None, snd (peer_write env m2 p1))
    | (Some e, p1) \<Rightarrow> Some (Some e, p1))" for m1 m2
    using core_peer_write [of env m1 p] assms
    by (cases "peer_write env m1 p") (auto simp: core_peer_write split: option.split peer_error.split)
  then show ?thesis
    using assms by (auto simp: handle_ExtendedMetadata_def Let_def core_peer_write cinv_log_irrelevant)
qed

text \<open>The messages that a peer handles: any but nil and \<open>Flush\<close>, with data as the reader delivers it.\<close>

definition receivable :: "message option \<Rightarrow> bool" where
  "receivable m = (case m of None \<Rightarrow> False | Some Flush \<Rightarrow> False | Some (Piece i b d) \<Rightarrow> length d < 2 ^ 31 | _ \<Rightarrow> True)"

lemma handleMessage_inv:
  assumes inv: "cinv sha1 hashes G {#} (core p)" and "receivable m"
  shows "keeps sha1 hashes G (handleMessage env m p)"
proof -
  have f: "core (p\<lparr>pr_unchoked := a\<rparr>) = core p" "core (p\<lparr>pr_interested := b\<rparr>) = core p" "core (p\<lparr>pr_uploadOnly := c\<rparr>) = core p"
    "core (p\<lparr>pr_fast := d, pr_hasFast := e\<rparr>) = core p" for a b c d e by (simp_all add: core_def)
  obtain m' where m: "m = Some m'" using assms(2) by (cases m) (auto simp: receivable_def)
  show ?thesis
    using inv assms(2) unfolding m
    by (cases m') (auto simp: receivable_def f cinv_log_irrelevant handle_AllowedFast_def handle_Choke_inv handle_NotInterested_inv
        handle_Have_inv handle_Bitfield_inv handle_Request_inv handle_Piece_inv handle_Cancel_inv handle_RejectRequest_inv
        handle_HaveAll_inv handle_HaveNone_inv handle_Extended0_inv handle_ExtendedPex_inv handle_ExtendedMetadata_inv
        handle_DontHave_inv)
qed

end
