(* ===== verification/Peer_Runs.thy ===== *)
theory Peer_Runs
  imports Peer_Steps
begin

section \<open>The life of a peer\<close>

text \<open>
  The loop of \<^verbatim>\<open>Run\<close> as a machine: any sequence of messages, events and timers, with any
  outcome of the operations on channels, while the other goroutines work on the contents of
  the torrent. \<open>pf_given\<close> collects the chunks that the torrent asks for.
\<close>

subsection \<open>Iterations of the loop\<close>

definition keeps_loop :: "(byte list \<Rightarrow> hash) \<Rightarrow> hash list \<Rightarrow> u32 multiset \<Rightarrow> (bool \<times> peer) option \<Rightarrow> bool" where
  "keeps_loop sha1 hashes G r \<longleftrightarrow> (\<exists>b p'. r = Some (b, p') \<and> cinv sha1 hashes G {#} (core p'))"

lemma keeps_ends: "keeps sha1 hashes G r \<Longrightarrow> keeps_loop sha1 hashes G (ends r)"
  by (auto simp: keeps_def keeps_loop_def ends_def)

lemma core_fields [simp]:
  "core (p\<lparr>pr_time := a\<rparr>) = core p" "core (p\<lparr>pr_pexSentTime := a\<rparr>) = core p" "core (p\<lparr>pr_pexTorTime := a\<rparr>) = core p"
  by (simp_all add: core_def)

lemma cinv_foldl_known:
  "cinv sha1 hashes G D (core (foldl (\<lambda>p x. writeEvent env (TorAddKnown (px_addr x) None [] KPEX) p) p xs))
     = cinv sha1 hashes G D (core p)"
  by (induction xs arbitrary: p) (simp_all add: cinv_log_irrelevant)

lemma Run_tick_inv:
  assumes "cinv sha1 hashes G {#} (core p)"
  shows "keeps_loop sha1 hashes G (Run_tick env p)"
proof -
  obtain x p1 where p1: "expireRequests env p = Some (x, p1)" "cinv sha1 hashes G {#} (core p1)"
    using expireRequests_inv [OF assms] by blast
  obtain p2 where p2: "(if x then maybeRequest env p1 else Some p1) = Some p2" "cinv sha1 hashes G {#} (core p2)"
    using maybeRequest_inv [OF p1(2), of env] p1(2) by (cases x) auto
  define p3 where "p3 = (if en_now env - pr_pexSentTime p2 \<ge> time_Minute
      then (sendPex env p2)\<lparr>pr_pexSentTime := en_now env\<rparr> else p2)"
  define p4 where "p4 = (if en_now env - pr_pexTorTime p3 \<ge> 20 * time_Minute
      then (foldl (\<lambda>p x. writeEvent env (TorAddKnown (px_addr x) None [] KPEX) p) p3 (pr_pex p3))\<lparr>pr_pexTorTime := en_now env\<rparr>
      else p3)"
  define p5 where "p5 = (if en_now env - pr_writeTime p4 > 110 * time_Second then snd (peer_write env KeepAlive p4) else p4)"
  have "cinv sha1 hashes G {#} (core p5)"
    using p2(2) by (simp add: p5_def p4_def p3_def core_peer_write cinv_foldl_known)
  moreover have "Run_tick env p = Some (en_now env - pr_time p5 > 5 * time_Minute, p5)"
    unfolding p5_def p4_def p3_def using p1(1) p2(1) by (simp add: Run_tick_def Let_def)
  ultimately show ?thesis by (simp add: keeps_loop_def)
qed

definition asked :: "run_input \<Rightarrow> u32 multiset" where
  "asked i = (case i of In_event (PeerRequest cs) \<Rightarrow> mset cs | _ \<Rightarrow> {#})"

text \<open>
  What the torrent and the reader respect: the metadata is announced when the contents are set up,
  chunks are requested after that, and no nil message arrives.
\<close>

definition input_ok :: "(byte list \<Rightarrow> hash) \<Rightarrow> hash list \<Rightarrow> peer \<Rightarrow> run_input \<Rightarrow> bool" where
  "input_ok sha1 hashes p i =
     (case i of
        In_event (PeerMetadataComplete info) \<Rightarrow> pieces_fit sha1 hashes (pr_Pieces p)
      | In_event (PeerRequest cs) \<Rightarrow> pr_Info p \<noteq> None \<and> list_all (chunk_ok (ps_pieceSize (pr_Pieces p))) cs
      | In_message m \<Rightarrow> receivable m
      | _ \<Rightarrow> True)"

lemma Run_step_inv:
  assumes inv: "cinv sha1 hashes G {#} (core p)" and i: "input_ok sha1 hashes p i"
  shows "keeps_loop sha1 hashes (G + asked i) (Run_step env i p)"
proof (cases i)
  case (In_event c)
  show ?thesis
  proof (cases "\<exists>cs. c = PeerRequest cs")
    case True
    then show ?thesis using handle_PeerRequest_inv [OF inv] i In_event
      by (auto simp: input_ok_def asked_def intro!: keeps_ends)
  next
    case False
    then have "asked i = {#}" using In_event by (cases c) (auto simp: asked_def)
    moreover have "keeps sha1 hashes G (handleEvent env c p)"
      using False i In_event by (intro handleEvent_inv [OF inv]) (auto simp: input_ok_def)
    ultimately show ?thesis using In_event keeps_ends by simp
  qed
next
  case (In_message m)
  then show ?thesis using handleMessage_inv [of sha1 hashes G "p\<lparr>pr_time := en_now env\<rparr>" m env] inv i
    by (auto simp: input_ok_def asked_def intro!: keeps_ends)
next
  case In_deliver
  have "core (p\<lparr>pr_events := es, pr_delivered := pr_delivered p @ [e]\<rparr>) = core p" if "pr_events p = e # es" for e es
    using that by (simp add: core_def)
  then show ?thesis using inv In_deliver by (auto simp: asked_def keeps_loop_def split: list.split)
next
  case In_upload
  then show ?thesis using keeps_ends [OF scheduleUpload_inv [OF inv]] inv by (auto simp: asked_def keeps_loop_def)
next
  case In_tick
  then show ?thesis using Run_tick_inv [OF inv] by (simp add: asked_def)
qed (use inv in \<open>auto simp: asked_def keeps_loop_def\<close>)

text \<open>The deferred functions: everything is settled and withdrawn.\<close>

lemma Run_exit_inv:
  assumes inv: "cinv sha1 hashes G {#} (core p)" and o: "0 \<le> en_others env"
  shows "\<exists>p'. Run_exit env n p = Some p' \<and> outstanding (pr_requests p') = {} \<and>
    G = settled (ps_pieceSize (pr_Pieces p')) (c_log (core p')) \<and> (\<forall>i. announced (c_log (core p')) i = 0) \<and> pr_numUnchoking p' = 0"
proof -
  obtain rs ds where c: "rs_Clear (pr_requests p) True = (rs, ds)" by fastforce
  have ri: "rs_inv (pr_requests p)" using inv by (simp add: cinv_def)
  note cl = rq.clear_outstanding [OF ri c, unfolded rq_outstanding]
  have e: "outstanding rs = {}" using cl(5) by simp
  have "mset_set (outstanding rs) + mset ds = mset_set (outstanding (pr_requests p)) + {#}"
    using cl(2,4) e mset_set_set [OF cl(2)] by simp
  moreover have "pr_Info p \<noteq> None \<or> outstanding rs = {} \<and> mset ds = {#}" using inv cl(4) by (auto simp: cinv_def)
  ultimately have "cinv sha1 hashes G (mset ds + {#}) (core (p\<lparr>pr_requests := rs\<rparr>))"
    using cinv_requests [OF inv cl(1), of "mset ds"] by simp
  then obtain p1 where p1: "drop_chunks env ds (p\<lparr>pr_requests := rs\<rparr>) = Some p1" "cinv sha1 hashes G {#} (core p1)"
    using drop_chunks_inv by blast
  have r1: "pr_requests p1 = rs" using drop_chunks_requests [OF p1(1)] by simp
  define p2 where "p2 = writeEvent env TorPeerGoaway (writeEvent env (TorPeerBitmap (bitmap_Copy (pr_bitmap p1)) False) p1)"
  define p4 where "p4 = stopUpload (p2\<lparr>pr_delivered := pr_delivered p2 @ take n (pr_events p2), pr_events := drop n (pr_events p2)\<rparr>)"
  have c4: "core p4 = log_event TorPeerGoaway (log_event (TorPeerBitmap (pr_bitmap p1) False) (core p1))"
  proof -
    have "core (p2\<lparr>pr_delivered := pr_delivered p2 @ take n (pr_events p2), pr_events := drop n (pr_events p2)\<rparr>) = core p2"
      by (simp add: core_def)
    then show ?thesis by (simp add: p4_def p2_def)
  qed
  have f: "pr_requests p4 = rs" "pr_Pieces p4 = pr_Pieces p1" "pr_amUnchoking p4 = pr_amUnchoking p1" "pr_numUnchoking p4 = pr_numUnchoking p1"
    using core_sel(1,3,5,6) [of p4] c4 by (simp_all add: log_event_def r1)
  have num: "pr_numUnchoking p1 = of_bool (pr_amUnchoking p1)" using p1(2) by (simp add: cinv_def)
  let ?p5 = "if pr_amUnchoking p4 then p4\<lparr>pr_numUnchoking := pr_numUnchoking p4 - 1\<rparr> else p4"
  have "Run_exit env n p = Some ?p5"
    using c p1(1) o num f unfolding p4_def p2_def by (simp add: Run_exit_def Let_def)
  moreover have "c_log (core ?p5) = c_log (core p4)" "pr_requests ?p5 = rs" "pr_Pieces ?p5 = pr_Pieces p1" "pr_numUnchoking ?p5 = 0"
    using f num by (simp_all add: core_def)
  moreover have "G = settled (ps_pieceSize (pr_Pieces p1)) (c_log (core p4))" "\<forall>i. announced (c_log (core p4)) i = 0"
    using p1(2) e r1 by (simp_all add: cinv_def c4 log_event_def)
  ultimately show ?thesis using e by metis
qed

subsection \<open>The machine\<close>

datatype phase = Running | Ending | Gone

record peer_conf =
  pf_peer :: peer
  pf_given :: "u32 multiset"
  pf_phase :: phase

datatype peer_op = Op_input env run_input | Op_pieces pieces | Op_leave env nat

definition peer_step :: "peer_conf \<Rightarrow> peer_op \<Rightarrow> peer_conf option" where
  "peer_step c a =
     (case a of
        Op_input env i \<Rightarrow>
          map_option (\<lambda>(fin, p). c\<lparr>pf_peer := p, pf_given := pf_given c + asked i, pf_phase := if fin then Ending else Running\<rparr>)
            (Run_step env i (pf_peer c))
      | Op_pieces ps \<Rightarrow> Some (c\<lparr>pf_peer := (pf_peer c)\<lparr>pr_Pieces := ps\<rparr>\<rparr>)
      | Op_leave env n \<Rightarrow> map_option (\<lambda>p. c\<lparr>pf_peer := p, pf_phase := Gone\<rparr>) (Run_exit env n (pf_peer c)))"

definition peer_permitted :: "(byte list \<Rightarrow> hash) \<Rightarrow> hash list \<Rightarrow> peer_conf \<Rightarrow> peer_op \<Rightarrow> bool" where
  "peer_permitted sha1 hashes c a =
     (case a of
        Op_input env i \<Rightarrow> pf_phase c = Running \<and> input_ok sha1 hashes (pf_peer c) i
      | Op_pieces ps \<Rightarrow> pf_phase c \<noteq> Gone \<and>
          (if pr_Info (pf_peer c) = None then ps_length ps = 0 \<or> pieces_fit sha1 hashes ps
           else pieces_fit sha1 hashes ps \<and> ps_pieceSize ps = ps_pieceSize (pr_Pieces (pf_peer c)))
      | Op_leave env n \<Rightarrow> pf_phase c = Ending \<and> 0 \<le> en_others env)"

definition peer_inv :: "(byte list \<Rightarrow> hash) \<Rightarrow> hash list \<Rightarrow> peer_conf \<Rightarrow> bool" where
  "peer_inv sha1 hashes c \<longleftrightarrow>
     (if pf_phase c = Gone
      then outstanding (pr_requests (pf_peer c)) = {} \<and>
        pf_given c = settled (ps_pieceSize (pr_Pieces (pf_peer c))) (c_log (core (pf_peer c))) \<and>
        (\<forall>i. announced (c_log (core (pf_peer c))) i = 0) \<and> pr_numUnchoking (pf_peer c) = 0
      else cinv sha1 hashes (pf_given c) {#} (core (pf_peer c)))"

lemma peer_step_progress:
  assumes inv: "peer_inv sha1 hashes c" and perm: "peer_permitted sha1 hashes c a"
  shows "\<exists>c'. peer_step c a = Some c' \<and> peer_inv sha1 hashes c'"
proof (cases a)
  case (Op_input env i)
  then have "keeps_loop sha1 hashes (pf_given c + asked i) (Run_step env i (pf_peer c))"
    using inv perm by (intro Run_step_inv) (auto simp: peer_inv_def peer_permitted_def)
  then obtain b p' where "Run_step env i (pf_peer c) = Some (b, p')" "cinv sha1 hashes (pf_given c + asked i) {#} (core p')"
    by (auto simp: keeps_loop_def)
  then show ?thesis using Op_input by (simp add: peer_step_def peer_inv_def)
next
  case (Op_pieces ps)
  let ?p = "pf_peer c"
  have ci: "cinv sha1 hashes (pf_given c) {#} (core ?p)" using inv perm Op_pieces by (simp add: peer_inv_def peer_permitted_def)
  have cp: "core (?p\<lparr>pr_Pieces := ps\<rparr>) = (core ?p)\<lparr>c_Pieces := ps\<rparr>" by (simp add: core_def)
  have "cinv sha1 hashes (pf_given c) {#} ((core ?p)\<lparr>c_Pieces := ps\<rparr>)"
    using ci perm Op_pieces by (auto simp: peer_permitted_def cinv_def settled_no_answer split: if_splits)
  then show ?thesis using Op_pieces perm by (auto simp: peer_step_def peer_inv_def cp peer_permitted_def)
next
  case (Op_leave env n)
  then show ?thesis using Run_exit_inv [of sha1 hashes "pf_given c" "pf_peer c" env n] inv perm
    by (auto simp: peer_permitted_def peer_inv_def peer_step_def)
qed

interpretation prm: machine "peer_permitted sha1 hashes" peer_step "peer_inv sha1 hashes" for sha1 hashes
  by unfold_locales (rule peer_step_progress)

subsection \<open>The start\<close>

definition peer_start :: "peer \<Rightarrow> peer_conf" where
  "peer_start p = \<lparr>pf_peer = p, pf_given = {#}, pf_phase = Running\<rparr>"

text \<open>
  What the torrent gives to a new peer: the metadata only with the contents it describes,
  and no bitmap without the metadata.
\<close>

definition start_ok :: "(byte list \<Rightarrow> hash) \<Rightarrow> hash list \<Rightarrow> pieces \<Rightarrow> byte list option \<Rightarrow> bitmap \<Rightarrow> bool" where
  "start_ok sha1 hashes ps info bm =
     (if info = None then (ps_length ps = 0 \<or> pieces_fit sha1 hashes ps) \<and> bitmap_Empty bm
      else pieces_fit sha1 hashes ps)"

lemma core_write_haves: "core (snd (write_haves env js p)) = core p"
proof (induction js arbitrary: p)
  case (Cons j js)
  show ?case using core_peer_write [of env "Have (of_nat j)" p] Cons
    by (cases "peer_write env (Have (of_nat j)) p") (auto split: option.split)
qed simp

lemma announce_bitmap_inv:
  assumes inv: "cinv sha1 hashes G {#} (core p)" and "pr_Info p = None \<longrightarrow> bitmap_Empty (pr_myBitmap p)"
  shows "keeps sha1 hashes G (announce_bitmap env p)"
proof (cases "bitmap_Empty (pr_myBitmap p) \<or> pr_canFast p \<and> amSeed p")
  case True
  then show ?thesis using inv by (auto simp: announce_bitmap_def core_peer_write intro!: keeps_pair)
next
  case False
  then have "pr_Info p \<noteq> None" using assms(2) by blast
  then have n: "numPieces p = Some (int (length (ps_pieces (pr_Pieces p))))"
    using numPieces_value cinv_geometry(1) [OF inv] by blast
  have "keeps sha1 hashes G (case (if pr_canFast p then peer_write env HaveNone p else (None, p)) of
      (None, p1) \<Rightarrow> Some (write_haves env js p1) | (Some e, p1) \<Rightarrow> Some (Some e, p1))" for js
    using inv core_peer_write [of env HaveNone p] core_write_haves
    by (cases "peer_write env HaveNone p") (auto split: option.split intro!: keeps_pair)
  then show ?thesis using False inv n by (auto simp: announce_bitmap_def core_peer_write intro!: keeps_pair)
qed

lemma Run_start_inv:
  assumes new: "Peer_New proxy counter addr incoming pid dht fast extended ps = Some p0" and st: "start_ok sha1 hashes ps info bm"
  shows "keeps sha1 hashes {#} (Run_start env info bm p0)"
proof -
  let ?p1 = "p0\<lparr>pr_Info := info, pr_myBitmap := bm, pr_reqQ := 128, pr_time := en_now env, pr_writeTime := en_now env\<rparr>"
  define p2 where "p2 = (if pr_Port ?p1 > 0
      then writeEvent env (TorAddKnown (pr_IP ?p1, ucast (pr_Port ?p1)) (Some (pr_Id ?p1)) [] KActiveNoReset) ?p1 else ?p1)"
  define p3 where "p3 = (if pr_canDHT p2 \<and> pr_proxy p2 = []
      then snd (peer_write env (Port (en_ExternalPort env False (addr_Is6 (pr_IP p2)))) p2) else p2)"
  obtain e p4 where w: "(if pr_canExtended p3 then peer_write env (Extended0 (our_extended0 env p3)) p3 else (None, p3)) = (e, p4)"
    by fastforce
  have "cinv sha1 hashes {#} {#} (core ?p1)"
    using new st rs_inv_empty by (auto simp: Peer_New_def cinv_def core_def start_ok_def outstanding_def bitset_simps split: if_splits)
  then have i3: "cinv sha1 hashes {#} {#} (core p3)" by (simp add: p3_def p2_def core_peer_write cinv_log_irrelevant)
  have c4: "core p4 = core p3" using w core_peer_write [of env "Extended0 (our_extended0 env p3)" p3] by (auto split: if_splits)
  have fr: "pr_Info (snd (peer_write env m q)) = pr_Info q" "pr_myBitmap (snd (peer_write env m q)) = pr_myBitmap q" for m q
    by (simp_all add: peer_write_def tick_def split: write_outcome.split)
  have "pr_Info p4 = pr_Info p3" "pr_myBitmap p4 = pr_myBitmap p3"
    using w fr [of "Extended0 (our_extended0 env p3)" p3] by (auto split: if_splits)
  then have f4: "pr_Info p4 = info" "pr_myBitmap p4 = bm"
    by (simp_all add: p3_def p2_def fr writeEvent_def tick_def)
  have "keeps sha1 hashes {#} (announce_bitmap env p4)"
    using i3 c4 f4 st by (intro announce_bitmap_inv) (auto simp: start_ok_def split: if_splits)
  moreover have "Run_start env info bm p0 = (case e of Some e \<Rightarrow> Some (Some e, p4) | None \<Rightarrow> announce_bitmap env p4)"
    unfolding Run_start_def Let_def p2_def [symmetric] p3_def [symmetric] w by simp
  ultimately show ?thesis using i3 c4 by (cases e) simp_all
qed

lemma peer_start_inv:
  assumes "Peer_New proxy counter addr incoming pid dht fast extended ps = Some p0" and "start_ok sha1 hashes ps info bm"
    and "Run_start env info bm p0 = Some (None, p)"
  shows "peer_inv sha1 hashes (peer_start p)"
  using Run_start_inv [OF assms(1,2), of env] assms(3) by (simp add: peer_inv_def peer_start_def)

end
