(* ===== verification/Peer_Props.thy ===== *)
theory Peer_Props
  imports Peer_Runs Piece_Props
begin

section \<open>Properties of a peer\<close>

text \<open>What holds of every run of the goroutine of a peer: towards the torrent, and towards the other side.\<close>

subsection \<open>What the torrent is told\<close>

lemma peer_run:
  assumes "Peer_New proxy counter addr incoming pid dht fast extended ps = Some p0" "start_ok sha1 hashes ps info bm"
    and "Run_start env info bm p0 = Some (None, p)" "permitted_ops (peer_permitted sha1 hashes) peer_step (peer_start p) as"
  obtains c where "run_ops peer_step (peer_start p) as = Some c" "peer_inv sha1 hashes c"
  using prm.run_safe [OF peer_start_inv [OF assms(1-3)] assms(4)] by blast

lemma core_log: "c_log (core p) = pr_delivered p @ pr_events p"
  by (simp add: core_def)

text \<open>
  C3. Every request is answered exactly once. Whatever messages, events and timers a peer handles,
  in any order and with any outcome of its writes, it does not panic, and the chunks the
  torrent has asked it for are those that it still holds (each once) together
  with those for which it has sent, or queued to be sent, a \<^verbatim>\<open>TorDrop\<close> or \<^verbatim>\<open>TorData\<close>, counted
  with multiplicity. When the peer has gone, it holds none. The runs leave out the nil message, on which the peer
  panics, and Piece messages of 2 GB or more; the chunks that the torrent asks for exist.
\<close>

theorem peer_answers_requests_once:
  assumes "Peer_New proxy counter addr incoming pid dht fast extended ps = Some p0" and "start_ok sha1 hashes ps info bm"
    and "Run_start env info bm p0 = Some (None, p)"
    and "permitted_ops (peer_permitted sha1 hashes) peer_step (peer_start p) as"
  shows "\<exists>c. run_ops peer_step (peer_start p) as = Some c \<and>
    (let q = pf_peer c; log = pr_delivered q @ pr_events q
     in pf_given c = mset_set (outstanding (pr_requests q)) + settled (ps_pieceSize (pr_Pieces q)) log \<and>
        (pf_phase c = Gone \<longrightarrow> outstanding (pr_requests q) = {}))"
proof -
  obtain c where "run_ops peer_step (peer_start p) as = Some c" "peer_inv sha1 hashes c"
    using peer_run [OF assms] .
  then show ?thesis by (auto simp: peer_inv_def cinv_def core_log Let_def split: if_splits)
qed

text \<open>A peer that asks for a chunk, receives it and leaves.\<close>

definition ex_penv :: env where
  "ex_penv = \<lparr>en_now = 1000000000, en_sys = ex_env, en_write = (\<lambda>_. Written), en_accept = (\<lambda>n. n mod 3 = 0),
     en_congested = (\<lambda>_. False), en_slow = (\<lambda>_. False), en_allow = True, en_interval = 5, en_others = 0,
     en_ExternalPort = (\<lambda>_ _. 6881), en_ipv6 = NoAddr, en_preferEncryption = False\<rparr>"

definition ex_pieces :: pieces where
  "ex_pieces = the (Pieces_MetadataComplete empty_pieces 16384 5)"

definition ex_peer0 :: peer where
  "ex_peer0 = the (Peer_New [] 1 (Addr4 0x0A000001, 6881) False (replicate 20 7) True True True ex_pieces)"

definition ex_peer :: peer where
  "ex_peer = snd (the (Run_start ex_penv (Some [1]) [] ex_peer0))"

definition ex_life :: "peer_op list" where
  "ex_life = map (Op_input ex_penv)
     [In_message (Some (Bitfield [0x80])), In_message (Some Unchoke), In_event (PeerInterested True),
      In_event (PeerRequest [0, 0]), In_deliver, In_message (Some (Piece 0 0 [1, 2, 3, 4, 5])),
      In_message (Some Interested), In_event (PeerUnchoke True), In_event PeerDone] @ [Op_leave ex_penv 100]"

lemma ex_peer_start:
  "Peer_New [] 1 (Addr4 0x0A000001, 6881) False (replicate 20 7) True True True ex_pieces = Some ex_peer0"
  "start_ok ex_sha1 ex_hashes ex_pieces (Some [1]) []"
  "Run_start ex_penv (Some [1]) [] ex_peer0 = Some (None, ex_peer)"
  by code_simp+

lemma ex_life_permitted: "permitted_ops (peer_permitted ex_sha1 ex_hashes) peer_step (peer_start ex_peer) ex_life"
  by code_simp

theorem peer_answers_requests_once_witness:
  "\<exists>c. run_ops peer_step (peer_start ex_peer) ex_life = Some c \<and> pf_phase c = Gone \<and>
    pf_given c = settled 16384 (pr_delivered (pf_peer c) @ pr_events (pf_peer c))"
proof -
  have "map_option (\<lambda>c. (pf_phase c, ps_pieceSize (pr_Pieces (pf_peer c)))) (run_ops peer_step (peer_start ex_peer) ex_life) = Some (Gone, 16384)"
    by code_simp
  then show ?thesis using peer_answers_requests_once [OF ex_peer_start ex_life_permitted] by (auto simp: Let_def)
qed

text \<open>
  C27. The torrent knows what the peer has. The announcements and withdrawals of pieces that the
  torrent has been sent, or that are queued for it, add up to the bitmap of the peer: one for each piece it has,
  none for the others. When the peer has gone they cancel out, so that
  the torrent's count of the availability of each piece does not drift.
\<close>

theorem peer_announces_its_bitmap:
  assumes "Peer_New proxy counter addr incoming pid dht fast extended ps = Some p0" and "start_ok sha1 hashes ps info bm"
    and "Run_start env info bm p0 = Some (None, p)"
    and "permitted_ops (peer_permitted sha1 hashes) peer_step (peer_start p) as"
  shows "\<exists>c. run_ops peer_step (peer_start p) as = Some c \<and>
    (\<forall>i. announced (pr_delivered (pf_peer c) @ pr_events (pf_peer c)) i =
      (if pf_phase c \<noteq> Gone \<and> hasPiece (pf_peer c) i then 1 else 0))"
proof -
  obtain c where c: "run_ops peer_step (peer_start p) as = Some c" "peer_inv sha1 hashes c"
    using peer_run [OF assms] .
  have "hasPiece q i = bitmap_Get (case pr_bitmap q of None \<Rightarrow> [] | Some b \<Rightarrow> b) i" for q i
    by (simp add: hasPiece_def bitset_simps split: option.split)
  then show ?thesis using c by (auto simp: peer_inv_def cinv_def core_log split: if_splits)
qed

theorem peer_announces_its_bitmap_witness:
  "\<exists>c. run_ops peer_step (peer_start ex_peer) (take 5 ex_life) = Some c \<and> hasPiece (pf_peer c) 0 \<and>
    announced (pr_delivered (pf_peer c) @ pr_events (pf_peer c)) 0 = 1"
proof -
  have "permitted_ops (peer_permitted ex_sha1 ex_hashes) peer_step (peer_start ex_peer) (take 5 ex_life)"
    and "map_option (\<lambda>c. (pf_phase c, hasPiece (pf_peer c) 0)) (run_ops peer_step (peer_start ex_peer) (take 5 ex_life)) = Some (Running, True)"
    by code_simp+
  with peer_announces_its_bitmap [OF ex_peer_start this(1)] show ?thesis by auto
qed

text \<open>
  The count of unchoked peers is exact: a peer contributes one to \<^verbatim>\<open>numUnchoking\<close> while it is
  unchoked and nothing otherwise, nor when it has gone. So the sum over all peers never
  becomes negative, and \<^verbatim>\<open>NumUnchoking is negative\<close> is never raised.
\<close>

theorem peer_unchoke_slot:
  assumes "Peer_New proxy counter addr incoming pid dht fast extended ps = Some p0" and "start_ok sha1 hashes ps info bm"
    and "Run_start env info bm p0 = Some (None, p)"
    and "permitted_ops (peer_permitted sha1 hashes) peer_step (peer_start p) as"
  shows "\<exists>c. run_ops peer_step (peer_start p) as = Some c \<and>
    pr_numUnchoking (pf_peer c) = (if pf_phase c \<noteq> Gone \<and> pr_amUnchoking (pf_peer c) then 1 else 0)"
proof -
  obtain c where "run_ops peer_step (peer_start p) as = Some c" "peer_inv sha1 hashes c"
    using peer_run [OF assms] .
  then show ?thesis by (auto simp: peer_inv_def cinv_def split: if_splits)
qed

theorem peer_unchoke_slot_witness:
  "\<exists>c. run_ops peer_step (peer_start ex_peer) (take 8 ex_life) = Some c \<and> pr_numUnchoking (pf_peer c) = 1"
proof -
  have "permitted_ops (peer_permitted ex_sha1 ex_hashes) peer_step (peer_start ex_peer) (take 8 ex_life)"
    and "map_option (\<lambda>c. (pf_phase c, pr_amUnchoking (pf_peer c))) (run_ops peer_step (peer_start ex_peer) (take 8 ex_life)) = Some (Running, True)"
    by code_simp+
  with peer_unchoke_slot [OF ex_peer_start this(1)] show ?thesis by auto
qed

subsection \<open>Requests\<close>

text \<open>What \<^verbatim>\<open>maybeRequest\<close> depends on but does not change.\<close>

definition static :: "peer \<Rightarrow> bool \<times> u32 list \<times> bitmap option \<times> pieces \<times> int" where
  "static p = (pr_unchoked p, pr_fast p, pr_bitmap p, pr_Pieces p, pr_reqQ p)"

lemma static_requests [simp]: "static (p\<lparr>pr_requests := rs\<rparr>) = static p"
  by (simp add: static_def)

lemma static_writeEvent [simp]: "static (writeEvent env e p) = static p" "pr_out (writeEvent env e p) = pr_out p"
  by (simp_all add: static_def writeEvent_def tick_def)

lemma static_drop: "drop_chunk env c p = Some p' \<Longrightarrow> static p' = static p \<and> pr_out p' = pr_out p \<and> pr_requests p' = pr_requests p"
  by (auto simp: drop_chunk_def bind_eq_Some_conv)

lemma static_write:
  "peer_write env m p = (e, p') \<Longrightarrow> static p' = static p \<and> pr_requests p' = pr_requests p \<and>
     pr_out p' = pr_out p @ (if e = None then [m] else [])"
  by (auto simp: static_def peer_write_def tick_def split: write_outcome.splits)

lemma static_eqD:
  assumes "static p' = static p"
  shows "fromChunk p' = fromChunk p" "chunkSize p' = chunkSize p" "hasPiece p' = hasPiece p" "isFast p' = isFast p"
    "pr_unchoked p' = pr_unchoked p" "pr_reqQ p' = pr_reqQ p" "pr_fast p' = pr_fast p"
  using assms by (auto simp: static_def fromChunk_def chunkSize_def hasPiece_def isFast_def fun_eq_iff)

definition request_ok :: "peer \<Rightarrow> u32 set \<Rightarrow> message \<Rightarrow> bool" where
  "request_ok p cs m \<longleftrightarrow> (\<exists>c i b. c \<in> cs \<and> fromChunk p c = Some (i, b) \<and> m = Request i b (chunkSize p c) \<and>
     (pr_unchoked p \<or> i \<in> set (pr_fast p)) \<and> hasPiece p (unat i))"

lemma request_ok_mono:
  assumes "request_ok p cs m" "cs \<subseteq> cs'" "static p = static p'"
  shows "request_ok p' cs' m"
  using assms(1,2) unfolding request_ok_def static_eqD [OF assms(3)] by blast

lemma Dequeue_head: "rs_Dequeue rs = Some (rs1, q, k) \<Longrightarrow>
    rq_index q = k \<and> rs_queue rs = q # rs_queue rs1 \<and> rs_requested rs1 = rs_requested rs"
  by (auto simp: rs_Dequeue_def split: list.splits)

text \<open>One iteration of the loop that sends or drops a request.\<close>

lemma maybeRequest_loop_go:
  assumes "\<not> isCongested env p" "rs_Dequeue (pr_requests p) = Some (rs1, q, k)"
    and "\<not> (2 \<le> rs_Requested (pr_requests p) \<and> (pr_reqQ p \<le> int (rs_Requested (pr_requests p)) \<or> en_slow env (rs_Requested (pr_requests p))))"
  shows "maybeRequest_loop env p = (case fromChunk p k of None \<Rightarrow> None | Some (i, b) \<Rightarrow>
      if (\<not> pr_unchoked p \<and> \<not> isFast p i) \<or> \<not> hasPiece p (unat i)
      then (case drop_chunk env k (p\<lparr>pr_requests := rs1\<rparr>) of None \<Rightarrow> None | Some p2 \<Rightarrow> maybeRequest_loop env p2)
      else (case peer_write env (Request i b (chunkSize p k)) (p\<lparr>pr_requests := rs1\<rparr>) of
             (Some e, p2) \<Rightarrow> drop_chunk env k p2
           | (None, p2) \<Rightarrow> (case rs_EnqueueRequest (en_now env) rs1 q of None \<Rightarrow> None
               | Some rs2 \<Rightarrow> maybeRequest_loop env (p2\<lparr>pr_requests := rs2\<rparr>))))"
proof -
  have "rs_queue (pr_requests p) \<noteq> []" using assms(2) by (auto simp: rs_Dequeue_def)
  then show ?thesis using assms by (subst maybeRequest_loop.simps) (auto simp: Let_def)
qed

lemma maybeRequest_loop_sends:
  "maybeRequest_loop env p = Some p' \<Longrightarrow> static p' = static p \<and>
   (\<exists>ms. pr_out p' = pr_out p @ ms \<and> list_all (request_ok p (queued (pr_requests p))) ms) \<and>
   int (rs_Requested (pr_requests p')) \<le> max (int (rs_Requested (pr_requests p))) (max 2 (pr_reqQ p))"
proof (induction env p rule: maybeRequest_loop.induct)
  case (1 env p)
  let ?nr = "rs_Requested (pr_requests p)"
  show ?case
  proof (cases "isCongested env p \<or> rs_queue (pr_requests p) = [] \<or> ?nr \<ge> 2 \<and> (int ?nr \<ge> pr_reqQ p \<or> en_slow env ?nr)")
    case True
    then have "maybeRequest_loop env p = Some p" by (subst maybeRequest_loop.simps) (auto simp: Let_def)
    then show ?thesis using 1(3) by auto
  next
    case go: False
    then obtain rs1 q k where d: "rs_Dequeue (pr_requests p) = Some (rs1, q, k)"
      by (cases "rs_queue (pr_requests p)") (auto simp: rs_Dequeue_def)
    note h = Dequeue_head [OF d]
    have "\<not> isCongested env p" "\<not> (2 \<le> ?nr \<and> (pr_reqQ p \<le> int ?nr \<or> en_slow env ?nr))" using go by auto
    note unf = maybeRequest_loop_go [OF this(1) d this(2)]
    obtain i b where f: "fromChunk p k = Some (i, b)" using 1(3) unfolding unf by (auto split: option.splits)
    have sub: "queued rs1 \<subseteq> queued (pr_requests p)" "k \<in> queued (pr_requests p)" "rs_Requested rs1 = ?nr"
      using h by (auto simp: queued_def rs_Requested_def)
    show ?thesis
    proof (cases "(\<not> pr_unchoked p \<and> \<not> isFast p i) \<or> \<not> hasPiece p (unat i)")
      case True
      then obtain p2 where p2: "drop_chunk env k (p\<lparr>pr_requests := rs1\<rparr>) = Some p2" "maybeRequest_loop env p2 = Some p'"
        using 1(3) unfolding unf f by (auto split: option.splits)
      note s = static_drop [OF p2(1)]
      note ih = 1(1) [OF refl _ _ d refl refl f refl True p2(1) p2(2)]
      then show ?thesis using go s sub static_eqD(6) [of p2 p]
        by (auto simp: list_all_iff intro: request_ok_mono)
    next
      case False
      obtain e p2 where w: "peer_write env (Request i b (chunkSize p k)) (p\<lparr>pr_requests := rs1\<rparr>) = (e, p2)" by fastforce
      note s = static_write [OF w]
      have rk: "request_ok p (queued (pr_requests p)) (Request i b (chunkSize p k))"
        using f sub False by (auto simp: request_ok_def isFast_def)
      show ?thesis
      proof (cases e)
        case (Some err)
        then have "drop_chunk env k p2 = Some p'" using 1(3) False unfolding unf f by (simp add: w)
        then show ?thesis using static_drop s sub Some by auto
      next
        case None
        then obtain rs2 where rs2: "rs_EnqueueRequest (en_now env) rs1 q = Some rs2"
          "maybeRequest_loop env (p2\<lparr>pr_requests := rs2\<rparr>) = Some p'"
          using 1(3) False unfolding unf f by (auto simp: w split: option.splits)
        have q2: "queued rs2 = queued rs1" "rs_Requested rs2 = Suc ?nr"
          using rs2(1) sub by (auto simp: rs_EnqueueRequest_def queued_def rs_Requested_def split: if_splits)
        note ih = 1(2) [OF refl _ _ d refl refl f refl False w [symmetric] None rs2]
        have mono: "request_ok (p2\<lparr>pr_requests := rs2\<rparr>) (queued rs2) m \<Longrightarrow> request_ok p (queued (pr_requests p)) m" for m
          using request_ok_mono [of "p2\<lparr>pr_requests := rs2\<rparr>" "queued rs2" m "queued (pr_requests p)" p] s sub(1) q2(1) by simp
        obtain ms where ms: "pr_out p' = pr_out p2 @ ms" "list_all (request_ok (p2\<lparr>pr_requests := rs2\<rparr>) (queued rs2)) ms"
          using ih go by auto
        have "pr_out p' = pr_out p @ (Request i b (chunkSize p k) # ms)" using ms(1) s None by simp
        moreover have "list_all (request_ok p (queued (pr_requests p))) (Request i b (chunkSize p k) # ms)"
          using ms(2) mono rk by (auto simp: list_all_iff)
        moreover have "static p' = static p \<and>
            int (rs_Requested (pr_requests p')) \<le> max (int ?nr) (max 2 (pr_reqQ p))"
          using ih go s q2(2) static_eqD(6) [of p2 p] by auto
        ultimately show ?thesis by blast
      qed
    qed
  qed
qed

text \<open>
  Requests are legitimate. Everything \<^verbatim>\<open>maybeRequest\<close> sends is a request for a whole chunk of the
  queue, with the offset and the length of that chunk, for a piece that the peer has, and
  it is sent to a peer that has unchoked us or has allowed this piece
  while choked. The number of requests in flight does not exceed the limit of the peer
  (or 2), unless it did already.
\<close>

theorem maybeRequest_sends:
  assumes "maybeRequest env p = Some p'"
  shows "(\<exists>ms. pr_out p' = pr_out p @ ms \<and>
      (\<forall>m \<in> set ms. \<exists>c i b. c \<in> queued (pr_requests p) \<and> fromChunk p c = Some (i, b) \<and> m = Request i b (chunkSize p c) \<and>
         (pr_unchoked p \<or> i \<in> set (pr_fast p)) \<and> hasPiece p (unat i))) \<and>
    int (rs_Requested (pr_requests p')) \<le> max (int (rs_Requested (pr_requests p))) (max 2 (pr_reqQ p))"
proof (cases "\<not> pr_unchoked p \<and> pr_fast p = []")
  case False
  then obtain p1 where "maybeRequest_loop env p = Some p1" "pr_out p' = pr_out p1" "pr_requests p' = pr_requests p1"
    using assms by (auto simp: maybeRequest_def)
  then show ?thesis using maybeRequest_loop_sends [of env p p1] by (auto simp: list_all_iff request_ok_def)
qed (use assms in \<open>auto simp: maybeRequest_def\<close>)

definition ex_queued :: peer where
  "ex_queued = pf_peer (the (run_ops peer_step (peer_start ex_peer) (take 1 ex_life)))
     \<lparr>pr_unchoked := True, pr_requests := fst (rs_Enqueue 1 empty_requests 0)\<rparr>"

theorem maybeRequest_sends_witness:
  "\<exists>p' ms. maybeRequest ex_penv ex_queued = Some p' \<and> pr_out p' = pr_out ex_queued @ ms \<and> ms \<noteq> [] \<and>
    (\<forall>m \<in> set ms. \<exists>c i b. m = Request i b (chunkSize ex_queued c) \<and> hasPiece ex_queued (unat i))"
proof -
  have "map_option (\<lambda>p'. length (pr_out p') - length (pr_out ex_queued)) (maybeRequest ex_penv ex_queued) = Some 1" by code_simp
  then obtain p' where p': "maybeRequest ex_penv ex_queued = Some p'" "length (pr_out p') - length (pr_out ex_queued) = 1" by auto
  from maybeRequest_sends [OF p'(1)] p' show ?thesis by fastforce
qed

lemma maybeRequest_loop_progress:
  assumes "\<And>n. \<not> en_congested env n" "\<And>n. en_write env n = Written" "\<And>n. \<not> en_slow env n"
  shows "maybeRequest_loop env p = Some p' \<Longrightarrow>
    rs_queue (pr_requests p') = [] \<or> 2 \<le> rs_Requested (pr_requests p') \<and> pr_reqQ p' \<le> int (rs_Requested (pr_requests p'))"
  using assms
proof (induction env p rule: maybeRequest_loop.induct)
  case (1 env p)
  have w: "\<exists>p2. peer_write env m q = (None, p2)" for m q using 1(5) by (simp add: peer_write_def)
  show ?case
  proof (cases "rs_queue (pr_requests p) = [] \<or> 2 \<le> rs_Requested (pr_requests p) \<and> pr_reqQ p \<le> int (rs_Requested (pr_requests p))")
    case True
    then have "maybeRequest_loop env p = Some p" by (subst maybeRequest_loop.simps) (auto simp: Let_def)
    then show ?thesis using 1(3) True by auto
  next
    case False
    then have go: "\<not> (isCongested env p \<or> rs_queue (pr_requests p) = [])"
      "\<not> (2 \<le> rs_Requested (pr_requests p) \<and> (pr_reqQ p \<le> int (rs_Requested (pr_requests p)) \<or> en_slow env (rs_Requested (pr_requests p))))"
      using 1(4,6) by (auto simp: isCongested_def)
    obtain rs1 q k where d: "rs_Dequeue (pr_requests p) = Some (rs1, q, k)"
      using False by (cases "rs_queue (pr_requests p)") (auto simp: rs_Dequeue_def)
    have "\<not> isCongested env p" using go(1) by simp
    note unf = maybeRequest_loop_go [OF this d go(2)]
    obtain i b where f: "fromChunk p k = Some (i, b)" using 1(3) unfolding unf by (auto split: option.splits)
    show ?thesis
    proof (cases "(\<not> pr_unchoked p \<and> \<not> isFast p i) \<or> \<not> hasPiece p (unat i)")
      case True
      then obtain p2 where p2: "drop_chunk env k (p\<lparr>pr_requests := rs1\<rparr>) = Some p2" "maybeRequest_loop env p2 = Some p'"
        using 1(3) unfolding unf f by (auto split: option.splits)
      show ?thesis by (rule 1(1) [OF refl go d refl refl f refl True p2(1) p2(2) 1(4-6)])
    next
      case no: False
      obtain p2 where w2: "peer_write env (Request i b (chunkSize p k)) (p\<lparr>pr_requests := rs1\<rparr>) = (None, p2)" using w by blast
      then obtain rs2 where rs2: "rs_EnqueueRequest (en_now env) rs1 q = Some rs2"
        "maybeRequest_loop env (p2\<lparr>pr_requests := rs2\<rparr>) = Some p'"
        using 1(3) no unfolding unf f by (auto split: option.splits)
      show ?thesis by (rule 1(2) [OF refl go d refl refl f refl no w2 [symmetric] refl rs2 1(4-6)])
    qed
  qed
qed

text \<open>
  Requests are sent. When the channel to the writer accepts everything and the rate does not
  hold it back, \<^verbatim>\<open>maybeRequest\<close> leaves the queue empty or as many requests in flight as the peer allows.
\<close>

theorem maybeRequest_progress:
  assumes "\<And>n. \<not> en_congested env n" "\<And>n. en_write env n = Written" "\<And>n. \<not> en_slow env n"
    and "pr_unchoked p" and "maybeRequest env p = Some p'"
  shows "rs_queue (pr_requests p') = [] \<or> 2 \<le> rs_Requested (pr_requests p') \<and> pr_reqQ p' \<le> int (rs_Requested (pr_requests p'))"
proof -
  obtain p1 where "maybeRequest_loop env p = Some p1" "pr_requests p' = pr_requests p1" "pr_reqQ p' = pr_reqQ p1"
    using assms(4,5) by (auto simp: maybeRequest_def)
  then show ?thesis using maybeRequest_loop_progress [OF assms(1-3)] by simp
qed

theorem maybeRequest_progress_witness:
  "\<exists>p'. maybeRequest ex_penv ex_queued = Some p' \<and> rs_queue (pr_requests p') = []"
proof -
  have "map_option (\<lambda>p'. rs_Requested (pr_requests p')) (maybeRequest ex_penv ex_queued) = Some 1" and "pr_unchoked ex_queued"
    by code_simp+
  then obtain p' where p': "maybeRequest ex_penv ex_queued = Some p'" "rs_Requested (pr_requests p') = 1" "pr_unchoked ex_queued" by auto
  from maybeRequest_progress [OF _ _ _ p'(3,1)] p' show ?thesis by (simp add: ex_penv_def)
qed

text \<open>
  Chunk numbers overflow. With pieces of three chunks, chunk 262144, which is the second chunk of
  piece 87381, is taken for the first one: the request that is sent asks for the
  wrong offset, and an event about it is taken by the torrent for an event about chunk 262143.
\<close>

theorem fromChunk_overflows:
  "ps_pieceSize (pr_Pieces p) = 3 * ChunkSize \<Longrightarrow>
   fromChunk p 262144 = Some (87381, 0) \<and> toChunk p 87381 0 = Some 262143 \<and> toChunk p 87381 ChunkSize = Some 262144"
  by (simp add: fromChunk_def toChunk_def ChunkSize_def)

theorem fromChunk_overflows_witness:
  "fromChunk (ex_peer\<lparr>pr_Pieces := ex_pieces\<lparr>ps_pieceSize := 3 * ChunkSize\<rparr>\<rparr>) 262144 = Some (87381, 0)"
  using fromChunk_overflows [of "ex_peer\<lparr>pr_Pieces := ex_pieces\<lparr>ps_pieceSize := 3 * ChunkSize\<rparr>\<rparr>"] by simp

subsection \<open>Uploading\<close>

lemma out_frames [simp]: "pr_out (startStopUpload env p) = pr_out p" "pr_out (active env p) = pr_out p"
  by (simp_all add: startStopUpload_def stopUpload_def Let_def active_def)

lemma reject_out: "reject env i b l p = (e, p') \<Longrightarrow>
    pr_out p' = pr_out p \<or> pr_canFast p \<and> pr_out p' = pr_out p @ [RejectRequest i b l]"
  by (auto simp: reject_def dest!: static_write split: if_splits)

lemma ReadAt_verified:
  assumes inv: "pieces_inv sha1 hashes ps" and d: "ReadAt ps n (int off) = Some (d, eof)"
  shows "\<exists>j k bs. d = take n (drop k bs) \<and>
    (d \<noteq> [] \<longrightarrow> j < length hashes \<and> sha1 bs = hashes ! j \<and> j * unat (ps_pieceSize ps) + k = off)"
proof (cases "d = []")
  case False
  let ?j = "off div unat (ps_pieceSize ps)" and ?k = "off mod unat (ps_pieceSize ps)"
  have lt: "int off < ps_length ps" using d False by (auto simp: ReadAt_def split: if_splits)
  note pos = ReadAt_position [OF pieces_invD(1) [OF inv] of_nat_0_le_iff lt, unfolded nat_int]
  note val = ReadAt_value [OF inv of_nat_0_le_iff lt, unfolded nat_int]
  have "piece_complete (ps_pieces ps ! ?j)" "d = take n (drop ?k (piece_bytes (ps_pieces ps ! ?j)))"
    using val(1) [of n] d False by (auto split: if_splits)
  then show ?thesis using val(2) pos(3) pieces_invD(2) [OF inv] div_mult_mod_eq by metis
qed (auto intro: exI [of _ "0 :: nat"] exI [of _ "[] :: byte list"])

text \<open>
  C12. Only verified data is uploaded, and only on request. In one run of the upload timer a peer
  sends at most one message: either the oldest request that the other side has made is
  rejected, or it is answered with exactly the bytes it asks for, which are part
  of a piece whose hash is the one in the metadata. Nothing is sent to a
  peer that is choked.
\<close>

theorem upload_is_verified:
  assumes "pieces_inv sha1 hashes (pr_Pieces p)" and "scheduleUpload env True p = Some (e, p')"
  shows "pr_out p' = pr_out p \<or>
    (\<exists>r rs. pr_amUnchoking p \<and> pr_requested p = r # rs \<and>
      (pr_canFast p \<and> pr_out p' = pr_out p @ [RejectRequest (ur_Index r) (ur_Begin r) (ur_Length r)] \<or>
       (\<exists>d j k bs. pr_out p' = pr_out p @ [Piece (ur_Index r) (ur_Begin r) d] \<and> length d = unat (ur_Length r) \<and>
          d = take (unat (ur_Length r)) (drop k bs) \<and>
          (d \<noteq> [] \<longrightarrow> j < length hashes \<and> sha1 bs = hashes ! j \<and>
            j * unat (ps_pieceSize (pr_Pieces p)) + k = unat (ur_Index r) * unat (ps_pieceSize (pr_Pieces p)) + unat (ur_Begin r)))))"
proof (cases "pr_amUnchoking p \<and> pr_requested p \<noteq> [] \<and> \<not> isCongested env p \<and> en_allow env")
  case False
  then have "scheduleUpload env True p = Some (None, startStopUpload env p)" unfolding scheduleUpload_def by auto
  then show ?thesis using assms(2) by auto
next
  case True
  then obtain r rs where r: "pr_requested p = r # rs" by (cases "pr_requested p") auto
  let ?S = "unat (ps_pieceSize (pr_Pieces p))"
  define off where "off = uint (ur_Index r) * uint (ps_pieceSize (pr_Pieces p)) + uint (ur_Begin r)"
  have off: "off = int (unat (ur_Index r) * ?S + unat (ur_Begin r))" by (simp add: off_def)
  let ?p1 = "p\<lparr>pr_requested := rs\<rparr>"
  obtain d eof where d: "ReadAt (pr_Pieces p) (unat (ur_Length r)) off = Some (d, eof)"
    using assms(2) True r unfolding scheduleUpload_def Let_def by (auto simp: off_def split: option.splits)
  show ?thesis
  proof (cases "length d = unat (ur_Length r)")
    case False
    obtain e2 p2 where rej: "reject env (ur_Index r) (ur_Begin r) (ur_Length r) ?p1 = (e2, p2)" by fastforce
    have "pr_out p' = pr_out p2"
      using assms(2) True r d False rej unfolding scheduleUpload_def Let_def by (auto simp: off_def split: option.splits)
    then show ?thesis using reject_out [OF rej] True r by auto
  next
    case len: True
    obtain e2 p2 where w: "peer_write env (Piece (ur_Index r) (ur_Begin r) d) ?p1 = (e2, p2)" by fastforce
    have out: "pr_out p' = pr_out p2"
      using assms(2) True r d len w unfolding scheduleUpload_def Let_def
      by (auto simp: off_def split: option.splits peer_error.splits)
    note ReadAt_verified [OF assms(1) d [unfolded off]]
    moreover have "pr_out p2 = pr_out p @ (if e2 = None then [Piece (ur_Index r) (ur_Begin r) d] else [])"
      using static_write [OF w] by simp
    ultimately show ?thesis using out True r len by (cases e2) auto
  qed
qed

definition ex_uploading :: peer where
  "ex_uploading = ex_peer\<lparr>pr_Pieces := cf_pieces (ex_after ex_complete), pr_amUnchoking := True,
     pr_requested := [\<lparr>ur_Index = 0, ur_Begin = 1, ur_Length = 3\<rparr>]\<rparr>"

theorem upload_is_verified_witness:
  "\<exists>p' d. scheduleUpload ex_penv True ex_uploading = Some (None, p') \<and>
    pr_out p' = pr_out ex_uploading @ [Piece 0 1 d] \<and> d = [2, 3, 4]"
proof -
  have i: "pieces_inv ex_sha1 ex_hashes (pr_Pieces ex_uploading)" by code_simp
  have "map_option (\<lambda>(e, p'). (e, drop (length (pr_out ex_uploading)) (pr_out p'))) (scheduleUpload ex_penv True ex_uploading)
      = Some (None, [Piece 0 1 [2, 3, 4]])" by code_simp
  then obtain p' where p': "scheduleUpload ex_penv True ex_uploading = Some (None, p')"
    "drop (length (pr_out ex_uploading)) (pr_out p') = [Piece 0 1 [2, 3, 4]]" by auto
  from upload_is_verified [OF i p'(1)] p' show ?thesis by auto
qed

subsection \<open>Interest and metadata\<close>

text \<open>
  We are interested in exactly the peers that have something for us. When \<^verbatim>\<open>maybeInterested\<close> returns
  without an error, the peer has been told that we are interested if and only if
  we should be, the metadata is known and the peer has a piece that we do not have; a message is
  sent only when this changes.
\<close>

theorem maybeInterested_correct:
  assumes "maybeInterested env p = (None, p')"
  shows "(pr_amInterested p' \<longleftrightarrow>
      pr_shouldInterested p \<and> pr_Info p \<noteq> None \<and> (\<exists>i. hasPiece p i \<and> \<not> bitmap_Get (pr_myBitmap p) i)) \<and>
    pr_out p' = pr_out p @ (if pr_amInterested p' = pr_amInterested p then []
      else [if pr_amInterested p' then Interested else NotInterested])"
proof -
  define want where "want = (pr_shouldInterested p \<and> pr_Info p \<noteq> None \<and>
      (case pr_bitmap p of None \<Rightarrow> False | Some b \<Rightarrow> list_ex (\<lambda>i. \<not> bitmap_Get (pr_myBitmap p) i) (bitmap_AllSet b)))"
  have w: "want \<longleftrightarrow> pr_shouldInterested p \<and> pr_Info p \<noteq> None \<and> (\<exists>i. hasPiece p i \<and> \<not> bitmap_Get (pr_myBitmap p) i)"
    by (auto simp: want_def hasPiece_def list_ex_iff bitset_simps split: option.splits)
  obtain e p1 where wr: "peer_write env (if want then Interested else NotInterested) p = (e, p1)" by fastforce
  show ?thesis
    using assms wr static_write [OF wr] unfolding w [symmetric] maybeInterested_def want_def [symmetric] Let_def
    by (auto split: if_splits option.splits)
qed

theorem maybeInterested_correct_witness:
  "\<exists>p'. maybeInterested ex_penv (ex_queued\<lparr>pr_shouldInterested := True\<rparr>) = (None, p') \<and> pr_amInterested p'"
proof -
  have "fst (maybeInterested ex_penv (ex_queued\<lparr>pr_shouldInterested := True\<rparr>)) = None"
    "pr_Info ex_queued \<noteq> None" "hasPiece (ex_queued\<lparr>pr_shouldInterested := True\<rparr>) 0" "\<not> bitmap_Get (pr_myBitmap ex_queued) 0"
    by code_simp+
  moreover obtain p' where "maybeInterested ex_penv (ex_queued\<lparr>pr_shouldInterested := True\<rparr>) = (None, p')"
    using calculation(1) by (metis prod.collapse)
  ultimately show ?thesis using maybeInterested_correct [of ex_penv "ex_queued\<lparr>pr_shouldInterested := True\<rparr>" p'] by auto
qed

lemma metadata_block_take: "metadata_block info piece = take 16384 (drop (unat piece * 16384) info)"
proof -
  define off where "off = unat piece * (16 * 1024)"
  have "(let l = (if off + 16 * 1024 > length info then int (length info) - int off else 16 * 1024)
      in if l > 0 then take (nat l) (drop off info) else []) = take 16384 (drop off info)"
  proof (cases "off < length info")
    case True
    then have "nat (int (length info) - int off) = length (drop off info)" by simp
    then show ?thesis using True by (auto simp: Let_def simp del: length_drop)
  qed (simp add: Let_def)
  then show ?thesis unfolding metadata_block_def Let_def off_def by simp
qed

lemma concat_blocks: "concat (map (\<lambda>i. take 16384 (drop (i * 16384) xs)) [0..<n]) = take (n * 16384) xs"
proof (induction n)
  case (Suc n)
  have "take (Suc n * 16384) xs = take (n * 16384 + 16384) xs" by (simp add: add.commute)
  then show ?case using Suc by (simp only: take_add) simp
qed simp

text \<open>
  The metadata is served completely: the blocks that \<^verbatim>\<open>ExtendedMetadata\<close> requests are answered
  with, for the indices below the number of blocks, are the metadata when put
  together, each but the last has 16 kB, and there is no block with a higher index.
\<close>

theorem metadata_blocks:
  assumes "length info < 2 ^ 32"
  shows "concat (map (\<lambda>i. metadata_block info (of_nat i)) [0..<(length info + 16383) div 16384]) = info \<and>
    (\<forall>piece. length (metadata_block info piece) = min 16384 (length info - unat piece * 16384))"
proof -
  let ?n = "(length info + 16383) div 16384"
  have n: "?n < 2 ^ 32" "length info \<le> ?n * 16384"
    using assms div_le_dividend [of "length info + 16383" 16384] by (simp_all add: div_less_iff_less_mult)
  have "map (\<lambda>i. metadata_block info (of_nat i)) [0..<?n] = map (\<lambda>i. take 16384 (drop (i * 16384) info)) [0..<?n]"
    using n(1) by (auto simp: metadata_block_take unat_of_nat_u32)
  then have "concat (map (\<lambda>i. metadata_block info (of_nat i)) [0..<?n]) = info" using n(2) by (simp only: concat_blocks) simp
  moreover have "length (metadata_block info piece) = min 16384 (length info - unat piece * 16384)" for piece
    by (simp add: metadata_block_take min.commute)
  ultimately show ?thesis by blast
qed

theorem metadata_blocks_witness:
  "concat (map (\<lambda>i. metadata_block [1, 2, 3] (of_nat i)) [0..<1]) = ([1, 2, 3] :: byte list)"
  using metadata_blocks [of "[1, 2, 3]"] by simp

end
