(* ===== verification/Tor.thy ===== *)
theory Tor
  imports Peer Requested
begin

section \<open>The state of a torrent and its bookkeeping (tor/tor.go, config/config.go)\<close>

text \<open>
  The goroutine of one torrent owns the record \<open>torrent\<close>, the fields of \<^verbatim>\<open>Torrent\<close>. A peer
  is a pointer (\<open>tp_ref\<close>) with the two fields that never change. Added to the fields of the
  code are the events that the peers have accepted (\<open>t_sent\<close>), the goroutines that were started
  (\<open>t_actions\<close>) and the answers to queries (\<open>t_replies\<close>).

  The record \<open>tenv\<close> is what the torrent does not determine: the time; which peers are
  terminated or have a full queue; what the peers answer when they are asked (\<open>pview\<close>); the
  random numbers and permutations, which also give the iteration order of Go's maps; and the
  results of floating-point computations. All of them depend on the number of operations so far
  (\<open>t_tick\<close>), so that they may change during a handler: it is increased by every write
  to a peer and by every random draw. A function that can panic returns an \<open>option\<close>.
  Logging is left out.
\<close>

subsection \<open>Configuration\<close>

type_synonym dhtMode = int

definition DhtNone :: dhtMode where "DhtNone = 0"
definition DhtPassive :: dhtMode where "DhtPassive = 1"
definition DhtNormal :: dhtMode where "DhtNormal = 2"

definition MinPeersPerTorrent :: nat where "MinPeersPerTorrent = 40"
definition MaxPeersPerTorrent :: nat where "MaxPeersPerTorrent = 50"

definition MemoryHighMark :: "int \<Rightarrow> int" where
  "MemoryHighMark MemoryMark = MemoryMark"

definition MemoryLowMark :: "int \<Rightarrow> int" where
  "MemoryLowMark MemoryMark = (MemoryMark * 7) sdiv 8"

subsection \<open>The data model\<close>

record tpeer =
  tp_ref :: nat
  tp_Counter :: u32
  tp_Id :: hash

record torfile =
  tf_Path :: "string list"
  tf_Offset :: int
  tf_Length :: int
  tf_Padding :: bool

datatype webseed_kind = GetRight | Hoffman

text \<open>The goroutines that a torrent starts, and its calls to the DHT.\<close>

datatype tor_action =
    Go_finalise u32 hash
  | Go_webseed webseed_kind nat u32 u32 u32
  | Go_peer nat "byte list option" bitmap "byte list"
  | Go_dial addrport
  | Go_tracker nat
  | Dht_Announce bool u16

record torConf =
  co_DhtMode :: dhtMode
  co_UseTrackers :: bool
  co_UseWebseeds :: bool

datatype tor_reply =
    RepStats int u32 nat nat nat nat
  | RepAvailable "u16 list"
  | RepDropped bool
  | RepPeer "tpeer option"
  | RepPeers "tpeer list"
  | RepKnown "known_peer option"
  | RepKnowns "known_peer list"
  | RepRequest "nat option option"
  | RepConf torConf
  | RepSetConf

record torrent =
  t_proxy :: string
  t_Hash :: hash
  t_MyId :: hash
  t_Info :: "byte list"
  t_CreationDate :: int
  t_trackers :: "nat list list"
  t_webseeds :: "(webseed_kind \<times> nat) list"
  t_infoComplete :: bool
  t_infoBitmap :: bitmap
  t_infoRequested :: "byte list"
  t_infoSizeVotes :: "(u32 \<times> int) list option"
  t_PieceHashes :: "hash list"
  t_Name :: string
  t_Files :: "torfile list"
  t_Pieces :: pieces
  t_available :: "u16 list"
  t_inFlight :: "byte list"
  t_amInterested :: bool
  t_requested :: requested
  t_reqTime :: gotime
  t_peers :: "tpeer list"
  t_known :: known_peers
  t_requestInterval :: gotime
  t_requestTicker :: bool
  t_announceTime :: gotime
  t_dhtMode :: dhtMode
  t_useTrackers :: bool
  t_useWebseeds :: bool
  t_sent :: "(nat \<times> peer_event) list"
  t_actions :: "tor_action list"
  t_replies :: "tor_reply list"
  t_tick :: nat

text \<open>The status of a peer; only the order of the average rates matters.\<close>

record pstatus =
  st_Unchoked :: bool
  st_Seed :: bool
  st_UploadOnly :: bool
  st_Qlen :: int
  st_AvgDownload :: int
  st_UnchokeTime :: gotime

record pview =
  pv_Addr :: addrport
  pv_Pex :: "pex_peer option"
  pv_CanPex :: bool
  pv_CanMetadata :: bool
  pv_Unchoked :: bool
  pv_Interested :: bool
  pv_AmUnchoking :: bool
  pv_Status :: "pstatus option"
  pv_Fast :: "u32 list"
  pv_Bitmap :: "bitmap option"
  pv_Have :: "u32 \<Rightarrow> bool"

record tenv =
  te_now :: gotime
  te_sys :: sysenv
  te_done :: "nat \<Rightarrow> nat \<Rightarrow> bool"
  te_full :: "nat \<Rightarrow> nat \<Rightarrow> bool"
  te_view :: "nat \<Rightarrow> nat \<Rightarrow> pview"
  te_perm :: "nat \<Rightarrow> nat \<Rightarrow> nat list"
  te_IntN :: "nat \<Rightarrow> nat \<Rightarrow> nat"
  te_ExternalPort :: "bool \<Rightarrow> bool \<Rightarrow> u16"
  te_IdleRate :: u32
  te_rateLow :: bool
  te_idleCount :: int
  te_interval :: gotime
  te_numChunks :: int
  te_peerChunks :: "nat \<Rightarrow> nat \<Rightarrow> int"
  te_memoryLow :: bool
  te_wsReady :: "nat \<Rightarrow> bool \<Rightarrow> bool"
  te_wsOrder :: "nat \<Rightarrow> nat list"
  te_wsBytes :: "nat \<Rightarrow> u32"
  te_trReady :: "nat \<Rightarrow> bool"
  te_trError :: "nat \<Rightarrow> bool"

text \<open>\<^verbatim>\<open>New\<close>, with the random id and the configuration as arguments.\<close>

definition Torrent_New ::
  "hash \<Rightarrow> torConf \<Rightarrow> string \<Rightarrow> hash \<Rightarrow> string \<Rightarrow> byte list \<Rightarrow> int \<Rightarrow> nat list list \<Rightarrow> (webseed_kind \<times> nat) list \<Rightarrow> torrent" where
  "Torrent_New myid conf proxy hsh dn info cdate announce webseeds =
     \<lparr>t_proxy = proxy, t_Hash = hsh, t_MyId = myid, t_Info = info, t_CreationDate = cdate,
      t_trackers = announce, t_webseeds = webseeds, t_infoComplete = False, t_infoBitmap = [],
      t_infoRequested = [], t_infoSizeVotes = None, t_PieceHashes = [], t_Name = dn, t_Files = [],
      t_Pieces = empty_pieces, t_available = [], t_inFlight = [], t_amInterested = False,
      t_requested = empty_requested, t_reqTime = 0, t_peers = [], t_known = [],
      t_requestInterval = 0, t_requestTicker = False, t_announceTime = 0, t_dhtMode = co_DhtMode conf,
      t_useTrackers = co_UseTrackers conf, t_useWebseeds = co_UseWebseeds conf, t_sent = [],
      t_actions = [], t_replies = [], t_tick = 0\<rparr>"

subsection \<open>The environment\<close>

definition tor_tick :: "torrent \<Rightarrow> torrent" where
  "tor_tick t = t\<lparr>t_tick := Suc (t_tick t)\<rparr>"

definition view :: "tenv \<Rightarrow> torrent \<Rightarrow> tpeer \<Rightarrow> pview" where
  "view env t p = te_view env (t_tick t) (tp_ref p)"

text \<open>The elements of a list in the order of a permutation of their indices.\<close>

definition shuffled :: "tenv \<Rightarrow> torrent \<Rightarrow> 'a list \<Rightarrow> 'a list" where
  "shuffled env t xs = map (\<lambda>i. xs ! i) (te_perm env (t_tick t) (length xs))"

text \<open>What the model relies on: \<^verbatim>\<open>rand.Perm(n)\<close> is a permutation of the numbers below n.\<close>

definition perm_ok :: "tenv \<Rightarrow> bool" where
  "perm_ok env \<longleftrightarrow> (\<forall>k n. mset (te_perm env k n) = mset [0..<n])"

definition act :: "tor_action \<Rightarrow> torrent \<Rightarrow> torrent" where
  "act a t = t\<lparr>t_actions := t_actions t @ [a]\<rparr>"

definition answer :: "tor_reply \<Rightarrow> torrent \<Rightarrow> torrent" where
  "answer r t = t\<lparr>t_replies := t_replies t @ [r]\<rparr>"

subsection \<open>Writing to peers\<close>

text \<open>The result says whether the peer has accepted the event.\<close>

definition writePeer :: "tenv \<Rightarrow> tpeer \<Rightarrow> peer_event \<Rightarrow> torrent \<Rightarrow> bool \<times> torrent" where
  "writePeer env p e t =
     (if te_done env (t_tick t) (tp_ref p) then (False, tor_tick t)
      else (True, tor_tick (t\<lparr>t_sent := t_sent t @ [(tp_ref p, e)]\<rparr>)))"

definition writePeers :: "tenv \<Rightarrow> peer_event \<Rightarrow> nat option \<Rightarrow> torrent \<Rightarrow> torrent" where
  "writePeers env e except t =
     foldl (\<lambda>s p. if Some (tp_ref p) \<noteq> except then snd (writePeer env p e s) else s) t (t_peers t)"

definition maybeWritePeer :: "tenv \<Rightarrow> tpeer \<Rightarrow> peer_event \<Rightarrow> torrent \<Rightarrow> peer_error option \<times> torrent" where
  "maybeWritePeer env p e t =
     (if te_full env (t_tick t) (tp_ref p) then (Some ErrCongested, tor_tick t)
      else if te_done env (t_tick t) (tp_ref p) then (Some IoEOF, tor_tick t)
      else (None, tor_tick (t\<lparr>t_sent := t_sent t @ [(tp_ref p, e)]\<rparr>)))"

text \<open>\<open>addr\<close> is the answer of \<^verbatim>\<open>p.GetAddr\<close>.\<close>

definition delPeer :: "tenv \<Rightarrow> nat \<Rightarrow> addrport \<Rightarrow> torrent \<Rightarrow> bool \<times> torrent" where
  "delPeer env p addr t =
     (let i = index_of (\<lambda>q. tp_ref q = p) (t_peers t);
          t1 = (case i of None \<Rightarrow> t | Some i \<Rightarrow> t\<lparr>t_peers := delete_at i (t_peers t)\<rparr>);
          t2 = (if snd addr > 0
                then writePeers env (PeerPex [\<lparr>px_addr = addr, px_flags = 0\<rparr>] False) None t1 else t1)
      in (i \<noteq> None, t2))"

subsection \<open>The request ticker\<close>

definition fastInterval :: gotime where "fastInterval = 250000000"
definition slowInterval :: gotime where "slowInterval = 2000000000"

definition setRequestInterval :: "gotime \<Rightarrow> torrent \<Rightarrow> torrent" where
  "setRequestInterval interval t =
     (if interval = t_requestInterval t \<or>
         (interval > 0 \<and> t_requestInterval t > interval - interval sdiv 8 \<and>
          t_requestInterval t < interval + interval sdiv 8)
      then t
      else if interval = 0
      then (if t_requestTicker t then t\<lparr>t_requestTicker := False, t_requestInterval := 0\<rparr> else t)
      else t\<lparr>t_requestTicker := True, t_requestInterval := interval\<rparr>)"

subsection \<open>Announcements, interest and finished pieces\<close>

definition hasProxy :: "torrent \<Rightarrow> bool" where
  "hasProxy t = (t_proxy t \<noteq> [])"

definition tor_announce :: "tenv \<Rightarrow> bool \<Rightarrow> torrent \<Rightarrow> torrent" where
  "tor_announce env ipv6 t =
     (if t_dhtMode t \<le> DhtNone then t
      else let port = (if \<not> hasProxy t \<and> t_dhtMode t \<ge> DhtNormal then te_ExternalPort env False ipv6 else 0)
           in (act (Dht_Announce ipv6 port) t)\<lparr>t_announceTime := te_now env\<rparr>)"

text \<open>\<^verbatim>\<open>finalisePiece\<close> starts a goroutine, whose outcome is reported to the torrent later.\<close>

definition finalisePiece :: "u32 \<Rightarrow> torrent \<Rightarrow> torrent" where
  "finalisePiece index t =
     (if index \<ge> of_nat (length (t_PieceHashes t)) then t
      else act (Go_finalise index (t_PieceHashes t ! unat index)) t)"

definition tor_maybeInterested :: "tenv \<Rightarrow> torrent \<Rightarrow> torrent" where
  "tor_maybeInterested env t =
     (if \<not> t_amInterested t \<and> length (rd_pieces (t_requested t)) > 0
      then writePeers env (PeerInterested True) None (t\<lparr>t_amInterested := True\<rparr>) else t)"

definition notInterested :: "tenv \<Rightarrow> torrent \<Rightarrow> torrent" where
  "notInterested env t =
     (if t_amInterested t
      then writePeers env (PeerInterested False) None (t\<lparr>t_amInterested := False\<rparr>) else t)"

text \<open>The channel that will be closed when the piece is complete, and whether it was added.\<close>

definition requestPiece ::
  "tenv \<Rightarrow> u32 \<Rightarrow> int \<Rightarrow> bool \<Rightarrow> bool \<Rightarrow> torrent \<Rightarrow> ((nat option \<times> bool) \<times> torrent) option" where
  "requestPiece env index prio request want t =
     (if index > of_nat (length (t_PieceHashes t)) then Some ((None, False), t)
      else let t1 = t\<lparr>t_reqTime := te_now env\<rparr> in
        if request then do {
          complete \<leftarrow> Pieces_Complete (t_Pieces t1) index;
          let (rs, ch, added) = rd_Add (t_requested t1) index prio (if complete then False else want);
          Some ((ch, added), tor_maybeInterested env (t1\<lparr>t_requested := rs\<rparr>))
        }
        else do {
          (rs, removed) \<leftarrow> rd_Del (t_requested t1) index prio;
          let t2 = t1\<lparr>t_requested := rs\<rparr>;
          Some ((None, False),
                if removed \<and> map_of (rd_pieces rs) index = None
                then writePeers env (PeerCancelPiece index) None t2 else t2)
        })"

subsection \<open>Availability and requests in flight\<close>

text \<open>The array is extended up to the index; the counters stick at their bounds.\<close>

definition noteAvailable :: "u32 \<Rightarrow> bool \<Rightarrow> torrent \<Rightarrow> torrent" where
  "noteAvailable index have t =
     (let i = unat index;
          av = (if length (t_available t) \<le> i
                then t_available t @ replicate (i - length (t_available t) + 1) 0 else t_available t)
      in if have
         then (if av ! i \<ge> - 1 then t\<lparr>t_available := av\<rparr> else t\<lparr>t_available := av[i := av ! i + 1]\<rparr>)
         else (if av ! i \<le> 0 then t\<lparr>t_available := av\<rparr> else t\<lparr>t_available := av[i := av ! i - 1]\<rparr>))"

definition noteInFlight :: "u32 \<Rightarrow> bool \<Rightarrow> torrent \<Rightarrow> torrent option" where
  "noteInFlight index have t =
     (let i = unat index; fl = t_inFlight t
      in if i \<ge> length fl then None
         else if have
         then (if fl ! i \<ge> - 1 then Some t else Some (t\<lparr>t_inFlight := fl[i := fl ! i + 1]\<rparr>))
         else (if fl ! i \<le> 0 then Some t else Some (t\<lparr>t_inFlight := fl[i := fl ! i - 1]\<rparr>)))"

definition available :: "torrent \<Rightarrow> u32 \<Rightarrow> u16" where
  "available t index = (if index \<ge> of_nat (length (t_available t)) then 0 else t_available t ! unat index)"

definition inFlight :: "torrent \<Rightarrow> u32 \<Rightarrow> byte option" where
  "inFlight t index =
     (if unat index < length (t_inFlight t) then Some (t_inFlight t ! unat index) else None)"

fun noteInFlights :: "u32 list \<Rightarrow> bool \<Rightarrow> torrent \<Rightarrow> torrent option" where
  "noteInFlights [] have t = Some t"
| "noteInFlights (c # cs) have t = do { t1 \<leftarrow> noteInFlight c have t; noteInFlights cs have t1 }"

definition tor_request :: "tenv \<Rightarrow> tpeer \<Rightarrow> u32 list \<Rightarrow> torrent \<Rightarrow> (peer_error option \<times> torrent) option" where
  "tor_request env p indices t =
     (let (e, t1) = maybeWritePeer env p (PeerRequest indices) t
      in if e = None then map_option (\<lambda>t2. (None, t2)) (noteInFlights indices True t1) else Some (e, t1))"

definition maxInFlight :: "int \<Rightarrow> byte" where
  "maxInFlight prio = (if prio > 0 then 3 else if prio \<ge> 0 then 2 else 1)"

definition hasWebseeds :: "torrent \<Rightarrow> bool" where
  "hasWebseeds t = (t_useWebseeds t \<and> length (t_webseeds t) > 0)"

text \<open>The highest priority of the pieces that can be requested. A panic in \<^verbatim>\<open>Complete\<close> is \<open>None\<close>.\<close>

definition piece_prio :: "torrent \<Rightarrow> u32 \<times> rpiece \<Rightarrow> int \<Rightarrow> int option" where
  "piece_prio t e prio = do {
     complete \<leftarrow> Pieces_Complete (t_Pieces t) (fst e);
     Some (if complete \<or> (\<not> hasWebseeds t \<and> available t (fst e) = 0) then prio
           else foldl (\<lambda>m p. if p > m then p else m) prio (rp_prio (snd e)))
   }"

fun pick_loop :: "torrent \<Rightarrow> (u32 \<times> rpiece) list \<Rightarrow> int \<Rightarrow> int option" where
  "pick_loop t [] prio = Some prio"
| "pick_loop t (e # es) prio = do { m \<leftarrow> piece_prio t e prio; pick_loop t es m }"

definition pickPriority :: "torrent \<Rightarrow> int option" where
  "pickPriority t = pick_loop t (rd_pieces (t_requested t)) IdlePriority"

end
