(* ===== verification/Tor_Request.thy ===== *)
theory Tor_Request
  imports Tor
begin

section \<open>Choosing what to request (tor/tor.go)\<close>

text \<open>
  The scheduler of a torrent: which chunks are wanted, which peers and web seeds are asked
  for them, and which pieces are fetched when no client wants any.
\<close>

subsection \<open>Chunks wanted by clients\<close>

type_synonym tchunk = "u32 \<times> int"

definition tor_cpp :: "torrent \<Rightarrow> u32" where
  "tor_cpp t = ps_pieceSize (t_Pieces t) div ChunkSize"

text \<open>The inner loop of \<^verbatim>\<open>getChunks\<close>; the second result is \<^verbatim>\<open>break outer\<close>.\<close>

fun chunk_loop ::
  "torrent \<Rightarrow> u32 \<Rightarrow> bitmap \<Rightarrow> int \<Rightarrow> int \<Rightarrow> nat list \<Rightarrow> tchunk list \<Rightarrow> (tchunk list \<times> bool) option" where
  "chunk_loop t index b prio mx [] acc = Some (acc, False)"
| "chunk_loop t index b prio mx (i # is) acc = do {
     let ch = index * tor_cpp t + of_nat i;
     f \<leftarrow> inFlight t ch;
     if f \<ge> maxInFlight prio then chunk_loop t index b prio mx is acc
     else if \<not> bitmap_Get b i
     then let acc' = acc @ [(ch, prio)]
          in if mx \<ge> 0 \<and> int (length acc') \<ge> mx then Some (acc', True)
             else chunk_loop t index b prio mx is acc'
     else chunk_loop t index b prio mx is acc
   }"

fun get_loop ::
  "int \<Rightarrow> int \<Rightarrow> (u32 \<times> rpiece) list \<Rightarrow> tchunk list \<Rightarrow> u32 list \<Rightarrow> torrent
     \<Rightarrow> ((tchunk list \<times> u32 list) \<times> torrent) option" where
  "get_loop prio mx [] acc un t = Some ((acc, un), t)"
| "get_loop prio mx ((index, r) # es) acc un t = do {
     skip \<leftarrow> (if \<not> hasPriority r prio then Some True else Pieces_Complete (t_Pieces t) index);
     if skip then get_loop prio mx es acc un t
     else if available t index \<le> 0 then get_loop prio mx es acc (un @ [index]) t
     else do {
       (n, b) \<leftarrow> PieceBitmap (t_Pieces t) index;
       if bitmap_All b n then get_loop prio mx es acc un (finalisePiece index t)
       else do {
         (acc', brk) \<leftarrow> chunk_loop t index b prio mx [0..<n] acc;
         if brk then Some ((acc', un), t) else get_loop prio mx es acc' un t
       }
     }
   }"

definition getChunks :: "tenv \<Rightarrow> int \<Rightarrow> int \<Rightarrow> torrent \<Rightarrow> ((tchunk list \<times> u32 list) \<times> torrent) option" where
  "getChunks env prio mx t =
     get_loop prio mx (shuffled env t (rd_pieces (t_requested t))) [] [] (tor_tick t)"

text \<open>The loop over the lower priorities.\<close>

function (sequential) more_chunks ::
  "tenv \<Rightarrow> int \<Rightarrow> int \<Rightarrow> tchunk list \<times> u32 list \<Rightarrow> torrent \<Rightarrow> ((tchunk list \<times> u32 list) \<times> torrent) option" where
  "more_chunks env cnt q (cs, un) t =
     (if int (length cs) < cnt \<and> q \<ge> - 1
      then (case getChunks env q (cnt - int (length cs)) t of
              None \<Rightarrow> None
            | Some ((cs1, un1), t1) \<Rightarrow> more_chunks env cnt (q - 1) (cs @ cs1, un @ un1) t1)
      else Some ((cs, un), t))"
  by pat_completeness auto
termination by (relation "measure (\<lambda>(env, cnt, q, c, t). nat (q + 2))") auto

subsection \<open>The files of a range\<close>

record filechunk =
  fc_path :: "string list option"
  fc_filelength :: int
  fc_offset :: int
  fc_length :: int
  fc_pad :: bool

fun file_loop :: "torfile list \<Rightarrow> int \<Rightarrow> int \<Rightarrow> filechunk list" where
  "file_loop [] off len = []"
| "file_loop (f # fs) off len =
     (if tf_Offset f + tf_Length f \<le> off then file_loop fs off len
      else if tf_Offset f \<ge> off + len then []
      else let m0 = tf_Length f - (off - tf_Offset f);
               m = (if m0 > len then len else m0)
           in \<lparr>fc_path = Some (tf_Path f), fc_filelength = tf_Length f, fc_offset = off - tf_Offset f,
               fc_length = m, fc_pad = tf_Padding f\<rparr>
              # (if len - m \<le> 0 then [] else file_loop fs (off + m) (len - m)))"

definition fileChunks :: "torrent \<Rightarrow> u32 \<Rightarrow> u32 \<Rightarrow> u32 \<Rightarrow> filechunk list" where
  "fileChunks t index offset len =
     (let off = uint index * uint (ps_pieceSize (t_Pieces t)) + uint offset
      in if t_Files t = []
         then [\<lparr>fc_path = None, fc_filelength = ps_length (t_Pieces t), fc_offset = off,
                fc_length = uint len, fc_pad = False\<rparr>]
         else file_loop (t_Files t) off (uint len))"

subsection \<open>Web seeds\<close>

text \<open>A hole starts at a chunk at or after the offset, and the next chunk is still below $2^{32}$.\<close>

lemma pieceChunks_bound: "pieceChunks ps i = Some n \<Longrightarrow> n < 262144"
proof -
  have "unat ((pl + ChunkSize - 1) div ChunkSize) < 262144" for pl :: u32
    using unat_u32_bound [of "pl + ChunkSize - 1"]
    by (simp only: unat_div unat_ChunkSize)
  then show "pieceChunks ps i = Some n \<Longrightarrow> n < 262144"
    by (auto simp: pieceChunks_def)
qed

lemma unat_chunk_offset: "n < 262144 \<Longrightarrow> unat (of_nat n * ChunkSize :: u32) = n * 16384"
  by (subst unat_mult_u32) (simp_all add: unat_of_nat)

lemma Hole_start:
  assumes "Hole ps i off = Some (o1, l)" and "o1 \<noteq> - 1"
  obtains first n where "pieceChunks ps i = Some n" "unat off div 16384 \<le> first" "first < n"
    "n < 262144" "o1 = of_nat first * ChunkSize" "unat o1 = first * 16384"
proof -
  from assms obtain p n first where ps: "piece_at ps i = Some p" "\<not> busyOrComplete p"
    "pieceChunks ps i = Some n"
    and f: "List.find (\<lambda>i. \<not> bitmap_Get (pc_bitmap p) i) [unat (off div ChunkSize)..<n] = Some first"
    and o1: "o1 = of_nat first * ChunkSize"
    by (auto simp: Hole_def bind_eq_Some_conv Let_def split: if_splits option.splits)
  have "unat off div 16384 \<le> first" "first < n"
    using f by (auto simp: find_Some_iff unat_div)
  moreover have "n < 262144" using ps pieceChunks_bound by blast
  ultimately show thesis using that ps o1 unat_chunk_offset [of first] by force
qed

lemma Hole_advances:
  assumes "Hole ps i off = Some (o1, l)" and "o1 \<noteq> - 1"
  shows "unat off < unat (o1 + ChunkSize)"
proof -
  obtain first n where f: "unat off div 16384 \<le> first" "first < n" "n < 262144" "unat o1 = first * 16384"
    "pieceChunks ps i = Some n"
    using Hole_start [OF assms] by metis
  have "first + 1 < 262144" using f(2,3) by linarith
  then have "unat (o1 + ChunkSize) = first * 16384 + 16384"
    using f(4) by (subst unat_add_u32) auto
  moreover have "unat off < (unat off div 16384) * 16384 + 16384"
    using mod_less_divisor [of 16384 "unat off"] div_mult_mod_eq [of "unat off" 16384] by linarith
  moreover have "unat off div 16384 * 16384 \<le> first * 16384" using f(1) by (rule mult_le_mono1)
  ultimately show ?thesis by linarith
qed

text \<open>The loop over the holes of a piece: the first hole with no request in flight.\<close>

function (sequential) hole_loop :: "torrent \<Rightarrow> u32 \<Rightarrow> u32 \<Rightarrow> (u32 \<times> u32) option option" where
  "hole_loop t index off =
     (case Hole (t_Pieces t) index off of
        None \<Rightarrow> None
      | Some (o1, l) \<Rightarrow>
          if o1 = - 1 then Some None
          else (case inFlight t (index * tor_cpp t + o1 div ChunkSize) of
                  None \<Rightarrow> None
                | Some f \<Rightarrow> if f = 0 then Some (Some (o1, l)) else hole_loop t index (o1 + ChunkSize)))"
  by pat_completeness auto
termination
proof (relation "measure (\<lambda>(t, index, off). 2 ^ 32 - unat off)", simp, goal_cases)
  case (1 t index off x o1 l f)
  then have "unat off < unat (o1 + ChunkSize)" using Hole_advances by blast
  then show ?case by (simp add: diff_less_mono2)
qed

definition webseed_length :: "u32 \<Rightarrow> u32 \<Rightarrow> u32" where
  "webseed_length bytes l =
     (if l > 1024 * 1024
      then let m = (if bytes > 1024 * 1024 then ((bytes + ChunkSize - 1) div ChunkSize) * ChunkSize else 1024 * 1024)
           in if l > m then m else l
      else l)"

definition webseed_chunks :: "torrent \<Rightarrow> u32 \<Rightarrow> u32 \<Rightarrow> u32 \<Rightarrow> u32 list" where
  "webseed_chunks t index off l =
     map (\<lambda>k. index * tor_cpp t + (off + of_nat k * ChunkSize) div ChunkSize) [0..<(unat l + 16383) div 16384]"

definition maybeWebseed :: "tenv \<Rightarrow> u32 \<Rightarrow> bool \<Rightarrow> torrent \<Rightarrow> (bool \<times> torrent) option" where
  "maybeWebseed env index idle t =
     (if \<not> hasWebseeds t then Some (False, t)
      else case List.find (\<lambda>n. te_wsReady env (snd (t_webseeds t ! n)) idle) (te_wsOrder env (t_tick t)) of
        None \<Rightarrow> Some (False, tor_tick t)
      | Some n \<Rightarrow>
          (case hole_loop t index 0 of
             None \<Rightarrow> None
           | Some None \<Rightarrow> Some (False, tor_tick t)
           | Some (Some (off, l0)) \<Rightarrow>
               let ws = t_webseeds t ! n;
                   l = webseed_length (te_wsBytes env (snd ws)) l0
               in map_option (\<lambda>t1. (True, act (Go_webseed (fst ws) (snd ws) index off l) t1))
                    (noteInFlights (webseed_chunks t index off l) True (tor_tick t))))"

subsection \<open>Pieces to fetch when idle\<close>

definition fastPieces :: int where "fastPieces = 8"

text \<open>
  The order of preference of \<^verbatim>\<open>pickIdlePieces\<close>, on indices of pieces. The numbers of missing
  chunks are those of \<^verbatim>\<open>PieceBitmap\<close>, which does not panic on the index of a piece.
\<close>

definition missing_chunks :: "pieces \<Rightarrow> nat \<Rightarrow> int" where
  "missing_chunks ps i =
     (case PieceBitmap ps (of_nat i) of None \<Rightarrow> 0 | Some (n, b) \<Rightarrow> int n - int (bitmap_Count b))"

definition idle_cmp :: "torrent \<Rightarrow> nat \<Rightarrow> nat \<Rightarrow> int" where
  "idle_cmp t i j =
     (let ps = t_Pieces t;
          c1 = piece_complete (ps_pieces ps ! i); c2 = piece_complete (ps_pieces ps ! j);
          a1 = available t (of_nat i); a2 = available t (of_nat j);
          e1 = bitmap_Empty (pc_bitmap (ps_pieces ps ! i)); e2 = bitmap_Empty (pc_bitmap (ps_pieces ps ! j))
      in if \<not> c1 \<and> c2 then - 1
         else if c1 \<and> \<not> c2 then 1
         else if c1 \<and> c2 then 0
         else if \<not> hasWebseeds t \<and> a1 > 0 \<and> a2 = 0 then - 1
         else if \<not> hasWebseeds t \<and> a1 = 0 \<and> a2 > 0 then 1
         else if \<not> hasWebseeds t \<and> a1 = 0 \<and> a2 = 0 then 0
         else if \<not> e1 \<and> e2 then - 1
         else if e1 \<and> \<not> e2 then 1
         else if e1 \<and> e2
         then (if Pieces_Count ps \<ge> 4
               then cmp_Compare (if a1 = 0 then 1 else a1) (if a2 = 0 then 1 else a2) else 0)
         else cmp_Compare (missing_chunks ps i) (missing_chunks ps j))"

text \<open>The closure \<^verbatim>\<open>add\<close>, on the number \<open>n\<close> of pieces added so far.\<close>

definition idle_add :: "tenv \<Rightarrow> int \<Rightarrow> u32 \<Rightarrow> int \<times> torrent \<Rightarrow> (bool \<times> int \<times> torrent) option" where
  "idle_add env cnt i s =
     (let (n, t) = s; (rs, _, added) = rd_Add (t_requested t) i IdlePriority False;
          t1 = t\<lparr>t_requested := rs, t_reqTime := te_now env\<rparr>
      in if \<not> added then Some (n \<ge> cnt, n, t1)
         else let t2 = tor_maybeInterested env t1
              in case PieceBitmap (t_Pieces t2) i of None \<Rightarrow> None | Some _ \<Rightarrow> Some (n + 1 \<ge> cnt, n + 1, t2))"

text \<open>The first and the last loop, which differ in where they stop.\<close>

fun idle_loop ::
  "tenv \<Rightarrow> (pieces \<Rightarrow> u32 \<Rightarrow> bool option) \<Rightarrow> int \<Rightarrow> nat list \<Rightarrow> int \<times> torrent \<Rightarrow> (bool \<times> int \<times> torrent) option" where
  "idle_loop env stop cnt [] s = Some (False, s)"
| "idle_loop env stop cnt (pn # ps) s = do {
     b \<leftarrow> stop (t_Pieces (snd s)) (of_nat pn);
     if b then Some (False, s)
     else if available (snd s) (of_nat pn) > 0 \<or> hasWebseeds (snd s)
     then do { (r, s1) \<leftarrow> idle_add env cnt (of_nat pn) s; if r then Some (True, s1) else idle_loop env stop cnt ps s1 }
     else idle_loop env stop cnt ps s
   }"

definition stop_untouched :: "pieces \<Rightarrow> u32 \<Rightarrow> bool option" where
  "stop_untouched ps i = do { c \<leftarrow> Pieces_Complete ps i; if c then Some True else PieceEmpty ps i }"

fun fast_loop :: "tenv \<Rightarrow> tpeer \<Rightarrow> int \<Rightarrow> u32 list \<Rightarrow> int \<times> torrent \<Rightarrow> (bool \<times> int \<times> torrent) option" where
  "fast_loop env p cnt [] s = Some (False, s)"
| "fast_loop env p cnt (i # is) s = do {
     c \<leftarrow> Pieces_Complete (t_Pieces (snd s)) i;
     if \<not> c \<and> pv_Have (view env (snd s) p) i
     then do { (r, s1) \<leftarrow> idle_add env cnt i s; if r then Some (True, s1) else fast_loop env p cnt is s1 }
     else fast_loop env p cnt is s
   }"

fun peers_fast :: "tenv \<Rightarrow> int \<Rightarrow> tpeer list \<Rightarrow> int \<times> torrent \<Rightarrow> (bool \<times> int \<times> torrent) option" where
  "peers_fast env cnt [] s = Some (False, s)"
| "peers_fast env cnt (p # ps) s = do {
     (r, s1) \<leftarrow> fast_loop env p cnt (pv_Fast (view env (snd s) p)) s;
     if r then Some (True, s1) else peers_fast env cnt ps s1
   }"

definition pickIdlePieces :: "tenv \<Rightarrow> int \<Rightarrow> torrent \<Rightarrow> torrent option" where
  "pickIdlePieces env cnt t = do {
     let ps = SortFunc (idle_cmp t) (te_perm env (t_tick t) (Pieces_Num (t_Pieces t)));
     let pcount = Pieces_Count (t_Pieces t);
     (r, s1) \<leftarrow> idle_loop env stop_untouched cnt ps (0, tor_tick t);
     if r then Some (snd s1)
     else if \<not> te_memoryLow env then Some (snd s1)
     else do {
       (r, s2) \<leftarrow> (if pcount < fastPieces then peers_fast env cnt (t_peers t) s1 else Some (False, s1));
       if r then Some (snd s2)
       else map_option (\<lambda>(r, s3). snd s3) (idle_loop env Pieces_Complete cnt ps s2)
     }
   }"

subsection \<open>Requesting chunks from peers\<close>

text \<open>
  What can be sent to one peer: the chunks taken and those left. The number of requests is
  limited by \<open>room\<close>.
\<close>

fun select_loop ::
  "torrent \<Rightarrow> pstatus \<Rightarrow> u32 list \<Rightarrow> bitmap \<Rightarrow> int \<Rightarrow> tchunk list \<Rightarrow> (tchunk list \<times> tchunk list) option" where
  "select_loop t st fast b room [] = Some ([], [])"
| "select_loop t st fast b room (c # cs) =
     (if room \<le> 0 then Some ([], c # cs)
      else if tor_cpp t = 0 then None
      else do {
        f \<leftarrow> inFlight t (fst c);
        let p = fst c div tor_cpp t;
        if f < maxInFlight (snd c) \<and> (st_Unchoked st \<or> p \<in> set fast) \<and> (st_Seed st \<or> bitmap_Get b (unat p))
        then map_option (\<lambda>(req, rest). (c # req, rest)) (select_loop t st fast b (room - 1) cs)
        else map_option (\<lambda>(req, rest). (req, c # rest)) (select_loop t st fast b room cs)
      })"

definition ask_peer :: "tenv \<Rightarrow> int \<Rightarrow> tpeer \<Rightarrow> tchunk list \<times> torrent \<Rightarrow> (tchunk list \<times> torrent) option" where
  "ask_peer env pcount p s =
     (let (chunks, t0) = s; t = tor_tick t0; v = view env t p;
          fast = (if \<not> pv_Unchoked v \<and> pcount < fastPieces then pv_Fast v else [])
      in if \<not> pv_Unchoked v \<and> fast = [] then Some (chunks, t)
         else case pv_Status v of
           None \<Rightarrow> Some (chunks, t)
         | Some st \<Rightarrow>
             let n = te_peerChunks env (t_tick t) (tp_ref p);
                 cmax = (if n \<le> 2 then 2 else n) - st_Qlen st
             in if cmax \<le> 0 \<or> (\<not> st_Seed st \<and> pv_Bitmap v = None) then Some (chunks, t)
                else do {
                  (req, rest) \<leftarrow> select_loop t st fast (case pv_Bitmap v of None \<Rightarrow> [] | Some b \<Rightarrow> b) cmax chunks;
                  if req = [] then Some (rest, t)
                  else do {
                    (e, t1) \<leftarrow> tor_request env p (map fst req) t;
                    Some (if e = None then rest else rest @ req, t1)
                  }
                })"

text \<open>One pass over the peers; it ends when no chunk is left.\<close>

fun ask_peers :: "tenv \<Rightarrow> int \<Rightarrow> tpeer list \<Rightarrow> tchunk list \<times> torrent \<Rightarrow> (tchunk list \<times> torrent) option" where
  "ask_peers env pcount [] s = Some s"
| "ask_peers env pcount (p # ps) s = do {
     s1 \<leftarrow> ask_peer env pcount p s;
     if fst s1 = [] then Some s1 else ask_peers env pcount ps s1
   }"

fun request_passes :: "tenv \<Rightarrow> int \<Rightarrow> nat \<Rightarrow> tchunk list \<times> torrent \<Rightarrow> (tchunk list \<times> torrent) option" where
  "request_passes env pcount 0 s = Some s"
| "request_passes env pcount (Suc n) s = do {
     s1 \<leftarrow> ask_peers env pcount (shuffled env (snd s) (t_peers (snd s))) (fst s, tor_tick (snd s));
     if fst s1 = [] \<and> t_peers (snd s) \<noteq> [] then Some s1 else request_passes env pcount n s1
   }"

fun webseed_pieces :: "tenv \<Rightarrow> bool \<Rightarrow> u32 list \<Rightarrow> torrent \<Rightarrow> torrent option" where
  "webseed_pieces env idle [] t = Some t"
| "webseed_pieces env idle (u # us) t = do {
     (d, t1) \<leftarrow> maybeWebseed env u idle t;
     if d then Some t1 else webseed_pieces env idle us t1
   }"

fun webseed_left :: "tenv \<Rightarrow> tchunk list \<Rightarrow> torrent \<Rightarrow> torrent option" where
  "webseed_left env [] t = Some t"
| "webseed_left env (c # cs) t = do {
     f \<leftarrow> inFlight t (fst c);
     if f = 0
     then do {
       (d, t1) \<leftarrow> maybeWebseed env (fst c div tor_cpp t) (snd c \<le> IdlePriority) t;
       if d then Some t1 else webseed_left env cs t1
     }
     else webseed_left env cs t
   }"

subsection \<open>The scheduler\<close>

text \<open>What is done before requesting, by priority; false when nothing is to be requested.\<close>

definition prepare_requests :: "tenv \<Rightarrow> int \<Rightarrow> torrent \<Rightarrow> (bool \<times> torrent) option" where
  "prepare_requests env prio t =
     (if prio > IdlePriority
      then map_option (\<lambda>rs. (True, t\<lparr>t_requested := rs, t_reqTime := te_now env\<rparr>)) (rd_DelIdle (t_requested t))
      else if te_IdleRate env = 0 then Some (False, setRequestInterval 0 t)
      else if te_rateLow env then Some (False, setRequestInterval slowInterval t)
      else let cnt = (if te_idleCount env < 2 then 2 else te_idleCount env);
               incomplete = int (rd_Count (\<lambda>i. Pieces_Complete (t_Pieces t) i = Some False) (t_requested t))
           in if list_ex (\<lambda>(i, _). Pieces_Complete (t_Pieces t) i = None) (rd_pieces (t_requested t)) then None
              else if incomplete < cnt then map_option (\<lambda>t1. (True, t1)) (pickIdlePieces env (cnt - incomplete) t)
              else Some (True, t))"

definition clamp_interval :: "gotime \<Rightarrow> gotime" where
  "clamp_interval i =
     (let i1 = (if i < fastInterval then fastInterval else i) in if i1 > slowInterval then slowInterval else i1)"

text \<open>
  Sending the requests for a list of chunks. The variable \<^verbatim>\<open>webseedDone\<close> of the first loop is
  local to it, so the web seeds are always asked again at the end. The first sort
  compares every chunk with itself.
\<close>

definition send_requests :: "tenv \<Rightarrow> int \<Rightarrow> int \<Rightarrow> tchunk list \<Rightarrow> u32 list \<Rightarrow> torrent \<Rightarrow> torrent option" where
  "send_requests env prio cnt chunks un t =
     (if \<not> hasWebseeds t \<and> t_peers t = [] then Some (setRequestInterval 0 t)
      else do {
        t1 \<leftarrow> (if hasWebseeds t then webseed_pieces env (prio \<le> IdlePriority) un t else Some t);
        let flight = (\<lambda>c. case inFlight t1 (fst c) of None \<Rightarrow> 0 | Some f \<Rightarrow> f);
        let cs = SortFunc (\<lambda>a b. cmp_Compare (flight a) (flight a)) chunks;
        (rest, t2) \<leftarrow> request_passes env (Pieces_Count (t_Pieces t1)) 4 (take (nat cnt) cs, t1);
        if hasWebseeds t2
        then webseed_left env (SortFunc (\<lambda>a b. cmp_Compare (fst a mod tor_cpp t2) (fst b mod tor_cpp t2)) rest) t2
        else Some t2
      })"

definition periodicRequest :: "tenv \<Rightarrow> torrent \<Rightarrow> torrent option" where
  "periodicRequest env t =
     (if \<not> t_infoComplete t then Some (setRequestInterval 0 t)
      else do {
        prio \<leftarrow> pickPriority t;
        (go, t1) \<leftarrow> prepare_requests env prio t;
        if \<not> go then Some t1
        else do {
          let t2 = setRequestInterval (clamp_interval (te_interval env)) t1;
          let cnt = (if te_numChunks env < 2 then 2 else te_numChunks env);
          (cu, t3) \<leftarrow> getChunks env prio (- 1) t2;
          (cu', t4) \<leftarrow> (if prio > IdlePriority then more_chunks env cnt (prio - 1) cu t3 else Some (cu, t3));
          if fst cu' = [] \<and> snd cu' = [] then Some (setRequestInterval slowInterval t4)
          else send_requests env prio cnt (fst cu') (snd cu') t4
        }
      })"

definition tor_maybeRequest :: "tenv \<Rightarrow> torrent \<Rightarrow> torrent option" where
  "tor_maybeRequest env t = do {
     prio \<leftarrow> pickPriority t;
     if prio > IdlePriority then periodicRequest env t else Some t
   }"

end
