(* ===== verification/Tor_Peers.thy ===== *)
theory Tor_Peers
  imports Tor
begin

section \<open>The peers of a torrent (tor/tor.go)\<close>

text \<open>Which peers are unchoked, connected to, dropped and announced to trackers.\<close>

subsection \<open>Unchoking\<close>

definition maxUnchoking :: nat where "maxUnchoking = 5"

text \<open>Peers that do not answer come last.\<close>

definition status_cmp :: "(pstatus \<Rightarrow> pstatus \<Rightarrow> int) \<Rightarrow> tenv \<Rightarrow> torrent \<Rightarrow> tpeer \<Rightarrow> tpeer \<Rightarrow> int" where
  "status_cmp f env t a b =
     (case (pv_Status (view env t a), pv_Status (view env t b)) of
        (None, None) \<Rightarrow> 0
      | (Some _, None) \<Rightarrow> - 1
      | (None, Some _) \<Rightarrow> 1
      | (Some s1, Some s2) \<Rightarrow> f s1 s2)"

definition unchoke_order :: "pstatus \<Rightarrow> pstatus \<Rightarrow> int" where
  "unchoke_order s1 s2 = cmp_Compare (st_UnchokeTime s1) (st_UnchokeTime s2)"

definition interest_order :: "bool \<Rightarrow> pstatus \<Rightarrow> pstatus \<Rightarrow> int" where
  "interest_order opportunistic s1 s2 =
     (if \<not> opportunistic \<and> st_AvgDownload s1 \<noteq> st_AvgDownload s2
      then cmp_Compare (st_AvgDownload s2) (st_AvgDownload s1)
      else cmp_Compare (st_UnchokeTime s1) (st_UnchokeTime s2))"

fun choke_excess :: "tenv \<Rightarrow> tpeer list \<Rightarrow> torrent \<Rightarrow> tpeer list \<times> torrent" where
  "choke_excess env [] t = ([], t)"
| "choke_excess env (p # ps) t =
     (if length (p # ps) > maxUnchoking then choke_excess env ps (snd (writePeer env p (PeerUnchoke False) t))
      else (p # ps, t))"

text \<open>
  The loop that unchokes interested peers while there are fewer than \<open>maxUnchoking\<close>, on the
  number \<open>u\<close> of peers that are unchoked. Its results are the number of peers that it has
  unchoked, the peers left, and whether the function returns.
\<close>

fun unchoke_loop :: "tenv \<Rightarrow> bool \<Rightarrow> nat \<Rightarrow> nat \<Rightarrow> tpeer list \<Rightarrow> torrent \<Rightarrow> (nat \<times> tpeer list \<times> bool) \<times> torrent" where
  "unchoke_loop env opp u n [] t = ((n, [], False), t)"
| "unchoke_loop env opp u n (p # ps) t =
     (if u + n < maxUnchoking
      then let (ok, t1) = writePeer env p (PeerUnchoke True) t
           in if ok then (if opp then ((Suc n, p # ps, True), t1) else unchoke_loop env opp u (Suc n) ps t1)
              else unchoke_loop env opp u n ps t1
      else ((n, p # ps, False), t))"

definition maybeUnchoke :: "tenv \<Rightarrow> bool \<Rightarrow> torrent \<Rightarrow> torrent" where
  "maybeUnchoke env periodic t0 =
     (let ps = shuffled env t0 (t_peers t0); t = tor_tick t0;
          unchoking = filter (\<lambda>p. pv_AmUnchoking (view env t p)) ps;
          interested = filter (\<lambda>p. \<not> pv_AmUnchoking (view env t p) \<and> pv_Interested (view env t p)) ps
      in if \<not> periodic \<and> length unchoking = maxUnchoking then t
         else let (unchoking, t1) = choke_excess env (SortFunc (status_cmp unchoke_order env t) unchoking) t
              in if \<not> periodic \<and> length unchoking \<ge> maxUnchoking then t1
                 else let opp = (te_IntN env (t_tick t1) 5 = 0); t2 = tor_tick t1;
                          interested = SortFunc (status_cmp (interest_order opp) env t2) interested;
                          ((n, left, ret), t3) = unchoke_loop env opp (length unchoking) 0 interested t2
                      in if ret \<or> \<not> periodic \<or> n > 0 then t3
                         else let left = dropWhile (\<lambda>p. pv_AmUnchoking (view env t3 p)) left
                              in if left \<noteq> [] \<and> unchoking \<noteq> []
                                 then snd (writePeer env (hd left) (PeerUnchoke True)
                                        (snd (writePeer env (hd unchoking) (PeerUnchoke False) t3)))
                                 else t3)"

subsection \<open>Finding peers\<close>

text \<open>\<^verbatim>\<open>slices.IndexFunc\<close> on the ids, which panics when an id does not have 20 bytes.\<close>

fun find_id :: "hash \<Rightarrow> tpeer list \<Rightarrow> tpeer option option" where
  "find_id h [] = Some None"
| "find_id h (p # ps) =
     (case hash_Equal h (tp_Id p) of None \<Rightarrow> None | Some True \<Rightarrow> Some (Some p) | Some False \<Rightarrow> find_id h ps)"

definition findPeer :: "torrent \<Rightarrow> hash \<Rightarrow> tpeer option option" where
  "findPeer t h = find_id h (t_peers t)"

fun idle_peer_loop :: "tenv \<Rightarrow> bool \<Rightarrow> tpeer list \<Rightarrow> torrent \<Rightarrow> (tpeer option \<times> torrent) option" where
  "idle_peer_loop env seed [] t = Some (None, t)"
| "idle_peer_loop env seed (p # ps) t =
     (let v = view env t p in
      if seed \<and> (case pv_Status v of None \<Rightarrow> True | Some s \<Rightarrow> st_Seed s \<or> st_UploadOnly s) then Some (Some p, t)
      else if snd (pv_Addr v) \<le> 0 then idle_peer_loop env seed ps t
      else do {
        (known, kp) \<leftarrow> known_Find (te_now env) (t_known t) (pv_Addr v) None [] KNone;
        let t1 = t\<lparr>t_known := known\<rparr>;
        (case kp of
           Some k \<Rightarrow> if te_now env - kp_ActiveTime k > 5 * time_Minute then Some (Some p, t1)
                     else idle_peer_loop env seed ps t1
         | None \<Rightarrow> idle_peer_loop env seed ps t1)
      })"

definition findIdlePeer :: "tenv \<Rightarrow> torrent \<Rightarrow> (tpeer option \<times> torrent) option" where
  "findIdlePeer env t =
     idle_peer_loop env (Pieces_All (t_Pieces t)) (shuffled env t (t_peers t)) (tor_tick t)"

subsection \<open>Connecting to known peers\<close>

definition reset_attempts :: "gotime \<Rightarrow> known_peer \<Rightarrow> known_peer" where
  "reset_attempts now kp = (if now - kp_ConnectAttemptTime kp > time_Hour then kp\<lparr>kp_Attempts := 0\<rparr> else kp)"

text \<open>Whether a known peer is to be connected to; \<open>None\<close> is a panic on an id of a wrong length.\<close>

definition connectable :: "tenv \<Rightarrow> torrent \<Rightarrow> known_peer \<Rightarrow> bool option" where
  "connectable env t kp =
     (if \<not> known_Recent (te_now env) kp \<or> known_Bad kp then Some False
      else do {
        dup \<leftarrow> (case kp_Id kp of
                 None \<Rightarrow> Some False
               | Some h \<Rightarrow> do {
                   me \<leftarrow> hash_Equal h (t_MyId t);
                   if me then Some True else map_option (\<lambda>p. p \<noteq> None) (findPeer t h)
                 });
        Some (\<not> dup \<and> \<not> (kp_Attempts kp \<ge> 3 \<or>
               te_now env - kp_ConnectAttemptTime kp < 2 ^ kp_Attempts kp * time_Minute))
      })"

fun connect_loop :: "tenv \<Rightarrow> nat \<Rightarrow> nat \<Rightarrow> (addrport \<times> known_peer) list \<Rightarrow> torrent \<Rightarrow> torrent option" where
  "connect_loop env mx n [] t = Some t"
| "connect_loop env mx n ((a, kp) # ks) t = do {
     c \<leftarrow> connectable env t kp;
     if \<not> c then connect_loop env mx n ks t
     else let t1 = act (Go_dial (kp_Addr kp))
                (t\<lparr>t_known := AList.update a (known_Update (te_now env) kp [] KConnectAttempt) (t_known t)\<rparr>)
          in if length (t_peers t1) + Suc n \<ge> mx then Some t1 else connect_loop env mx (Suc n) ks t1
   }"

definition maybeConnect :: "tenv \<Rightarrow> torrent \<Rightarrow> torrent option" where
  "maybeConnect env t =
     (let mx = (if hasProxy t then MaxPeersPerTorrent else MinPeersPerTorrent) in
      if length (t_peers t) \<ge> mx \<or> known_Count (t_known t) = 0 then Some t
      else let known = map (\<lambda>(a, kp). (a, reset_attempts (te_now env) kp)) (t_known t);
               t1 = t\<lparr>t_known := known\<rparr>;
               order = SortFunc (\<lambda>x y. cmp_Compare (kp_Attempts (snd x)) (kp_Attempts (snd y))) (shuffled env t1 known)
           in connect_loop env mx 0 order (tor_tick t1))"

subsection \<open>Announcing to trackers\<close>

text \<open>The tracker of a tier to announce to, if the first that is not in error is ready.\<close>

fun tier_ready :: "tenv \<Rightarrow> nat list \<Rightarrow> nat option" where
  "tier_ready env [] = None"
| "tier_ready env (tr # tier) =
     (if te_trReady env tr then Some tr else if \<not> te_trError env tr then None else tier_ready env tier)"

fun announce_tiers :: "tenv \<Rightarrow> nat list list \<Rightarrow> torrent \<Rightarrow> torrent" where
  "announce_tiers env [] t = t"
| "announce_tiers env (tier # tiers) t =
     (case tier_ready env tier of Some tr \<Rightarrow> act (Go_tracker tr) t | None \<Rightarrow> announce_tiers env tiers t)"

definition trackerAnnounce :: "tenv \<Rightarrow> torrent \<Rightarrow> torrent" where
  "trackerAnnounce env t = announce_tiers env (shuffled env t (t_trackers t)) (tor_tick t)"

end
