(* ===== verification/Metadata.thy ===== *)
theory Metadata
  imports Tor
begin

section \<open>The metadata of a torrent (tor/torfile.go, tor/metadata.go)\<close>

text \<open>
  The metadata is the bencoded info dictionary. It comes from a torrent file or from the
  peers, 16 kB at a time. The decoder of the bencode package and SHA-1 are the parameters
  of the model, in the record \<open>mcodec\<close>. A nil slice is \<open>None\<close> where the code tells it from an
  empty one.
\<close>

subsection \<open>The data model\<close>

record bfile =
  bf_Path :: "string list option"
  bf_Path8 :: "string list option"
  bf_Length :: int
  bf_Attr :: string

record binfo =
  bi_Name :: string
  bi_Name8 :: string
  bi_PieceLength :: u32
  bi_Pieces :: "byte list"
  bi_Length :: int
  bi_Files :: "bfile list option"

record mcodec =
  mc_sha1 :: "byte list \<Rightarrow> hash"
  mc_decode :: "byte list \<Rightarrow> binfo option"

datatype meta_error =
    ErrDecode | ErrOddPieces | ErrOddPiece | ErrBothLength | ErrNeither | ErrNoPath | ErrTooLarge
  | ErrNoName | ErrMetaComplete | ErrBadSize | ErrUnknownSize | ErrInconsistentSize
  | ErrBeyondMetadata | ErrInconsistentLength | ErrMetaMismatch

text \<open>Arithmetic of \<^verbatim>\<open>int64\<close>.\<close>

definition wrap64 :: "int \<Rightarrow> int" where
  "wrap64 x = (x + 2 ^ 63) mod 2 ^ 64 - 2 ^ 63"

subsection \<open>Decoding the info dictionary\<close>

definition piece_hashes :: "byte list \<Rightarrow> hash list" where
  "piece_hashes ps = map (\<lambda>i. take 20 (drop (i * 20) ps)) [0..<length ps div 20]"

text \<open>The loop over the files, on the length so far and the files so far.\<close>

fun make_files :: "bfile list \<Rightarrow> int \<Rightarrow> torfile list \<Rightarrow> (int \<times> torfile list) option" where
  "make_files [] len fs = Some (len, fs)"
| "make_files (f # bs) len fs =
     (case (if bf_Path8 f = None then bf_Path f else bf_Path8 f) of
        None \<Rightarrow> None
      | Some path \<Rightarrow>
          make_files bs (wrap64 (len + bf_Length f))
            (fs @ [\<lparr>tf_Path = path, tf_Offset = len, tf_Length = bf_Length f,
                    tf_Padding = (CHR ''p'' \<in> set (bf_Attr f))\<rparr>]))"

text \<open>The total length and the files, or an error.\<close>

definition info_files :: "binfo \<Rightarrow> meta_error + (int \<times> torfile list)" where
  "info_files info =
     (if bi_Length info > 0
      then (if bi_Files info \<noteq> None then Inl ErrBothLength else Inr (bi_Length info, []))
      else case bi_Files info of
        None \<Rightarrow> Inl ErrNeither
      | Some bs \<Rightarrow> (case make_files bs 0 [] of None \<Rightarrow> Inl ErrNoPath | Some r \<Rightarrow> Inr r))"

definition num_chunks :: "int \<Rightarrow> int" where
  "num_chunks len = wrap64 (len + uint ChunkSize - 1) sdiv uint ChunkSize"

text \<open>
  \<^verbatim>\<open>MetadataComplete\<close>. The last error comes after some of the fields have been set. It panics
  in \<^verbatim>\<open>Pieces.MetadataComplete\<close>.
\<close>

definition Torrent_MetadataComplete :: "mcodec \<Rightarrow> torrent \<Rightarrow> (meta_error option \<times> torrent) option" where
  "Torrent_MetadataComplete c t =
     (case mc_decode c (t_Info t) of
        None \<Rightarrow> Some (Some ErrDecode, t)
      | Some info \<Rightarrow>
          if length (bi_Pieces info) mod 20 \<noteq> 0 then Some (Some ErrOddPieces, t)
          else if bi_PieceLength info mod ChunkSize \<noteq> 0 then Some (Some ErrOddPiece, t)
          else (case info_files info of
            Inl e \<Rightarrow> Some (Some e, t)
          | Inr (len, files) \<Rightarrow>
              let chunks = num_chunks len
              in if chunks \<noteq> chunks mod 2 ^ 32 then Some (Some ErrTooLarge, t)
                 else let t1 = t\<lparr>t_inFlight := replicate (nat chunks) 0,
                                 t_PieceHashes := piece_hashes (bi_Pieces info),
                                 t_Name := (if bi_Name8 info \<noteq> [] then bi_Name8 info else bi_Name info)\<rparr>
                      in if t_Name t1 = [] then Some (Some ErrNoName, t1)
                         else map_option (\<lambda>ps. (None, t1\<lparr>t_Pieces := ps, t_Files := files, t_infoComplete := True\<rparr>))
                                (Pieces_MetadataComplete (t_Pieces t1) (bi_PieceLength info) len)))"

subsection \<open>Metadata from peers\<close>

text \<open>The loop runs over the indices of the random permutation, not over its elements.\<close>

definition metadataPeers :: "tenv \<Rightarrow> nat \<Rightarrow> torrent \<Rightarrow> tpeer list" where
  "metadataPeers env cnt t = take (max 1 cnt) (filter (\<lambda>p. pv_CanMetadata (view env t p)) (t_peers t))"

definition bad_size :: "u32 \<Rightarrow> bool" where
  "bad_size sz = (sz \<le> 0 \<or> sz > 128 * 1024 * 1024)"

definition metadataVote :: "u32 \<Rightarrow> torrent \<Rightarrow> meta_error option \<times> torrent" where
  "metadataVote sz t =
     (if t_infoComplete t then (Some ErrMetaComplete, t)
      else if bad_size sz then (Some ErrBadSize, t)
      else let votes = (case t_infoSizeVotes t of None \<Rightarrow> [] | Some m \<Rightarrow> m);
               n = (case map_of votes sz of None \<Rightarrow> 0 | Some n \<Rightarrow> n)
           in (None, t\<lparr>t_infoSizeVotes := Some (AList.update sz (n + 1) votes)\<rparr>))"

text \<open>The loop keeps the first size with the most votes, in the order of the iteration.\<close>

definition metadataGuess :: "tenv \<Rightarrow> torrent \<Rightarrow> u32 option" where
  "metadataGuess env t =
     (if t_infoComplete t then None
      else case t_infoSizeVotes t of
        None \<Rightarrow> Some 0
      | Some votes \<Rightarrow>
          Some (snd (foldl (\<lambda>(n, sz) (s, c). if c > n then (c, s) else (n, sz)) (- 1, 0) (shuffled env t votes))))"

definition resizeMetadata :: "u32 \<Rightarrow> torrent \<Rightarrow> meta_error option \<times> torrent" where
  "resizeMetadata sz t =
     (if t_infoComplete t then (Some ErrMetaComplete, t)
      else if bad_size sz then (Some ErrBadSize, t)
      else if length (t_Info t) \<noteq> unat sz
      then (None, t\<lparr>t_Info := replicate (unat sz) 0, t_infoBitmap := [],
                    t_infoRequested := replicate (unat ((sz + 16 * 1024 - 1) div (16 * 1024))) 0\<rparr>)
      else (None, t))"

definition meta_cmp :: "torrent \<Rightarrow> nat \<Rightarrow> nat \<Rightarrow> int" where
  "meta_cmp t i j =
     (let ai = bitmap_Get (t_infoBitmap t) i; aj = bitmap_Get (t_infoBitmap t) j
      in if \<not> ai \<and> aj then - 1 else if ai \<and> \<not> aj then 1
         else cmp_Compare (t_infoRequested t ! i) (t_infoRequested t ! j))"

text \<open>Every peer is asked for one block, in the order of preference.\<close>

fun ask_metadata :: "tenv \<Rightarrow> tpeer list \<Rightarrow> nat list \<Rightarrow> torrent \<Rightarrow> torrent" where
  "ask_metadata env [] cn t = t"
| "ask_metadata env (p # ps) cn t =
     (case cn of
        [] \<Rightarrow> t
      | i # cn' \<Rightarrow>
          if bitmap_Get (t_infoBitmap t) i then t
          else let (e, t1) = maybeWritePeer env p (PeerGetMetadata (of_nat i)) t
               in if e = None
                  then ask_metadata env ps cn'
                         (t1\<lparr>t_infoRequested := (t_infoRequested t1)[i := t_infoRequested t1 ! i + 1]\<rparr>)
                  else ask_metadata env ps cn t1)"

definition requestMetadata :: "tenv \<Rightarrow> tpeer option \<Rightarrow> torrent \<Rightarrow> (meta_error option \<times> torrent) option" where
  "requestMetadata env p t =
     (if t_infoComplete t then Some (Some ErrMetaComplete, t)
      else do {
        guess \<leftarrow> metadataGuess env t;
        if guess = 0 then Some (Some ErrUnknownSize, t)
        else let (e, t1) = (if of_nat (length (t_Info t)) \<noteq> guess then resizeMetadata guess t else (None, t))
             in if e \<noteq> None then Some (e, t1)
                else let peers = (case p of None \<Rightarrow> metadataPeers env 8 t1 | Some q \<Rightarrow> [q]);
                         t2 = tor_tick t1;
                         cn = SortFunc (meta_cmp t2) (te_perm env (t_tick t2) (length (t_infoRequested t2)))
                     in Some (None, ask_metadata env peers cn (tor_tick t2))
      })"

text \<open>\<^verbatim>\<open>copy(t.Info[index*16*1024:], data)\<close> is \<open>copy_at\<close>, which panics beyond the end.\<close>

definition forget_metadata :: "torrent \<Rightarrow> torrent" where
  "forget_metadata t = t\<lparr>t_Info := [], t_infoBitmap := [], t_infoRequested := []\<rparr>"

definition gotMetadata ::
  "mcodec \<Rightarrow> u32 \<Rightarrow> u32 \<Rightarrow> byte list \<Rightarrow> torrent \<Rightarrow> ((bool \<times> meta_error option) \<times> torrent) option" where
  "gotMetadata c index sz data t =
     (if t_infoComplete t then Some ((False, Some ErrMetaComplete), t)
      else if sz \<noteq> of_nat (length (t_Info t)) then Some ((False, Some ErrInconsistentSize), t)
      else if unat index > length (t_infoRequested t) then Some ((False, Some ErrBeyondMetadata), t)
      else if length data \<noteq> 16 * 1024 \<and> unat index * 16 * 1024 + length data \<noteq> length (t_Info t)
      then Some ((False, Some ErrInconsistentLength), t)
      else if bitmap_Get (t_infoBitmap t) (unat index) then Some ((False, None), t)
      else do {
        info \<leftarrow> copy_at (t_Info t) (unat (index * 16 * 1024)) data;
        let t1 = t\<lparr>t_Info := info, t_infoBitmap := bitmap_Set (t_infoBitmap t) (unat index)\<rparr>;
        if list_ex (\<lambda>i. \<not> bitmap_Get (t_infoBitmap t1) i) [0..<length (t_infoRequested t)]
        then Some ((False, None), t1)
        else do {
          eq \<leftarrow> hash_Equal (mc_sha1 c info) (t_Hash t1);
          if \<not> eq then Some ((False, Some ErrMetaMismatch), forget_metadata t1)
          else do {
            (e, t2) \<leftarrow> Torrent_MetadataComplete c t1;
            if e \<noteq> None then Some ((False, e), forget_metadata t2)
            else Some ((True, None), t2\<lparr>t_infoSizeVotes := None, t_infoBitmap := [], t_infoRequested := []\<rparr>)
          }
        }
      })"

end
