(* ===== verification/Tor_Events.thy ===== *)
theory Tor_Events
  imports Tor_Request Tor_Peers Metadata
begin

section \<open>The events of a torrent (tor/tor.go, peer/event.go)\<close>

text \<open>
  Every event the goroutine of a torrent receives, and the branches of its main loop.
  \<open>From p e\<close> is an event that a peer sends; \<open>p\<close> is the field for the peer, which
  is nil in the events of a writer and of a tracker. The channels for the answers are left out:
  an answer is recorded in \<open>t_replies\<close>.
\<close>

datatype tor_input =
    From "tpeer option" tor_event
  | TorAddPeer tpeer "byte list"
  | TorBadPeer u32 bool
  | TorGetStats
  | TorGetAvailable
  | TorDropPeer
  | TorGetPeer hash
  | TorGetPeers
  | TorGetKnown "hash option" addrport
  | TorGetKnowns
  | TorRequest u32 int bool bool
  | TorHave u32 bool
  | TorAnnounce bool
  | TorGetConf
  | TorSetConf torConf bool
  | TorGoAway

subsection \<open>Events of peers\<close>

definition tor_active :: "tenv \<Rightarrow> tpeer \<Rightarrow> torrent \<Rightarrow> torrent option" where
  "tor_active env p t =
     (let addr = pv_Addr (view env t p)
      in if snd addr > 0
         then map_option (\<lambda>(k, _). t\<lparr>t_known := k\<rparr>) (known_Find (te_now env) (t_known t) addr None [] KActive)
         else Some t)"

definition handle_TorAddPeer :: "tenv \<Rightarrow> tpeer \<Rightarrow> byte list \<Rightarrow> torrent \<Rightarrow> torrent" where
  "handle_TorAddPeer env p init t =
     (let t1 = act (Go_peer (tp_ref p) (if t_infoComplete t then Some (t_Info t) else None)
                     (Pieces_Bitmap (t_Pieces t)) init)
                 (t\<lparr>t_peers := t_peers t @ [p]\<rparr>);
          t2 = (case pv_Pex (view env t1 p) of
                  None \<Rightarrow> t1
                | Some x \<Rightarrow> writePeers env (PeerPex [x] True) (Some (tp_ref p)) t1)
      in if t_amInterested t2 then snd (writePeer env p (PeerInterested True) t2) else t2)"

text \<open>The part of \<^verbatim>\<open>TorPeerExtended\<close> about the metadata; true when there was no error.\<close>

definition offer_metadata :: "tenv \<Rightarrow> tpeer \<Rightarrow> u32 \<Rightarrow> torrent \<Rightarrow> (bool \<times> torrent) option" where
  "offer_metadata env p sz t =
     (if \<not> t_infoComplete t \<and> sz \<noteq> 0
      then let (e, t1) = metadataVote sz t
           in if e \<noteq> None then Some (False, t1)
              else map_option (\<lambda>(e, t2). (e = None, t2)) (requestMetadata env (Some p) t1)
      else Some (True, t))"

definition handle_TorPeerExtended :: "tenv \<Rightarrow> tpeer \<Rightarrow> u32 \<Rightarrow> torrent \<Rightarrow> torrent option" where
  "handle_TorPeerExtended env p sz t = do {
     (ok, t1) \<leftarrow> offer_metadata env p sz t;
     if \<not> ok then Some t1
     else let t2 = (case pv_Pex (view env t1 p) of
                      None \<Rightarrow> t1
                    | Some x \<Rightarrow> writePeers env (PeerPex [x] True) (Some (tp_ref p)) t1);
              pp = List.map_filter (\<lambda>q. pv_Pex (view env t2 q)) (filter (\<lambda>q. tp_ref q \<noteq> tp_ref p) (t_peers t2))
          in Some (if pv_CanPex (view env t2 p) \<and> pp \<noteq> [] then snd (writePeer env p (PeerPex pp True) t2) else t2)
   }"

definition handle_TorAddKnown ::
  "tenv \<Rightarrow> tpeer option \<Rightarrow> addrport \<Rightarrow> hash option \<Rightarrow> string \<Rightarrow> known_kind \<Rightarrow> torrent \<Rightarrow> torrent option" where
  "handle_TorAddKnown env p addr pid version kind t = do {
     (known, kp) \<leftarrow> known_Find (te_now env) (t_known t) addr pid version kind;
     let t1 = t\<lparr>t_known := known\<rparr>;
     Some (case (kp, p) of
             (Some k, Some q) \<Rightarrow>
               if kind = KSeen \<and> known_ReallyBad k then snd (writePeer env q PeerDone t1) else t1
           | _ \<Rightarrow> t1)
   }"

definition handle_TorBadPeer :: "tenv \<Rightarrow> u32 \<Rightarrow> bool \<Rightarrow> torrent \<Rightarrow> torrent option" where
  "handle_TorBadPeer env counter bad t =
     (case index_of (\<lambda>p. counter = tp_Counter p) (t_peers t) of
        None \<Rightarrow> Some t
      | Some i \<Rightarrow>
          let p = t_peers t ! i; addr = pv_Addr (view env t p)
          in if snd addr > 0
             then do {
               (known, kp) \<leftarrow> known_Find (te_now env) (t_known t) addr None [] (if bad then KBad else KGood);
               let t1 = t\<lparr>t_known := known\<rparr>;
               Some (case kp of
                       Some k \<Rightarrow> if known_Bad k
                                 then (if te_IntN env (t_tick t1) 5 = 0 then snd (writePeer env p PeerDone (tor_tick t1))
                                       else tor_tick t1)
                                 else t1
                     | None \<Rightarrow> t1)
             }
             else Some (if bad then snd (writePeer env p PeerDone t) else t))"

text \<open>The chunks of an event about \<open>len\<close> bytes: a last short chunk is not counted.\<close>

definition event_chunks :: "torrent \<Rightarrow> u32 \<Rightarrow> u32 \<Rightarrow> u32 \<Rightarrow> u32 list" where
  "event_chunks t index off len =
     map (\<lambda>i. index * tor_cpp t + off div ChunkSize + of_nat i) [0..<unat (len div ChunkSize)]"

fun data_loop :: "tenv \<Rightarrow> nat option \<Rightarrow> u32 list \<Rightarrow> torrent \<Rightarrow> torrent option" where
  "data_loop env p [] t = Some t"
| "data_loop env p (c # cs) t = do {
     t1 \<leftarrow> noteInFlight c False t;
     f \<leftarrow> inFlight t1 c;
     data_loop env p cs (if f > 0 then writePeers env (PeerCancel c) p t1 else t1)
   }"

definition bad_range :: "torrent \<Rightarrow> u32 \<Rightarrow> u32 \<Rightarrow> bool" where
  "bad_range t off len = (off mod ChunkSize \<noteq> 0 \<or> off + len > ps_pieceSize (t_Pieces t))"

definition handle_TorData ::
  "tenv \<Rightarrow> tpeer option \<Rightarrow> u32 \<Rightarrow> u32 \<Rightarrow> u32 \<Rightarrow> bool \<Rightarrow> torrent \<Rightarrow> torrent option" where
  "handle_TorData env p index off len complete t =
     (if \<not> t_infoComplete t then Some t
      else do {
        t1 \<leftarrow> (case p of None \<Rightarrow> Some t | Some q \<Rightarrow> tor_active env q t);
        if bad_range t1 off len then Some t1
        else let t2 = (if complete then finalisePiece index t1 else t1)
             in data_loop env (map_option tp_ref p) (event_chunks t2 index off len) t2
      })"

definition handle_TorDrop :: "u32 \<Rightarrow> u32 \<Rightarrow> u32 \<Rightarrow> torrent \<Rightarrow> torrent option" where
  "handle_TorDrop index off len t =
     (if \<not> t_infoComplete t \<or> bad_range t off len then Some t
      else noteInFlights (event_chunks t index off len) False t)"

definition handle_TorMetaData ::
  "tenv \<Rightarrow> mcodec \<Rightarrow> tpeer \<Rightarrow> u32 \<Rightarrow> u32 \<Rightarrow> byte list \<Rightarrow> torrent \<Rightarrow> torrent option" where
  "handle_TorMetaData env c p sz index data t =
     (if t_infoComplete t then Some t
      else do {
        t1 \<leftarrow> tor_active env p t;
        ((fin, e), t2) \<leftarrow> gotMetadata c index sz data t1;
        if e \<noteq> None then Some t2
        else if \<not> fin then map_option snd (requestMetadata env (Some p) t2)
        else periodicRequest env (writePeers env (PeerMetadataComplete (t_Info t2)) None t2)
      })"

definition handle_TorPeerBitmap :: "bitmap option \<Rightarrow> bool \<Rightarrow> torrent \<Rightarrow> torrent" where
  "handle_TorPeerBitmap b have t =
     foldl (\<lambda>s i. noteAvailable (of_nat i) have s) t (case b of None \<Rightarrow> [] | Some c \<Rightarrow> bitmap_AllSet c)"

definition handle_TorPeerGoaway :: "tenv \<Rightarrow> tpeer \<Rightarrow> torrent \<Rightarrow> torrent" where
  "handle_TorPeerGoaway env p t =
     maybeUnchoke env False (snd (delPeer env (tp_ref p) (pv_Addr (view env t p)) t))"

text \<open>A nil peer where the code follows the pointer is a panic.\<close>

fun handle_peer_event :: "tenv \<Rightarrow> mcodec \<Rightarrow> tpeer option \<Rightarrow> tor_event \<Rightarrow> torrent \<Rightarrow> torrent option" where
  "handle_peer_event env c p (TorPeerExtended sz) t =
     (case p of None \<Rightarrow> None | Some q \<Rightarrow> handle_TorPeerExtended env q sz t)"
| "handle_peer_event env c p (TorAddKnown a i v k) t = handle_TorAddKnown env p a i v k t"
| "handle_peer_event env c p TorPeerGoaway t =
     (case p of None \<Rightarrow> None | Some q \<Rightarrow> Some (handle_TorPeerGoaway env q t))"
| "handle_peer_event env c p (TorData i b l d) t = handle_TorData env p i b l d t"
| "handle_peer_event env c p (TorDrop i b l) t = handle_TorDrop i b l t"
| "handle_peer_event env c p (TorMetaData sz i d) t =
     (case p of None \<Rightarrow> if t_infoComplete t then Some t else None | Some q \<Rightarrow> handle_TorMetaData env c q sz i d t)"
| "handle_peer_event env c p (TorPeerBitmap b h) t = Some (handle_TorPeerBitmap b h t)"
| "handle_peer_event env c p (TorPeerHave i h) t = Some (noteAvailable i h t)"
| "handle_peer_event env c p (TorPeerInterested i) t = Some (maybeUnchoke env False t)"
| "handle_peer_event env c p (TorPeerUnchoke u) t = (if u then tor_maybeRequest env t else Some t)"

subsection \<open>Queries and requests of clients\<close>

definition handle_TorDropPeer :: "tenv \<Rightarrow> torrent \<Rightarrow> torrent option" where
  "handle_TorDropPeer env t = do {
     (p, t1) \<leftarrow> findIdlePeer env t;
     Some (case p of
             None \<Rightarrow> answer (RepDropped False) t1
           | Some q \<Rightarrow> answer (RepDropped True) (snd (writePeer env q PeerDone t1)))
   }"

definition handle_TorGetKnown :: "tenv \<Rightarrow> hash option \<Rightarrow> addrport \<Rightarrow> torrent \<Rightarrow> torrent option" where
  "handle_TorGetKnown env pid addr t =
     (case pid of
        None \<Rightarrow> map_option (\<lambda>(k, kp). answer (RepKnown kp) (t\<lparr>t_known := k\<rparr>))
                  (known_Find (te_now env) (t_known t) addr None [] KNone)
      | Some h \<Rightarrow> map_option (\<lambda>kp. answer (RepKnown kp) (tor_tick t))
                    (known_FindId (shuffled env t (t_known t)) h addr))"

definition handle_TorRequest :: "tenv \<Rightarrow> u32 \<Rightarrow> int \<Rightarrow> bool \<Rightarrow> bool \<Rightarrow> torrent \<Rightarrow> torrent option" where
  "handle_TorRequest env index prio request want t =
     (if \<not> t_infoComplete t then Some (if want then answer (RepRequest None) t else t)
      else do {
        ((ch, added), t1) \<leftarrow> requestPiece env index prio request want t;
        let t2 = (if want then answer (RepRequest (Some ch)) t1 else t1);
        if added then tor_maybeRequest env t2 else Some t2
      })"

definition handle_TorHave :: "tenv \<Rightarrow> u32 \<Rightarrow> bool \<Rightarrow> torrent \<Rightarrow> torrent option" where
  "handle_TorHave env index have t =
     (let t1 = writePeers env (PeerHave index have) None t
      in if have then map_option (\<lambda>rs. t1\<lparr>t_requested := rs\<rparr>) (rd_Done (t_requested t1) index) else Some t1)"

definition handle_TorSetConf :: "tenv \<Rightarrow> torConf \<Rightarrow> bool \<Rightarrow> torrent \<Rightarrow> torrent option" where
  "handle_TorSetConf env conf ch t = do {
     let t1 = t\<lparr>t_dhtMode := co_DhtMode conf, t_useTrackers := co_UseTrackers conf, t_useWebseeds := co_UseWebseeds conf\<rparr>;
     let t2 = (if ch then answer RepSetConf t1 else t1);
     let t3 = (if t_dhtMode t < co_DhtMode conf then tor_announce env False (tor_announce env True t2) else t2);
     rs \<leftarrow> rd_DelIdle (t_requested t3);
     tor_maybeRequest env (t3\<lparr>t_requested := rs\<rparr>)
   }"

text \<open>The result says whether the main loop ends.\<close>

fun tor_handleEvent :: "tenv \<Rightarrow> mcodec \<Rightarrow> tor_input \<Rightarrow> torrent \<Rightarrow> (bool \<times> torrent) option" where
  "tor_handleEvent env c TorGoAway t = Some (True, t)"
| "tor_handleEvent env c (From p e) t = map_option (Pair False) (handle_peer_event env c p e t)"
| "tor_handleEvent env c (TorAddPeer p init) t = Some (False, handle_TorAddPeer env p init t)"
| "tor_handleEvent env c (TorBadPeer n b) t = map_option (Pair False) (handle_TorBadPeer env n b t)"
| "tor_handleEvent env c TorGetStats t =
     Some (False, answer (RepStats (ps_length (t_Pieces t)) (ps_pieceSize (t_Pieces t)) (length (t_peers t))
       (known_Count (t_known t)) (length (t_trackers t)) (length (t_webseeds t))) t)"
| "tor_handleEvent env c TorGetAvailable t = Some (False, answer (RepAvailable (t_available t)) t)"
| "tor_handleEvent env c TorDropPeer t = map_option (Pair False) (handle_TorDropPeer env t)"
| "tor_handleEvent env c (TorGetPeer h) t =
     map_option (\<lambda>p. (False, answer (RepPeer p) t)) (find_id h (t_peers t))"
| "tor_handleEvent env c TorGetPeers t = Some (False, answer (RepPeers (t_peers t)) t)"
| "tor_handleEvent env c (TorGetKnown h a) t = map_option (Pair False) (handle_TorGetKnown env h a t)"
| "tor_handleEvent env c TorGetKnowns t =
     Some (False, answer (RepKnowns (map snd (shuffled env t (t_known t)))) (tor_tick t))"
| "tor_handleEvent env c (TorRequest i pr rq w) t = map_option (Pair False) (handle_TorRequest env i pr rq w t)"
| "tor_handleEvent env c (TorHave i h) t = map_option (Pair False) (handle_TorHave env i h t)"
| "tor_handleEvent env c (TorAnnounce v6) t = Some (False, tor_announce env v6 t)"
| "tor_handleEvent env c TorGetConf t =
     Some (False, answer (RepConf \<lparr>co_DhtMode = t_dhtMode t, co_UseTrackers = t_useTrackers t,
                                   co_UseWebseeds = t_useWebseeds t\<rparr>) t)"
| "tor_handleEvent env c (TorSetConf conf ch) t = map_option (Pair False) (handle_TorSetConf env conf ch t)"

subsection \<open>The main loop\<close>

datatype tor_loop = L_event tor_input | L_request | L_tick | L_slow | L_stop

definition slow_tick :: "tenv \<Rightarrow> torrent \<Rightarrow> torrent" where
  "slow_tick env t =
     (let t1 = maybeUnchoke env True t;
          t2 = t1\<lparr>t_known := known_Expire (te_now env) (t_known t1)\<rparr>;
          t3 = (if rd_pieces (t_requested t2) = [] \<and> te_now env - t_reqTime t2 > time_Minute
                then notInterested env t2 else t2);
          t4 = (if te_now env - t_announceTime t3 > 28 * time_Minute
                then tor_announce env False (tor_announce env True t3) else t3)
      in if t_useTrackers t4 then trackerAnnounce env t4 else t4)"

fun tor_run_step :: "tenv \<Rightarrow> mcodec \<Rightarrow> tor_loop \<Rightarrow> torrent \<Rightarrow> (bool \<times> torrent) option" where
  "tor_run_step env c L_stop t = Some (True, t)"
| "tor_run_step env c (L_event e) t = tor_handleEvent env c e t"
| "tor_run_step env c L_request t = map_option (Pair False) (periodicRequest env t)"
| "tor_run_step env c L_tick t = do {
     t1 \<leftarrow> maybeConnect env t;
     if \<not> t_infoComplete t1 then map_option (\<lambda>(e, t2). (False, t2)) (requestMetadata env None t1) else Some (False, t1)
   }"
| "tor_run_step env c L_slow t = Some (False, slow_tick env t)"

end
