(* ===== verification/Tor_Frame.thy ===== *)
theory Tor_Frame
  imports Tor_Events
begin

section \<open>What the handlers of a torrent leave alone\<close>

text \<open>
  The collection \<open>quiet\<close> holds, for every function, the fields it does not change. Functions
  that only write to peers or start goroutines change nothing in \<open>still t\<close>, the state less
  the records of what was sent.
\<close>

named_theorems quiet

definition still :: "torrent \<Rightarrow> torrent" where
  "still t = t\<lparr>t_sent := [], t_actions := [], t_replies := [], t_tick := 0\<rparr>"

lemma still_fields:
  assumes "still t = still u"
  shows "t_available t = t_available u" "t_inFlight t = t_inFlight u" "t_Pieces t = t_Pieces u"
    "t_requested t = t_requested u" "t_peers t = t_peers u" "t_known t = t_known u"
    "t_infoComplete t = t_infoComplete u" "t_PieceHashes t = t_PieceHashes u" "t_Files t = t_Files u"
    "t_webseeds t = t_webseeds u" "t_useWebseeds t = t_useWebseeds u" "t_Info t = t_Info u"
    "t_infoBitmap t = t_infoBitmap u" "t_infoRequested t = t_infoRequested u" "t_Hash t = t_Hash u"
    "t_infoSizeVotes t = t_infoSizeVotes u" "t_MyId t = t_MyId u" "t_amInterested t = t_amInterested u"
  using assms by (cases t, cases u, simp add: still_def)+

lemma still_basic [quiet]:
  "still (tor_tick t) = still t" "still (act a t) = still t" "still (answer r t) = still t"
  "still (snd (writePeer env p e t)) = still t" "still (snd (maybeWritePeer env p e t)) = still t"
  "still (finalisePiece i t) = still t"
  by (simp_all add: still_def tor_tick_def act_def answer_def writePeer_def maybeWritePeer_def finalisePiece_def)

lemma still_writePeers [quiet]: "still (writePeers env e x t) = still t"
proof -
  have "still (foldl (\<lambda>s p. if Some (tp_ref p) \<noteq> x then snd (writePeer env p e s) else s) t ps) = still t" for ps
    by (induction ps rule: rev_induct) (auto simp: quiet)
  then show ?thesis by (simp add: writePeers_def)
qed

text \<open>Hence they leave alone every field, and every function of the state that reads only these.\<close>

lemmas quiet_basic [simp] = still_basic [THEN still_fields(1)] still_basic [THEN still_fields(2)]
  still_basic [THEN still_fields(3)] still_basic [THEN still_fields(4)] still_basic [THEN still_fields(5)]
  still_basic [THEN still_fields(6)] still_basic [THEN still_fields(7)] still_basic [THEN still_fields(8)]
  still_basic [THEN still_fields(9)] still_basic [THEN still_fields(10)] still_basic [THEN still_fields(11)]
  still_basic [THEN still_fields(12)] still_basic [THEN still_fields(13)] still_basic [THEN still_fields(14)]
  still_basic [THEN still_fields(15)] still_basic [THEN still_fields(16)] still_basic [THEN still_fields(17)]
  still_basic [THEN still_fields(18)]

lemmas quiet_writePeers [simp] = still_writePeers [THEN still_fields(1)] still_writePeers [THEN still_fields(2)]
  still_writePeers [THEN still_fields(3)] still_writePeers [THEN still_fields(4)] still_writePeers [THEN still_fields(5)]
  still_writePeers [THEN still_fields(6)] still_writePeers [THEN still_fields(7)] still_writePeers [THEN still_fields(8)]
  still_writePeers [THEN still_fields(9)] still_writePeers [THEN still_fields(10)] still_writePeers [THEN still_fields(11)]
  still_writePeers [THEN still_fields(12)] still_writePeers [THEN still_fields(13)] still_writePeers [THEN still_fields(14)]
  still_writePeers [THEN still_fields(15)] still_writePeers [THEN still_fields(16)] still_writePeers [THEN still_fields(17)]
  still_writePeers [THEN still_fields(18)]

lemma sent_basic [simp]:
  "t_sent (tor_tick t) = t_sent t" "t_sent (act a t) = t_sent t" "t_sent (answer r t) = t_sent t"
  "t_sent (finalisePiece i t) = t_sent t"
  by (simp_all add: tor_tick_def act_def answer_def finalisePiece_def)

end
