(* ===== verification/Tor_Inv.thy ===== *)
theory Tor_Inv
  imports Tor_Frame Piece_Queries
begin

section \<open>The invariant of a torrent\<close>

text \<open>
  What the goroutine of a torrent relies on to run without a panic: the geometry of the
  contents fits the array of requests in flight, only pieces of the torrent are requested, ids
  have 20 bytes, and while the metadata is incomplete the number of its blocks fits its size.
\<close>

subsection \<open>Definition\<close>

definition stock_ok :: "pieces \<Rightarrow> bool" where
  "stock_ok ps \<longleftrightarrow> geometry ps \<and>
     (\<forall>i < length (ps_pieces ps). bitmap_Len (pc_bitmap (ps_pieces ps ! i)) \<le> n_chunks (piece_len ps i))"

definition flight_ok :: "torrent \<Rightarrow> bool" where
  "flight_ok t \<longleftrightarrow> stock_ok (t_Pieces t) \<and> length (t_inFlight t) = n_chunks (nat (ps_length (t_Pieces t))) \<and>
     length (t_inFlight t) < 4294967296"

definition req_ok :: "nat \<Rightarrow> requested \<Rightarrow> bool" where
  "req_ok n rs \<longleftrightarrow> rd_inv rs \<and> (\<forall>i. wanted rs i \<noteq> None \<longrightarrow> unat i < n)"

definition meta_ok :: "torrent \<Rightarrow> bool" where
  "meta_ok t \<longleftrightarrow> t_Pieces t = empty_pieces \<and> length (t_Info t) \<le> 134217728 \<and>
     length (t_infoRequested t) = (length (t_Info t) + 16383) div 16384"

definition tor_inv :: "torrent \<Rightarrow> bool" where
  "tor_inv t \<longleftrightarrow>
     req_ok (Pieces_Num (t_Pieces t)) (t_requested t) \<and> known_inv (t_known t) \<and>
     (\<forall>p \<in> set (t_peers t). length (tp_Id p) = 20) \<and> length (t_MyId t) = 20 \<and> length (t_Hash t) = 20 \<and>
     (if t_infoComplete t then flight_ok t else meta_ok t)"

text \<open>
  Handlers that do not deal with the metadata change neither the geometry nor the availability, nor what the
  metadata says.
\<close>

definition identity :: "torrent \<Rightarrow> hash \<times> torfile list \<times> byte list" where
  "identity t = (t_Hash t, t_Files t, if t_infoComplete t then t_Info t else [])"

definition fixed :: "torrent \<Rightarrow> u16 list \<times> pieces \<times> bool \<times> hash list \<times> hash \<times> torfile list \<times> byte list" where
  "fixed t = (t_available t, t_Pieces t, t_infoComplete t, t_PieceHashes t, identity t)"

definition moves :: "torrent \<Rightarrow> torrent \<Rightarrow> bool" where
  "moves t t' \<longleftrightarrow> tor_inv t' \<and> fixed t' = fixed t"

definition moves_to :: "torrent \<Rightarrow> torrent option \<Rightarrow> bool" where
  "moves_to t r \<longleftrightarrow> (\<exists>t'. r = Some t' \<and> moves t t')"

definition moves_with :: "torrent \<Rightarrow> ('a \<times> torrent) option \<Rightarrow> bool" where
  "moves_with t r \<longleftrightarrow> (\<exists>x t'. r = Some (x, t') \<and> moves t t')"

lemma moves_refl: "tor_inv t \<Longrightarrow> moves t t"
  by (simp add: moves_def)

lemma moves_trans: "moves t u \<Longrightarrow> moves u v \<Longrightarrow> moves t v"
  by (simp add: moves_def)

lemma movesD:
  assumes "moves t t'"
  shows "tor_inv t'" "t_available t' = t_available t" "t_Pieces t' = t_Pieces t"
    "t_infoComplete t' = t_infoComplete t" "t_PieceHashes t' = t_PieceHashes t" "identity t' = identity t"
  using assms by (auto simp: moves_def fixed_def)

lemma moves_to_Some [simp]: "moves_to t (Some t') \<longleftrightarrow> moves t t'"
  by (simp add: moves_to_def)

lemma moves_with_Some [simp]: "moves_with t (Some (x, t')) \<longleftrightarrow> moves t t'"
  by (simp add: moves_with_def)

lemma moves_to_trans: "moves t u \<Longrightarrow> moves_to u r \<Longrightarrow> moves_to t r"
  by (auto simp: moves_to_def intro: moves_trans)

lemma moves_with_trans: "moves t u \<Longrightarrow> moves_with u r \<Longrightarrow> moves_with t r"
  by (auto simp: moves_with_def intro: moves_trans)

lemma moves_toE: "moves_to t r \<Longrightarrow> (\<And>t'. r = Some t' \<Longrightarrow> moves t t' \<Longrightarrow> P) \<Longrightarrow> P"
  by (auto simp: moves_to_def)

lemma moves_withE: "moves_with t r \<Longrightarrow> (\<And>x t'. r = Some (x, t') \<Longrightarrow> moves t t' \<Longrightarrow> P) \<Longrightarrow> P"
  by (auto simp: moves_with_def)

text \<open>A change of other fields than those of the invariant.\<close>

definition vital :: "torrent \<Rightarrow> torrent" where
  "vital t = (still t)\<lparr>t_inFlight := replicate (length (t_inFlight t)) 0, t_amInterested := False, t_reqTime := 0,
     t_requestInterval := 0, t_requestTicker := False, t_announceTime := 0, t_dhtMode := 0,
     t_useTrackers := False, t_useWebseeds := False, t_infoRequested := replicate (length (t_infoRequested t)) 0,
     t_infoBitmap := [], t_infoSizeVotes := None\<rparr>"

lemma moves_vital:
  assumes "tor_inv t" and "vital t' = vital t"
  shows "moves t t'"
proof -
  have "t_available t' = t_available t" "t_Pieces t' = t_Pieces t" "t_infoComplete t' = t_infoComplete t"
    "t_PieceHashes t' = t_PieceHashes t" "t_requested t' = t_requested t" "t_known t' = t_known t"
    "t_peers t' = t_peers t" "t_MyId t' = t_MyId t" "t_Hash t' = t_Hash t" "t_Info t' = t_Info t" "t_Files t' = t_Files t"
    "replicate (length (t_inFlight t')) (0 :: byte) = replicate (length (t_inFlight t)) 0"
    "replicate (length (t_infoRequested t')) (0 :: byte) = replicate (length (t_infoRequested t)) 0"
    using assms(2) by (cases t, cases t', simp add: vital_def still_def)+
  then show ?thesis using assms(1)
    by (auto simp: moves_def fixed_def identity_def tor_inv_def flight_ok_def meta_ok_def replicate_eq_replicate)
qed

lemma vital_still: "still t' = still t \<Longrightarrow> vital t' = vital t"
  using still_fields [of t' t] by (simp add: vital_def)

lemma moves_still: "tor_inv t \<Longrightarrow> still t' = still t \<Longrightarrow> moves t t'"
  by (rule moves_vital) (auto intro: vital_still)

lemma vital_bookkeeping [quiet]:
  "vital (setRequestInterval i t) = vital t" "vital (tor_announce env v6 t) = vital t"
  "vital (tor_maybeInterested env t) = vital t" "vital (notInterested env t) = vital t"
  "vital (t\<lparr>t_reqTime := x\<rparr>) = vital t"
proof -
  have w: "vital (writePeers env e x u) = vital u" for e x u by (intro vital_still) (simp add: quiet)
  show "vital (tor_maybeInterested env t) = vital t" "vital (notInterested env t) = vital t"
    by (simp_all add: tor_maybeInterested_def notInterested_def w) (simp_all add: vital_def still_def)
  show "vital (setRequestInterval i t) = vital t" "vital (tor_announce env v6 t) = vital t"
    "vital (t\<lparr>t_reqTime := x\<rparr>) = vital t"
    by (simp_all add: setRequestInterval_def tor_announce_def act_def Let_def vital_def still_def)
qed

lemmas moves_quiet = moves_still [OF _ still_basic(1)] moves_still [OF _ still_basic(2)]
  moves_still [OF _ still_basic(3)] moves_still [OF _ still_basic(4)] moves_still [OF _ still_basic(5)]
  moves_still [OF _ still_basic(6)] moves_still [OF _ still_writePeers]
  moves_vital [OF _ vital_bookkeeping(1)] moves_vital [OF _ vital_bookkeeping(2)]
  moves_vital [OF _ vital_bookkeeping(3)] moves_vital [OF _ vital_bookkeeping(4)]
  moves_vital [OF _ vital_bookkeeping(5)]

lemma moves_requested:
  assumes "tor_inv t" and "req_ok (Pieces_Num (t_Pieces t)) rs"
  shows "moves t (t\<lparr>t_requested := rs\<rparr>)"
  using assms by (simp add: moves_def fixed_def identity_def tor_inv_def flight_ok_def meta_ok_def split: if_splits)

lemma moves_known:
  assumes "tor_inv t" and "known_inv k"
  shows "moves t (t\<lparr>t_known := k\<rparr>)"
  using assms by (simp add: moves_def fixed_def identity_def tor_inv_def flight_ok_def meta_ok_def split: if_splits)

lemma moves_peers:
  assumes "tor_inv t" and "\<forall>p \<in> set ps. length (tp_Id p) = 20"
  shows "moves t (t\<lparr>t_peers := ps\<rparr>)"
  using assms by (simp add: moves_def fixed_def identity_def tor_inv_def flight_ok_def meta_ok_def split: if_splits)

lemma moves_inFlight:
  assumes "tor_inv t" and "length fl = length (t_inFlight t)"
  shows "moves t (t\<lparr>t_inFlight := fl\<rparr>)"
  using assms by (simp add: moves_def fixed_def identity_def tor_inv_def flight_ok_def meta_ok_def split: if_splits)

subsection \<open>Chunks and pieces in range\<close>

lemma tor_cpp_value:
  assumes "geometry (t_Pieces t)"
  shows "unat (tor_cpp t) * 16384 = unat (ps_pieceSize (t_Pieces t))" and "tor_cpp t \<noteq> 0"
proof -
  have m: "unat (ps_pieceSize (t_Pieces t)) mod 16384 = 0" using assms by (simp add: geometry_def)
  show e: "unat (tor_cpp t) * 16384 = unat (ps_pieceSize (t_Pieces t))"
    using m div_mult_mod_eq [of "unat (ps_pieceSize (t_Pieces t))" 16384]
    by (simp add: tor_cpp_def unat_div_u32)
  show "tor_cpp t \<noteq> 0" using e geometry_pos [OF assms] by auto
qed

lemma chunk_in_range:
  assumes f: "flight_ok t" and k: "k < n_chunks (piece_len (t_Pieces t) (unat index))"
  shows "unat (index * tor_cpp t + of_nat k) = unat index * unat (tor_cpp t) + k"
    and "unat index * unat (tor_cpp t) + k < length (t_inFlight t)"
    and "k < unat (tor_cpp t)"
proof -
  let ?S = "unat (ps_pieceSize (t_Pieces t))" and ?L = "nat (ps_length (t_Pieces t))"
  have g: "geometry (t_Pieces t)" using f by (simp add: flight_ok_def stock_ok_def)
  note cpp = tor_cpp_value(1) [OF g]
  have "k * 16384 < min ?S (?L - unat index * ?S)"
    using k by (simp add: n_chunks_less piece_len_def)
  then have lt: "unat index * ?S + k * 16384 < ?L" "k * 16384 < ?S" by auto
  then have "(unat index * unat (tor_cpp t) + k) * 16384 < ?L"
    using cpp by (metis add_mult_distrib mult.assoc)
  then show r: "unat index * unat (tor_cpp t) + k < length (t_inFlight t)"
    using f by (simp add: flight_ok_def n_chunks_less)
  show "k < unat (tor_cpp t)" using lt(2) cpp by linarith
  have "length (t_inFlight t) < 4294967296" using f by (simp add: flight_ok_def)
  then have b: "unat index * unat (tor_cpp t) + k < 4294967296" using r by linarith
  then show "unat (index * tor_cpp t + of_nat k) = unat index * unat (tor_cpp t) + k"
    by (subst unat_add_u32; subst unat_mult_u32) (auto simp: unat_of_nat_u32)
qed

lemma inFlight_Some: "unat c < length (t_inFlight t) \<Longrightarrow> inFlight t c = Some (t_inFlight t ! unat c)"
  by (simp add: inFlight_def)

lemma Complete_Some:
  "unat i < Pieces_Num ps \<Longrightarrow> Pieces_Complete ps i = Some (piece_complete (ps_pieces ps ! unat i))"
  by (simp add: Pieces_Complete_def piece_at_def Pieces_Num_def)

lemma PieceBitmap_Some:
  "geometry ps \<Longrightarrow> unat i < Pieces_Num ps \<Longrightarrow>
   PieceBitmap ps i = Some (n_chunks (piece_len ps (unat i)), pc_bitmap (ps_pieces ps ! unat i))"
  by (simp add: PieceBitmap_def pieceChunks_value piece_at_def Pieces_Num_def)

lemma noteInFlight_moves:
  assumes "tor_inv t" and "unat c < length (t_inFlight t)"
  obtains t' where "noteInFlight c h t = Some t'" "moves t t'" "length (t_inFlight t') = length (t_inFlight t)"
proof -
  let ?fl = "t_inFlight t"
  have "noteInFlight c h t \<in> Some ` ({t} \<union> (\<lambda>x. t\<lparr>t_inFlight := ?fl[unat c := x]\<rparr>) ` UNIV)"
    using assms(2) by (auto simp: noteInFlight_def Let_def)
  then consider "noteInFlight c h t = Some t" | x where "noteInFlight c h t = Some (t\<lparr>t_inFlight := ?fl[unat c := x]\<rparr>)"
    by auto
  then show thesis
    using that moves_refl [OF assms(1)] moves_inFlight [OF assms(1), of "?fl[unat c := _]"] by cases simp_all
qed

lemma noteInFlights_moves:
  assumes "tor_inv t" and "\<forall>c \<in> set cs. unat c < length (t_inFlight t)"
  shows "moves_to t (noteInFlights cs h t)"
  using assms
proof (induction cs arbitrary: t)
  case (Cons c cs)
  obtain t' where t': "noteInFlight c h t = Some t'" "moves t t'" "length (t_inFlight t') = length (t_inFlight t)"
    using noteInFlight_moves [of t c h] Cons.prems by auto
  then have "moves_to t' (noteInFlights cs h t')" using Cons movesD(1) by simp
  then show ?case using t' by (auto intro: moves_to_trans)
qed (simp add: moves_refl)

subsection \<open>The set of requested pieces\<close>

lemma req_ok_entry: "req_ok n rs \<Longrightarrow> (i, r) \<in> set (rd_pieces rs) \<Longrightarrow> unat i < n"
  by (auto simp: req_ok_def wanted_def rd_inv_def)

lemma req_ok_Add:
  assumes "req_ok n rs" and "unat i < n"
  shows "req_ok n (fst (rd_Add rs i prio want))"
  using rd_Add_spec [where rs = rs and i = i and prio = prio and want = want] assms by (auto simp: req_ok_def split: prod.splits)

lemma req_ok_Del:
  assumes "req_ok n rs"
  obtains rs' b where "rd_Del rs i prio = Some (rs', b)" "req_ok n rs'"
  using rd_Del_spec [where rs = rs and i = i and prio = prio] assms
  by (auto simp: req_ok_def split: if_splits)

lemma req_ok_Done:
  assumes "req_ok n rs"
  obtains rs' where "rd_Done rs i = Some rs'" "req_ok n rs'"
  using rd_Done_spec [where rs = rs and i = i] assms by (auto simp: req_ok_def split: if_splits)

lemma req_ok_DelIdle:
  assumes "req_ok n rs"
  obtains rs' where "rd_DelIdle rs = Some rs'" "req_ok n rs'"
  using rd_DelIdle_spec [of rs] assms by (auto simp: req_ok_def split: if_splits)

lemma tor_inv_req: "tor_inv t \<Longrightarrow> req_ok (Pieces_Num (t_Pieces t)) (t_requested t)"
  by (simp add: tor_inv_def)

lemma tor_inv_flight: "tor_inv t \<Longrightarrow> t_infoComplete t \<Longrightarrow> flight_ok t"
  by (simp add: tor_inv_def)

lemma flight_geometry: "flight_ok t \<Longrightarrow> geometry (t_Pieces t)"
  by (simp add: flight_ok_def stock_ok_def)

lemma no_metadata_no_requests: "tor_inv t \<Longrightarrow> \<not> t_infoComplete t \<Longrightarrow> rd_pieces (t_requested t) = []"
proof (rule ccontr)
  assume a: "tor_inv t" "\<not> t_infoComplete t" "rd_pieces (t_requested t) \<noteq> []"
  then obtain i r where "(i, r) \<in> set (rd_pieces (t_requested t))" by (metis list.set_intros(1) neq_Nil_conv surj_pair)
  then show False using a req_ok_entry by (fastforce simp: tor_inv_def meta_ok_def Pieces_Num_def empty_pieces_def)
qed

lemma requestPiece_moves:
  assumes inv: "tor_inv t" and i: "request \<Longrightarrow> index \<le> of_nat (length (t_PieceHashes t)) \<Longrightarrow> unat index < Pieces_Num (t_Pieces t)"
  shows "moves_with t (requestPiece env index prio request want t)"
proof (cases "index > of_nat (length (t_PieceHashes t))")
  case True
  then show ?thesis using inv by (simp add: requestPiece_def moves_refl)
next
  case False
  let ?t = "t\<lparr>t_reqTime := te_now env\<rparr>"
  have m: "moves t ?t" using inv by (rule moves_quiet)
  note inv1 = movesD(1) [OF m]
  show ?thesis
  proof (cases request)
    case True
    have r: "unat index < Pieces_Num (t_Pieces t)" using i True False by simp
    obtain rs ch a where add: "rd_Add (t_requested ?t) index prio
        (if piece_complete (ps_pieces (t_Pieces t) ! unat index) then False else want) = (rs, ch, a)"
      by (cases "rd_Add (t_requested ?t) index prio
        (if piece_complete (ps_pieces (t_Pieces t) ! unat index) then False else want)")
    have "req_ok (Pieces_Num (t_Pieces t)) rs"
      using req_ok_Add [OF tor_inv_req [OF inv1], of index prio] add r by (metis fst_conv movesD(3) [OF m])
    then have "moves t (?t\<lparr>t_requested := rs\<rparr>)"
      using moves_requested [OF inv1, of rs] m by (auto intro: moves_trans)
    then have "moves t (tor_maybeInterested env (?t\<lparr>t_requested := rs\<rparr>))"
      using moves_quiet(10) movesD(1) moves_trans by blast
    then show ?thesis using True False add r by (simp add: requestPiece_def Complete_Some)
  next
    case nr: False
    obtain rs b where del: "rd_Del (t_requested ?t) index prio = Some (rs, b)" "req_ok (Pieces_Num (t_Pieces t)) rs"
      using req_ok_Del [OF tor_inv_req [OF inv1], of index prio] movesD(3) [OF m] by metis
    then have m2: "moves t (?t\<lparr>t_requested := rs\<rparr>)"
      using moves_requested [OF inv1, of rs] m by (auto intro: moves_trans)
    then have "moves t (writePeers env e x (?t\<lparr>t_requested := rs\<rparr>))" for e x
      using moves_quiet(7) movesD(1) moves_trans by blast
    then show ?thesis using nr False del m2 by (simp add: requestPiece_def Let_def)
  qed
qed

end
