(* ===== verification/Tor_Steps.thy ===== *)
theory Tor_Steps
  imports Tor_Inv
begin

section \<open>Every handler of a torrent keeps the invariant\<close>

text \<open>
  For each function: it does not panic in a state that satisfies the invariant, and
  leads to another one.
\<close>

declare more_chunks.simps [simp del] hole_loop.simps [simp del]

subsection \<open>The chunks wanted\<close>

text \<open>
  A chunk is useful when it is missing from a piece that is requested with its priority and
  that is not complete.
\<close>

definition useful :: "torrent \<Rightarrow> tchunk \<Rightarrow> bool" where
  "useful t c \<longleftrightarrow> (\<exists>index r k. (index, r) \<in> set (rd_pieces (t_requested t)) \<and> hasPriority r (snd c) \<and>
     fst c = index * tor_cpp t + of_nat k \<and> missing (t_Pieces t) (unat index) k \<and>
     \<not> piece_complete (ps_pieces (t_Pieces t) ! unat index))"

lemma useful_cong: "t_requested t' = t_requested t \<Longrightarrow> t_Pieces t' = t_Pieces t \<Longrightarrow> useful t' c = useful t c"
  by (simp add: useful_def tor_cpp_def)

lemma useful_in_range:
  assumes inv: "tor_inv t" "t_infoComplete t" and u: "useful t c"
  shows "unat (fst c) < length (t_inFlight t)" and "unat (fst c div tor_cpp t) < Pieces_Num (t_Pieces t)"
proof -
  note f = tor_inv_flight [OF inv]
  from u obtain index r k where e: "(index, r) \<in> set (rd_pieces (t_requested t))"
    "fst c = index * tor_cpp t + of_nat k" "missing (t_Pieces t) (unat index) k"
    by (auto simp: useful_def)
  have k: "k < n_chunks (piece_len (t_Pieces t) (unat index))" using e(3) by (simp add: missing_def n_chunks_less)
  note r = chunk_in_range [OF f k]
  show "unat (fst c) < length (t_inFlight t)" using r e(2) by simp
  have "unat (fst c div tor_cpp t) = unat index" using r e(2) by (simp add: unat_div_u32)
  then show "unat (fst c div tor_cpp t) < Pieces_Num (t_Pieces t)"
    using req_ok_entry [OF tor_inv_req [OF inv(1)] e(1)] by simp
qed

lemma chunk_loop_useful:
  assumes "flight_ok t" and "(index, r) \<in> set (rd_pieces (t_requested t))" and "hasPriority r prio"
    and "\<not> piece_complete (ps_pieces (t_Pieces t) ! unat index)"
    and "b = pc_bitmap (ps_pieces (t_Pieces t) ! unat index)"
    and "\<forall>k \<in> set ks. k < n_chunks (piece_len (t_Pieces t) (unat index))" and "list_all (useful t) acc"
  shows "\<exists>acc' brk. chunk_loop t index b prio mx ks acc = Some (acc', brk) \<and> list_all (useful t) acc'"
  using assms(6,7)
proof (induction ks arbitrary: acc)
  case (Cons k ks)
  let ?c = "index * tor_cpp t + of_nat k"
  have "unat ?c < length (t_inFlight t)" using chunk_in_range [OF assms(1), of k index] Cons.prems by simp
  moreover have "useful t (?c, prio)" if "\<not> bitmap_Get b k"
    using that assms(2-5) Cons.prems by (auto simp: useful_def missing_def n_chunks_less)
  ultimately show ?case using Cons.IH [of acc] Cons.IH [of "acc @ [(?c, prio)]"] Cons.prems
    by (auto simp: inFlight_Some Let_def)
qed auto

lemma get_loop_useful:
  assumes "tor_inv t" and "t_infoComplete t" and "set es \<subseteq> set (rd_pieces (t_requested t))"
    and "list_all (useful t) acc" and "\<forall>i \<in> set un. unat i < Pieces_Num (t_Pieces t)"
  shows "\<exists>cs us t'. get_loop prio mx es acc un t = Some ((cs, us), t') \<and> still t' = still t \<and>
    list_all (useful t) cs \<and> (\<forall>i \<in> set us. unat i < Pieces_Num (t_Pieces t))"
  using assms
proof (induction es arbitrary: acc un t)
  case Nil
  then show ?case by (simp add: moves_refl)
next
  case (Cons e es)
  obtain index r where e: "e = (index, r)" by (cases e)
  let ?p = "ps_pieces (t_Pieces t) ! unat index"
  note f = tor_inv_flight [OF Cons.prems(1,2)]
  have i: "unat index < Pieces_Num (t_Pieces t)"
    using req_ok_entry [OF tor_inv_req [OF Cons.prems(1)]] Cons.prems(3) e by auto
  note IH = Cons.IH [OF Cons.prems(1,2)]
  have fin: "\<exists>cs us t'. get_loop prio mx es acc un (finalisePiece index t) = Some ((cs, us), t') \<and>
      still t' = still t \<and> list_all (useful t) cs \<and> (\<forall>i \<in> set us. unat i < Pieces_Num (t_Pieces t))"
  proof -
    have s: "still (finalisePiece index t) = still t" by (simp add: quiet)
    then have "useful (finalisePiece index t) = useful t" by (intro ext useful_cong) simp_all
    then show ?thesis using Cons.IH [of "finalisePiece index t" acc un] Cons.prems e s
        movesD(1) [OF moves_still [OF Cons.prems(1) s]] by auto
  qed
  have loop: "\<exists>acc' brk. chunk_loop t index (pc_bitmap ?p) prio mx [0..<n_chunks (piece_len (t_Pieces t) (unat index))] acc = Some (acc', brk) \<and>
      list_all (useful t) acc'" if "hasPriority r prio" "\<not> piece_complete ?p"
    using that Cons.prems e by (intro chunk_loop_useful [OF f, of index r]) auto
  show ?case
  proof (cases "\<not> hasPriority r prio \<or> piece_complete ?p")
    case True
    then show ?thesis using IH [of acc un] Cons.prems e i by (auto simp: Complete_Some)
  next
    case go: False
    show ?thesis
    proof (cases "available t index = 0")
      case True
      then show ?thesis using IH [of acc "un @ [index]"] Cons.prems e go i by (auto simp: Complete_Some)
    next
      case False
      obtain acc' brk where l: "chunk_loop t index (pc_bitmap ?p) prio mx [0..<n_chunks (piece_len (t_Pieces t) (unat index))] acc = Some (acc', brk)"
        "list_all (useful t) acc'" using loop go by blast
      show ?thesis using False fin l IH [of acc' un] Cons.prems e go i
        by (auto simp: Complete_Some PieceBitmap_Some flight_geometry [OF f])
    qed
  qed
qed

lemma perm_subset: "perm_ok env \<Longrightarrow> set (te_perm env k n) = {..<n}"
  by (metis perm_ok_def set_mset_mset atLeast0LessThan set_upt)

lemma set_shuffled: "perm_ok env \<Longrightarrow> set (shuffled env t xs) = set xs"
  by (simp add: shuffled_def perm_subset) (auto simp: set_conv_nth)

lemma getChunks_useful:
  assumes "tor_inv t" and "t_infoComplete t" and "perm_ok env"
  shows "\<exists>cs us t'. getChunks env prio mx t = Some ((cs, us), t') \<and> still t' = still t \<and>
    list_all (useful t) cs \<and> (\<forall>i \<in> set us. unat i < Pieces_Num (t_Pieces t))"
proof -
  have s: "still (tor_tick t) = still t" by (simp add: quiet)
  then have u: "useful (tor_tick t) = useful t" by (intro ext useful_cong) simp_all
  show ?thesis
    unfolding getChunks_def
    using get_loop_useful [of "tor_tick t" "shuffled env t (rd_pieces (t_requested t))" "[]" "[]" prio mx]
      assms movesD(1) [OF moves_still [OF assms(1) s]] s
    by (auto simp: u set_shuffled)
qed

lemma more_chunks_useful:
  assumes "tor_inv t" and "t_infoComplete t" and "perm_ok env" and "list_all (useful t) cs"
    and "\<forall>i \<in> set us. unat i < Pieces_Num (t_Pieces t)"
  shows "\<exists>cs' us' t'. more_chunks env cnt q (cs, us) t = Some ((cs', us'), t') \<and> still t' = still t \<and>
    list_all (useful t) cs' \<and> (\<forall>i \<in> set us'. unat i < Pieces_Num (t_Pieces t))"
  using assms
proof (induction env cnt q "(cs, us)" t arbitrary: cs us rule: more_chunks.induct)
  case (1 env cnt q cs us t)
  show ?case
  proof (cases "int (length cs) < cnt \<and> q \<ge> - 1")
    case True
    obtain c1 u1 t1 where g: "getChunks env q (cnt - int (length cs)) t = Some ((c1, u1), t1)" "still t1 = still t"
      "list_all (useful t) c1" "\<forall>i \<in> set u1. unat i < Pieces_Num (t_Pieces t)"
      using getChunks_useful [OF 1(2-4)] by blast
    have u: "useful t1 = useful t" using still_fields [OF g(2)] by (intro ext useful_cong)
    have "tor_inv t1" "t_infoComplete t1" using movesD [OF moves_still [OF 1(2) g(2)]] 1(3) by simp_all
    moreover have "list_all (useful t1) (cs @ c1)" "\<forall>i \<in> set (us @ u1). unat i < Pieces_Num (t_Pieces t1)"
      using 1(5,6) g(3,4) u still_fields [OF g(2)] by auto
    ultimately show ?thesis
      using 1(1) [OF True g(1) refl refl _ _ 1(4)] True g u still_fields(3) [OF g(2)]
      by (subst more_chunks.simps) simp
  next
    case False
    then show ?thesis using 1(5,6) by (subst more_chunks.simps) auto
  qed
qed

subsection \<open>Web seeds\<close>

text \<open>How many requests are in flight for chunk \<open>c\<close> of a piece.\<close>

definition flying :: "torrent \<Rightarrow> u32 \<Rightarrow> nat \<Rightarrow> byte" where
  "flying t index c = t_inFlight t ! (unat index * unat (tor_cpp t) + c)"

text \<open>
  What the search for a hole answers from chunk \<open>s\<close> on: the hole at the first missing chunk that nobody is
  fetching, or nothing when there is no such chunk.
\<close>

definition first_free :: "torrent \<Rightarrow> u32 \<Rightarrow> nat \<Rightarrow> (u32 \<times> u32) option \<Rightarrow> bool" where
  "first_free t index s r \<longleftrightarrow>
     (case r of
        None \<Rightarrow> busyOrComplete (ps_pieces (t_Pieces t) ! unat index) \<or>
          (\<forall>c \<ge> s. missing (t_Pieces t) (unat index) c \<longrightarrow> flying t index c \<noteq> 0)
      | Some (o1, l) \<Rightarrow> \<not> busyOrComplete (ps_pieces (t_Pieces t) ! unat index) \<and>
          (\<exists>start. is_hole (t_Pieces t) (unat index) start (unat o1) (unat l)) \<and>
          s \<le> unat o1 div 16384 \<and> flying t index (unat o1 div 16384) = 0 \<and>
          (\<forall>c \<ge> s. c < unat o1 div 16384 \<and> missing (t_Pieces t) (unat index) c \<longrightarrow> flying t index c \<noteq> 0))"

lemma first_free_Suc:
  assumes r: "first_free t index (Suc k) r" and "s \<le> k" and fl: "flying t index k \<noteq> 0"
    and "\<forall>c. s \<le> c \<and> c < k \<longrightarrow> \<not> missing (t_Pieces t) (unat index) c"
  shows "first_free t index s r"
proof -
  have upto: "c = k \<or> Suc k \<le> c" if "s \<le> c" "missing (t_Pieces t) (unat index) c" for c
    using that assms(4) by (metis Suc_leI nat_neq_iff)
  show ?thesis
  proof (cases r)
    case None
    then have "busyOrComplete (ps_pieces (t_Pieces t) ! unat index) \<or>
        (\<forall>c \<ge> Suc k. missing (t_Pieces t) (unat index) c \<longrightarrow> flying t index c \<noteq> 0)"
      using r by (simp add: first_free_def)
    then show ?thesis using None upto fl by (simp add: first_free_def) blast
  next
    case (Some x)
    then show ?thesis using r upto fl assms(2) by (cases x) (fastforce simp: first_free_def)
  qed
qed

lemma hole_loop_correct:
  assumes "flight_ok t" and "unat index < Pieces_Num (t_Pieces t)"
  shows "\<exists>r. hole_loop t index off = Some r \<and> first_free t index (unat off div 16384) r"
  using assms
proof (induction t index off rule: hole_loop.induct)
  case (1 t index off)
  let ?ps = "t_Pieces t"
  note f = 1(2) and i = 1(3)
  have "(Hole ?ps index off = Some (- 1, - 1) \<and>
      (busyOrComplete (ps_pieces ?ps ! unat index) \<or> (\<forall>c \<ge> unat off div 16384. \<not> missing ?ps (unat index) c))) \<or>
    (\<exists>o1 l. Hole ?ps index off = Some (o1, l) \<and> \<not> busyOrComplete (ps_pieces ?ps ! unat index) \<and>
       is_hole ?ps (unat index) (unat off) (unat o1) (unat l))"
    using f i by (intro Hole_cases) (auto simp: flight_ok_def stock_ok_def Pieces_Num_def)
  then consider (none) "Hole ?ps index off = Some (- 1, - 1)"
      "busyOrComplete (ps_pieces ?ps ! unat index) \<or> (\<forall>c \<ge> unat off div 16384. \<not> missing ?ps (unat index) c)"
    | (hole) o1 l where "Hole ?ps index off = Some (o1, l)" "\<not> busyOrComplete (ps_pieces ?ps ! unat index)"
      "is_hole ?ps (unat index) (unat off) (unat o1) (unat l)" by blast
  then show ?case
  proof cases
    case none
    then show ?thesis by (subst hole_loop.simps) (auto simp: first_free_def)
  next
    case hole
    let ?c = "unat o1 div 16384"
    have h: "unat o1 mod 16384 = 0" "unat off div 16384 \<le> ?c" "missing ?ps (unat index) ?c"
      "\<forall>c. unat off div 16384 \<le> c \<and> c < ?c \<longrightarrow> \<not> missing ?ps (unat index) c"
      using hole(3) by (auto simp: is_hole_def)
    have n1: "o1 \<noteq> - 1" using h(1) by (auto simp: unsigned_minus_1_eq_mask mask_eq_exp_minus_1)
    have "o1 div ChunkSize = of_nat ?c"
      by (simp add: word_unat_eq_iff unat_div_u32 unat_of_nat_u32 [OF le_less_trans [OF div_le_dividend unat_u32_bound]])
    then have fl: "inFlight t (index * tor_cpp t + o1 div ChunkSize) = Some (flying t index ?c)"
      using chunk_in_range [OF f, of ?c index] h(3) by (simp add: inFlight_Some flying_def missing_def n_chunks_less)
    show ?thesis
    proof (cases "flying t index ?c = 0")
      case True
      then show ?thesis using hole fl n1 h by (subst hole_loop.simps) (auto simp: first_free_def)
    next
      case False
      obtain first n where "first < n" "n < 262144" "unat o1 = first * 16384"
        using Hole_start [OF hole(1) n1] by metis
      then have "unat (o1 + ChunkSize) = Suc first * 16384" by (subst unat_add_u32) auto
      then have "unat (o1 + ChunkSize) div 16384 = Suc ?c" using \<open>unat o1 = first * 16384\<close> by simp
      then show ?thesis
        using 1(1) [OF hole(1) refl n1 fl False f i] first_free_Suc [OF _ h(2) False h(4)] hole(1) n1 fl False
        by (subst hole_loop.simps) auto
    qed
  qed
qed

text \<open>A change of the requests in flight only.\<close>

definition asks :: "torrent \<Rightarrow> torrent \<Rightarrow> bool" where
  "asks t t' \<longleftrightarrow> moves t t' \<and> t_requested t' = t_requested t \<and> t_peers t' = t_peers t"

lemma asks_refl: "tor_inv t \<Longrightarrow> asks t t"
  by (simp add: asks_def moves_refl)

lemma asks_trans: "asks t u \<Longrightarrow> asks u v \<Longrightarrow> asks t v"
  by (auto simp: asks_def intro: moves_trans)

lemma asksD: "asks t u \<Longrightarrow> moves t u" "asks t u \<Longrightarrow> tor_inv u" "asks t u \<Longrightarrow> useful u = useful t"
  "asks t u \<Longrightarrow> t_infoComplete u = t_infoComplete t" "asks t u \<Longrightarrow> t_Pieces u = t_Pieces t"
  by (auto simp: asks_def dest: movesD intro!: ext useful_cong)

lemma asks_still: "tor_inv t \<Longrightarrow> still t' = still t \<Longrightarrow> asks t t'"
  using still_fields [of t' t] by (simp add: asks_def moves_still)

lemma noteInFlights_asks:
  assumes "tor_inv t" and "\<forall>c \<in> set cs. unat c < length (t_inFlight t)"
  obtains t' where "noteInFlights cs h t = Some t'" "asks t t'" "t_sent t' = t_sent t"
proof -
  have "t_requested t' = t_requested t \<and> t_peers t' = t_peers t \<and> t_sent t' = t_sent t" if "noteInFlights cs h t = Some t'" for t'
    using that
  proof (induction cs arbitrary: t)
    case (Cons c cs)
    then obtain t1 where "noteInFlight c h t = Some t1" "noteInFlights cs h t1 = Some t'" by (auto simp: bind_eq_Some_conv)
    then show ?case using Cons.IH [of t1] by (auto simp: noteInFlight_def Let_def split: if_splits)
  qed simp
  then show thesis using noteInFlights_moves [OF assms, of h] that by (auto simp: asks_def elim: moves_toE)
qed

lemma webseed_length_le: "webseed_length bytes l \<le> l"
  by (auto simp: webseed_length_def Let_def)

lemma webseed_chunks_range:
  assumes f: "flight_ok t" and h: "is_hole (t_Pieces t) (unat index) start (unat o1) (unat l)" and "l' \<le> l"
    and c: "c \<in> set (webseed_chunks t index o1 l')"
  shows "unat c < length (t_inFlight t)"
proof -
  let ?len = "piece_len (t_Pieces t) (unat index)" and ?c = "unat o1 div 16384"
  obtain k where k: "k < (unat l' + 16383) div 16384" "c = index * tor_cpp t + (o1 + of_nat k * ChunkSize) div ChunkSize"
    using c by (auto simp: webseed_chunks_def)
  have o1: "unat o1 = ?c * 16384"
    using h by (simp add: is_hole_def) (metis mod_0_imp_dvd dvd_div_mult_self)
  have kl: "k * 16384 < unat l'" using k(1) n_chunks_less [of k "unat l'"] by (simp add: n_chunks_def)
  then have lt: "unat o1 + k * 16384 < ?len"
    using h assms(3) by (simp add: is_hole_def word_le_nat_alt)
  then have b: "unat o1 + k * 16384 < 4294967296"
    using le_less_trans [OF piece_len_le unat_u32_bound] less_trans by blast
  then have "unat (of_nat k * ChunkSize :: u32) = k * 16384" by (intro unat_chunk_offset) simp
  then have "unat (o1 + of_nat k * ChunkSize) = (?c + k) * 16384"
    using b o1 by (subst unat_add_u32) (simp_all add: add_mult_distrib)
  moreover have "unat (of_nat (?c + k) :: u32) = ?c + k"
    using b o1 by (intro unat_of_nat_u32) linarith
  ultimately have "(o1 + of_nat k * ChunkSize) div ChunkSize = of_nat (?c + k)"
    by (simp add: word_unat_eq_iff unat_div_u32 del: of_nat_add)
  moreover have "?c + k < n_chunks ?len"
    using lt o1 by (simp add: n_chunks_less add_mult_distrib)
  ultimately show ?thesis using chunk_in_range [OF f, of "?c + k" index] k(2) by simp
qed

lemma maybeWebseed_asks:
  assumes inv: "tor_inv t" "t_infoComplete t" and i: "unat index < Pieces_Num (t_Pieces t)"
  obtains b t' where "maybeWebseed env index idle t = Some (b, t')" "asks t t'" "t_sent t' = t_sent t"
proof -
  note f = tor_inv_flight [OF inv]
  have tk: "asks t (tor_tick t)" using inv by (intro asks_still) (simp_all add: quiet)
  obtain r where r: "hole_loop t index 0 = Some r" "first_free t index 0 r"
    using hole_loop_correct [OF f i, of 0] by auto
  show thesis
  proof (cases "\<not> hasWebseeds t \<or> List.find (\<lambda>n. te_wsReady env (snd (t_webseeds t ! n)) idle) (te_wsOrder env (t_tick t)) = None \<or> r = None")
    case True
    then have "maybeWebseed env index idle t = Some (False, t) \<or> maybeWebseed env index idle t = Some (False, tor_tick t)"
      using r by (auto simp: maybeWebseed_def split: option.splits)
    then show ?thesis using that tk asks_refl [OF inv(1)] by fastforce
  next
    case False
    then obtain n o1 l where n: "List.find (\<lambda>n. te_wsReady env (snd (t_webseeds t ! n)) idle) (te_wsOrder env (t_tick t)) = Some n"
      and "r = Some (o1, l)" "hasWebseeds t" by auto
    moreover define l' where "l' = webseed_length (te_wsBytes env (snd (t_webseeds t ! n))) l"
    obtain t' where t': "noteInFlights (webseed_chunks t index o1 l') True (tor_tick t) = Some t'" "asks (tor_tick t) t'" "t_sent t' = t_sent (tor_tick t)"
    proof (rule noteInFlights_asks)
      show "\<forall>c \<in> set (webseed_chunks t index o1 l'). unat c < length (t_inFlight (tor_tick t))"
        using webseed_chunks_range [OF f] r(2) \<open>r = Some (o1, l)\<close> webseed_length_le
        by (fastforce simp: first_free_def l'_def)
    qed (use asksD(2) [OF tk] in auto)
    have "asks t (act a t')" for a
      using asks_trans [OF tk t'(2)] asks_trans asks_still [of t' "act a t'"] asksD(2) [OF t'(2)] by (auto simp: quiet)
    then show ?thesis using that r t' n \<open>r = Some (o1, l)\<close> \<open>hasWebseeds t\<close>
      by (simp add: maybeWebseed_def Let_def l'_def)
  qed
qed

subsection \<open>Idle pieces\<close>

definition idles :: "torrent \<Rightarrow> (bool \<times> int \<times> torrent) option \<Rightarrow> bool" where
  "idles t r \<longleftrightarrow> (\<exists>b n t'. r = Some (b, n, t') \<and> moves t t')"

lemma idles_refl: "tor_inv t \<Longrightarrow> idles t (Some (b, n, t))"
  by (simp add: idles_def moves_refl)

lemma idles_trans: "moves t u \<Longrightarrow> idles u r \<Longrightarrow> idles t r"
  by (auto simp: idles_def intro: moves_trans)

lemma idle_add_moves:
  assumes inv: "tor_inv t" "t_infoComplete t" and i: "unat i < Pieces_Num (t_Pieces t)"
  shows "idles t (idle_add env cnt i (n, t))"
proof -
  let ?rs = "fst (rd_Add (t_requested t) i IdlePriority False)"
  let ?t = "t\<lparr>t_requested := ?rs, t_reqTime := te_now env\<rparr>"
  have "moves t (t\<lparr>t_requested := ?rs\<rparr>)"
    by (intro moves_requested [OF inv(1)] req_ok_Add [OF tor_inv_req [OF inv(1)] i])
  then have m: "moves t ?t"
    using moves_quiet(12) [of "t\<lparr>t_requested := ?rs\<rparr>" "te_now env"] movesD(1) moves_trans by (metis (no_types))
  have m2: "moves t (tor_maybeInterested env ?t)" using moves_quiet(10) movesD(1) moves_trans m by blast
  have "geometry (t_Pieces t)" using flight_geometry [OF tor_inv_flight [OF inv]] .
  then have "PieceBitmap (t_Pieces (tor_maybeInterested env ?t)) i \<noteq> None"
    using i PieceBitmap_Some movesD(3) [OF m2] by simp
  then show ?thesis using m m2 by (auto simp: idle_add_def idles_def Let_def split: prod.splits)
qed

lemma idle_loop_moves:
  assumes "tor_inv t" and "t_infoComplete t" and "\<forall>pn \<in> set ps. pn < Pieces_Num (t_Pieces t)"
    and stop: "\<And>i. unat i < Pieces_Num (t_Pieces t) \<Longrightarrow> stop (t_Pieces t) i \<noteq> None"
  shows "idles t (idle_loop env stop cnt ps (n, t))"
  using assms
proof (induction ps arbitrary: n t)
  case (Cons pn ps)
  have "Pieces_Num (t_Pieces t) < 4294967296"
    using flight_geometry [OF tor_inv_flight [OF Cons.prems(1,2)]] by (simp add: geometry_def Pieces_Num_def)
  then have pn: "unat (of_nat pn :: u32) < Pieces_Num (t_Pieces t)" using Cons.prems(3) by (simp add: unat_of_nat_u32)
  obtain b where b: "stop (t_Pieces t) (of_nat pn) = Some b" using Cons.prems(4) [OF pn] by auto
  obtain r n1 t1 where t1: "idle_add env cnt (of_nat pn) (n, t) = Some (r, n1, t1)" "moves t t1"
    using idle_add_moves [OF Cons.prems(1,2) pn] unfolding idles_def by blast
  have IH: "idles t (idle_loop env stop cnt ps (n1, t1))"
    using Cons.IH [of t1 n1] Cons.prems movesD [OF t1(2)] idles_trans [OF t1(2)] by simp
  then show ?case using b t1 Cons.IH [of t n] Cons.prems by (auto simp: idles_def moves_refl)
qed (simp add: idles_refl)

lemma stop_Some:
  assumes "unat i < Pieces_Num ps"
  shows "stop_untouched ps i \<noteq> None" and "Pieces_Complete ps i \<noteq> None"
  using assms by (auto simp: stop_untouched_def Complete_Some PieceEmpty_def piece_at_def Pieces_Num_def)

definition fast_ok :: "tenv \<Rightarrow> torrent \<Rightarrow> bool" where
  "fast_ok env t \<longleftrightarrow> (\<forall>k r. \<forall>i \<in> set (pv_Fast (te_view env k r)). unat i < Pieces_Num (t_Pieces t))"

lemma fast_loop_moves:
  assumes "tor_inv t" and "t_infoComplete t" and "\<forall>i \<in> set is. unat i < Pieces_Num (t_Pieces t)"
  shows "idles t (fast_loop env p cnt is (n, t))"
  using assms
proof (induction "is" arbitrary: n t)
  case (Cons i "is")
  obtain r n1 t1 where t1: "idle_add env cnt i (n, t) = Some (r, n1, t1)" "moves t t1"
    using idle_add_moves [OF Cons.prems(1,2), of i env cnt n] Cons.prems(3) by (auto simp: idles_def)
  have "idles t (fast_loop env p cnt is (n1, t1))"
    using Cons.IH [of t1 n1] Cons.prems movesD [OF t1(2)] idles_trans [OF t1(2)] by simp
  then show ?case using t1 Cons.IH [of t n] Cons.prems by (auto simp: idles_def Complete_Some)
qed (simp add: idles_refl)

lemma peers_fast_moves:
  assumes "tor_inv t" and "t_infoComplete t" and "fast_ok env t"
  shows "idles t (peers_fast env cnt ps (n, t))"
  using assms
proof (induction ps arbitrary: n t)
  case (Cons p ps)
  obtain r n1 t1 where t1: "fast_loop env p cnt (pv_Fast (view env t p)) (n, t) = Some (r, n1, t1)" "moves t t1"
    using fast_loop_moves [OF Cons.prems(1,2), of "pv_Fast (view env t p)" env p cnt n] Cons.prems(3)
    by (auto simp: idles_def fast_ok_def view_def)
  have "idles t (peers_fast env cnt ps (n1, t1))"
    using Cons.IH [of t1 n1] Cons.prems movesD [OF t1(2)] idles_trans [OF t1(2)] by (simp add: fast_ok_def)
  then show ?case using t1 by (auto simp: idles_def)
qed (simp add: idles_refl)

lemma pickIdlePieces_moves:
  assumes inv: "tor_inv t" "t_infoComplete t" and "perm_ok env" "fast_ok env t"
  shows "moves_to t (pickIdlePieces env cnt t)"
proof -
  define ps where "ps = SortFunc (idle_cmp t) (te_perm env (t_tick t) (Pieces_Num (t_Pieces t)))"
  have ps: "\<forall>pn \<in> set ps. pn < Pieces_Num (t_Pieces t)" using assms(3) by (simp add: ps_def perm_subset)
  have m0: "moves t (tor_tick t)" using inv by (intro moves_quiet)
  obtain r n1 t1 where t1: "idle_loop env stop_untouched cnt ps (0, tor_tick t) = Some (r, n1, t1)" "moves (tor_tick t) t1"
    using idle_loop_moves [of "tor_tick t" ps stop_untouched env cnt 0] movesD [OF m0] inv ps stop_Some by (auto simp: idles_def)
  note m1 = moves_trans [OF m0 t1(2)]
  obtain r2 n2 t2 where t2: "(if Pieces_Count (t_Pieces t) < fastPieces then peers_fast env cnt (t_peers t) (n1, t1) else Some (False, n1, t1))
      = Some (r2, n2, t2)" "moves t1 t2"
    using peers_fast_moves [of t1 env cnt "t_peers t" n1] movesD [OF m1] inv assms(4) moves_refl [of t1]
    by (cases "Pieces_Count (t_Pieces t) < fastPieces") (auto simp: idles_def fast_ok_def)
  note m2 = moves_trans [OF m1 t2(2)]
  obtain r3 n3 t3 where t3: "idle_loop env Pieces_Complete cnt ps (n2, t2) = Some (r3, n3, t3)" "moves t2 t3"
    using idle_loop_moves [of t2 ps Pieces_Complete env cnt n2] movesD [OF m2] inv ps stop_Some by (auto simp: idles_def)
  show ?thesis
    using t1 t2 t3 m1 m2 moves_trans [OF m2 t3(2)]
    by (auto simp: pickIdlePieces_def Let_def simp flip: ps_def)
qed

subsection \<open>Requests to peers\<close>

text \<open>
  What a torrent may ask a peer for: chunks that are useful, of pieces that the peer has, when the
  peer has unchoked us or allows the piece.
\<close>

definition asked_ok :: "tenv \<Rightarrow> torrent \<Rightarrow> nat \<times> peer_event \<Rightarrow> bool" where
  "asked_ok env t x \<longleftrightarrow>
     (\<forall>cs. snd x = PeerRequest cs \<longrightarrow> fst x \<in> tp_ref ` set (t_peers t) \<and>
        (\<exists>k st. pv_Status (te_view env k (fst x)) = Some st \<and>
          (\<forall>c \<in> set cs. (\<exists>prio. useful t (c, prio)) \<and>
             (st_Unchoked st \<or> c div tor_cpp t \<in> set (pv_Fast (te_view env k (fst x)))) \<and>
             (st_Seed st \<or> (\<exists>b. pv_Bitmap (te_view env k (fst x)) = Some b \<and> bitmap_Get b (unat (c div tor_cpp t)))))))"

definition asks_well :: "tenv \<Rightarrow> torrent \<Rightarrow> torrent \<Rightarrow> bool" where
  "asks_well env t t' \<longleftrightarrow> asks t t' \<and> (\<exists>new. t_sent t' = t_sent t @ new \<and> (\<forall>x \<in> set new. asked_ok env t x))"

lemma asks_well_quiet: "asks t t' \<Longrightarrow> t_sent t' = t_sent t \<Longrightarrow> asks_well env t t'"
  by (simp add: asks_well_def)

lemma asks_well_tick: "tor_inv t \<Longrightarrow> asks_well env t (tor_tick t)"
  by (intro asks_well_quiet asks_still) (simp_all add: quiet)

lemma asked_ok_cong: "asks t t' \<Longrightarrow> asked_ok env t' = asked_ok env t"
  using asksD(3,5) [of t t'] by (intro ext) (simp add: asked_ok_def asks_def tor_cpp_def)

lemma asks_well_trans:
  assumes "asks_well env t u" and "asks_well env u v"
  shows "asks_well env t v"
  using assms asks_trans [of t u v] asked_ok_cong [of t u env] unfolding asks_well_def by fastforce

lemma asks_wellD:
  assumes "asks_well env t u"
  shows "tor_inv u" "t_infoComplete u = t_infoComplete t" "useful u = useful t" "t_Pieces u = t_Pieces t"
    "t_peers u = t_peers t" "moves t u"
  using assms asksD by (auto simp: asks_well_def asks_def)

lemma select_loop_correct:
  assumes inv: "tor_inv t" "t_infoComplete t" and "list_all (useful t) cs"
  shows "\<exists>req rest. select_loop t st fast b room cs = Some (req, rest) \<and> set req \<subseteq> set cs \<and> set rest \<subseteq> set cs \<and>
    (\<forall>c \<in> set req. (st_Unchoked st \<or> fst c div tor_cpp t \<in> set fast) \<and>
       (st_Seed st \<or> bitmap_Get b (unat (fst c div tor_cpp t))))"
  using assms(3)
proof (induction cs arbitrary: room)
  case (Cons c cs)
  have "inFlight t (fst c) = Some (t_inFlight t ! unat (fst c))"
    using useful_in_range(1) [OF inv] Cons.prems by (simp add: inFlight_Some)
  moreover have "tor_cpp t \<noteq> 0" using tor_cpp_value(2) [OF flight_geometry [OF tor_inv_flight [OF inv]]] .
  ultimately show ?case using Cons.IH [of room] Cons.IH [of "room - 1"] Cons.prems by (auto simp: Let_def)
qed simp

lemma tor_request_asks:
  assumes inv: "tor_inv t" "t_infoComplete t" and cs: "\<forall>c \<in> set cs. unat c < length (t_inFlight t)"
    and ok: "asked_ok env t (tp_ref p, PeerRequest cs)"
  obtains e t' where "tor_request env p cs t = Some (e, t')" "asks_well env t t'"
proof -
  obtain e t1 where w: "maybeWritePeer env p (PeerRequest cs) t = (e, t1)" by (cases "maybeWritePeer env p (PeerRequest cs) t")
  have s: "still t1 = still t" using still_basic(5) [of env p "PeerRequest cs" t] w by simp
  have a: "asks t t1" using asks_still [OF inv(1) s] .
  have sent: "t_sent t1 = t_sent t @ (if e = None then [(tp_ref p, PeerRequest cs)] else [])"
    using w by (auto simp: maybeWritePeer_def tor_tick_def split: if_splits)
  then have m1: "asks_well env t t1" using a ok by (auto simp: asks_well_def)
  show thesis
  proof (cases "e = None")
    case True
    obtain t2 where t2: "noteInFlights cs True t1 = Some t2" "asks t1 t2" "t_sent t2 = t_sent t1"
      using noteInFlights_asks [of t1 cs True] asksD(2) [OF a] cs still_fields(2) [OF s] by auto
    then show ?thesis using that w True asks_well_trans [OF m1 asks_well_quiet [OF t2(2,3)]]
      by (simp add: tor_request_def)
  next
    case False
    then have "tor_request env p cs t = Some (e, t1)" using w by (auto simp: tor_request_def)
    then show ?thesis using that m1 by blast
  qed
qed

lemma ask_peer_asks:
  assumes inv: "tor_inv t" "t_infoComplete t" and p: "p \<in> set (t_peers t)" and cs: "list_all (useful t) cs"
  obtains cs' t' where "ask_peer env pcount p (cs, t) = Some (cs', t')" "asks_well env t t'" "list_all (useful t) cs'"
proof -
  let ?t = "tor_tick t"
  let ?v = "view env ?t p"
  define fast where "fast = (if \<not> pv_Unchoked ?v \<and> pcount < fastPieces then pv_Fast ?v else [])"
  define b where "b = (case pv_Bitmap ?v of None \<Rightarrow> [] | Some b \<Rightarrow> b)"
  have tk: "asks_well env t ?t" using inv by (intro asks_well_tick)
  note D = asks_wellD [OF tk]
  show thesis
  proof (cases "pv_Status ?v = None \<or> ask_peer env pcount p (cs, t) = Some (cs, ?t)")
    case True
    moreover have "pv_Status ?v = None \<Longrightarrow> ask_peer env pcount p (cs, t) = Some (cs, ?t)" by (simp add: ask_peer_def Let_def)
    ultimately have "ask_peer env pcount p (cs, t) = Some (cs, ?t)" by blast
    then show ?thesis using that tk cs by blast
  next
    case False
    then obtain st where st: "pv_Status ?v = Some st" by auto
    define cmax where "cmax = (if te_peerChunks env (t_tick ?t) (tp_ref p) \<le> 2 then 2
        else te_peerChunks env (t_tick ?t) (tp_ref p)) - st_Qlen st"
    obtain req rest where sel: "select_loop ?t st fast b cmax cs = Some (req, rest)" "set req \<subseteq> set cs" "set rest \<subseteq> set cs"
      and req: "\<forall>c \<in> set req. (st_Unchoked st \<or> fst c div tor_cpp ?t \<in> set fast) \<and>
         (st_Seed st \<or> bitmap_Get b (unat (fst c div tor_cpp ?t)))"
      using select_loop_correct [OF D(1) _, of cs st fast b cmax] D(2,3) inv(2) cs by auto
    have body: "ask_peer env pcount p (cs, t) =
        (if req = [] then Some (rest, ?t)
         else case tor_request env p (map fst req) ?t of None \<Rightarrow> None
              | Some (e, t1) \<Rightarrow> Some (if e = None then rest else rest @ req, t1))"
      and seed: "st_Seed st \<or> pv_Bitmap ?v \<noteq> None"
      using False sel(1) st
      by (auto simp: ask_peer_def Let_def cmax_def fast_def b_def split: if_splits option.splits)
    have us: "\<forall>c \<in> set req. useful t c" "list_all (useful t) rest" "list_all (useful t) (rest @ req)"
      using sel(2,3) cs by (auto simp: list_all_iff)
    have fastsub: "set fast \<subseteq> set (pv_Fast ?v)" by (auto simp: fast_def)
    have "asked_ok env ?t (tp_ref p, PeerRequest (map fst req))"
      unfolding asked_ok_def
    proof (intro allI impI conjI)
      fix xs assume "snd (tp_ref p, PeerRequest (map fst req)) = PeerRequest xs"
      then have xs: "xs = map fst req" by simp
      show "fst (tp_ref p, PeerRequest (map fst req)) \<in> tp_ref ` set (t_peers ?t)" using p by simp
      show "\<exists>k st. pv_Status (te_view env k (fst (tp_ref p, PeerRequest (map fst req)))) = Some st \<and>
          (\<forall>c \<in> set xs. (\<exists>prio. useful ?t (c, prio)) \<and>
             (st_Unchoked st \<or> c div tor_cpp ?t \<in> set (pv_Fast (te_view env k (fst (tp_ref p, PeerRequest (map fst req)))))) \<and>
             (st_Seed st \<or> (\<exists>b. pv_Bitmap (te_view env k (fst (tp_ref p, PeerRequest (map fst req)))) = Some b \<and>
               bitmap_Get b (unat (c div tor_cpp ?t)))))"
        using st us(1) D(3) req fastsub seed xs
        by (intro exI [of _ "t_tick ?t"] exI [of _ st]) (fastforce simp: view_def b_def split: option.splits)
    qed
    moreover have "\<forall>c \<in> set (map fst req). unat c < length (t_inFlight ?t)"
      using us(1) useful_in_range(1) [OF D(1)] D(2,3) inv(2) by auto
    ultimately obtain e t' where "tor_request env p (map fst req) ?t = Some (e, t')" "asks_well env ?t t'"
      using tor_request_asks [OF D(1), of "map fst req" env p] D(2) inv(2) by auto
    then show ?thesis using that body us tk asks_well_trans [OF tk] by (cases "req = []"; cases "e = None") auto
  qed
qed

lemma ask_peers_asks:
  assumes "tor_inv t" and "t_infoComplete t" and "set ps \<subseteq> set (t_peers t)" and "list_all (useful t) cs"
  shows "\<exists>cs' t'. ask_peers env pcount ps (cs, t) = Some (cs', t') \<and> asks_well env t t' \<and> list_all (useful t) cs'"
  using assms
proof (induction ps arbitrary: cs t)
  case Nil
  then show ?case by (simp add: asks_well_quiet asks_refl)
next
  case (Cons p ps)
  obtain c1 t1 where t1: "ask_peer env pcount p (cs, t) = Some (c1, t1)" "asks_well env t t1" "list_all (useful t) c1"
    using ask_peer_asks [OF Cons.prems(1,2) _ Cons.prems(4), of p env pcount] Cons.prems(3) by auto
  note D = asks_wellD [OF t1(2)]
  obtain c2 t2 where "ask_peers env pcount ps (c1, t1) = Some (c2, t2)" "asks_well env t1 t2" "list_all (useful t1) c2"
    using Cons.IH [of t1 c1] Cons.prems t1(3) D by auto
  then show ?case using t1 D(3) asks_well_trans [OF t1(2)] by auto
qed

lemma request_passes_asks:
  assumes "tor_inv t" and "t_infoComplete t" and "perm_ok env" and "list_all (useful t) cs"
  shows "\<exists>cs' t'. request_passes env pcount n (cs, t) = Some (cs', t') \<and> asks_well env t t' \<and> list_all (useful t) cs'"
  using assms
proof (induction n arbitrary: cs t)
  case 0
  then show ?case by (simp add: asks_well_quiet asks_refl)
next
  case (Suc n)
  have tk: "asks_well env t (tor_tick t)" using Suc.prems by (intro asks_well_tick)
  note D = asks_wellD [OF tk]
  obtain c1 t1 where t1: "ask_peers env pcount (shuffled env t (t_peers t)) (cs, tor_tick t) = Some (c1, t1)"
    "asks_well env (tor_tick t) t1" "list_all (useful t) c1"
    using ask_peers_asks [OF D(1), of "shuffled env t (t_peers t)" cs env pcount] Suc.prems D by (auto simp: set_shuffled)
  note w = asks_well_trans [OF tk t1(2)] and E = asks_wellD [OF t1(2)]
  obtain c2 t2 where "request_passes env pcount n (c1, t1) = Some (c2, t2)" "asks_well env t1 t2" "list_all (useful t1) c2"
    using Suc.IH [of t1 c1] Suc.prems t1(3) D E by auto
  then show ?case using t1 w D(3) E(3) asks_well_trans [OF w] by auto
qed

lemma webseed_pieces_asks:
  assumes "tor_inv t" and "t_infoComplete t" and "\<forall>i \<in> set us. unat i < Pieces_Num (t_Pieces t)"
  shows "\<exists>t'. webseed_pieces env idle us t = Some t' \<and> asks_well env t t'"
  using assms
proof (induction us arbitrary: t)
  case Nil
  then show ?case by (simp add: asks_well_quiet asks_refl)
next
  case (Cons u us)
  obtain b t1 where t1: "maybeWebseed env u idle t = Some (b, t1)" "asks t t1" "t_sent t1 = t_sent t"
    using maybeWebseed_asks [OF Cons.prems(1,2), of u env idle] Cons.prems(3) by auto
  note w = asks_well_quiet [OF t1(2,3)]
  show ?case using t1 Cons.IH [of t1] asks_wellD [OF w] Cons.prems asks_well_trans [OF w] w by auto
qed

lemma webseed_left_asks:
  assumes "tor_inv t" and "t_infoComplete t" and "list_all (useful t) cs"
  shows "\<exists>t'. webseed_left env cs t = Some t' \<and> asks_well env t t'"
  using assms
proof (induction cs arbitrary: t)
  case Nil
  then show ?case by (simp add: asks_well_quiet asks_refl)
next
  case (Cons c cs)
  note r = useful_in_range [OF Cons.prems(1,2), of c]
  obtain b t1 where t1: "maybeWebseed env (fst c div tor_cpp t) (snd c \<le> IdlePriority) t = Some (b, t1)" "asks t t1" "t_sent t1 = t_sent t"
    using maybeWebseed_asks [OF Cons.prems(1,2) r(2), of env "snd c \<le> IdlePriority"] Cons.prems(3) by auto
  note w = asks_well_quiet [OF t1(2,3)]
  obtain t2 where "webseed_left env cs t1 = Some t2" "asks_well env t1 t2"
    using Cons.IH [of t1] asks_wellD [OF w] Cons.prems by auto
  then show ?case using t1 w r(1) Cons.IH [of t] Cons.prems asks_well_trans [OF w]
    by (auto simp: inFlight_Some)
qed

lemma setRequestInterval_fields [simp]:
  "t_requested (setRequestInterval i t) = t_requested t" "t_peers (setRequestInterval i t) = t_peers t"
  "t_sent (setRequestInterval i t) = t_sent t"
  by (simp_all add: setRequestInterval_def)

lemma setRequestInterval_asks: "tor_inv t \<Longrightarrow> asks_well env t (setRequestInterval i t)"
  by (intro asks_well_quiet) (simp_all add: asks_def moves_quiet)

lemma send_requests_asks:
  assumes inv: "tor_inv t" "t_infoComplete t" and "perm_ok env" and "list_all (useful t) cs"
    and "\<forall>i \<in> set us. unat i < Pieces_Num (t_Pieces t)"
  shows "\<exists>t'. send_requests env prio cnt cs us t = Some t' \<and> asks_well env t t'"
proof (cases "\<not> hasWebseeds t \<and> t_peers t = []")
  case True
  then show ?thesis using inv by (simp add: send_requests_def setRequestInterval_asks)
next
  case False
  obtain t1 where t1: "(if hasWebseeds t then webseed_pieces env (prio \<le> IdlePriority) us t else Some t) = Some t1" "asks_well env t t1"
    using webseed_pieces_asks [OF inv assms(5), of env "prio \<le> IdlePriority"] asks_well_quiet [OF asks_refl [OF inv(1)]]
    by (cases "hasWebseeds t") auto
  note D = asks_wellD [OF t1(2)]
  define srt where "srt = take (nat cnt) (SortFunc (\<lambda>a b. cmp_Compare (case inFlight t1 (fst a) of None \<Rightarrow> 0 | Some f \<Rightarrow> f)
      (case inFlight t1 (fst a) of None \<Rightarrow> 0 | Some f \<Rightarrow> f)) cs)"
  have "list_all (useful t1) srt"
    using assms(4) D(3) set_take_subset [of "nat cnt"] by (fastforce simp: srt_def list_all_iff)
  then obtain c2 t2 where t2: "request_passes env (Pieces_Count (t_Pieces t1)) 4 (srt, t1) = Some (c2, t2)"
    "asks_well env t1 t2" "list_all (useful t1) c2"
    using request_passes_asks [OF D(1), of env srt "Pieces_Count (t_Pieces t1)" 4] D(2) inv(2) assms(3) by auto
  note w = asks_well_trans [OF t1(2) t2(2)] and E = asks_wellD [OF t2(2)]
  have "\<exists>t3. webseed_left env (SortFunc f c2) t2 = Some t3 \<and> asks_well env t2 t3" for f
    using webseed_left_asks [OF E(1)] E D inv(2) t2(3) by (simp add: list_all_iff)
  then show ?thesis using False t1 t2 w asks_well_trans [OF w]
    by (auto simp: send_requests_def Let_def simp flip: srt_def)
qed

end
