(* ===== verification/Tor_Sched.thy ===== *)
theory Tor_Sched
  imports Tor_Steps
begin

section \<open>The scheduler of a torrent keeps the invariant and asks for what is useful\<close>

text \<open>
  What \<^verbatim>\<open>periodicRequest\<close> does: it does not panic, it keeps the invariant, and what it sends to
  the peers is that we are interested and requests for chunks that are useful.
\<close>

subsection \<open>What is sent before the requests\<close>

definition told :: "torrent \<Rightarrow> torrent \<Rightarrow> bool" where
  "told t t' \<longleftrightarrow> (\<exists>new. t_sent t' = t_sent t @ new \<and> (\<forall>x \<in> set new. snd x = PeerInterested True))"

lemma told_same: "t_sent t' = t_sent t \<Longrightarrow> told t t'"
  by (simp add: told_def)

lemma told_trans: "told t u \<Longrightarrow> told u v \<Longrightarrow> told t v"
  unfolding told_def by fastforce

lemma told_write: "told t (snd (writePeer env p (PeerInterested True) t))"
  by (simp add: told_def writePeer_def tor_tick_def)

lemma told_writePeers: "told t (writePeers env (PeerInterested True) x t)"
proof -
  have "told t (foldl (\<lambda>s p. if Some (tp_ref p) \<noteq> x then snd (writePeer env p (PeerInterested True) s) else s) t ps)" for ps
    by (induction ps rule: rev_induct) (auto simp: told_same intro: told_trans told_write)
  then show ?thesis by (simp add: writePeers_def)
qed

lemma told_maybeInterested: "told t (tor_maybeInterested env t)"
  using told_writePeers [of "t\<lparr>t_amInterested := True\<rparr>" env None]
  by (simp add: tor_maybeInterested_def told_def)

lemma told_idle_add: "idle_add env cnt i (n, t) = Some (b, n', t') \<Longrightarrow> told t t'"
  using told_maybeInterested [of "t\<lparr>t_requested := r, t_reqTime := te_now env\<rparr>" env for r]
  by (auto simp: idle_add_def Let_def told_def split: prod.splits if_splits option.splits)

lemma told_idle_loop: "idle_loop env stop cnt ps (n, t) = Some (b, n', t') \<Longrightarrow> told t t'"
proof (induction ps arbitrary: n t)
  case (Cons p ps)
  then show ?case
    by (auto simp: bind_eq_Some_conv told_same split: if_splits dest: told_idle_add intro: told_trans)
qed (simp add: told_same)

lemma told_fast_loop: "fast_loop env p cnt is (n, t) = Some (b, n', t') \<Longrightarrow> told t t'"
proof (induction "is" arbitrary: n t)
  case (Cons i "is")
  then show ?case
    by (auto simp: bind_eq_Some_conv split: if_splits dest: told_idle_add intro: told_trans)
qed (simp add: told_same)

lemma told_peers_fast: "peers_fast env cnt ps (n, t) = Some (b, n', t') \<Longrightarrow> told t t'"
proof (induction ps arbitrary: n t)
  case (Cons p ps)
  then show ?case
    by (auto simp: bind_eq_Some_conv split: if_splits dest: told_fast_loop intro: told_trans)
qed (simp add: told_same)

lemma told_pickIdlePieces: "pickIdlePieces env cnt t = Some t' \<Longrightarrow> told t t'"
proof -
  assume pick: "pickIdlePieces env cnt t = Some t'"
  have "told t u" if "told (tor_tick t) u" for u using that by (simp add: told_def)
  then show ?thesis using pick
    by (auto simp: pickIdlePieces_def Let_def bind_eq_Some_conv split: if_splits
        dest!: told_idle_loop told_peers_fast intro: told_trans)
qed

lemma told_prepare: "prepare_requests env prio t = Some (go, t') \<Longrightarrow> told t t'"
  by (auto simp: prepare_requests_def Let_def told_same dest: told_pickIdlePieces split: if_splits)

lemma told_get_loop: "get_loop prio mx es acc un t = Some (r, t') \<Longrightarrow> t_sent t' = t_sent t"
proof (induction es arbitrary: acc un t)
  case (Cons e es)
  then show ?case by (cases e) (auto simp: bind_eq_Some_conv split: if_splits)
qed simp

lemma told_getChunks: "getChunks env prio mx t = Some (r, t') \<Longrightarrow> t_sent t' = t_sent t"
  by (auto simp: getChunks_def dest: told_get_loop)

lemma told_more_chunks: "more_chunks env cnt q cu t = Some (r, t') \<Longrightarrow> t_sent t' = t_sent t"
proof (induction env cnt q cu t rule: more_chunks.induct)
  case (1 env cnt q cs un t)
  then show ?case by (subst (asm) more_chunks.simps) (auto split: if_splits option.splits dest: told_getChunks)
qed

subsection \<open>The scheduler\<close>

lemma pick_loop_Some:
  assumes "\<forall>e \<in> set es. unat (fst e) < Pieces_Num (t_Pieces t)"
  shows "\<exists>m. pick_loop t es prio = Some m"
  using assms by (induction es arbitrary: prio) (auto simp: piece_prio_def Complete_Some)

lemma pickPriority_Some: "tor_inv t \<Longrightarrow> \<exists>m. pickPriority t = Some m"
  using req_ok_entry [OF tor_inv_req, of t]
  unfolding pickPriority_def by (intro pick_loop_Some) auto

lemma prepare_requests_moves:
  assumes inv: "tor_inv t" "t_infoComplete t" and "perm_ok env" "fast_ok env t"
  shows "moves_with t (prepare_requests env prio t)"
proof -
  obtain rs where rs: "rd_DelIdle (t_requested t) = Some rs" "req_ok (Pieces_Num (t_Pieces t)) rs"
    using req_ok_DelIdle [OF tor_inv_req [OF inv(1)]] .
  have "moves t (t\<lparr>t_requested := rs\<rparr>)" using moves_requested [OF inv(1) rs(2)] .
  then have m1: "moves t (t\<lparr>t_requested := rs, t_reqTime := te_now env\<rparr>)"
    using moves_quiet(12) [of "t\<lparr>t_requested := rs\<rparr>" "te_now env"] movesD(1) moves_trans by (metis (no_types))
  have ex: "\<not> list_ex (\<lambda>(i, _). Pieces_Complete (t_Pieces t) i = None) (rd_pieces (t_requested t))"
    using req_ok_entry [OF tor_inv_req [OF inv(1)]] by (auto simp: list_ex_iff Complete_Some)
  have pick: "moves_with t (map_option (\<lambda>t1. (True, t1)) (pickIdlePieces env c t))" for c
    using pickIdlePieces_moves [OF assms, of c] by (auto simp: moves_to_def)
  show ?thesis
    using rs m1 ex pick inv moves_quiet(8) [OF inv(1)] moves_refl [OF inv(1)]
    by (simp add: prepare_requests_def Let_def)
qed

text \<open>What one run of the scheduler may send, in the state it leads to.\<close>

definition schedules :: "tenv \<Rightarrow> torrent \<Rightarrow> torrent \<Rightarrow> bool" where
  "schedules env t t' \<longleftrightarrow> moves t t' \<and>
     (\<exists>new. t_sent t' = t_sent t @ new \<and> (\<forall>x \<in> set new. snd x = PeerInterested True \<or> asked_ok env t' x))"

lemma schedules_told: "moves t t' \<Longrightarrow> told t t' \<Longrightarrow> schedules env t t'"
  by (auto simp: schedules_def told_def)

lemma schedules_asks:
  assumes "moves t u" and "told t u" and "asks_well env u v"
  shows "schedules env t v"
proof -
  have "asked_ok env v = asked_ok env u" using assms(3) asked_ok_cong by (auto simp: asks_well_def)
  then show ?thesis using assms asks_wellD(6) [OF assms(3)] moves_trans [OF assms(1)]
    by (fastforce simp: schedules_def told_def asks_well_def)
qed

lemma periodicRequest_schedules:
  assumes inv: "tor_inv t" and "perm_ok env" and "t_infoComplete t \<Longrightarrow> fast_ok env t"
  shows "\<exists>t'. periodicRequest env t = Some t' \<and> schedules env t t'"
proof (cases "t_infoComplete t")
  case False
  then show ?thesis using moves_quiet(8) [OF inv] by (simp add: periodicRequest_def schedules_told told_same)
next
  case True
  obtain prio where prio: "pickPriority t = Some prio" using pickPriority_Some [OF inv] by blast
  obtain go t1 where t1: "prepare_requests env prio t = Some (go, t1)" "moves t t1"
    using prepare_requests_moves [OF inv True assms(2) assms(3) [OF True], of prio] by (auto elim: moves_withE)
  define t2 where "t2 = setRequestInterval (clamp_interval (te_interval env)) t1"
  define cnt where "cnt = (if te_numChunks env < 2 then 2 else te_numChunks env)"
  have m2: "moves t t2" unfolding t2_def using t1(2) moves_quiet(8) movesD(1) moves_trans by blast
  note D = movesD [OF m2]
  obtain cs us t3 where t3: "getChunks env prio (- 1) t2 = Some ((cs, us), t3)" "still t3 = still t2"
    "list_all (useful t2) cs" "\<forall>i \<in> set us. unat i < Pieces_Num (t_Pieces t2)"
    using getChunks_useful [OF D(1), of env prio "- 1"] D(4) True assms(2) by auto
  have a3: "asks t2 t3" using asks_still [OF D(1) t3(2)] .
  obtain cs' us' t4 where t4: "(if prio > IdlePriority then more_chunks env cnt (prio - 1) (cs, us) t3 else Some ((cs, us), t3))
      = Some ((cs', us'), t4)" "still t4 = still t3" "list_all (useful t3) cs'" "\<forall>i \<in> set us'. unat i < Pieces_Num (t_Pieces t3)"
    using more_chunks_useful [OF asksD(2) [OF a3], of env cs us cnt "prio - 1"] t3 asksD [OF a3] D(4) True assms(2)
    by (cases "prio > IdlePriority") auto
  have a4: "asks t3 t4" using asks_still [OF asksD(2) [OF a3] t4(2)] .
  have m4: "moves t t4" using m2 asksD(1) [OF a3] asksD(1) [OF a4] moves_trans by blast
  have s4: "told t t4"
    using told_prepare [OF t1(1)] told_getChunks [OF t3(1)] t4(1) told_more_chunks [of env cnt "prio - 1" "(cs, us)" t3]
    by (auto simp: told_def t2_def split: if_splits)
  obtain t5 where t5: "send_requests env prio cnt cs' us' t4 = Some t5" "asks_well env t4 t5"
    using send_requests_asks [OF asksD(2) [OF a4], of env cs' us' prio cnt] asksD [OF a3] asksD [OF a4] t4 D(4) True assms(2)
    by auto
  have "schedules env t (setRequestInterval i t4)" "schedules env t t1" for i
    using schedules_asks [OF m4 s4 setRequestInterval_asks] movesD(1) [OF m4] schedules_told [OF t1(2) told_prepare [OF t1(1)]]
    by simp_all
  then show ?thesis using True prio t1(1) t3(1) t4(1) t5(1) schedules_asks [OF m4 s4 t5(2)]
    by (simp add: periodicRequest_def Let_def flip: t2_def cnt_def)
qed

lemma periodicRequest_moves:
  assumes "tor_inv t" and "perm_ok env" and "t_infoComplete t \<Longrightarrow> fast_ok env t"
  shows "moves_to t (periodicRequest env t)"
  using periodicRequest_schedules [OF assms] by (auto simp: moves_to_def schedules_def)

lemma tor_maybeRequest_moves:
  assumes "tor_inv t" and "perm_ok env" and "t_infoComplete t \<Longrightarrow> fast_ok env t"
  shows "moves_to t (tor_maybeRequest env t)"
  using pickPriority_Some [OF assms(1)] periodicRequest_moves [OF assms] moves_refl [OF assms(1)]
  by (auto simp: tor_maybeRequest_def)

end
