(* ===== verification/Tor_Meta.thy ===== *)
theory Tor_Meta
  imports Tor_Inv
begin

section \<open>The metadata and the invariant\<close>

text \<open>
  Decoding the info dictionary and exchanging it with peers: no panic on sane dictionaries, what a
  torrent is once its metadata is complete, and that incomplete metadata keeps the invariant.
\<close>

subsection \<open>Decoding\<close>

text \<open>
  What a sane info dictionary satisfies beyond what the code checks: a piece length, and
  files with lengths that are not negative and whose sum is an \<^verbatim>\<open>int64\<close>.
\<close>

definition info_ok :: "binfo \<Rightarrow> bool" where
  "info_ok info \<longleftrightarrow> bi_PieceLength info \<noteq> 0 \<and> bi_Length info < 2 ^ 63 \<and>
     (\<forall>fs. bi_Files info = Some fs \<longrightarrow> (\<forall>f \<in> set fs. 0 \<le> bf_Length f) \<and> sum_list (map bf_Length fs) < 2 ^ 63)"

lemma wrap64_id: "- (2 ^ 63) \<le> x \<Longrightarrow> x < 2 ^ 63 \<Longrightarrow> wrap64 x = x"
  by (simp add: wrap64_def)

text \<open>The files lie one after the other.\<close>

fun consecutive :: "int \<Rightarrow> torfile list \<Rightarrow> bool" where
  "consecutive off [] = True"
| "consecutive off (f # fs) = (tf_Offset f = off \<and> 0 \<le> tf_Length f \<and> consecutive (off + tf_Length f) fs)"

lemma consecutive_append:
  "consecutive off (fs @ gs) \<longleftrightarrow> consecutive off fs \<and> consecutive (off + sum_list (map tf_Length fs)) gs"
  by (induction fs arbitrary: off) (auto simp: add.assoc)

lemma sum_lengths_nonneg: "\<forall>x \<in> set xs. 0 \<le> f x \<Longrightarrow> 0 \<le> sum_list (map f xs :: int list)"
  by (induction xs) auto

lemma consecutive_nonneg: "consecutive off fs \<Longrightarrow> 0 \<le> sum_list (map tf_Length fs)"
  by (induction fs arbitrary: off) fastforce+

lemma make_files_correct:
  assumes "consecutive 0 fs" and "len = sum_list (map tf_Length fs)" and "\<forall>b \<in> set bs. 0 \<le> bf_Length b"
    and "len + sum_list (map bf_Length bs) < 2 ^ 63" and "make_files bs len fs = Some (len', fs')"
  shows "consecutive 0 fs' \<and> len' = sum_list (map tf_Length fs') \<and> len' = len + sum_list (map bf_Length bs)"
  using assms
proof (induction bs arbitrary: len fs)
  case (Cons b bs)
  obtain path where path: "(if bf_Path8 b = None then bf_Path b else bf_Path8 b) = Some path"
    using Cons.prems(5) by (auto split: option.splits)
  let ?f = "\<lparr>tf_Path = path, tf_Offset = len, tf_Length = bf_Length b, tf_Padding = (CHR ''p'' \<in> set (bf_Attr b))\<rparr>"
  have "0 \<le> sum_list (map bf_Length bs)" using Cons.prems(3) by (simp add: sum_lengths_nonneg)
  moreover have "0 \<le> len" using Cons.prems(1,2) consecutive_nonneg by simp
  ultimately have w: "wrap64 (len + bf_Length b) = len + bf_Length b"
    using Cons.prems(3,4) by (intro wrap64_id) auto
  have "make_files bs (len + bf_Length b) (fs @ [?f]) = Some (len', fs')"
    using Cons.prems(5) path w by (simp split: if_splits)
  then show ?case using Cons.IH [of "fs @ [?f]" "len + bf_Length b"] Cons.prems
    by (simp add: consecutive_append)
qed simp

lemma info_files_correct:
  assumes "info_ok info" and "info_files info = Inr (len, fs)"
  shows "0 \<le> len" and "len < 2 ^ 63" and "consecutive 0 fs"
    and "fs \<noteq> [] \<Longrightarrow> len = sum_list (map tf_Length fs)"
proof -
  have "0 \<le> len \<and> len < 2 ^ 63 \<and> consecutive 0 fs \<and> (fs \<noteq> [] \<longrightarrow> len = sum_list (map tf_Length fs))"
  proof (cases "bi_Length info > 0")
    case True
    then show ?thesis using assms by (auto simp: info_files_def info_ok_def split: if_splits)
  next
    case False
    then obtain bs where bs: "bi_Files info = Some bs" "make_files bs 0 [] = Some (len, fs)"
      using assms(2) by (auto simp: info_files_def split: option.splits)
    then have ok: "\<forall>b \<in> set bs. 0 \<le> bf_Length b" "sum_list (map bf_Length bs) < 2 ^ 63"
      using assms(1) by (auto simp: info_ok_def)
    have "0 \<le> sum_list (map bf_Length bs)" using ok(1) by (rule sum_lengths_nonneg)
    then show ?thesis using make_files_correct [of "[]" 0 bs len fs] bs ok by simp
  qed
  then show "0 \<le> len" "len < 2 ^ 63" "consecutive 0 fs" "fs \<noteq> [] \<Longrightarrow> len = sum_list (map tf_Length fs)" by auto
qed

lemma num_chunks_value:
  assumes "0 \<le> len" and "len < 2 ^ 63" and "num_chunks len = num_chunks len mod 2 ^ 32"
  shows "num_chunks len = int (n_chunks (nat len))" and "n_chunks (nat len) < 4294967296"
proof -
  have nc: "num_chunks len = wrap64 (len + 16383) sdiv 16384" by (simp add: num_chunks_def add.commute)
  have nn: "0 \<le> num_chunks len" using assms(3) by (metis mod_int_pos_iff zero_less_numeral zero_less_power order_refl)
  have small: "len + 16383 < 2 ^ 63"
  proof (rule ccontr)
    assume "\<not> len + 16383 < 2 ^ 63"
    then have "(len + 16383 + 2 ^ 63 - 2 ^ 64) mod 2 ^ 64 = len + 16383 + 2 ^ 63 - 2 ^ 64"
      using assms(1,2) by (intro mod_pos_pos_trivial) auto
    then have "wrap64 (len + 16383) = len + 16383 - 2 ^ 64"
      unfolding wrap64_def minus_mod_self2 by simp
    then have "wrap64 (len + 16383) < 0" "16384 \<le> \<bar>wrap64 (len + 16383)\<bar>" using assms(1,2) by auto
    then show False using nn unfolding nc by (simp add: signed_divide_int_def pos_imp_zdiv_pos_iff)
  qed
  then have "wrap64 (len + 16383) = len + 16383" using assms(1) by (intro wrap64_id) auto
  then have v: "num_chunks len = (len + 16383) div 16384"
    using assms(1) unfolding nc by (simp add: sdiv_nonneg)
  then show e: "num_chunks len = int (n_chunks (nat len))"
    using assms(1) by (simp add: n_chunks_def zdiv_int)
  have "num_chunks len < 2 ^ 32" using assms(3) pos_mod_bound [of "2 ^ 32" "num_chunks len"] by simp
  then show "n_chunks (nat len) < 4294967296" using e by simp
qed

text \<open>The contents that the metadata describes.\<close>

lemma Pieces_MetadataComplete_stock:
  assumes S: "S \<noteq> 0" "S mod ChunkSize = 0" and len: "0 \<le> len" and n: "n_chunks (nat len) < 4294967296"
  obtains ps where "Pieces_MetadataComplete empty_pieces S len = Some ps" "stock_ok ps" "ps_length ps = len" "ps_pieceSize ps = S"
proof -
  let ?S = "unat S" and ?L = "nat len"
  have Spos: "0 < ?S" using S(1) by (simp add: unat_gt_0)
  have mult: "?S mod 16384 = 0" using S(2) by (metis unat_0 unat_ChunkSize unat_mod_u32)
  then have big: "16384 \<le> ?S" using Spos by (metis mod_less not_less not_gr_zero)
  have "uint (S - 1) = int (unat (S - 1))" by simp
  also have "\<dots> = int (?S - 1)" using unat_minus_one [OF S(1)] by simp
  finally have s1: "uint (S - 1) = int (?S - 1)" .
  have num: "(len + uint (S - 1)) sdiv uint S = int ((?L + ?S - 1) div ?S)"
  proof -
    have "len + int (?S - 1) = int (?L + ?S - 1)" using len Spos by simp
    then show ?thesis unfolding s1 using sdiv_word(1) [OF _ Spos, of "int (?L + ?S - 1)"] by simp
  qed
  define ps where "ps = empty_pieces\<lparr>ps_pieces := replicate ((?L + ?S - 1) div ?S) empty_piece, ps_pieceSize := S, ps_length := len\<rparr>"
  have "?L \<le> n_chunks ?L * 16384" using n_chunks_less [of "n_chunks ?L" ?L] by simp
  also have "\<dots> \<le> n_chunks ?L * ?S" using big by simp
  finally have "(?L + ?S - 1) div ?S \<le> (n_chunks ?L * ?S + (?S - 1)) div ?S" using Spos by (intro div_le_mono) simp
  also have "\<dots> = n_chunks ?L" by (rule div_nat_eqI) (use Spos in \<open>auto simp: mult.commute\<close>)
  finally have "(?L + ?S - 1) div ?S < 4294967296" using n by simp
  then have "stock_ok ps"
    using S Spos mult len
    by (simp add: stock_ok_def geometry_def ps_def empty_pieces_def empty_piece_def bitmap_Len_def)
  moreover have "Pieces_MetadataComplete empty_pieces S len = Some ps"
    using S(1) by (simp add: Pieces_MetadataComplete_def num ps_def empty_pieces_def Let_def)
  ultimately show thesis using that by (simp add: ps_def)
qed

text \<open>\<^verbatim>\<open>MetadataComplete\<close> on a sane dictionary: an error, or a torrent that is ready.\<close>

definition same_torrent :: "torrent \<Rightarrow> torrent \<Rightarrow> bool" where
  "same_torrent t t' \<longleftrightarrow> t_available t' = t_available t \<and> t_requested t' = t_requested t \<and> t_known t' = t_known t \<and>
     t_peers t' = t_peers t \<and> t_MyId t' = t_MyId t \<and> t_Hash t' = t_Hash t \<and> t_Info t' = t_Info t \<and>
     t_infoRequested t' = t_infoRequested t"

definition described :: "binfo \<Rightarrow> torrent \<Rightarrow> bool" where
  "described info t \<longleftrightarrow> flight_ok t \<and> (\<forall>f \<in> set (t_inFlight t). f = 0) \<and>
     ps_pieceSize (t_Pieces t) = bi_PieceLength info \<and> list_all (\<lambda>h. length h = 20) (t_PieceHashes t) \<and>
     concat (t_PieceHashes t) = bi_Pieces info \<and> consecutive 0 (t_Files t) \<and>
     (t_Files t \<noteq> [] \<longrightarrow> ps_length (t_Pieces t) = sum_list (map tf_Length (t_Files t))) \<and>
     (bi_Length info > 0 \<longrightarrow> t_Files t = [] \<and> ps_length (t_Pieces t) = bi_Length info)"

lemma piece_hashes_correct:
  assumes "length ps mod 20 = 0"
  shows "list_all (\<lambda>h. length h = 20) (piece_hashes ps)" and "concat (piece_hashes ps) = ps"
proof -
  obtain n where n: "length ps = 20 * n" using assms by auto
  have "length (take 20 (drop (i * 20) ps)) = 20" if "i < n" for i
    using that n by (simp add: min_absorb2)
  then show "list_all (\<lambda>h. length h = 20) (piece_hashes ps)" using n by (auto simp: piece_hashes_def list_all_iff)
  have "concat (map (\<lambda>i. take 20 (drop (i * 20) ps)) [0..<k]) = take (k * 20) ps" if "k \<le> n" for k
    using that take_add [of "_ * 20" 20 ps] by (induction k) (simp_all add: add.commute)
  then show "concat (piece_hashes ps) = ps" using n by (simp add: piece_hashes_def)
qed

lemma MetadataComplete_correct:
  assumes ps: "t_Pieces t = empty_pieces" and ok: "\<And>info. mc_decode c (t_Info t) = Some info \<Longrightarrow> info_ok info"
  shows "\<exists>e t'. Torrent_MetadataComplete c t = Some (e, t') \<and> same_torrent t t' \<and>
    (if e = None then t_infoComplete t' \<and> (\<exists>info. mc_decode c (t_Info t) = Some info \<and> described info t')
     else t_Pieces t' = empty_pieces \<and> t_infoComplete t' = t_infoComplete t)"
proof (cases "mc_decode c (t_Info t)")
  case None
  then show ?thesis using ps by (simp add: Torrent_MetadataComplete_def same_torrent_def)
next
  case (Some info)
  let ?r = "Torrent_MetadataComplete c t"
  have stop: "?thesis" if "?r = Some (Some e, t1)" "same_torrent t t1" "t_Pieces t1 = empty_pieces" "t_infoComplete t1 = t_infoComplete t" for e t1
    using that by simp
  show ?thesis
  proof (cases "length (bi_Pieces info) mod 20 \<noteq> 0 \<or> bi_PieceLength info mod ChunkSize \<noteq> 0 \<or> (\<exists>e. info_files info = Inl e)")
    case True
    then have "\<exists>e. ?r = Some (Some e, t)" using Some by (auto simp: Torrent_MetadataComplete_def)
    then obtain e where "?r = Some (Some e, t)" ..
    then show ?thesis using stop ps by (simp add: same_torrent_def)
  next
    case False
    then obtain len files where lf: "info_files info = Inr (len, files)" by (cases "info_files info") auto
    note L = info_files_correct [OF ok [OF Some] lf]
    define t1 where "t1 = t\<lparr>t_inFlight := replicate (nat (num_chunks len)) 0,
        t_PieceHashes := piece_hashes (bi_Pieces info),
        t_Name := (if bi_Name8 info \<noteq> [] then bi_Name8 info else bi_Name info)\<rparr>"
    have r: "?r = (if num_chunks len \<noteq> num_chunks len mod 2 ^ 32 then Some (Some ErrTooLarge, t)
        else if t_Name t1 = [] then Some (Some ErrNoName, t1)
        else map_option (\<lambda>ps. (None, t1\<lparr>t_Pieces := ps, t_Files := files, t_infoComplete := True\<rparr>))
               (Pieces_MetadataComplete (t_Pieces t1) (bi_PieceLength info) len))"
      using Some False lf by (simp add: Torrent_MetadataComplete_def Let_def t1_def)
    have s1: "same_torrent t t1" "t_Pieces t1 = empty_pieces" "t_infoComplete t1 = t_infoComplete t"
      using ps by (simp_all add: same_torrent_def t1_def)
    show ?thesis
    proof (cases "num_chunks len \<noteq> num_chunks len mod 2 ^ 32 \<or> t_Name t1 = []")
      case True
      then show ?thesis using stop r s1 ps by (auto simp: same_torrent_def split: if_splits)
    next
      case go: False
      note N = num_chunks_value [OF L(1,2)]
      have S: "bi_PieceLength info \<noteq> 0" "bi_PieceLength info mod ChunkSize = 0"
        using ok [OF Some] False by (simp_all add: info_ok_def)
      obtain p where p: "Pieces_MetadataComplete empty_pieces (bi_PieceLength info) len = Some p" "stock_ok p"
        "ps_length p = len" "ps_pieceSize p = bi_PieceLength info"
        using Pieces_MetadataComplete_stock [OF S L(1)] N(2) go by blast
      let ?t = "t1\<lparr>t_Pieces := p, t_Files := files, t_infoComplete := True\<rparr>"
      have "described info ?t"
        using p L N go lf piece_hashes_correct [of "bi_Pieces info"] False
        by (auto simp: described_def flight_ok_def t1_def info_files_def split: if_splits)
      moreover have "same_torrent t ?t" using s1 by (simp add: same_torrent_def)
      ultimately show ?thesis using r go p s1 Some by simp
    qed
  qed
qed

subsection \<open>Metadata from peers\<close>

lemma ask_metadata_vital: "vital (ask_metadata env ps cn t) = vital t"
proof (induction env ps cn t rule: ask_metadata.induct)
  case (2 env p ps cn t)
  show ?case
  proof (cases cn)
    case (Cons i cn')
    obtain e t1 where w: "maybeWritePeer env p (PeerGetMetadata (of_nat i)) t = (e, t1)"
      by (cases "maybeWritePeer env p (PeerGetMetadata (of_nat i)) t")
    have s: "vital t1 = vital t" using vital_still [OF still_basic(5)] w by (metis snd_conv)
    have "vital (t1\<lparr>t_infoRequested := (t_infoRequested t1)[i := x]\<rparr>) = vital t1" for x
      by (simp add: vital_def still_def)
    then show ?thesis using 2 Cons w s by simp
  qed simp
qed simp

lemma moves_metadata:
  assumes "tor_inv t" and "\<not> t_infoComplete t" and "length info \<le> 134217728"
    and "length rq = (length info + 16383) div 16384"
  shows "moves t (t\<lparr>t_Info := info, t_infoBitmap := bm, t_infoRequested := rq\<rparr>)"
  using assms by (auto simp: moves_def fixed_def identity_def tor_inv_def meta_ok_def)

lemma resizeMetadata_moves:
  assumes "tor_inv t"
  shows "moves t (snd (resizeMetadata sz t))"
proof (cases "t_infoComplete t \<or> bad_size sz \<or> length (t_Info t) = unat sz")
  case True
  then show ?thesis using assms by (auto simp: resizeMetadata_def moves_refl)
next
  case False
  then have sz: "unat sz \<le> 134217728" by (simp add: bad_size_def not_less word_le_nat_alt)
  then have "unat (sz + 16383) = unat sz + 16383" by (subst unat_add_u32) simp_all
  moreover have "sz + 16 * 1024 - 1 = sz + 16383" by simp
  ultimately have "unat ((sz + 16 * 1024 - 1) div (16 * 1024)) = (unat sz + 16383) div 16384"
    by (simp only: unat_div_u32) simp
  then show ?thesis using False assms sz by (simp add: resizeMetadata_def moves_metadata)
qed

lemma requestMetadata_moves:
  assumes "tor_inv t"
  shows "moves_with t (requestMetadata env p t)"
proof (cases "t_infoComplete t")
  case True
  then show ?thesis using assms by (simp add: requestMetadata_def moves_refl)
next
  case False
  then obtain guess where g: "metadataGuess env t = Some guess" by (cases "t_infoSizeVotes t") (auto simp: metadataGuess_def)
  obtain e t1 where t1: "(if of_nat (length (t_Info t)) \<noteq> guess then resizeMetadata guess t else (None, t)) = (e, t1)"
    by (metis surj_pair)
  have m: "moves t t1"
    using t1 resizeMetadata_moves [OF assms, of guess] moves_refl [OF assms] by (auto split: if_splits)
  have "vital (ask_metadata env ps cn (tor_tick (tor_tick t1))) = vital t1" for ps cn
    using vital_still [OF still_basic(1)] by (simp add: ask_metadata_vital)
  then have "moves t (ask_metadata env ps cn (tor_tick (tor_tick t1)))" for ps cn
    using moves_trans [OF m moves_vital [OF movesD(1) [OF m]]] by blast
  then show ?thesis using False g t1 m moves_refl [OF assms] by (simp add: requestMetadata_def Let_def)
qed

lemma metadataVote_moves: "tor_inv t \<Longrightarrow> moves t (snd (metadataVote sz t))"
  by (rule moves_vital) (auto simp: metadataVote_def Let_def vital_def still_def)

text \<open>The block number \<open>index\<close> is beyond the end: the slice expression panics.\<close>

definition beyond_end :: "torrent \<Rightarrow> u32 \<Rightarrow> bool" where
  "beyond_end t index \<longleftrightarrow> length (t_Info t) < unat index * 16384"

lemma block_offset:
  assumes "meta_ok t" and "unat index \<le> length (t_infoRequested t)"
  shows "unat (index * 16 * 1024 :: u32) = unat index * 16384"
proof -
  have "unat index * 16384 \<le> length (t_Info t) + 16383"
    using assms by (simp add: meta_ok_def)
  then have "unat index * 16384 < 4294967296" using assms(1) by (simp add: meta_ok_def)
  then have "unat (index * 16384) = unat index * 16384" by (subst unat_mult_u32) simp_all
  then show ?thesis by (simp add: mult.assoc)
qed

definition codec_ok :: "mcodec \<Rightarrow> bool" where
  "codec_ok c \<longleftrightarrow> (\<forall>x. length (mc_sha1 c x) = 20) \<and> (\<forall>x info. mc_decode c x = Some info \<longrightarrow> info_ok info)"

text \<open>
  What \<^verbatim>\<open>gotMetadata\<close> leaves behind. When it answers true, the metadata has the hash of the
  torrent and the torrent is what it describes.
\<close>

definition got :: "mcodec \<Rightarrow> torrent \<Rightarrow> bool \<Rightarrow> torrent \<Rightarrow> bool" where
  "got c t fin t' \<longleftrightarrow> tor_inv t' \<and> t_available t' = t_available t \<and> t_peers t' = t_peers t \<and>
     t_requested t' = t_requested t \<and> t_Hash t' = t_Hash t \<and>
     (if fin then t_infoComplete t' \<and> mc_sha1 c (t_Info t') = t_Hash t \<and>
        (\<exists>info. mc_decode c (t_Info t') = Some info \<and> described info t')
      else \<not> t_infoComplete t')"

lemma got_forget:
  assumes "tor_inv t" "\<not> t_infoComplete t" and "same_torrent t t'" and "t_Pieces t' = empty_pieces" and "\<not> t_infoComplete t'"
  shows "got c t False (forget_metadata t')"
  using assms
  by (auto simp: got_def tor_inv_def forget_metadata_def same_torrent_def meta_ok_def req_ok_def)

lemma gotMetadata_correct:
  assumes inv: "tor_inv t" "\<not> t_infoComplete t" and "codec_ok c" and "\<not> beyond_end t index"
  shows "\<exists>fin e t'. gotMetadata c index sz data t = Some ((fin, e), t') \<and> got c t fin t'"
proof (cases "\<exists>e. gotMetadata c index sz data t = Some ((False, e), t)")
  case True
  then show ?thesis using inv by (auto simp: got_def)
next
  case False
  have mo: "meta_ok t" using inv by (simp add: tor_inv_def)
  have idx: "unat index \<le> length (t_infoRequested t)"
    and nb: "\<not> bitmap_Get (t_infoBitmap t) (unat index)" "sz = of_nat (length (t_Info t))"
    "length data = 16384 \<or> unat index * 16384 + length data = length (t_Info t)"
    using False inv(2) by (auto simp: gotMetadata_def split: if_splits)
  obtain info where info: "copy_at (t_Info t) (unat (index * 16 * 1024)) data = Some info" "length info = length (t_Info t)"
    using assms(4) block_offset [OF mo idx] by (auto simp: copy_at_def beyond_end_def)
  define t1 where "t1 = t\<lparr>t_Info := info, t_infoBitmap := bitmap_Set (t_infoBitmap t) (unat index)\<rparr>"
  have "t1 = t\<lparr>t_Info := info, t_infoBitmap := bitmap_Set (t_infoBitmap t) (unat index), t_infoRequested := t_infoRequested t\<rparr>"
    by (simp add: t1_def)
  then have m1: "moves t t1" using moves_metadata [OF inv, of info "t_infoRequested t"] mo info(2) by (simp add: meta_ok_def)
  have i1: "tor_inv t1" "\<not> t_infoComplete t1" using movesD [OF m1] inv(2) by simp_all
  have f1: "t_available t1 = t_available t" "t_peers t1 = t_peers t" "t_requested t1 = t_requested t" "t_Hash t1 = t_Hash t"
    "t_infoRequested t1 = t_infoRequested t" "t_Info t1 = info" by (simp_all add: t1_def)
  have trans: "got c t1 fin t' \<Longrightarrow> got c t fin t'" for fin t' using f1 by (simp add: got_def)
  obtain eq where eq: "hash_Equal (mc_sha1 c info) (t_Hash t1) = Some eq" "eq = (mc_sha1 c info = t_Hash t1)"
    using assms(3) i1(1) hash_Equal_Some by (auto simp: codec_ok_def tor_inv_def)
  obtain e t2 where mc: "Torrent_MetadataComplete c t1 = Some (e, t2)" "same_torrent t1 t2"
    "if e = None then t_infoComplete t2 \<and> (\<exists>i. mc_decode c (t_Info t1) = Some i \<and> described i t2)
     else t_Pieces t2 = empty_pieces \<and> t_infoComplete t2 = t_infoComplete t1"
    using MetadataComplete_correct [of t1 c] i1 assms(3) by (auto simp: tor_inv_def meta_ok_def codec_ok_def)
  have r: "gotMetadata c index sz data t =
    (if list_ex (\<lambda>i. \<not> bitmap_Get (t_infoBitmap t1) i) [0..<length (t_infoRequested t)] then Some ((False, None), t1)
     else if \<not> eq then Some ((False, Some ErrMetaMismatch), forget_metadata t1)
     else if e \<noteq> None then Some ((False, e), forget_metadata t2)
     else Some ((True, None), t2\<lparr>t_infoSizeVotes := None, t_infoBitmap := [], t_infoRequested := []\<rparr>))"
    using inv(2) idx nb info(1) eq(1) mc(1) unfolding t1_def by (simp add: gotMetadata_def Let_def mult.commute) blast
  have g0: "got c t1 False t1" using i1 by (simp add: got_def)
  have g1: "got c t1 False (forget_metadata t1)"
    using i1 by (intro got_forget) (auto simp: same_torrent_def tor_inv_def meta_ok_def)
  have g2: "got c t1 False (forget_metadata t2)" if "e \<noteq> None" using that got_forget [OF i1 mc(2)] mc(3) i1(2) by simp
  have g3: "got c t1 True (t2\<lparr>t_infoSizeVotes := None, t_infoBitmap := [], t_infoRequested := []\<rparr>)" if "e = None" "eq"
    using that mc(2,3) eq(2) i1
    by (auto simp: got_def same_torrent_def tor_inv_def described_def flight_ok_def meta_ok_def req_ok_def Pieces_Num_def empty_pieces_def f1)
  show ?thesis using r g0 g1 g2 g3 trans by (auto split: if_splits)
qed

lemma gotMetadata_done: "gotMetadata c index sz data t = Some ((True, e), t') \<Longrightarrow> t_infoComplete t'"
proof -
  have "Torrent_MetadataComplete c u = Some (None, v) \<Longrightarrow> t_infoComplete v" for u v
    by (auto simp: Torrent_MetadataComplete_def Let_def split: option.splits if_splits sum.splits)
  then show "gotMetadata c index sz data t = Some ((True, e), t') \<Longrightarrow> t_infoComplete t'"
    by (auto simp: gotMetadata_def Let_def bind_eq_Some_conv split: if_splits prod.splits)
qed

end
