(* ===== verification/Tor_Runs.thy ===== *)
theory Tor_Runs
  imports Tor_Sched Tor_Meta
begin

section \<open>Runs of a torrent\<close>

text \<open>
  The remaining handlers keep the invariant, and so does every run of the main loop,
  interleaved with the changes that the goroutines of peers and web seeds make to the contents.
\<close>

subsection \<open>Choking\<close>

lemma choke_excess_still: "still (snd (choke_excess env ps t)) = still t"
  by (induction env ps t rule: choke_excess.induct) (simp_all add: quiet)

lemma unchoke_loop_still: "still (snd (unchoke_loop env opp u n ps t)) = still t"
proof (induction ps arbitrary: n t)
  case (Cons p ps)
  then show ?case using still_basic(4) [of env p "PeerUnchoke True" t]
    by (auto simp: Let_def split: prod.splits)
qed simp

lemma maybeUnchoke_still: "still (maybeUnchoke env periodic t) = still t"
proof -
  have c: "choke_excess env ps u = (x, u') \<Longrightarrow> still u' = still u" for ps u x u'
    using choke_excess_still [of env ps u] by simp
  have l: "unchoke_loop env opp n m ps u = (x, u') \<Longrightarrow> still u' = still u" for opp n m ps u x u'
    using unchoke_loop_still [of env opp n m ps u] by simp
  show ?thesis
    by (auto simp: maybeUnchoke_def Let_def quiet dest!: c l split: prod.splits)
qed

lemmas maybeUnchoke_moves = moves_still [OF _ maybeUnchoke_still]

subsection \<open>Known peers\<close>

definition id_ok :: "hash option \<Rightarrow> bool" where
  "id_ok pid \<longleftrightarrow> (case pid of None \<Rightarrow> True | Some h \<Rightarrow> length h = 20)"

lemma id_ok_simps [simp]: "id_ok None" "id_ok (Some h) \<longleftrightarrow> length h = 20"
  by (simp_all add: id_ok_def)

lemma tor_known: "tor_inv t \<Longrightarrow> known_inv (t_known t)"
  by (simp add: tor_inv_def)

lemma known_Find_moves:
  assumes inv: "tor_inv t" and "id_ok pid"
  obtains k kp where "known_Find now (t_known t) addr pid v kind = Some (k, kp)" "moves t (t\<lparr>t_known := k\<rparr>)"
proof -
  note kv = known_Find_value [OF tor_known [OF inv] assms(2) [unfolded id_ok_def], of now addr v kind]
  show thesis
  proof (cases "known_found now (t_known t) addr pid v kind")
    case None
    then show ?thesis using that kv moves_known [OF inv tor_known [OF inv]] by simp
  next
    case (Some kp)
    then have "known_inv (AList.update addr kp (t_known t))"
      using known_entry_update [OF tor_known [OF inv]] known_found_ok [OF tor_known [OF inv] assms(2) [unfolded id_ok_def]] by blast
    then show ?thesis using that kv Some moves_known [OF inv] by simp
  qed
qed

lemma tor_active_moves:
  assumes "tor_inv t"
  shows "moves_to t (tor_active env p t)"
proof -
  obtain k kp where "known_Find (te_now env) (t_known t) (pv_Addr (view env t p)) None [] KActive = Some (k, kp)"
    "moves t (t\<lparr>t_known := k\<rparr>)"
    by (rule known_Find_moves [OF assms id_ok_simps(1)])
  then show ?thesis using moves_refl [OF assms] by (simp add: tor_active_def Let_def)
qed

lemma tor_ids: "tor_inv t \<Longrightarrow> \<forall>p \<in> set (t_peers t). length (tp_Id p) = 20"
  by (simp add: tor_inv_def)

lemma find_id_Some:
  assumes "\<forall>p \<in> set ps. length (tp_Id p) = 20" and "length h = 20"
  shows "\<exists>r. find_id h ps = Some r"
  using assms by (induction ps) (auto simp: hash_Equal_Some split: bool.splits)

lemma idle_peer_loop_moves:
  assumes "tor_inv t"
  shows "moves_with t (idle_peer_loop env seed ps t)"
  using assms
proof (induction ps arbitrary: t)
  case (Cons p ps)
  obtain k kp where k: "known_Find (te_now env) (t_known t) (pv_Addr (view env t p)) None [] KNone = Some (k, kp)"
    "moves t (t\<lparr>t_known := k\<rparr>)"
    by (rule known_Find_moves [OF Cons.prems id_ok_simps(1)])
  have "moves_with t (idle_peer_loop env seed ps (t\<lparr>t_known := k\<rparr>))"
    using Cons.IH [OF movesD(1) [OF k(2)]] moves_with_trans [OF k(2)] by blast
  then show ?case using k Cons moves_refl [OF Cons.prems] by (auto simp: Let_def split: option.split)
qed (simp add: moves_refl)

lemma findIdlePeer_moves:
  assumes "tor_inv t"
  shows "moves_with t (findIdlePeer env t)"
  using moves_quiet(1) [OF assms] idle_peer_loop_moves [of "tor_tick t"] movesD(1) moves_with_trans
  unfolding findIdlePeer_def by blast

lemma known_entry_ids:
  assumes "tor_inv t" and "known_entry_ok (a, kp)"
  shows "\<exists>b. connectable env t kp = Some b"
proof (cases "kp_Id kp")
  case (Some h)
  then have h: "length h = 20" using assms(2) by (simp add: known_entry_ok_def)
  have "hash_Equal h (t_MyId t) = Some (h = t_MyId t)" using h assms(1) by (simp add: hash_Equal_Some tor_inv_def)
  moreover obtain r where "findPeer t h = Some r" using find_id_Some [OF tor_ids [OF assms(1)] h] by (auto simp: findPeer_def)
  ultimately show ?thesis using Some by (auto simp: connectable_def)
qed (auto simp: connectable_def)

lemma connect_loop_moves:
  assumes "tor_inv t" and "list_all known_entry_ok ks"
  shows "moves_to t (connect_loop env mx n ks t)"
  using assms
proof (induction ks arbitrary: n t)
  case (Cons e ks)
  obtain a kp where e: "e = (a, kp)" by (cases e)
  have ok: "known_entry_ok (a, kp)" using Cons.prems e by simp
  obtain b where b: "connectable env t kp = Some b" using known_entry_ids [OF Cons.prems(1) ok] by blast
  let ?kp = "known_Update (te_now env) kp [] KConnectAttempt"
  have "known_entry_ok (a, ?kp)" using ok known_Update_Badness by (simp add: known_entry_ok_def)
  then have m: "moves t (t\<lparr>t_known := AList.update a ?kp (t_known t)\<rparr>)"
    by (intro moves_known [OF Cons.prems(1)] known_entry_update [OF tor_known [OF Cons.prems(1)]])
  define t1 where "t1 = act (Go_dial (kp_Addr kp)) (t\<lparr>t_known := AList.update a ?kp (t_known t)\<rparr>)"
  have m1: "moves t t1" unfolding t1_def using moves_trans [OF m moves_quiet(2)] movesD(1) [OF m] by blast
  have "moves_to t (connect_loop env mx (Suc n) ks t1)"
    using Cons.IH [OF movesD(1) [OF m1]] Cons.prems moves_to_trans [OF m1] by simp
  then show ?case using b e m1 Cons.IH [of t n] Cons.prems by (simp add: Let_def flip: t1_def)
qed (simp add: moves_refl)

lemma maybeConnect_moves:
  assumes inv: "tor_inv t" and "perm_ok env"
  shows "moves_to t (maybeConnect env t)"
proof -
  define ks where "ks = map (\<lambda>(a, kp). (a, reset_attempts (te_now env) kp)) (t_known t)"
  have ok: "known_entry_ok (a, kp) \<Longrightarrow> known_entry_ok (a, reset_attempts (te_now env) kp)" for a kp
    by (simp add: known_entry_ok_def reset_attempts_def)
  have "map fst ks = map fst (t_known t)" by (auto simp: ks_def)
  moreover have entries: "list_all known_entry_ok ks"
    using tor_known [OF inv] ok by (auto simp: ks_def known_inv_def list_all_iff)
  ultimately have "known_inv ks" using tor_known [OF inv] by (simp add: known_inv_def)
  then have m: "moves t (t\<lparr>t_known := ks\<rparr>)" using moves_known [OF inv] by blast
  then have m1: "moves t (tor_tick (t\<lparr>t_known := ks\<rparr>))" using moves_quiet(1) movesD(1) moves_trans by blast
  have "list_all known_entry_ok (SortFunc f (shuffled env (t\<lparr>t_known := ks\<rparr>) ks))" for f
    using entries assms(2) by (simp add: list_all_iff set_shuffled)
  then have "moves_to t (connect_loop env mx 0 (SortFunc f (shuffled env (t\<lparr>t_known := ks\<rparr>) ks)) (tor_tick (t\<lparr>t_known := ks\<rparr>)))" for mx f
    using connect_loop_moves [OF movesD(1) [OF m1]] moves_to_trans [OF m1] by blast
  then show ?thesis using moves_refl [OF inv] by (simp add: maybeConnect_def Let_def flip: ks_def)
qed

subsection \<open>Data and drops\<close>

text \<open>
  What peers and web seeds report: data of a piece of the torrent, up to the end of its
  last chunk.
\<close>

definition data_ok :: "torrent \<Rightarrow> u32 \<Rightarrow> u32 \<Rightarrow> u32 \<Rightarrow> bool" where
  "data_ok t index off len \<longleftrightarrow> unat index < Pieces_Num (t_Pieces t) \<and>
     unat off + unat len \<le> n_chunks (piece_len (t_Pieces t) (unat index)) * 16384"

lemma event_chunks_range:
  assumes f: "flight_ok t" and d: "data_ok t index off len" and b: "\<not> bad_range t off len"
    and c: "c \<in> set (event_chunks t index off len)"
  shows "unat c < length (t_inFlight t)"
proof -
  let ?o = "unat off div 16384" and ?n = "n_chunks (piece_len (t_Pieces t) (unat index))"
  obtain i where i: "i < unat len div 16384" "c = index * tor_cpp t + off div ChunkSize + of_nat i"
    using c by (auto simp: event_chunks_def unat_div_u32)
  have "off mod ChunkSize = 0" using b by (simp add: bad_range_def)
  then have "unat off mod 16384 = 0" by (metis unat_0 unat_ChunkSize unat_mod_u32)
  then have off: "unat off = ?o * 16384" using div_mult_mod_eq [of "unat off" 16384] by simp
  have "Suc i * 16384 \<le> unat len div 16384 * 16384" using i(1) by (intro mult_le_mono1) simp
  then have "Suc i * 16384 \<le> unat len" using div_times_less_eq_dividend [of "unat len" 16384] by linarith
  then have "(?o + Suc i) * 16384 \<le> ?n * 16384" using d off by (simp add: data_ok_def)
  then have k: "?o + i < ?n" unfolding mult_le_cancel2 by simp
  have "off div ChunkSize = of_nat ?o"
    by (simp add: word_unat_eq_iff unat_div_u32 unat_of_nat_u32 [OF le_less_trans [OF div_le_dividend unat_u32_bound]])
  then have "c = index * tor_cpp t + of_nat (?o + i)" using i(2) by simp
  then show ?thesis using chunk_in_range [OF f k] by simp
qed

lemma data_loop_moves:
  assumes "tor_inv t" and "\<forall>c \<in> set cs. unat c < length (t_inFlight t)"
  shows "moves_to t (data_loop env p cs t)"
  using assms
proof (induction cs arbitrary: t)
  case (Cons c cs)
  obtain t1 where t1: "noteInFlight c False t = Some t1" "moves t t1" "length (t_inFlight t1) = length (t_inFlight t)"
    using noteInFlight_moves [of t c False] Cons.prems by auto
  define t2 where "t2 = (if t_inFlight t1 ! unat c > 0 then writePeers env (PeerCancel c) p t1 else t1)"
  have m: "moves t t2" "t_inFlight t2 = t_inFlight t1"
    using moves_trans [OF t1(2) moves_quiet(7)] t1(2) movesD(1) [OF t1(2)] by (auto simp: t2_def)
  have "moves_to t (data_loop env p cs t2)"
    using Cons.IH [OF movesD(1) [OF m(1)]] Cons.prems t1(3) m(2) moves_to_trans [OF m(1)] by simp
  then show ?case using t1 Cons.prems by (simp add: inFlight_Some flip: t2_def)
qed (simp add: moves_refl)

lemma handle_TorData_moves:
  assumes inv: "tor_inv t" and d: "t_infoComplete t \<Longrightarrow> data_ok t index off len"
  shows "moves_to t (handle_TorData env p index off len fin t)"
proof (cases "t_infoComplete t")
  case False
  then show ?thesis using inv by (simp add: handle_TorData_def moves_refl)
next
  case True
  obtain t1 where t1: "(case p of None \<Rightarrow> Some t | Some q \<Rightarrow> tor_active env q t) = Some t1" "moves t t1"
    using tor_active_moves [OF inv, of env "the p"] moves_refl [OF inv] by (cases p) (auto elim: moves_toE)
  define t2 where "t2 = (if fin then finalisePiece index t1 else t1)"
  have m: "moves t t2" using moves_trans [OF t1(2) moves_quiet(6)] t1(2) movesD(1) [OF t1(2)] by (auto simp: t2_def)
  have "moves_to t (data_loop env q (event_chunks t2 index off len) t2)" if "\<not> bad_range t1 off len" for q
  proof -
    have b: "\<not> bad_range t2 off len" using that movesD(3) [OF m] movesD(3) [OF t1(2)] by (simp add: bad_range_def)
    have "flight_ok t2" "data_ok t2 index off len" using movesD [OF m] True d tor_inv_flight by (auto simp: data_ok_def)
    then have "\<forall>c \<in> set (event_chunks t2 index off len). unat c < length (t_inFlight t2)"
      using event_chunks_range b by blast
    then show ?thesis using data_loop_moves [OF movesD(1) [OF m]] moves_to_trans [OF m] by blast
  qed
  then show ?thesis using True t1 by (simp add: handle_TorData_def Let_def flip: t2_def)
qed

lemma handle_TorDrop_moves:
  assumes inv: "tor_inv t" and d: "t_infoComplete t \<Longrightarrow> data_ok t index off len"
  shows "moves_to t (handle_TorDrop index off len t)"
  using noteInFlights_moves [OF inv] event_chunks_range [of t index off len] tor_inv_flight [OF inv] d moves_refl [OF inv]
  by (auto simp: handle_TorDrop_def)

subsection \<open>The other events\<close>

lemma moves_write:
  assumes "moves t u"
  shows "moves t (snd (writePeer env p e u))" "moves t (writePeers env e x u)"
    "moves t (tor_tick u)" "moves t (answer r u)" "moves t (act a u)" "moves t (tor_announce env v6 u)"
  using moves_trans [OF assms] moves_quiet [OF movesD(1) [OF assms]] by blast+

lemma handle_TorAddPeer_moves:
  assumes inv: "tor_inv t" and "length (tp_Id p) = 20"
  shows "moves t (handle_TorAddPeer env p init t)"
proof -
  have "moves t (t\<lparr>t_peers := t_peers t @ [p]\<rparr>)"
    using tor_ids [OF inv] assms(2) by (intro moves_peers [OF inv]) auto
  then show ?thesis
    unfolding handle_TorAddPeer_def Let_def by (auto intro: moves_write split: option.split)
qed

lemma handle_TorPeerExtended_moves:
  assumes inv: "tor_inv t"
  shows "moves_to t (handle_TorPeerExtended env p sz t)"
proof -
  obtain e t1 where v: "metadataVote sz t = (e, t1)" by (cases "metadataVote sz t")
  have m1: "moves t t1" using metadataVote_moves [OF inv, of sz] v by simp
  have "moves_with t (requestMetadata env (Some p) t1)"
    using moves_with_trans [OF m1 requestMetadata_moves [OF movesD(1) [OF m1]]] .
  then have "moves_with t (offer_metadata env p sz t)"
    using v m1 moves_refl [OF inv] by (auto simp: offer_metadata_def moves_with_def)
  then show ?thesis
    by (auto simp: handle_TorPeerExtended_def Let_def moves_with_def intro!: moves_write split: option.split)
qed

lemma handle_TorAddKnown_moves:
  assumes "tor_inv t" and "id_ok pid"
  shows "moves_to t (handle_TorAddKnown env p addr pid v kind t)"
proof -
  obtain k kp where "known_Find (te_now env) (t_known t) addr pid v kind = Some (k, kp)" "moves t (t\<lparr>t_known := k\<rparr>)"
    by (rule known_Find_moves [OF assms])
  then show ?thesis
    by (auto simp: handle_TorAddKnown_def Let_def intro: moves_write split: option.split)
qed

lemma handle_TorBadPeer_moves:
  assumes inv: "tor_inv t"
  shows "moves_to t (handle_TorBadPeer env n bad t)"
proof (cases "index_of (\<lambda>p. n = tp_Counter p) (t_peers t)")
  case (Some i)
  let ?p = "t_peers t ! i"
  obtain k kp where "known_Find (te_now env) (t_known t) (pv_Addr (view env t ?p)) None [] (if bad then KBad else KGood) = Some (k, kp)"
    "moves t (t\<lparr>t_known := k\<rparr>)"
    by (rule known_Find_moves [OF inv id_ok_simps(1)])
  then show ?thesis using Some moves_refl [OF inv]
    by (auto simp: handle_TorBadPeer_def Let_def intro: moves_write split: option.split)
qed (simp add: handle_TorBadPeer_def moves_refl inv)

lemma handle_TorPeerGoaway_moves:
  assumes inv: "tor_inv t"
  shows "moves t (handle_TorPeerGoaway env p t)"
proof -
  have "moves t (t\<lparr>t_peers := delete_at i (t_peers t)\<rparr>)" for i
    using tor_ids [OF inv] set_delete_at_subset [of i "t_peers t"] by (intro moves_peers [OF inv]) auto
  then have "moves t (snd (delPeer env (tp_ref p) a t))" for a
    using moves_refl [OF inv] by (auto simp: delPeer_def Let_def intro!: moves_write split: option.split)
  then show ?thesis
    unfolding handle_TorPeerGoaway_def using maybeUnchoke_moves movesD(1) moves_trans by blast
qed

lemma handle_TorDropPeer_moves:
  assumes "tor_inv t"
  shows "moves_to t (handle_TorDropPeer env t)"
  using findIdlePeer_moves [OF assms, of env]
  by (auto simp: handle_TorDropPeer_def moves_with_def intro!: moves_write split: option.split)

lemma known_FindId_Some:
  assumes "list_all known_entry_ok ks" and "length h = 20"
  shows "\<exists>r. known_FindId ks h addr = Some r"
  using assms
  by (induction ks h addr rule: known_FindId.induct)
     (auto simp: known_entry_ok_def hash_Equal_Some split: option.splits bool.splits)

lemma handle_TorGetKnown_moves:
  assumes inv: "tor_inv t" and "id_ok pid" and "perm_ok env"
  shows "moves_to t (handle_TorGetKnown env pid addr t)"
proof (cases pid)
  case None
  obtain k kp where "known_Find (te_now env) (t_known t) addr None [] KNone = Some (k, kp)" "moves t (t\<lparr>t_known := k\<rparr>)"
    by (rule known_Find_moves [OF inv id_ok_simps(1)])
  then show ?thesis using None by (auto simp: handle_TorGetKnown_def intro: moves_write)
next
  case (Some h)
  have "list_all known_entry_ok (shuffled env t (t_known t))"
    using tor_known [OF inv] assms(3) by (simp add: known_inv_def list_all_iff set_shuffled)
  then obtain r where "known_FindId (shuffled env t (t_known t)) h addr = Some r"
    using known_FindId_Some assms(2) Some by fastforce
  then show ?thesis using Some moves_refl [OF inv] by (auto simp: handle_TorGetKnown_def intro: moves_write)
qed

lemma handle_TorHave_moves:
  assumes inv: "tor_inv t"
  shows "moves_to t (handle_TorHave env index have t)"
proof -
  have m: "moves t (writePeers env (PeerHave index have) None t)" using moves_refl [OF inv] by (rule moves_write)
  obtain rs where rs: "rd_Done (t_requested (writePeers env (PeerHave index have) None t)) index = Some rs"
    "req_ok (Pieces_Num (t_Pieces (writePeers env (PeerHave index have) None t))) rs"
    using req_ok_Done [OF tor_inv_req [OF movesD(1) [OF m]]] .
  then show ?thesis using m moves_trans [OF m moves_requested [OF movesD(1) [OF m] rs(2)]]
    by (cases "have") (simp_all add: handle_TorHave_def Let_def)
qed

lemma handle_TorRequest_moves:
  assumes inv: "tor_inv t" and "perm_ok env" and fast: "t_infoComplete t \<Longrightarrow> fast_ok env t"
    and i: "t_infoComplete t \<Longrightarrow> request \<Longrightarrow> index \<le> of_nat (length (t_PieceHashes t)) \<Longrightarrow> unat index < Pieces_Num (t_Pieces t)"
  shows "moves_to t (handle_TorRequest env index prio request want t)"
proof (cases "t_infoComplete t")
  case False
  then show ?thesis using moves_refl [OF inv] moves_write(4) by (simp add: handle_TorRequest_def)
next
  case True
  obtain ch a t1 where t1: "requestPiece env index prio request want t = Some ((ch, a), t1)" "moves t t1"
    using requestPiece_moves [OF inv, of request index env prio want] i [OF True] by (auto simp: moves_with_def)
  define t2 where "t2 = (if want then answer (RepRequest (Some ch)) t1 else t1)"
  have m: "moves t t2" using moves_write(4) [OF t1(2)] t1(2) by (simp add: t2_def)
  have "moves_to t2 (tor_maybeRequest env t2)"
    using movesD [OF m] True fast assms(2) by (intro tor_maybeRequest_moves) (auto simp: fast_ok_def)
  then show ?thesis using True t1 m moves_to_trans [OF m] by (simp add: handle_TorRequest_def flip: t2_def)
qed

lemma handle_TorSetConf_moves:
  assumes inv: "tor_inv t" and "perm_ok env" and fast: "t_infoComplete t \<Longrightarrow> fast_ok env t"
  shows "moves_to t (handle_TorSetConf env conf ch t)"
proof -
  define t1 where "t1 = t\<lparr>t_dhtMode := co_DhtMode conf, t_useTrackers := co_UseTrackers conf, t_useWebseeds := co_UseWebseeds conf\<rparr>"
  define t2 where "t2 = (if ch then answer RepSetConf t1 else t1)"
  define t3 where "t3 = (if t_dhtMode t < co_DhtMode conf then tor_announce env False (tor_announce env True t2) else t2)"
  have "moves t t1" using inv by (rule moves_vital) (simp add: t1_def vital_def still_def)
  then have m: "moves t t3" by (auto simp: t3_def t2_def intro!: moves_write)
  obtain rs where rs: "rd_DelIdle (t_requested t3) = Some rs" "req_ok (Pieces_Num (t_Pieces t3)) rs"
    using req_ok_DelIdle [OF tor_inv_req [OF movesD(1) [OF m]]] .
  have m4: "moves t (t3\<lparr>t_requested := rs\<rparr>)" using moves_trans [OF m moves_requested [OF movesD(1) [OF m] rs(2)]] .
  have "moves_to t (tor_maybeRequest env (t3\<lparr>t_requested := rs\<rparr>))"
    using moves_to_trans [OF m4 tor_maybeRequest_moves] movesD [OF m4] fast assms(2) by (auto simp: fast_ok_def)
  then show ?thesis unfolding handle_TorSetConf_def Let_def t1_def [symmetric] t2_def [symmetric] t3_def [symmetric]
    using rs(1) by simp
qed

subsection \<open>Metadata\<close>

text \<open>
  What the metadata of a torrent promises once it is complete: it has the hash of the torrent,
  and the pieces, their hashes and the files are those it describes.
\<close>

definition genuine :: "mcodec \<Rightarrow> torrent \<Rightarrow> bool" where
  "genuine c t \<longleftrightarrow> (t_infoComplete t \<longrightarrow> mc_sha1 c (t_Info t) = t_Hash t \<and>
     (\<exists>info. mc_decode c (t_Info t) = Some info \<and> ps_pieceSize (t_Pieces t) = bi_PieceLength info \<and>
        list_all (\<lambda>h. length h = 20) (t_PieceHashes t) \<and> concat (t_PieceHashes t) = bi_Pieces info \<and>
        consecutive 0 (t_Files t) \<and>
        (t_Files t \<noteq> [] \<longrightarrow> ps_length (t_Pieces t) = sum_list (map tf_Length (t_Files t))) \<and>
        (bi_Length info > 0 \<longrightarrow> t_Files t = [] \<and> ps_length (t_Pieces t) = bi_Length info)))"

lemma genuine_cong:
  assumes "identity t' = identity t" and "t_infoComplete t' = t_infoComplete t" and "t_PieceHashes t' = t_PieceHashes t"
    and "ps_pieceSize (t_Pieces t') = ps_pieceSize (t_Pieces t)" and "ps_length (t_Pieces t') = ps_length (t_Pieces t)"
  shows "genuine c t' = genuine c t"
  using assms by (auto simp: genuine_def identity_def split: if_splits)

lemma genuine_moves: "moves t t' \<Longrightarrow> genuine c t' = genuine c t"
  using movesD [of t t'] by (intro genuine_cong) simp_all

lemma genuine_got: "got c t True t' \<Longrightarrow> genuine c t'"
  by (auto simp: got_def genuine_def described_def)

definition grows :: "mcodec \<Rightarrow> torrent \<Rightarrow> torrent option \<Rightarrow> bool" where
  "grows c t r \<longleftrightarrow> (\<exists>t'. r = Some t' \<and> tor_inv t' \<and> t_available t' = t_available t \<and> t_Hash t' = t_Hash t \<and>
     (genuine c t \<longrightarrow> genuine c t'))"

lemma moves_Hash: "moves t t' \<Longrightarrow> t_Hash t' = t_Hash t"
  using movesD(6) [of t t'] by (simp add: identity_def)

lemma moves_grows: "moves_to t r \<Longrightarrow> grows c t r"
  using movesD(1,2) [of t] moves_Hash [of t] genuine_moves [of t] by (fastforce simp: moves_to_def grows_def)

lemma got_grows:
  assumes "moves t t1" and "got c t1 fin t2" and "moves t2 t3"
  shows "grows c t (Some t3)"
proof -
  have "genuine c t2" using assms(2) genuine_got by (cases fin) (auto simp: got_def genuine_def)
  then show ?thesis using assms movesD(1,2) [of t t1] movesD(1,2) [of t2 t3] moves_Hash [of t t1] moves_Hash [of t2 t3] genuine_moves [OF assms(3)]
    by (simp add: grows_def got_def)
qed

lemma handle_TorMetaData_grows:
  assumes inv: "tor_inv t" and "perm_ok env" and "codec_ok c" and "\<not> t_infoComplete t \<Longrightarrow> \<not> beyond_end t index"
    and fast: "\<And>x t1 t2. \<not> t_infoComplete t \<Longrightarrow> tor_active env p t = Some t1 \<Longrightarrow>
      gotMetadata c index sz data t1 = Some ((True, x), t2) \<Longrightarrow> fast_ok env t2"
  shows "grows c t (handle_TorMetaData env c p sz index data t)"
proof (cases "t_infoComplete t")
  case True
  then show ?thesis using inv by (simp add: handle_TorMetaData_def grows_def)
next
  case False
  obtain t1 where t1: "tor_active env p t = Some t1" "moves t t1"
    using tor_active_moves [OF inv, of env p] by (auto elim: moves_toE)
  have i1: "t_Info t1 = t_Info t" using t1(1) by (auto simp: tor_active_def Let_def split: if_splits)
  obtain fin e t2 where t2: "gotMetadata c index sz data t1 = Some ((fin, e), t2)" "got c t1 fin t2"
    using gotMetadata_correct [OF movesD(1) [OF t1(2)] _ assms(3), of index sz data] movesD(4) [OF t1(2)] False assms(4) i1
    by (auto simp: beyond_end_def)
  have t2i: "tor_inv t2" using t2(2) by (simp add: got_def)
  have "moves_with t2 (requestMetadata env (Some p) t2)" by (rule requestMetadata_moves [OF t2i])
  then have "grows c t (map_option snd (requestMetadata env (Some p) t2))"
    using got_grows [OF t1(2) t2(2)] by (auto simp: moves_with_def)
  moreover define t3 where "t3 = writePeers env (PeerMetadataComplete (t_Info t2)) None t2"
  have m3: "moves t2 t3" unfolding t3_def using moves_refl [OF t2i] by (rule moves_write)
  have "fast_ok env t3" if fin
    using fast [OF False t1(1), of e t2] t2(1) that movesD(3) [OF m3] by (simp add: fast_ok_def)
  then have "moves_to t2 (periodicRequest env t3)" if fin
    using that moves_to_trans [OF m3 periodicRequest_moves [OF movesD(1) [OF m3] assms(2)]] by blast
  then have "grows c t (periodicRequest env t3)" if fin using that got_grows [OF t1(2) t2(2)] by (auto simp: moves_to_def)
  moreover have "grows c t (Some t2)" using got_grows [OF t1(2) t2(2) moves_refl [OF t2i]] .
  ultimately show ?thesis using False t1 t2
    by (auto simp: handle_TorMetaData_def simp flip: t3_def)
qed

subsection \<open>The main loop\<close>

lemma announce_tiers_still: "still (announce_tiers env ts t) = still t"
  by (induction env ts t rule: announce_tiers.induct) (auto simp: quiet split: option.split)

lemma slow_tick_moves:
  assumes "tor_inv t"
  shows "moves t (slow_tick env t)"
proof -
  define t2 where "t2 = (maybeUnchoke env True t)\<lparr>t_known := known_Expire (te_now env) (t_known (maybeUnchoke env True t))\<rparr>"
  have m1: "moves t (maybeUnchoke env True t)" using maybeUnchoke_moves [OF assms] .
  have "moves t t2" unfolding t2_def
    using moves_trans [OF m1 moves_known] movesD(1) [OF m1] known_Expire_inv tor_known by blast
  moreover have "moves t u \<Longrightarrow> moves t (notInterested env u)" for u
    using moves_trans moves_quiet(11) movesD(1) by blast
  moreover have "moves t u \<Longrightarrow> moves t (trackerAnnounce env u)" for u
    using moves_trans moves_still [of u "trackerAnnounce env u"] movesD(1)
    by (simp add: trackerAnnounce_def announce_tiers_still quiet)
  ultimately show ?thesis
    by (auto simp: slow_tick_def Let_def intro!: moves_write(6) simp flip: t2_def)
qed

text \<open>
  What the torrent may receive. Peers name themselves; ids have 20 bytes; data is of the
  torrent; a client requests a piece of the torrent. Three conditions are not checked by the
  code although a peer controls them: the number of a block of metadata, the pieces that a peer
  allows (see \<open>fast_ok\<close>), and the piece length in the metadata (see \<open>codec_ok\<close>).
\<close>

definition env_ok :: "tenv \<Rightarrow> nat option \<Rightarrow> bool" where
  "env_ok env n \<longleftrightarrow> perm_ok env \<and>
     (\<forall>m k r. n = Some m \<longrightarrow> (\<forall>i \<in> set (pv_Fast (te_view env k r)). unat i < m))"

definition num_known :: "torrent \<Rightarrow> nat option" where
  "num_known t = (if t_infoComplete t then Some (Pieces_Num (t_Pieces t)) else None)"

lemma env_ok_known: "env_ok env (num_known t) \<longleftrightarrow> perm_ok env \<and> (t_infoComplete t \<longrightarrow> fast_ok env t)"
  by (auto simp: env_ok_def num_known_def fast_ok_def)

fun input_fine :: "(tenv \<Rightarrow> nat option \<Rightarrow> bool) \<Rightarrow> mcodec \<Rightarrow> tenv \<Rightarrow> torrent \<Rightarrow> tor_input \<Rightarrow> bool" where
  "input_fine okay c env t (From p e) =
     (case e of
        TorPeerExtended sz \<Rightarrow> p \<noteq> None
      | TorAddKnown a pid v k \<Rightarrow> id_ok pid
      | TorPeerGoaway \<Rightarrow> p \<noteq> None
      | TorData i b l d \<Rightarrow> t_infoComplete t \<longrightarrow> data_ok t i b l
      | TorDrop i b l \<Rightarrow> t_infoComplete t \<longrightarrow> data_ok t i b l
      | TorMetaData sz i d \<Rightarrow> p \<noteq> None \<and> (t_infoComplete t \<or> \<not> beyond_end t i \<and>
          (case Option.bind (tor_active env (the p) t) (gotMetadata c i sz d) of
             Some ((fin, _), t2) \<Rightarrow> fin \<longrightarrow> okay env (num_known t2)
           | None \<Rightarrow> True))
      | _ \<Rightarrow> True)"
| "input_fine okay c env t (TorAddPeer p init) = (length (tp_Id p) = 20)"
| "input_fine okay c env t (TorGetPeer h) = (length h = 20)"
| "input_fine okay c env t (TorGetKnown h a) = id_ok h"
| "input_fine okay c env t (TorRequest i prio rq w) =
     (t_infoComplete t \<and> rq \<and> i \<le> of_nat (length (t_PieceHashes t)) \<longrightarrow> unat i < Pieces_Num (t_Pieces t))"
| "input_fine okay c env t _ = True"

datatype tor_op = Op_loop tenv tor_loop | Op_contents pieces

definition tor_step :: "mcodec \<Rightarrow> torrent \<Rightarrow> tor_op \<Rightarrow> torrent option" where
  "tor_step c t a =
     (case a of
        Op_loop env l \<Rightarrow> map_option snd (tor_run_step env c l t)
      | Op_contents ps \<Rightarrow> Some (t\<lparr>t_Pieces := ps\<rparr>))"

definition permitted_when :: "(tenv \<Rightarrow> nat option \<Rightarrow> bool) \<Rightarrow> mcodec \<Rightarrow> torrent \<Rightarrow> tor_op \<Rightarrow> bool" where
  "permitted_when okay c t a =
     (case a of
        Op_loop env l \<Rightarrow> okay env (num_known t) \<and>
          (case l of L_event e \<Rightarrow> input_fine okay c env t e | _ \<Rightarrow> True)
      | Op_contents ps \<Rightarrow> t_infoComplete t \<and> stock_ok ps \<and> ps_pieceSize ps = ps_pieceSize (t_Pieces t) \<and>
          ps_length ps = ps_length (t_Pieces t) \<and> Pieces_Num ps = Pieces_Num (t_Pieces t))"

abbreviation tor_permitted :: "mcodec \<Rightarrow> torrent \<Rightarrow> tor_op \<Rightarrow> bool" where
  "tor_permitted \<equiv> permitted_when env_ok"

text \<open>The events about availability change nothing else.\<close>

lemma tor_inv_available [simp]: "tor_inv (t\<lparr>t_available := av\<rparr>) = tor_inv t"
  by (simp add: tor_inv_def flight_ok_def meta_ok_def)

lemma noteAvailable_inv: "tor_inv t \<Longrightarrow> tor_inv (noteAvailable i h t)"
  by (simp add: noteAvailable_def Let_def)

lemma handle_TorPeerBitmap_inv:
  assumes "tor_inv t"
  shows "tor_inv (handle_TorPeerBitmap b h t)"
proof -
  have "tor_inv (foldl (\<lambda>s i. noteAvailable (of_nat i) h s) t is)" for "is"
    using assms noteAvailable_inv by (induction "is" rule: rev_induct) simp_all
  then show ?thesis by (simp add: handle_TorPeerBitmap_def)
qed

definition about_availability :: "tor_event \<Rightarrow> bool" where
  "about_availability e = (case e of TorPeerBitmap _ _ \<Rightarrow> True | TorPeerHave _ _ \<Rightarrow> True | _ \<Rightarrow> False)"

lemma handle_peer_event_grows:
  assumes inv: "tor_inv t" and c: "codec_ok c" and perm: "perm_ok env" and fast: "t_infoComplete t \<Longrightarrow> fast_ok env t"
    and ok: "input_fine env_ok c env t (From p e)" and na: "\<not> about_availability e"
  shows "grows c t (handle_peer_event env c p e t)"
proof (cases e)
  case (TorMetaData sz i d)
  then obtain q where q: "p = Some q" using ok by auto
  have "grows c t (handle_TorMetaData env c q sz i d t)"
    using ok TorMetaData q
  proof (intro handle_TorMetaData_grows [OF inv perm c])
    fix x t1 t2
    assume m: "\<not> t_infoComplete t" "tor_active env q t = Some t1" "gotMetadata c i sz d t1 = Some ((True, x), t2)"
    obtain u where "tor_active env q t = Some u" "moves t u" using tor_active_moves [OF inv, of env q] by (auto elim: moves_toE)
    then have "t_infoComplete t2" using m ok TorMetaData q gotMetadata_done by auto
    then show "fast_ok env t2" using m ok TorMetaData q by (simp add: env_ok_known)
  qed auto
  then show ?thesis using TorMetaData q by simp
qed (use assms handle_TorPeerExtended_moves [OF inv] handle_TorAddKnown_moves [OF inv] handle_TorPeerGoaway_moves [OF inv]
    handle_TorData_moves [OF inv] handle_TorDrop_moves [OF inv] maybeUnchoke_moves [OF inv]
    tor_maybeRequest_moves [OF inv perm fast] moves_refl [OF inv] in
    \<open>auto intro!: moves_grows simp: about_availability_def\<close>)

lemma tor_handleEvent_grows:
  assumes inv: "tor_inv t" and c: "codec_ok c" and perm: "perm_ok env" and fast: "t_infoComplete t \<Longrightarrow> fast_ok env t"
    and ok: "input_fine env_ok c env t e" and na: "\<And>p x. e = From p x \<Longrightarrow> \<not> about_availability x"
  shows "grows c t (map_option snd (tor_handleEvent env c e t))"
proof (cases e)
  case (From p x)
  have "grows c t (handle_peer_event env c p x t)"
    using handle_peer_event_grows [OF inv c perm fast] ok na From by blast
  then show ?thesis using From by (auto simp: grows_def)
next
  case (TorGetPeer h)
  then obtain r where "find_id h (t_peers t) = Some r" using find_id_Some [OF tor_ids [OF inv]] ok by auto
  then show ?thesis using TorGetPeer moves_write(4) [OF moves_refl [OF inv]] by (auto intro!: moves_grows)
next
  case (TorRequest i prio rq w)
  then have "moves_to t (handle_TorRequest env i prio rq w t)"
    using ok by (intro handle_TorRequest_moves [OF inv perm fast]) auto
  then show ?thesis using TorRequest by (auto simp: moves_to_def intro!: moves_grows)
qed (use ok handle_TorBadPeer_moves [OF inv] handle_TorDropPeer_moves [OF inv] handle_TorGetKnown_moves [OF inv _ perm]
    handle_TorHave_moves [OF inv] handle_TorSetConf_moves [OF inv perm fast] handle_TorAddPeer_moves [OF inv]
    moves_refl [OF inv] in \<open>auto simp: moves_to_def option.map_comp comp_def intro!: moves_grows moves_write, blast?\<close>)

lemma tor_run_step_grows:
  assumes inv: "tor_inv t" and c: "codec_ok c" and ok: "tor_permitted c t (Op_loop env l)"
    and na: "\<And>p x. l = L_event (From p x) \<Longrightarrow> \<not> about_availability x"
  shows "grows c t (map_option snd (tor_run_step env c l t))"
proof (cases l)
  case (L_event e)
  then show ?thesis using tor_handleEvent_grows [OF inv c, of env e] ok na by (simp add: permitted_when_def env_ok_known)
next
  case L_tick
  have perm: "perm_ok env" using ok by (simp add: permitted_when_def env_ok_known)
  obtain t1 where t1: "maybeConnect env t = Some t1" "moves t t1"
    using maybeConnect_moves [OF inv perm] by (auto elim: moves_toE)
  obtain e t2 where "requestMetadata env None t1 = Some (e, t2)" "moves t1 t2"
    using requestMetadata_moves [OF movesD(1) [OF t1(2)], of env None] by (auto elim: moves_withE)
  then show ?thesis using L_tick t1 moves_trans [OF t1(2)] by (auto intro!: moves_grows)
next
  case L_request
  then show ?thesis using periodicRequest_moves [OF inv, of env] ok
    by (auto simp: permitted_when_def env_ok_known moves_to_def intro!: moves_grows)
qed (use moves_refl [OF inv] slow_tick_moves [OF inv] in \<open>auto intro!: moves_grows\<close>)

text \<open>The torrents of a codec with a given hash, as a machine.\<close>

definition tor_minv :: "mcodec \<Rightarrow> hash \<Rightarrow> torrent \<Rightarrow> bool" where
  "tor_minv c h t \<longleftrightarrow> codec_ok c \<and> tor_inv t \<and> t_Hash t = h \<and> genuine c t"

lemma availability_genuine:
  "genuine c (noteAvailable i h t) = genuine c t" "genuine c (handle_TorPeerBitmap b h t) = genuine c t"
  "t_Hash (noteAvailable i h t) = t_Hash t" "t_Hash (handle_TorPeerBitmap b h t) = t_Hash t"
proof -
  have single: "genuine c (noteAvailable i h t) = genuine c t" "t_Hash (noteAvailable i h t) = t_Hash t" for i t
    by (simp_all add: genuine_def noteAvailable_def Let_def)
  have "genuine c (foldl (\<lambda>s i. noteAvailable (of_nat i) h s) t is) = genuine c t \<and>
    t_Hash (foldl (\<lambda>s i. noteAvailable (of_nat i) h s) t is) = t_Hash t" for "is"
    by (induction "is" rule: rev_induct) (simp_all add: single)
  then show "genuine c (noteAvailable i h t) = genuine c t" "genuine c (handle_TorPeerBitmap b h t) = genuine c t"
    "t_Hash (noteAvailable i h t) = t_Hash t" "t_Hash (handle_TorPeerBitmap b h t) = t_Hash t"
    by (simp_all add: single handle_TorPeerBitmap_def)
qed

lemma tor_step_progress:
  assumes inv: "tor_minv c h t" and ok: "tor_permitted c t a"
  shows "\<exists>t'. tor_step c t a = Some t' \<and> tor_minv c h t'"
proof (cases a)
  case (Op_contents ps)
  then have "tor_inv (t\<lparr>t_Pieces := ps\<rparr>)"
    using inv ok by (auto simp: tor_minv_def tor_inv_def permitted_when_def flight_ok_def)
  moreover have "genuine c (t\<lparr>t_Pieces := ps\<rparr>) = genuine c t"
    using ok Op_contents by (intro genuine_cong) (simp_all add: permitted_when_def identity_def)
  ultimately show ?thesis using Op_contents inv by (simp add: tor_step_def tor_minv_def)
next
  case (Op_loop env l)
  show ?thesis
  proof (cases "\<exists>p x. l = L_event (From p x) \<and> about_availability x")
    case True
    then obtain p x where l: "l = L_event (From p x)" "about_availability x" by blast
    then show ?thesis using Op_loop inv noteAvailable_inv handle_TorPeerBitmap_inv
      by (cases x) (simp_all add: about_availability_def tor_step_def tor_minv_def availability_genuine)
  next
    case False
    then have "grows c t (map_option snd (tor_run_step env c l t))"
      using tor_run_step_grows [of t c env l] inv ok Op_loop by (auto simp: tor_minv_def)
    then show ?thesis using Op_loop inv by (auto simp: tor_step_def grows_def tor_minv_def)
  qed
qed

interpretation tom: machine "tor_permitted c" "tor_step c" "tor_minv c h" for c h
  by unfold_locales (rule tor_step_progress)

lemma Torrent_New_inv:
  assumes "length hsh = 20" and "length myid = 20"
  shows "tor_inv (Torrent_New myid conf proxy hsh dn [] cdate ann ws)"
  using assms rd_inv_empty
  by (simp add: Torrent_New_def tor_inv_def req_ok_def wanted_def empty_requested_def known_inv_def meta_ok_def)

end
