(* ===== verification/Tor_Props.thy ===== *)
theory Tor_Props
  imports Tor_Runs Peer_Inv
begin

section \<open>Properties of a torrent\<close>

text \<open>What holds of every run of the goroutine of a torrent, and what its metadata and its scheduler do in the states it reaches.\<close>

subsection \<open>The torrent never panics\<close>

text \<open>
  How a torrent starts: from a magnet link, with no metadata, or from a torrent file, with all of it.
\<close>

inductive started :: "mcodec \<Rightarrow> torrent \<Rightarrow> bool" for c where
  magnet: "length hsh = 20 \<Longrightarrow> length myid = 20 \<Longrightarrow> started c (Torrent_New myid conf proxy hsh dn [] cdate ann ws)"
| torfile: "length myid = 20 \<Longrightarrow> t = Torrent_New myid conf proxy (mc_sha1 c info) dn info cdate ann ws \<Longrightarrow>
    Torrent_MetadataComplete c t = Some (None, t') \<Longrightarrow> started c t'"

lemma started_inv:
  assumes "started c t" and "codec_ok c"
  shows "tor_minv c (t_Hash t) t" and "t_available t = []"
proof -
  have "tor_inv t \<and> t_available t = [] \<and> genuine c t"
    using assms(1)
  proof cases
    case magnet
    then show ?thesis using Torrent_New_inv by (auto simp: Torrent_New_def genuine_def)
  next
    case (torfile myid u conf proxy info dn cdate ann ws)
    have u: "t_Pieces u = empty_pieces" "t_available u = []" "length (t_Hash u) = 20" "length (t_MyId u) = 20"
      "t_peers u = []" "t_known u = []" "t_requested u = empty_requested"
      using torfile assms(2) by (simp_all add: Torrent_New_def codec_ok_def)
    obtain info where "same_torrent u t" "t_infoComplete t" "described info t" "mc_decode c (t_Info u) = Some info"
      using MetadataComplete_correct [OF u(1), of c] torfile(3) assms(2) by (auto simp: codec_ok_def)
    moreover have "t_Hash u = mc_sha1 c (t_Info u)" using torfile by (simp add: Torrent_New_def)
    ultimately show ?thesis using u rd_inv_empty
      by (simp add: genuine_def same_torrent_def described_def tor_inv_def req_ok_def wanted_def known_inv_def empty_requested_def)
  qed
  then show "tor_minv c (t_Hash t) t" "t_available t = []" using assms(2) by (simp_all add: tor_minv_def)
qed

text \<open>
  C2. The goroutine of a torrent does not panic. From a torrent that starts with or without its
  metadata, whatever events arrive, in whatever order, interleaved with the ticks of its timers
  and with changes of the contents by other goroutines, and whatever
  the peers answer, every step is defined and the invariant holds: among others, only pieces of
  the torrent are requested, and every chunk has its count of requests in flight.
  Hashes have 20 bytes, and the dictionaries that decode have a piece length other than 0 and lengths below \<open>2 ^ 63\<close>.
  The runs leave out the inputs that do make the code panic: a block of metadata just beyond
  the end, a request for the piece just beyond the last one, and a peer that offers, as Allowed Fast, a
  piece that does not exist.
\<close>

theorem torrent_never_panics:
  assumes "codec_ok c" and "started c t0" and "permitted_ops (tor_permitted c) (tor_step c) t0 ops"
  shows "\<exists>t. run_ops (tor_step c) t0 ops = Some t \<and> tor_inv t"
  using tom.run_safe [OF started_inv(1) [OF assms(2,1)] assms(3)] by (auto simp: tor_minv_def)

text \<open>A torrent of two pieces that is fetched from one peer.\<close>

definition ex_codec :: mcodec where
  "ex_codec = \<lparr>mc_sha1 = (\<lambda>x. replicate 20 (of_nat (length x))),
     mc_decode = (\<lambda>x. if x = [1, 2, 3]
       then Some \<lparr>bi_Name = ''a'', bi_Name8 = [], bi_PieceLength = 16384, bi_Pieces = replicate 40 0,
                  bi_Length = 20000, bi_Files = None\<rparr>
       else None)\<rparr>"

definition ex_tview :: pview where
  "ex_tview = \<lparr>pv_Addr = (NoAddr, 0), pv_Pex = None, pv_CanPex = False, pv_CanMetadata = True, pv_Unchoked = True,
     pv_Interested = True, pv_AmUnchoking = False,
     pv_Status = Some \<lparr>st_Unchoked = True, st_Seed = True, st_UploadOnly = False, st_Qlen = 0,
       st_AvgDownload = 0, st_UnchokeTime = 0\<rparr>,
     pv_Fast = [], pv_Bitmap = None, pv_Have = (\<lambda>_. True)\<rparr>"

definition ex_tenv :: tenv where
  "ex_tenv = \<lparr>te_now = 1000000000, te_sys = \<lparr>mmap_ok = True, munmap_ok = True\<rparr>, te_done = (\<lambda>_ _. False),
     te_full = (\<lambda>_ _. False), te_view = (\<lambda>_ _. ex_tview), te_perm = (\<lambda>_ n. [0..<n]), te_IntN = (\<lambda>_ _. 1),
     te_ExternalPort = (\<lambda>_ _. 6881), te_IdleRate = 65536, te_rateLow = False, te_idleCount = 2,
     te_interval = 250000000, te_numChunks = 4, te_peerChunks = (\<lambda>_ _. 2), te_memoryLow = True,
     te_wsReady = (\<lambda>_ _. False), te_wsOrder = (\<lambda>_. []), te_wsBytes = (\<lambda>_. 0),
     te_trReady = (\<lambda>_. False), te_trError = (\<lambda>_. False)\<rparr>"

definition ex_tpeer :: tpeer where
  "ex_tpeer = \<lparr>tp_ref = 1, tp_Counter = 1, tp_Id = replicate 20 9\<rparr>"

definition ex_conf :: torConf where
  "ex_conf = \<lparr>co_DhtMode = 2, co_UseTrackers = True, co_UseWebseeds = True\<rparr>"

definition ex_torrent :: torrent where
  "ex_torrent = Torrent_New (replicate 20 5) ex_conf [] (replicate 20 3) ''a'' [] 0 [] []"

definition ex_tor_ops :: "tor_op list" where
  "ex_tor_ops = map (Op_loop ex_tenv)
     [L_event (TorAddPeer ex_tpeer []), L_event (From (Some ex_tpeer) (TorPeerExtended 3)), L_tick,
      L_event (From (Some ex_tpeer) (TorMetaData 3 0 [1, 2, 3])),
      L_event (From (Some ex_tpeer) (TorPeerBitmap (Some [0xC0]) True)),
      L_event (TorRequest 0 1 True True), L_event (From (Some ex_tpeer) (TorData 0 0 16384 True)),
      L_event (From (Some ex_tpeer) (TorPeerHave 1 False)), L_slow, L_request]"

lemma ex_env_ok: "env_ok ex_tenv n"
  by (simp add: env_ok_def perm_ok_def ex_tenv_def ex_tview_def)

lemma ex_codec_ok: "codec_ok ex_codec"
  by (simp add: codec_ok_def ex_codec_def info_ok_def)

lemma ex_torrent_started: "started ex_codec ex_torrent"
  unfolding ex_torrent_def by (rule magnet) simp_all

lemma ex_ops_env: "a \<in> set ex_tor_ops \<Longrightarrow> permitted_when (\<lambda>_ _. True) c t a \<Longrightarrow> tor_permitted c t a"
  by (auto simp: ex_tor_ops_def permitted_when_def ex_env_ok split: option.splits)

lemma ex_ops_permitted: "permitted_ops (tor_permitted ex_codec) (tor_step ex_codec) ex_torrent ex_tor_ops"
proof (rule permitted_ops_mono)
  show "permitted_ops (permitted_when (\<lambda>_ _. True) ex_codec) (tor_step ex_codec) ex_torrent ex_tor_ops" by code_simp
qed (rule ex_ops_env)

theorem torrent_never_panics_witness:
  "\<exists>t. run_ops (tor_step ex_codec) ex_torrent ex_tor_ops = Some t \<and> tor_inv t \<and> t_infoComplete t \<and>
     (1, PeerRequest [0]) \<in> set (t_sent t)"
proof -
  have "map_option (\<lambda>t. t_infoComplete t \<and> (1, PeerRequest [0]) \<in> set (t_sent t)) (run_ops (tor_step ex_codec) ex_torrent ex_tor_ops) = Some True"
    by code_simp
  then show ?thesis using torrent_never_panics [OF ex_codec_ok ex_torrent_started ex_ops_permitted] by auto
qed

subsection \<open>The metadata\<close>



lemma beyond_last_block:
  assumes "(i :: nat) \<le> (L + 16383) div 16384"
  shows "L < i * 16384 \<longleftrightarrow> i = (L + 16383) div 16384 \<and> L mod 16384 \<noteq> 0"
proof -
  define q r where "q = L div 16384" and "r = L mod 16384"
  then have L: "L = q * 16384 + r" "r < 16384" by simp_all
  then have "(L + 16383) div 16384 = (if r = 0 then q else Suc q)"
    by (auto simp: div_nat_eqI)
  then show ?thesis using assms L unfolding r_def [symmetric] by (cases "r = 0"; cases "i \<le> q") (auto simp: le_Suc_eq dest: mult_le_mono1 [of _ _ 16384])
qed



subsection \<open>The scheduler\<close>


lemma ex_request_permitted:
  "permitted_ops (tor_permitted ex_codec) (tor_step ex_codec) ex_torrent (take 5 ex_tor_ops @ [Op_loop ex_tenv L_request])"
proof (rule permitted_ops_mono)
  show "permitted_ops (permitted_when (\<lambda>_ _. True) ex_codec) (tor_step ex_codec) ex_torrent
    (take 5 ex_tor_ops @ [Op_loop ex_tenv L_request])" by code_simp
  fix t a assume "a \<in> set (take 5 ex_tor_ops @ [Op_loop ex_tenv L_request])"
  then have "a \<in> set ex_tor_ops" by (auto simp: ex_tor_ops_def)
  then show "permitted_when (\<lambda>_ _. True) ex_codec t a \<Longrightarrow> tor_permitted ex_codec t a" by (rule ex_ops_env)
qed


subsection \<open>Holes\<close>

text \<open>
  C30. The search of \<^verbatim>\<open>maybeWebseed\<close> for something to fetch ends, and finds the first missing chunk at or after
  the offset that nobody is fetching, together with the hole that starts there. When it finds
  nothing, the piece is busy or complete, or every missing chunk is being fetched.
\<close>

theorem hole_search_correct:
  assumes "tor_inv t" and "t_infoComplete t" and "unat index < Pieces_Num (t_Pieces t)"
  shows "\<exists>r. hole_loop t index off = Some r \<and> first_free t index (unat off div 16384) r"
  using hole_loop_correct [OF tor_inv_flight [OF assms(1,2)] assms(3)] .

lemma ex_run:
  obtains t where "run_ops (tor_step ex_codec) ex_torrent ex_tor_ops = Some t" "tor_inv t"
  using tom.run_safe [OF started_inv(1) [OF ex_torrent_started ex_codec_ok] ex_ops_permitted] by (auto simp: tor_minv_def)

theorem hole_search_correct_witness:
  "\<exists>t r. run_ops (tor_step ex_codec) ex_torrent ex_tor_ops = Some t \<and> hole_loop t 1 0 = Some r \<and> first_free t 1 0 r"
proof -
  obtain t where t: "run_ops (tor_step ex_codec) ex_torrent ex_tor_ops = Some t" "tor_inv t" using ex_run .
  have "map_option (\<lambda>t. t_infoComplete t \<and> unat (1 :: u32) < Pieces_Num (t_Pieces t))
    (run_ops (tor_step ex_codec) ex_torrent ex_tor_ops) = Some True" by code_simp
  then have "t_infoComplete t" "unat (1 :: u32) < Pieces_Num (t_Pieces t)" using t(1) by simp_all
  then show ?thesis using t hole_search_correct [of t 1 0] by auto
qed

end
