(* ===== verification/Tor_Avail.thy ===== *)
theory Tor_Avail
  imports Tor_Props
begin

section \<open>The availability of pieces\<close>

text \<open>
  The counters that \<^verbatim>\<open>noteAvailable\<close> keeps, as a refinement of a tally of the announcements the
  torrent hears, and composed with the goroutines of the peers.
\<close>

subsection \<open>One announcement\<close>

text \<open>The abstract tally: how many peers have announced a piece, between 0 and 65535.\<close>

definition tally :: "(nat \<Rightarrow> int) \<Rightarrow> tor_event \<Rightarrow> nat \<Rightarrow> int" where
  "tally f e = (\<lambda>i. max 0 (min 65535 (f i + announces i e)))"

definition shadow :: "torrent \<Rightarrow> nat \<Rightarrow> int" where
  "shadow t = (\<lambda>i. if i < length (t_available t) then uint (t_available t ! i) else 0)"

definition bump :: "bool \<Rightarrow> int \<Rightarrow> int" where
  "bump h n = max 0 (min 65535 (n + (if h then 1 else -1)))"

definition bump16 :: "bool \<Rightarrow> u16 \<Rightarrow> u16" where
  "bump16 h v = (if h then if v \<ge> - 1 then v else v + 1 else if v \<le> 0 then v else v - 1)"

lemma uint_bump16: "uint (bump16 h v) = bump h (uint v)"
proof -
  have v: "uint v < 65536" "0 \<le> uint v" using uint_bounded [of v] by simp_all
  have full: "v \<ge> - 1 \<longleftrightarrow> uint v = 65535" and zero: "v = 0 \<longleftrightarrow> \<not> 0 < uint v"
    using v by (auto simp: word_le_def uint_word_ariths word_uint_eq_iff not_less intro: antisym)
  have "uint (v + 1) = uint v + 1" if "uint v \<noteq> 65535"
    using that v by (simp add: uint_word_ariths)
  moreover have "uint (v - 1) = uint v - 1" if "0 < uint v"
  proof -
    have "uint (v - 1) = (uint v - 1) mod 65536" by (simp add: uint_word_ariths)
    then show ?thesis using that v mod_pos_pos_trivial [of "uint v - 1" 65536] by linarith
  qed
  ultimately show ?thesis using v by (auto simp: bump_def bump16_def full zero max_def min_def not_less intro: antisym)
qed

lemma list_update_bump16:
  "(if h then if xs ! i \<ge> - 1 then xs else xs[i := xs ! i + 1] else if xs ! i \<le> 0 then xs else xs[i := xs ! i - 1])
    = xs[i := bump16 h (xs ! i)]"
  by (cases h; cases "xs ! i \<ge> - 1"; cases "xs ! i \<le> 0") (simp_all only: bump16_def list_update_id if_True if_False)

lemma noteAvailable_bump:
  "t_available (noteAvailable i h t) =
    (let av = t_available t @ replicate (Suc (unat i) - length (t_available t)) 0 in av[unat i := bump16 h (av ! unat i)])"
proof -
  define av where "av = t_available t @ replicate (Suc (unat i) - length (t_available t)) 0"
  have av: "(if length (t_available t) \<le> unat i
    then t_available t @ replicate (unat i - length (t_available t) + 1) 0 else t_available t) = av"
    by (simp add: av_def Suc_diff_le)
  have "t_available (noteAvailable i h t) =
    (if h then if av ! unat i \<ge> - 1 then av else av[unat i := av ! unat i + 1]
     else if av ! unat i \<le> 0 then av else av[unat i := av ! unat i - 1])"
    unfolding noteAvailable_def Let_def av by simp
  then show ?thesis by (simp only: list_update_bump16 av_def Let_def)
qed

lemma shadow_noteAvailable:
  "shadow (noteAvailable i h t) = (shadow t)(unat i := bump h (shadow t (unat i)))"
  by (auto simp: shadow_def noteAvailable_bump Let_def fun_eq_iff nth_append nth_list_update uint_bump16)

lemma shadow_notes:
  assumes "distinct is" and "\<And>i. i \<in> set is \<Longrightarrow> i < 2 ^ 32"
  shows "shadow (foldl (\<lambda>s i. noteAvailable (of_nat i) h s) t is) =
    (\<lambda>i. if i \<in> set is then bump h (shadow t i) else shadow t i)"
  using assms
  by (induction "is" rule: rev_induct) (auto simp: shadow_noteAvailable unat_of_nat_u32 fun_eq_iff)

subsection \<open>One event\<close>

text \<open>
  An index of all ones makes the array as long as its indices can count, and \<^verbatim>\<open>available\<close> would
  then compare with 0; nor is a bitmap that long.
\<close>

definition short_bitmap :: "tor_event \<Rightarrow> bool" where
  "short_bitmap e = (case e of
     TorPeerBitmap (Some b) _ \<Rightarrow> 8 * length b < 2 ^ 32
   | TorPeerHave i _ \<Rightarrow> i < - 1 | _ \<Rightarrow> True)"

lemma shadow_range: "0 \<le> shadow t i \<and> shadow t i \<le> 65535"
  using uint_bounded [of "t_available t ! i"] by (simp add: shadow_def)

lemma shadow_event:
  assumes "about_availability e" and "short_bitmap e" and "handle_peer_event env c p e t = Some t'"
  shows "shadow t' = tally (shadow t) e"
proof (cases e)
  case (TorPeerBitmap b h)
  have idle: "max 0 (min 65535 (shadow t i)) = shadow t i" for i using shadow_range [of t i] by linarith
  have "shadow (handle_TorPeerBitmap b h t) i = tally (shadow t) e i" for i
  proof (cases b)
    case (Some bm)
    have "shadow (handle_TorPeerBitmap b h t) = (\<lambda>i. if bitmap_Get bm i then bump h (shadow t i) else shadow t i)"
      unfolding handle_TorPeerBitmap_def using assms(2) TorPeerBitmap Some bitmap_Get_length
      by (subst shadow_notes) (auto simp: bitmap_AllSet_filter short_bitmap_def fun_eq_iff)
    then show ?thesis using TorPeerBitmap Some idle by (auto simp: tally_def bump_def)
  qed (use TorPeerBitmap idle bitmap_Get_length [of "[]" i] in \<open>auto simp: handle_TorPeerBitmap_def tally_def\<close>)
  then show ?thesis using TorPeerBitmap assms by (simp add: fun_eq_iff)
next
  case (TorPeerHave i h)
  have idle: "max 0 (min 65535 (shadow t i)) = shadow t i" for i using shadow_range [of t i] by linarith
  show ?thesis using TorPeerHave idle assms by (auto simp: tally_def shadow_noteAvailable bump_def)
qed (use assms in \<open>simp_all add: about_availability_def\<close>)


subsection \<open>Runs\<close>

text \<open>What the torrent hears from its peers.\<close>

fun hears :: "tor_op \<Rightarrow> (nat option \<times> tor_event) list" where
  "hears (Op_loop env (L_event (From p e))) = [(map_option tp_ref p, e)]"
| "hears _ = []"

definition heard :: "tor_op list \<Rightarrow> (nat option \<times> tor_event) list" where
  "heard ops = concat (map hears ops)"

definition sensible :: "tor_op list \<Rightarrow> bool" where
  "sensible ops = list_all short_bitmap (map snd (heard ops))"

text \<open>The refinement relation: the counters of a torrent are those of the tally.\<close>

definition tracks :: "torrent \<Rightarrow> (nat \<Rightarrow> int) \<Rightarrow> bool" where
  "tracks t f \<longleftrightarrow> shadow t = f \<and> length (t_available t) < 2 ^ 32"

lemma length_noteAvailable: "length (t_available (noteAvailable i h t)) = max (length (t_available t)) (Suc (unat i))"
  by (simp add: noteAvailable_bump Let_def)

lemma length_notes:
  "length (t_available t) < 2 ^ 32 \<Longrightarrow> (\<And>i. i \<in> set is \<Longrightarrow> i < 2 ^ 32 - 1) \<Longrightarrow>
    length (t_available (foldl (\<lambda>s i. noteAvailable (of_nat i) h s) t is)) < 2 ^ 32"
proof (induction "is" rule: rev_induct)
  case (snoc i "is")
  moreover have "unat (of_nat i :: u32) < 2 ^ 32 - 1" using snoc.prems(2) [of i] unat_of_nat_u32 [of i] by simp
  ultimately show ?case by (simp add: length_noteAvailable)
qed simp

lemma event_tracks:
  assumes "about_availability e" and "short_bitmap e" and "tracks t f" and "handle_peer_event env c p e t = Some t'"
  shows "tracks t' (tally f e)"
proof -
  have len: "length (t_available t) < 2 ^ 32" and f: "shadow t = f" using assms(3) by (simp_all add: tracks_def)
  have "length (t_available t') < 2 ^ 32"
  proof (cases e)
    case (TorPeerBitmap b h)
    have "length (t_available (handle_TorPeerBitmap b h t)) < 2 ^ 32"
      unfolding handle_TorPeerBitmap_def using assms(2) TorPeerBitmap
      by (intro length_notes [OF len]) (auto simp: bitmap_AllSet_filter short_bitmap_def split: option.splits)
    then show ?thesis using TorPeerBitmap assms by simp
  next
    case (TorPeerHave i h)
    then have "unat i < unat (- 1 :: u32)" using assms(2) by (simp add: short_bitmap_def unat_less_iff_u32)
    then have "unat i < 2 ^ 32 - 1" by (simp add: unsigned_minus_1_eq_mask mask_eq_exp_minus_1)
    then show ?thesis using TorPeerHave len assms(4) by (auto simp: length_noteAvailable)
  qed (use assms(1) in \<open>simp_all add: about_availability_def\<close>)
  then show ?thesis using shadow_event [OF assms(1,2,4)] f by (simp add: tracks_def)
qed

lemma other_event_tracks:
  assumes "\<not> about_availability e" and "tracks t f"
  shows "tally f e = f"
proof -
  have "announces i e = 0" for i using assms by (cases e) (simp_all add: about_availability_def)
  moreover have "max 0 (min 65535 (f i)) = f i" for i
    using assms(2) shadow_range [of t i] by (auto simp: tracks_def)
  ultimately show ?thesis by (simp add: tally_def)
qed

lemma tor_step_tracks:
  assumes "tor_minv c h t" and "tor_permitted c t a" and "sensible [a]" and "tracks t f"
  shows "\<exists>t'. tor_step c t a = Some t' \<and> tor_minv c h t' \<and> tracks t' (foldl tally f (map snd (hears a)))"
proof -
  obtain t' where t': "tor_step c t a = Some t'" "tor_minv c h t'"
    using tom.progress [OF assms(1,2)] by blast
  have grown: "tracks t' f"
    if "a = Op_loop env l" "\<And>p x. l = L_event (From p x) \<Longrightarrow> \<not> about_availability x" for env l
  proof -
    have "grows c t (map_option snd (tor_run_step env c l t))"
      using tor_run_step_grows [of t c env l] assms that by (auto simp: tor_minv_def)
    then show ?thesis using t' that assms(4) by (auto simp: grows_def tor_step_def shadow_def tracks_def)
  qed
  have "tracks t' (foldl tally f (map snd (hears a)))"
  proof (cases a rule: hears.cases)
    case (1 env p e)
    then show ?thesis
      using event_tracks [OF _ _ assms(4), of e env c p t'] grown [OF 1] other_event_tracks [OF _ assms(4), of e] assms(3) t'
      by (cases "about_availability e") (auto simp: tor_step_def sensible_def heard_def)
  qed (use grown t' assms(4) in \<open>auto simp: tor_step_def tracks_def shadow_def\<close>)
  then show ?thesis using t' by blast
qed

lemma run_tracks:
  assumes "tor_minv c h t" and "permitted_ops (tor_permitted c) (tor_step c) t ops" and "sensible ops" and "tracks t f"
  shows "\<exists>t'. run_ops (tor_step c) t ops = Some t' \<and> tracks t' (foldl tally f (map snd (heard ops)))"
  using assms
proof (induction ops arbitrary: t f)
  case (Cons a ops)
  have s: "sensible [a]" "sensible ops" using Cons.prems(3) by (auto simp: sensible_def heard_def)
  then obtain t1 where t1: "tor_step c t a = Some t1" "tor_minv c h t1" "tracks t1 (foldl tally f (map snd (hears a)))"
    using tor_step_tracks [of c h t a f] Cons.prems by auto
  then show ?case using Cons.IH [OF t1(2) _ s(2) t1(3)] Cons.prems by (auto simp: heard_def)
qed (simp add: heard_def)

lemma tracks_available: "tracks t f \<Longrightarrow> int (unat (available t i)) = f (unat i)"
  by (auto simp: tracks_def available_def shadow_def unat_le_iff_u32 unat_of_nat_u32)

lemma tally_exact:
  assumes "\<And>n. 0 \<le> announced (take n es) i \<and> announced (take n es) i \<le> 65535"
  shows "foldl tally (\<lambda>_. 0) es i = announced es i"
  using assms
proof (induction es rule: rev_induct)
  case (snoc e es)
  have "0 \<le> announced (take n es) i \<and> announced (take n es) i \<le> 65535" for n
    using snoc.prems [of "min n (length es)"] by (cases "n \<le> length es") (auto simp: min_def)
  moreover have "0 \<le> announced es i + announces i e \<and> announced es i + announces i e \<le> 65535"
    using snoc.prems [of "Suc (length es)"] by simp
  ultimately show ?case using snoc.IH by (simp add: tally_def)
qed simp

text \<open>What one peer says.\<close>

definition said :: "nat option \<Rightarrow> (nat option \<times> tor_event) list \<Rightarrow> tor_event list" where
  "said q es = map snd (filter (\<lambda>x. fst x = q) es)"

lemma announced_said:
  assumes "finite Q" and "fst ` set es \<subseteq> Q"
  shows "announced (map snd es) i = (\<Sum>q\<in>Q. announced (said q es) i)"
  using assms(2)
proof (induction es)
  case (Cons x es)
  have "(\<Sum>q\<in>Q. announced (said q (x # es)) i) = (\<Sum>q\<in>Q. (if fst x = q then announces i (snd x) else 0) + announced (said q es) i)"
    by (intro sum.cong) (auto simp: said_def)
  then show ?case using Cons assms(1) by (simp add: sum.distrib)
qed (simp add: said_def)

lemma announced_holders:
  assumes "\<And>q. announced (said q es) i \<in> {0, 1}"
  shows "announced (map snd es) i = int (card {q. announced (said q es) i = 1})"
    and "card {q. announced (said q es) i = 1} \<le> card (fst ` set es)"
proof -
  let ?Q = "fst ` set es" and ?H = "{q. announced (said q es) i = 1}"
  have "said q es = []" if "q \<notin> ?Q" for q
    using that by (force simp: said_def filter_empty_conv)
  then have H: "?H \<subseteq> ?Q" by fastforce
  have "announced (map snd es) i = (\<Sum>q\<in>?Q. if q \<in> ?H then 1 else 0)"
    unfolding announced_said [OF finite_imageI [OF finite_set] order_refl] using assms by (intro sum.cong) auto
  also have "\<dots> = int (card (?Q \<inter> ?H))" by (simp add: sum.If_cases)
  finally show "announced (map snd es) i = int (card ?H)" using H by (simp add: inf.absorb2)
  show "card ?H \<le> card ?Q" using H by (simp add: card_mono)
qed


lemma run_tally:
  assumes "codec_ok c" and "started c t0" and "permitted_ops (tor_permitted c) (tor_step c) t0 ops" and "sensible ops"
  obtains t where "run_ops (tor_step c) t0 ops = Some t"
    "\<And>i. int (unat (available t i)) = foldl tally (\<lambda>_. 0) (map snd (heard ops)) (unat i)"
proof -
  have "tor_minv c (t_Hash t0) t0" "tracks t0 (\<lambda>_. 0)"
    using started_inv [OF assms(2,1)] by (simp_all add: tracks_def shadow_def)
  then show thesis using run_tracks [OF _ assms(3,4)] tracks_available that by blast
qed

text \<open>
  C13. The counters of availability refine an abstract tally of what the peers announce: whatever
  happens to the torrent, the counter of a piece is the number of times the piece was announced
  less the times it was withdrawn, in the events heard so far, where the tally sticks at 0 and at
  65535. No other event, timer or handler touches it.
\<close>

theorem availability_refines_tally:
  assumes "codec_ok c" and "started c t0" and "permitted_ops (tor_permitted c) (tor_step c) t0 ops" and "sensible ops"
  shows "\<exists>t. run_ops (tor_step c) t0 ops = Some t \<and>
    (\<forall>i. int (unat (available t i)) = foldl tally (\<lambda>_. 0) (map snd (heard ops)) (unat i))"
  using run_tally [OF assms] by blast

theorem availability_refines_tally_witness:
  "\<exists>t. run_ops (tor_step ex_codec) ex_torrent ex_tor_ops = Some t \<and> unat (available t 0) = 1 \<and> unat (available t 1) = 0"
proof -
  have "sensible ex_tor_ops" and "map (foldl tally (\<lambda>_. 0) (map snd (heard ex_tor_ops))) [0, 1] = [1, 0]" by code_simp+
  with availability_refines_tally [OF ex_codec_ok ex_torrent_started ex_ops_permitted this(1)]
  obtain t where "run_ops (tor_step ex_codec) ex_torrent ex_tor_ops = Some t"
    "int (unat (available t 0)) = 1" "int (unat (available t 1)) = 0" by fastforce
  then show ?thesis by (auto simp only: of_nat_eq_1_iff of_nat_eq_0_iff)
qed




subsection \<open>The copies of a range of a torrent\<close>

text \<open>\<^verbatim>\<open>Available\<close> and \<^verbatim>\<open>AvailableRange\<close>; \<open>None\<close> is a division by 0.\<close>

definition Available_at :: "u16 list \<Rightarrow> int \<Rightarrow> int" where
  "Available_at a i = (if i < int (length a) then uint (a ! nat i) else 0)"

definition AvailableRange :: "u16 list \<Rightarrow> u32 \<Rightarrow> int \<Rightarrow> int \<Rightarrow> int option" where
  "AvailableRange a psize offset len =
     (let ps = uint psize
      in if ps = 0 then None
         else Some (foldl (\<lambda>r i. if r > Available_at a i then Available_at a i else r) 2147483647
                      [offset sdiv ps .. (offset + len - 1) sdiv ps]))"

lemma foldl_min: "foldl (\<lambda>r i. if r > f i then f i else r) (m :: int) is = Min (insert m (f ` set is))"
proof (induction "is" arbitrary: m)
  case (Cons i "is")
  have "Min (insert (min m (f i)) (f ` set is)) = Min (insert m (insert (f i) (f ` set is)))"
    by (cases "is = []") (simp_all add: min.assoc)
  moreover have "(if f i < m then f i else m) = min m (f i)" by (simp add: min_def)
  ultimately show ?case using Cons by simp
qed simp

text \<open>A range has as many copies as the piece of it that has the fewest.\<close>

lemma AvailableRange_Min:
  assumes "0 \<le> offset" and "0 < len" and "0 < psize"
  shows "\<exists>n. AvailableRange a psize offset len = Some n
    \<and> (\<forall>i. offset div uint psize \<le> i \<and> i \<le> (offset + len - 1) div uint psize \<longrightarrow> n \<le> Available_at a i)
    \<and> (\<exists>i. offset div uint psize \<le> i \<and> i \<le> (offset + len - 1) div uint psize \<and> n = Available_at a i)"
proof -
  let ?S = "{offset div uint psize .. (offset + len - 1) div uint psize}"
  have ps: "0 < uint psize" using assms(3) by (simp add: word_less_def)
  have ne: "?S \<noteq> {}" using assms(2) ps by (simp add: zdiv_mono1)
  have small: "Available_at a i \<le> 2147483647" for i
    using uint_lt2p [of "a ! nat i"] by (simp add: Available_at_def)
  have "AvailableRange a psize offset len = Some (Min (insert 2147483647 (Available_at a ` ?S)))"
    using ps assms(1,2) by (simp add: AvailableRange_def Let_def foldl_min signed_divide_int_def sgn_if)
  moreover have "Min (insert 2147483647 (Available_at a ` ?S)) = Min (Available_at a ` ?S)"
  proof -
    have "Min (Available_at a ` ?S) \<le> 2147483647" using ne small by (simp add: Min_le_iff) blast
    then have "min 2147483647 (Min (Available_at a ` ?S)) = Min (Available_at a ` ?S)" by (rule min_absorb2)
    moreover have "Min (insert 2147483647 (Available_at a ` ?S)) = min 2147483647 (Min (Available_at a ` ?S))"
      using ne by (intro Min_insert) simp_all
    ultimately show ?thesis by simp
  qed
  moreover have "Min (Available_at a ` ?S) \<in> Available_at a ` ?S" using ne by (intro Min_in) simp_all
  ultimately show ?thesis by (auto intro!: Min_le)
qed

end
