(* ===== verification/Tor_Unchoke.thy ===== *)
theory Tor_Unchoke
  imports Tor_Props
begin

section \<open>Unchoking\<close>

text \<open>What one run of \<^verbatim>\<open>maybeUnchoke\<close> tells the peers.\<close>

definition unchoked_peers :: "tenv \<Rightarrow> torrent \<Rightarrow> tpeer list" where
  "unchoked_peers env t = filter (\<lambda>p. pv_AmUnchoking (view env (tor_tick t) p)) (t_peers t)"

definition waiting_peers :: "tenv \<Rightarrow> torrent \<Rightarrow> tpeer list" where
  "waiting_peers env t =
     filter (\<lambda>p. \<not> pv_AmUnchoking (view env (tor_tick t) p) \<and> pv_Interested (view env (tor_tick t) p)) (t_peers t)"

definition slots :: "bool \<Rightarrow> (nat \<times> peer_event) list \<Rightarrow> nat" where
  "slots b es = length (filter (\<lambda>x. snd x = PeerUnchoke b) es)"

definition orders :: "bool \<Rightarrow> tpeer list \<Rightarrow> (nat \<times> peer_event) list" where
  "orders b ps = map (\<lambda>p. (tp_ref p, PeerUnchoke b)) ps"

definition alive :: "tenv \<Rightarrow> tpeer list \<Rightarrow> bool" where
  "alive env ps \<longleftrightarrow> (\<forall>k. \<forall>p \<in> set ps. \<not> te_done env k (tp_ref p))"

lemma slots_simps [simp]:
  "slots b (xs @ ys) = slots b xs + slots b ys" "slots b (orders b ps) = length ps"
  "b \<noteq> c \<Longrightarrow> slots b (orders c ps) = 0"
  by (simp_all add: slots_def orders_def filter_map comp_def)

lemma alive_write: "alive env (p # ps) \<Longrightarrow> writePeer env p e t = (True, tor_tick (t\<lparr>t_sent := t_sent t @ [(tp_ref p, e)]\<rparr>))"
  by (simp add: alive_def writePeer_def)

lemma choke_excess_alive:
  assumes "alive env ps"
  obtains t' where "choke_excess env ps t = (drop (length ps - 5) ps, t')"
    "t_sent t' = t_sent t @ orders False (take (length ps - 5) ps)"
proof -
  have "\<exists>t'. choke_excess env ps t = (drop (length ps - 5) ps, t') \<and>
    t_sent t' = t_sent t @ orders False (take (length ps - 5) ps)"
    using assms
  proof (induction ps arbitrary: t)
    case (Cons p ps)
    have "alive env ps" using Cons.prems by (simp add: alive_def)
    show ?case
    proof (cases "length (p # ps) > 5")
      case True
      then have "length (p # ps) - 5 = Suc (length ps - 5)" by simp
      then show ?thesis
        using Cons.IH [OF \<open>alive env ps\<close>, of "tor_tick (t\<lparr>t_sent := t_sent t @ [(tp_ref p, PeerUnchoke False)]\<rparr>)"]
          True alive_write [OF Cons.prems]
        by (auto simp: maxUnchoking_def orders_def)
    qed (simp add: maxUnchoking_def orders_def)
  qed (simp add: orders_def)
  then show thesis using that by blast
qed

lemma unchoke_loop_alive:
  assumes "alive env ps" and "u + n \<le> 5"
  shows "\<exists>m left ret t'. unchoke_loop env opp u n ps t = ((n + m, left, ret), t') \<and> m \<le> length ps \<and>
    t_sent t' = t_sent t @ orders True (take m ps) \<and> u + n + m \<le> 5 \<and> set left \<subseteq> set ps \<and>
    (u + n < 5 \<and> ps \<noteq> [] \<longrightarrow> m > 0) \<and> (ret \<longrightarrow> m > 0)"
  using assms
proof (induction ps arbitrary: n t)
  case (Cons p ps)
  have "alive env ps" using Cons.prems by (simp add: alive_def)
  show ?case
  proof (cases "u + n < 5 \<and> \<not> opp")
    case True
    let ?t = "tor_tick (t\<lparr>t_sent := t_sent t @ [(tp_ref p, PeerUnchoke True)]\<rparr>)"
    obtain m left ret t' where "unchoke_loop env opp u (Suc n) ps ?t = ((Suc n + m, left, ret), t')" "m \<le> length ps"
      "t_sent t' = t_sent ?t @ orders True (take m ps)" "u + Suc n + m \<le> 5" "set left \<subseteq> set ps"
      using Cons.IH [OF \<open>alive env ps\<close>, of "Suc n" ?t] True by auto
    then show ?thesis using True alive_write [OF Cons.prems(1)]
      by (intro exI [of _ "Suc m"]) (auto simp: maxUnchoking_def orders_def)
  next
    case False
    then show ?thesis using Cons.prems alive_write [OF Cons.prems(1), of "PeerUnchoke True" t]
      by (cases "u + n < 5")
        (auto simp: maxUnchoking_def orders_def intro!: exI [of _ "Suc 0"])
  qed
qed (auto simp: orders_def)

lemma shuffled_filter:
  assumes "perm_ok env"
  shows "length (filter P (shuffled env t xs)) = length (filter P xs)" and "set (filter P (shuffled env t xs)) = set (filter P xs)"
proof -
  have "mset (shuffled env t xs) = image_mset ((!) xs) (mset (te_perm env (t_tick t) (length xs)))"
    by (simp add: shuffled_def)
  also have "\<dots> = mset (map ((!) xs) [0..<length xs])" using assms by (simp add: perm_ok_def)
  finally have "mset (filter P (shuffled env t xs)) = mset (filter P xs)" by (simp add: map_nth)
  then show "length (filter P (shuffled env t xs)) = length (filter P xs)" "set (filter P (shuffled env t xs)) = set (filter P xs)"
    by (metis size_mset, metis set_mset_mset)
qed

lemma alive_subset: "alive env ps \<Longrightarrow> set qs \<subseteq> set ps \<Longrightarrow> alive env qs"
  by (auto simp: alive_def)

lemma orders_from: "set ps \<subseteq> set qs \<Longrightarrow> x \<in> set (orders b ps) \<Longrightarrow> x \<in> set (orders b qs)"
  by (auto simp: orders_def)

text \<open>What a run of \<^verbatim>\<open>maybeUnchoke\<close> may tell the peers, given those unchoked and those waiting.\<close>

definition fair :: "bool \<Rightarrow> tpeer list \<Rightarrow> tpeer list \<Rightarrow> (nat \<times> peer_event) list \<Rightarrow> bool" where
  "fair periodic us ws new \<longleftrightarrow>
    set new \<subseteq> set (orders False us) \<union> set (orders True ws) \<and>
    length us + slots True new \<le> maxUnchoking + slots False new \<and>
    (\<not> periodic \<and> length us \<le> maxUnchoking \<longrightarrow> slots False new = 0) \<and>
    (length us < maxUnchoking \<and> ws \<noteq> [] \<longrightarrow> slots True new > 0)"

lemma fair_cong:
  assumes "set us = set us'" and "length us = length us'" and "set ws = set ws'"
  shows "fair periodic us ws new = fair periodic us' ws' new"
proof -
  have "set (orders b us) = set (orders b us')" "set (orders b ws) = set (orders b ws')" for b
    using assms by (simp_all add: orders_def)
  moreover have "ws = [] \<longleftrightarrow> ws' = []" using assms(3) by (metis set_empty)
  ultimately show ?thesis using assms(2) by (simp add: fair_def)
qed

lemma fair_orders:
  assumes "m \<le> length ws" and "length us - (length us - 5) + m \<le> 5"
    and "length us < 5 \<and> ws \<noteq> [] \<longrightarrow> m > 0"
  shows "fair periodic us ws (orders False (take (length us - 5) us) @ orders True (take m ws))"
  using assms by (auto simp: fair_def maxUnchoking_def intro: orders_from dest: in_set_takeD orders_from [OF set_take_subset])

lemma fair_swap:
  assumes "fair True us ws new" and "u \<in> set us" and "w \<in> set ws" and "slots True new = 0" and "length us \<ge> 5"
  shows "fair True us ws (new @ orders False [u] @ orders True [w])"
  using assms by (auto simp: fair_def orders_def slots_def)

lemma maybeUnchoke_unfold:
  assumes "perm_ok env" and al: "alive env (t_peers t)"
  obtains su sw t1 m left ret t3 where "alive env su" "alive env sw"
    and "fair periodic (unchoked_peers env t) (waiting_peers env t) = fair periodic su sw"
    and "t_sent t1 = t_sent t @ orders False (take (length su - 5) su)" and "m \<le> length sw"
    and "t_sent t3 = t_sent t1 @ orders True (take m sw)" and "length (drop (length su - 5) su) + m \<le> 5"
    and "set left \<subseteq> set sw" and "length (drop (length su - 5) su) < 5 \<and> sw \<noteq> [] \<longrightarrow> m > 0"
    and "maybeUnchoke env periodic t =
      (if \<not> periodic \<and> length su = 5 then tor_tick t
       else if \<not> periodic \<and> length (drop (length su - 5) su) \<ge> 5 then t1
       else if ret \<or> \<not> periodic \<or> m > 0 then t3
       else let left' = dropWhile (\<lambda>p. pv_AmUnchoking (view env t3 p)) left; rest = drop (length su - 5) su
         in if left' \<noteq> [] \<and> rest \<noteq> []
            then snd (writePeer env (hd left') (PeerUnchoke True) (snd (writePeer env (hd rest) (PeerUnchoke False) t3)))
            else t3)"
proof -
  let ?t = "tor_tick t" and ?U = "unchoked_peers env t" and ?W = "waiting_peers env t"
  define ps where "ps = shuffled env t (t_peers t)"
  define us where "us = filter (\<lambda>p. pv_AmUnchoking (view env ?t p)) ps"
  define ws where "ws = filter (\<lambda>p. \<not> pv_AmUnchoking (view env ?t p) \<and> pv_Interested (view env ?t p)) ps"
  define su where "su = SortFunc (status_cmp unchoke_order env ?t) us"
  have su: "length su = length ?U" "set su = set ?U" "length us = length ?U"
    unfolding su_def us_def ps_def unchoked_peers_def
    by (simp_all only: length_SortFunc set_SortFunc shuffled_filter [OF assms(1)])
  have ws: "set ws = set ?W" unfolding ws_def ps_def waiting_peers_def by (simp only: shuffled_filter [OF assms(1)])
  have "alive env su" "alive env ws"
    using alive_subset [OF al] su(2) ws by (auto simp: unchoked_peers_def waiting_peers_def)
  obtain t1 where t1: "choke_excess env su ?t = (drop (length su - 5) su, t1)"
    "t_sent t1 = t_sent t @ orders False (take (length su - 5) su)"
    using choke_excess_alive [OF \<open>alive env su\<close>, of ?t] by auto
  define opp where "opp = (te_IntN env (t_tick t1) 5 = 0)"
  define sw where "sw = SortFunc (status_cmp (interest_order opp) env (tor_tick t1)) ws"
  have sw: "set sw = set ?W" "alive env sw" using ws \<open>alive env ws\<close> by (auto simp: sw_def alive_def)
  have cong: "fair periodic ?U ?W = fair periodic su sw"
    using su sw by (intro ext fair_cong) simp_all
  have five: "length (drop (length su - 5) su) + 0 \<le> 5" by simp
  obtain m left ret t3 where t3: "unchoke_loop env opp (length (drop (length su - 5) su)) 0 sw (tor_tick t1) = ((m, left, ret), t3)"
    "m \<le> length sw" "t_sent t3 = t_sent t1 @ orders True (take m sw)" "length (drop (length su - 5) su) + m \<le> 5"
    "set left \<subseteq> set sw" "length (drop (length su - 5) su) < 5 \<and> sw \<noteq> [] \<longrightarrow> m > 0" "ret \<longrightarrow> m > 0"
    using unchoke_loop_alive [OF sw(2) five, of opp "tor_tick t1"] by auto
  show thesis
  proof (rule that [OF \<open>alive env su\<close> sw(2) cong t1(2) t3(2,3,4,5,6)])
    show "maybeUnchoke env periodic t =
      (if \<not> periodic \<and> length su = 5 then ?t
       else if \<not> periodic \<and> length (drop (length su - 5) su) \<ge> 5 then t1
       else if ret \<or> \<not> periodic \<or> m > 0 then t3
       else let left' = dropWhile (\<lambda>p. pv_AmUnchoking (view env t3 p)) left; rest = drop (length su - 5) su
         in if left' \<noteq> [] \<and> rest \<noteq> []
            then snd (writePeer env (hd left') (PeerUnchoke True) (snd (writePeer env (hd rest) (PeerUnchoke False) t3)))
            else t3)"
      unfolding maybeUnchoke_def Let_def ps_def [symmetric] us_def [symmetric] ws_def [symmetric] su_def [symmetric] t1(1)
        prod.case opp_def [symmetric] sw_def [symmetric] t3(1) maxUnchoking_def su(3) su(1) [symmetric] by (rule refl)
  qed
qed

lemma maybeUnchoke_fair:
  assumes "perm_ok env" and al: "alive env (t_peers t)"
  shows "\<exists>new. t_sent (maybeUnchoke env periodic t) = t_sent t @ new \<and>
    fair periodic (unchoked_peers env t) (waiting_peers env t) new"
proof -
  obtain su sw t1 m left ret t3 where live: "alive env su" "alive env sw"
    and cong: "fair periodic (unchoked_peers env t) (waiting_peers env t) = fair periodic su sw"
    and t1: "t_sent t1 = t_sent t @ orders False (take (length su - 5) su)" and m: "m \<le> length sw"
    and t3: "t_sent t3 = t_sent t1 @ orders True (take m sw)" "length (drop (length su - 5) su) + m \<le> 5"
      "set left \<subseteq> set sw" "length (drop (length su - 5) su) < 5 \<and> sw \<noteq> [] \<longrightarrow> m > 0"
    and body: "maybeUnchoke env periodic t =
      (if \<not> periodic \<and> length su = 5 then tor_tick t
       else if \<not> periodic \<and> length (drop (length su - 5) su) \<ge> 5 then t1
       else if ret \<or> \<not> periodic \<or> m > 0 then t3
       else let left' = dropWhile (\<lambda>p. pv_AmUnchoking (view env t3 p)) left; rest = drop (length su - 5) su
         in if left' \<noteq> [] \<and> rest \<noteq> []
            then snd (writePeer env (hd left') (PeerUnchoke True) (snd (writePeer env (hd rest) (PeerUnchoke False) t3)))
            else t3)"
    by (rule maybeUnchoke_unfold [OF assms])
  let ?rest = "drop (length su - 5) su" and ?chokes = "orders False (take (length su - 5) su)"
  let ?left = "dropWhile (\<lambda>p. pv_AmUnchoking (view env t3 p)) left"
  show ?thesis
  proof (cases "\<not> periodic \<and> length ?rest \<ge> 5")
    case True
    then have "t_sent (maybeUnchoke env periodic t) = t_sent t @ ?chokes"
      unfolding body Let_def using t1 by (cases "length su = 5") (auto simp: orders_def)
    moreover have "\<not> length su < 5" using True by simp linarith
    ultimately show ?thesis using fair_orders [of 0 sw su periodic] cong by (auto simp: orders_def)
  next
    case False
    have fair: "fair periodic su sw (?chokes @ orders True (take m sw))"
      using m t3(2,4) False by (intro fair_orders) auto
    show ?thesis
    proof (cases "ret \<or> \<not> periodic \<or> m > 0 \<or> ?left = [] \<or> ?rest = []")
      case True
      then have "maybeUnchoke env periodic t = t3" unfolding body Let_def using False by auto
      then show ?thesis using fair t3(1) t1 cong by (metis append.assoc)
    next
      case swap: False
      then have "hd ?left \<in> set sw" "hd ?rest \<in> set su"
        using t3(3) hd_in_set [of ?left] hd_in_set [of ?rest] set_dropWhileD [of "hd ?left"] in_set_dropD by fastforce+
      moreover have "writePeer env p e u = (True, tor_tick (u\<lparr>t_sent := t_sent u @ [(tp_ref p, e)]\<rparr>))"
        if "p \<in> set su \<union> set sw" for p e u
        using that live by (intro alive_write [where ps = "[]"]) (auto simp: alive_def)
      ultimately have sent: "t_sent (maybeUnchoke env periodic t) =
          t_sent t @ (?chokes @ orders True (take m sw)) @ orders False [hd ?rest] @ orders True [hd ?left]"
        unfolding body Let_def using swap False t1 t3(1) by (simp add: orders_def)
      moreover have "length su \<ge> 5" using swap t3(4) \<open>hd ?left \<in> set sw\<close> by force
      moreover have "slots True (?chokes @ orders True (take m sw)) = 0" "periodic" using swap by simp_all
      ultimately have "fair periodic su sw ((?chokes @ orders True (take m sw)) @ orders False [hd ?rest] @ orders True [hd ?left])"
        using fair fair_swap [of su sw "?chokes @ orders True (take m sw)" "hd ?rest" "hd ?left"]
          \<open>hd ?left \<in> set sw\<close> \<open>hd ?rest \<in> set su\<close> by simp
      then show ?thesis using sent unfolding cong by blast
    qed
  qed
qed



end
