(* ===== verification/Tor_Files.thy ===== *)
theory Tor_Files
  imports Tor_Props
begin

section \<open>The files of a range of a torrent\<close>

text \<open>
  \<^verbatim>\<open>fileChunks\<close> splits a range into parts of files, for the requests to web seeds. The reference is the
  intersection of the range with every file.
\<close>

definition span_of :: "int \<Rightarrow> int \<Rightarrow> torfile \<Rightarrow> filechunk" where
  "span_of lo hi f =
     \<lparr>fc_path = Some (tf_Path f), fc_filelength = tf_Length f, fc_offset = max lo (tf_Offset f) - tf_Offset f,
      fc_length = min hi (tf_Offset f + tf_Length f) - max lo (tf_Offset f), fc_pad = tf_Padding f\<rparr>"

definition meets :: "int \<Rightarrow> int \<Rightarrow> torfile \<Rightarrow> bool" where
  "meets lo hi f \<longleftrightarrow> max lo (tf_Offset f) < min hi (tf_Offset f + tf_Length f)"

definition spans :: "int \<Rightarrow> int \<Rightarrow> torfile list \<Rightarrow> filechunk list" where
  "spans lo hi fs = map (span_of lo hi) (filter (meets lo hi) fs)"

lemma spans_simps [simp]:
  "spans lo hi [] = []" "spans lo hi (f # fs) = (if meets lo hi f then [span_of lo hi f] else []) @ spans lo hi fs"
  by (simp_all add: spans_def)

lemma consecutive_from: "consecutive o1 fs \<Longrightarrow> f \<in> set fs \<Longrightarrow> o1 \<le> tf_Offset f \<and> 0 \<le> tf_Length f"
  by (induction fs arbitrary: o1) fastforce+

lemma spans_none: "consecutive o1 fs \<Longrightarrow> hi \<le> o1 \<Longrightarrow> spans lo hi fs = []"
  using consecutive_from [of o1 fs] by (fastforce simp: spans_def filter_empty_conv meets_def)

lemma spans_shift:
  assumes "consecutive o1 fs" and "lo \<le> o1"
  shows "spans lo hi fs = spans o1 hi fs"
proof -
  have "max lo (tf_Offset f) = max o1 (tf_Offset f)" if "f \<in> set fs" for f
    using consecutive_from [OF assms(1) that] assms(2) by linarith
  then have "meets lo hi f = meets o1 hi f \<and> span_of lo hi f = span_of o1 hi f" if "f \<in> set fs" for f
    using that by (simp add: meets_def span_of_def)
  then show ?thesis by (induction fs) (auto simp del: max_less_iff_conj min_less_iff_conj)
qed

lemma file_loop_spans:
  assumes "consecutive o1 fs" and "o1 \<le> lo" and "0 < len"
  shows "file_loop fs lo len = spans lo (lo + len) fs"
  using assms
proof (induction fs arbitrary: o1 lo len)
  case (Cons f fs)
  let ?e = "o1 + tf_Length f"
  have f: "tf_Offset f = o1" "0 \<le> tf_Length f" and fs: "consecutive ?e fs" using Cons.prems by simp_all
  have head: "span_of lo (lo + len) f = \<lparr>fc_path = Some (tf_Path f), fc_filelength = tf_Length f, fc_offset = lo - o1,
      fc_length = min (lo + len) ?e - lo, fc_pad = tf_Padding f\<rparr>"
    using f Cons.prems(2) by (simp add: span_of_def max_absorb1)
  consider "?e \<le> lo" | "lo < ?e" "lo + len \<le> ?e" | "lo < ?e" "?e < lo + len" by linarith
  then show ?case
  proof cases
    case 1
    then show ?thesis using Cons.IH [OF fs] f Cons.prems by (simp add: meets_def)
  next
    case 2
    then show ?thesis using f head spans_none [OF fs 2(2)] Cons.prems by (simp add: meets_def Let_def)
  next
    case 3
    then show ?thesis using f head Cons.IH [OF fs order_refl, of "lo + len - ?e"] Cons.prems spans_shift [OF fs, of lo "lo + len"]
      by (simp add: meets_def Let_def algebra_simps)
  qed
qed simp

lemma spans_total:
  assumes "consecutive o1 fs" and "lo \<le> hi" and "o1 \<le> lo" and "hi \<le> o1 + sum_list (map tf_Length fs)"
  shows "sum_list (map fc_length (spans lo hi fs)) = hi - lo"
  using assms
proof (induction fs arbitrary: o1 lo)
  case (Cons f fs)
  let ?e = "o1 + tf_Length f"
  have f: "tf_Offset f = o1" "0 \<le> tf_Length f" and fs: "consecutive ?e fs" using Cons.prems by simp_all
  have head: "fc_length (span_of lo hi f) = min hi ?e - lo" using f Cons.prems(3) by (simp add: span_of_def max_absorb1)
  consider "?e \<le> lo" | "lo < ?e" "hi \<le> ?e" | "lo < ?e" "?e < hi" by linarith
  then show ?case
  proof cases
    case 1
    then show ?thesis using Cons.IH [OF fs Cons.prems(2)] f Cons.prems by (simp add: meets_def)
  next
    case 2
    then show ?thesis using f head spans_none [OF fs 2(2)] Cons.prems by (auto simp: meets_def)
  next
    case 3
    then show ?thesis using f head Cons.IH [OF fs, of ?e] Cons.prems spans_shift [OF fs, of lo hi]
      by (simp add: meets_def)
  qed
qed simp

text \<open>
  C29. \<^verbatim>\<open>fileChunks\<close> computes the intersection of a range that is not empty with every file of the
  torrent, in order, files of length 0 and padding included; for a torrent whose files lie one after the other, as they
  do once the metadata is complete. When the range lies within the torrent, the parts cover it.
\<close>

theorem fileChunks_intersection:
  assumes "consecutive 0 (t_Files t)" and "0 < len" and "t_Files t \<noteq> []"
    and "lo = uint index * uint (ps_pieceSize (t_Pieces t)) + uint off"
  shows "fileChunks t index off len = spans lo (lo + uint len) (t_Files t) \<and>
    (lo + uint len \<le> sum_list (map tf_Length (t_Files t)) \<longrightarrow>
      sum_list (map fc_length (fileChunks t index off len)) = uint len)"
proof -
  have lo: "0 \<le> lo" using assms(4) by simp
  moreover have len: "0 < uint len" using assms(2) by (simp add: word_less_def)
  ultimately have "fileChunks t index off len = spans lo (lo + uint len) (t_Files t)"
    using file_loop_spans [OF assms(1), of lo "uint len"] assms(3,4) by (simp add: fileChunks_def Let_def)
  then show ?thesis using spans_total [OF assms(1), of lo "lo + uint len"] lo len by simp
qed

definition ex_files :: torrent where
  "ex_files = ex_torrent\<lparr>t_Files :=
     [\<lparr>tf_Path = [''a''], tf_Offset = 0, tf_Length = 10, tf_Padding = False\<rparr>,
      \<lparr>tf_Path = [''b''], tf_Offset = 10, tf_Length = 0, tf_Padding = False\<rparr>,
      \<lparr>tf_Path = [''c''], tf_Offset = 10, tf_Length = 7, tf_Padding = True\<rparr>,
      \<lparr>tf_Path = [''d''], tf_Offset = 17, tf_Length = 5, tf_Padding = False\<rparr>]\<rparr>"

theorem fileChunks_intersection_witness:
  "map fc_path (fileChunks ex_files 0 8 6) = [Some [''a''], Some [''c'']] \<and>
    sum_list (map fc_length (fileChunks ex_files 0 8 6)) = 6"
proof -
  have "consecutive 0 (t_Files ex_files)" "t_Files ex_files \<noteq> []"
    "uint (0 :: u32) * uint (ps_pieceSize (t_Pieces ex_files)) + uint (8 :: u32) = 8"
    "8 + uint (6 :: u32) \<le> sum_list (map tf_Length (t_Files ex_files))"
    "map fc_path (spans 8 (8 + uint (6 :: u32)) (t_Files ex_files)) = [Some [''a''], Some [''c'']]"
    by code_simp+
  then show ?thesis using fileChunks_intersection [of ex_files 6 8 0 8] by auto
qed

end
