(* ===== verification/Tor_Reader.thy ===== *)
theory Tor_Reader
  imports Tor_Events Piece_Queries
begin

section \<open>Reading from a torrent (tor/reader.go, Request in tor/tor.go)\<close>

text \<open>
  A \<^verbatim>\<open>Reader\<close> is a position in a part of the contents. It asks the torrent for the piece
  at its position and for those to prefetch, and waits for the former. The state that it shares with
  other goroutines is the record \<open>rworld\<close>: the torrent, and the events that it has sent to it.
  What it does not determine is the record \<open>renv\<close>: the time, whether the \<open>k\<close>-th
  event is accepted and how it is answered, the outcome of waiting, the contents at the time they are read,
  and the two floating-point computations with the prefetch rate. Positions are \<^verbatim>\<open>int64\<close>s; they are below the
  length of a torrent, so their sums do not wrap.
\<close>

subsection \<open>Requests\<close>

datatype reader_error =
    ErrNetClosed | ErrBadWhence | ErrNegativePosition | ErrTorrentDead | ErrMetadataIncomplete
  | ErrBeyondTorrent | ErrReadEOF | ErrContext

datatype wait = W_done | W_dead | W_context

record renv =
  rn_now :: u32
  rn_alive :: "nat \<Rightarrow> bool"
  rn_ch :: "nat \<Rightarrow> nat option"
  rn_prefetch :: "u32 \<Rightarrow> u32 \<Rightarrow> u32"
  rn_soon :: "u32 \<Rightarrow> bool"
  rn_ctxErr :: bool
  rn_wait :: wait
  rn_contents :: pieces

record rworld =
  rw_tor :: torrent
  rw_events :: "tor_input list"

type_synonym 'a reading = "rworld \<Rightarrow> ('a \<times> rworld) option"

text \<open>Whether the request was passed on, the channel to wait on, and the error.\<close>

definition Torrent_Request ::
  "renv \<Rightarrow> u32 \<Rightarrow> int \<Rightarrow> bool \<Rightarrow> bool \<Rightarrow> (bool \<times> nat option \<times> reader_error option) reading" where
  "Torrent_Request env index prio request want w =
     (let t = rw_tor w in
      if \<not> t_infoComplete t then Some ((False, None, Some ErrMetadataIncomplete), w)
      else if index \<ge> of_nat (length (t_PieceHashes t)) then Some ((False, None, Some ErrBeyondTorrent), w)
      else do {
        (ps, complete) \<leftarrow> (if request then UpdateTime (rn_now env) (t_Pieces t) index else Some (t_Pieces t, False));
        let w1 = w\<lparr>rw_tor := t\<lparr>t_Pieces := ps\<rparr>\<rparr>;
        if complete then Some ((False, None, None), w1)
        else if rn_alive env (length (rw_events w))
        then Some ((True, if want then rn_ch env (length (rw_events w)) else None, None),
                   w1\<lparr>rw_events := rw_events w @ [TorRequest index prio request want]\<rparr>)
        else Some ((False, None, Some ErrTorrentDead), w1)
      })"

subsection \<open>The reader\<close>

record reader =
  rr_torrent :: bool
  rr_offset :: int
  rr_length :: int
  rr_position :: int
  rr_requested :: "(u32 \<times> int) list"
  rr_requestedIndex :: int
  rr_ch :: "nat option"

definition NewReader :: "int \<Rightarrow> int \<Rightarrow> reader" where
  "NewReader offset len =
     \<lparr>rr_torrent = True, rr_offset = offset, rr_length = len, rr_position = 0, rr_requested = [],
      rr_requestedIndex = - 1, rr_ch = None\<rparr>"

datatype whence = SeekStart | SeekCurrent | SeekEnd | SeekOther

definition Reader_Seek :: "int \<Rightarrow> whence \<Rightarrow> reader \<Rightarrow> (int \<times> reader_error option) \<times> reader" where
  "Reader_Seek off wh r =
     (if \<not> rr_torrent r then ((rr_position r, Some ErrNetClosed), r)
      else case (case wh of SeekStart \<Rightarrow> Some off | SeekCurrent \<Rightarrow> Some (rr_position r + off)
                 | SeekEnd \<Rightarrow> Some (rr_length r + off) | SeekOther \<Rightarrow> None) of
        None \<Rightarrow> ((rr_position r, Some ErrBadWhence), r)
      | Some pos \<Rightarrow> if pos < 0 then ((rr_position r, Some ErrNegativePosition), r)
                    else ((pos, None), r\<lparr>rr_position := pos\<rparr>))"

text \<open>The pieces to request; a piece size of 0 is a division by zero. The number of pieces is 32 bits and wraps.\<close>

definition Reader_chunks :: "renv \<Rightarrow> torrent \<Rightarrow> int \<Rightarrow> int \<Rightarrow> (u32 \<times> int) list option" where
  "Reader_chunks env t pos limit =
     (if pos < 0 \<or> pos > limit then Some []
      else if ps_pieceSize (t_Pieces t) = 0 then None
      else let S = uint (ps_pieceSize (t_Pieces t));
               index = word_of_int (pos sdiv S) :: u32;
               begin = word_of_int (pos smod S) :: u32;
               mx = word_of_int (limit sdiv S) :: u32;
               remain = ps_pieceSize (t_Pieces t) - begin;
               p0 = rn_prefetch env remain (ps_pieceSize (t_Pieces t));
               p1 = (if p0 < 1 then 1 else p0);
               prefetch = (if index + 1 + p1 > mx then mx - index - 1 else p1);
               soon = rn_soon env remain
           in Some ((index, 1) # (if soon then [(index + 1, 0)] else []) @
                map (\<lambda>i. (index + of_nat i, - 1)) [(if soon then 2 else 1)..<unat (prefetch + 1)]))"

text \<open>The loop over the new requests; an error of the first one ends it. The results are the
  requests that were passed on, the channel and the error.\<close>

fun more_requests :: "renv \<Rightarrow> (u32 \<times> int) list \<Rightarrow> ((u32 \<times> int) list) reading" where
  "more_requests env [] w = Some ([], w)"
| "more_requests env (c # cs) w = do {
     ((d, _, _), w1) \<leftarrow> Torrent_Request env (fst c) (snd c) True False w;
     (rs, w2) \<leftarrow> more_requests env cs w1;
     Some (if d then c # rs else rs, w2)
   }"

definition new_requests ::
  "renv \<Rightarrow> (u32 \<times> int) list \<Rightarrow> ((u32 \<times> int) list \<times> nat option \<times> reader_error option) reading" where
  "new_requests env cs w =
     (case cs of
        [] \<Rightarrow> Some (([], None, None), w)
      | c # cs \<Rightarrow> do {
          ((d, ch, e), w1) \<leftarrow> Torrent_Request env (fst c) (snd c) True True w;
          let r0 = (if d then [c] else []);
          if e \<noteq> None then Some ((r0, ch, e), w1)
          else do { (rs, w2) \<leftarrow> more_requests env cs w1; Some ((r0 @ rs, ch, None), w2) }
        })"

fun drop_requests :: "renv \<Rightarrow> (u32 \<times> int) list \<Rightarrow> rworld \<Rightarrow> rworld option" where
  "drop_requests env [] w = Some w"
| "drop_requests env (c # cs) w = do {
     (_, w1) \<leftarrow> Torrent_Request env (fst c) (snd c) False False w;
     drop_requests env cs w1
   }"

definition same_piece :: "torrent \<Rightarrow> int \<Rightarrow> reader \<Rightarrow> bool option" where
  "same_piece t pos r =
     (if rr_requestedIndex r \<ge> 0
      then if ps_pieceSize (t_Pieces t) = 0 then None
           else Some (rr_requestedIndex r = uint (word_of_int (pos sdiv uint (ps_pieceSize (t_Pieces t))) :: u32))
      else Some False)"

definition Reader_request ::
  "renv \<Rightarrow> int \<Rightarrow> int \<Rightarrow> reader \<Rightarrow> ((nat option \<times> reader_error option) \<times> reader) reading" where
  "Reader_request env pos limit r w = do {
     same \<leftarrow> same_piece (rw_tor w) pos r;
     if same then Some (((rr_ch r, None), r), w)
     else do {
       cs \<leftarrow> Reader_chunks env (rw_tor w) pos limit;
       ((rs, done, e), w1) \<leftarrow> new_requests env cs w;
       w2 \<leftarrow> drop_requests env (rr_requested r) w1;
       let i = (case cs of [] \<Rightarrow> - 1 | c # _ \<Rightarrow> uint (fst c));
       Some (((done, e), r\<lparr>rr_requested := rs, rr_requestedIndex := i, rr_ch := done\<rparr>), w2)
     }
   }"

text \<open>The call \<^verbatim>\<open>r.request(-1, -1)\<close>.\<close>

definition Reader_release :: "renv \<Rightarrow> reader \<Rightarrow> reader reading" where
  "Reader_release env r w = map_option (\<lambda>((_, r1), w1). (r1, w1)) (Reader_request env (- 1) (- 1) r w)"

definition read_contents :: "renv \<Rightarrow> nat \<Rightarrow> reader \<Rightarrow> ((byte list \<times> reader_error option) \<times> reader) reading" where
  "read_contents env n r w = do {
     let left = rr_length r - rr_position r;
     (out, eof) \<leftarrow> ReadAt (rn_contents env) (if int n < left then n else nat left) (rr_offset r + rr_position r);
     let e = (if eof \<or> int (length out) = left then Some ErrReadEOF else None);
     (r1, w1) \<leftarrow> (if e \<noteq> None then Reader_release env r w else Some (r, w));
     Some (((out, e), r1\<lparr>rr_position := rr_position r1 + int (length out)\<rparr>), w1)
   }"

text \<open>A read into a buffer of \<open>n\<close> bytes: the bytes and the error.\<close>

definition Reader_Read :: "renv \<Rightarrow> nat \<Rightarrow> reader \<Rightarrow> ((byte list \<times> reader_error option) \<times> reader) reading" where
  "Reader_Read env n r w =
     (let fail = (\<lambda>e r w. map_option (\<lambda>(r1, w1). ((([], Some e), r1), w1)) (Reader_release env r w)) in
      if \<not> rr_torrent r then Some ((([], Some ErrNetClosed), r), w)
      else if rr_position r \<ge> rr_length r then fail ErrReadEOF r w
      else if rn_ctxErr env then fail ErrContext r w
      else do {
        (((done, e), r1), w1) \<leftarrow> Reader_request env (rr_offset r + rr_position r) (rr_offset r + rr_length r) r w;
        if e \<noteq> None then Some ((([], e), r1), w1)
        else if done \<noteq> None \<and> rn_wait env = W_dead then fail ErrTorrentDead r1 w1
        else if done \<noteq> None \<and> rn_wait env = W_context then fail ErrContext r1 w1
        else read_contents env n r1 w1
      })"

text \<open>Closing a closed reader that still has requests follows a nil pointer.\<close>

definition Reader_Close :: "renv \<Rightarrow> reader \<Rightarrow> reader reading" where
  "Reader_Close env r w =
     (if \<not> rr_torrent r \<and> (rr_requestedIndex r \<ge> 0 \<or> rr_requested r \<noteq> []) then None
      else map_option (\<lambda>(r1, w1). (r1\<lparr>rr_torrent := False\<rparr>, w1)) (Reader_release env r w))"

end
