(* ===== verification/Reader_Props.thy ===== *)
theory Reader_Props
  imports Tor_Reader Piece_Props Tor_Inv
begin

section \<open>Properties of readers\<close>

text \<open>
  A reader as a machine: reads, seeks and closes, interleaved with changes of the contents by
  other goroutines. The reader delivers the contents, and takes back its requests.
\<close>

subsection \<open>Requests and their withdrawal\<close>

text \<open>How often piece \<open>fst c\<close> is requested with priority \<open>snd c\<close>, less the times that is taken back.\<close>

fun weigh :: "u32 \<times> int \<Rightarrow> tor_input \<Rightarrow> int" where
  "weigh c (TorRequest i prio request want) = (if (i, prio) = c then (if request then 1 else - 1) else 0)"
| "weigh c _ = 0"

definition balance :: "tor_input list \<Rightarrow> u32 \<times> int \<Rightarrow> int" where
  "balance es c = sum_list (map (weigh c) es)"

lemma balance_simps [simp]: "balance [] c = 0" "balance (es @ fs) c = balance es c + balance fs c"
  "balance [e] c = weigh c e"
  by (simp_all add: balance_def)

text \<open>
  What a reader relies on: the metadata is complete, with as many hashes as there are pieces.
\<close>

definition world_ok :: "rworld \<Rightarrow> bool" where
  "world_ok w \<longleftrightarrow> t_infoComplete (rw_tor w) \<and> geometry (t_Pieces (rw_tor w)) \<and>
     length (t_PieceHashes (rw_tor w)) = Pieces_Num (t_Pieces (rw_tor w))"

definition shape :: "rworld \<Rightarrow> u32 \<times> int \<times> nat" where
  "shape w = (ps_pieceSize (t_Pieces (rw_tor w)), ps_length (t_Pieces (rw_tor w)), Pieces_Num (t_Pieces (rw_tor w)))"

definition held :: "(u32 \<times> int) list \<Rightarrow> rworld \<Rightarrow> bool" where
  "held rs w \<longleftrightarrow> (\<forall>c \<in> set rs. unat (fst c) < Pieces_Num (t_Pieces (rw_tor w)))"

definition asks_more :: "(u32 \<times> int \<Rightarrow> int) \<Rightarrow> rworld \<Rightarrow> rworld \<Rightarrow> bool" where
  "asks_more d w w' \<longleftrightarrow> world_ok w' \<and> shape w' = shape w \<and> (\<forall>c. balance (rw_events w') c = balance (rw_events w) c + d c)"

lemma asks_more_trans: "asks_more d w w1 \<Longrightarrow> asks_more d1 w1 w2 \<Longrightarrow> asks_more (\<lambda>c. d c + d1 c) w w2"
  by (simp add: asks_more_def)

lemma held_shape: "shape w' = shape w \<Longrightarrow> held rs w' = held rs w"
  by (simp add: shape_def held_def)

lemma UpdateTime_ok:
  assumes "geometry ps" and "unat i < Pieces_Num ps"
  obtains ps' b where "UpdateTime now ps i = Some (ps', b)" "geometry ps'" "ps_pieceSize ps' = ps_pieceSize ps"
    "ps_length ps' = ps_length ps" "Pieces_Num ps' = Pieces_Num ps"
  using assms that by (auto simp: UpdateTime_def piece_at_def put_piece_def Pieces_Num_def geometry_def Let_def)

lemma Torrent_Request_asks:
  assumes w: "world_ok w" and al: "\<And>k. rn_alive env k"
  shows "\<exists>d ch e w'. Torrent_Request env i prio True want w = Some ((d, ch, e), w') \<and>
    asks_more (\<lambda>c. if d \<and> c = (i, prio) then 1 else 0) w w' \<and> (d \<longrightarrow> unat i < Pieces_Num (t_Pieces (rw_tor w))) \<and>
    (e = None \<longleftrightarrow> unat i < Pieces_Num (t_Pieces (rw_tor w)))"
proof (cases "unat i < Pieces_Num (t_Pieces (rw_tor w))")
  case True
  let ?t = "rw_tor w"
  obtain ps b where ps: "UpdateTime (rn_now env) (t_Pieces ?t) i = Some (ps, b)" "geometry ps" "ps_pieceSize ps = ps_pieceSize (t_Pieces ?t)"
    "ps_length ps = ps_length (t_Pieces ?t)" "Pieces_Num ps = Pieces_Num (t_Pieces ?t)"
    using UpdateTime_ok [OF _ True] w by (auto simp: world_ok_def)
  have "\<not> i \<ge> of_nat (length (t_PieceHashes ?t))"
    using True w by (simp add: unat_le_iff_u32 unat_of_nat_u32 world_ok_def geometry_def Pieces_Num_def)
  then show ?thesis using ps w al True
    by (cases b) (auto simp: Torrent_Request_def Let_def asks_more_def world_ok_def shape_def)
next
  case False
  then have "i \<ge> of_nat (length (t_PieceHashes (rw_tor w)))"
    using w by (simp add: unat_le_iff_u32 unat_of_nat_u32 world_ok_def geometry_def Pieces_Num_def)
  then show ?thesis using w False
    by (auto simp: Torrent_Request_def Let_def world_ok_def asks_more_def)
qed

lemma Torrent_Request_drops:
  assumes w: "world_ok w" and al: "\<And>k. rn_alive env k" and i: "unat i < Pieces_Num (t_Pieces (rw_tor w))"
  shows "\<exists>x w'. Torrent_Request env i prio False False w = Some (x, w') \<and>
    asks_more (\<lambda>c. if c = (i, prio) then - 1 else 0) w w'"
proof -
  have "\<not> i \<ge> of_nat (length (t_PieceHashes (rw_tor w)))"
    using i w by (simp add: unat_le_iff_u32 unat_of_nat_u32 world_ok_def geometry_def Pieces_Num_def)
  then show ?thesis using w al by (auto simp: Torrent_Request_def Let_def asks_more_def world_ok_def shape_def)
qed

lemma more_requests_asks:
  assumes "world_ok w" and al: "\<And>k. rn_alive env k"
  shows "\<exists>rs w'. more_requests env cs w = Some (rs, w') \<and> asks_more (\<lambda>c. int (count_list rs c)) w w' \<and> held rs w"
  using assms(1)
proof (induction cs arbitrary: w)
  case (Cons c cs)
  obtain d ch e w1 where w1: "Torrent_Request env (fst c) (snd c) True False w = Some ((d, ch, e), w1)"
    "asks_more (\<lambda>x. if d \<and> x = (fst c, snd c) then 1 else 0) w w1" "d \<Longrightarrow> unat (fst c) < Pieces_Num (t_Pieces (rw_tor w))"
    using Torrent_Request_asks [OF Cons.prems al, of "fst c" "snd c" False] by blast
  then obtain rs w2 where w2: "more_requests env cs w1 = Some (rs, w2)" "asks_more (\<lambda>x. int (count_list rs x)) w1 w2" "held rs w1"
    using Cons.IH [of w1] by (auto simp: asks_more_def)
  have "asks_more (\<lambda>x. int (count_list (if d then c # rs else rs) x)) w w2"
    using asks_more_trans [OF w1(2) w2(2)] by (auto simp: asks_more_def)
  then show ?case using w1 w2 held_shape [of w1 w rs] by (auto simp: asks_more_def held_def)
qed (simp add: asks_more_def held_def)

lemma new_requests_asks:
  assumes w: "world_ok w" and al: "\<And>k. rn_alive env k"
  shows "\<exists>rs ch e w'. new_requests env cs w = Some ((rs, ch, e), w') \<and>
    asks_more (\<lambda>c. int (count_list rs c)) w w' \<and> held rs w"
proof (cases cs)
  case Nil
  then show ?thesis using w by (simp add: new_requests_def asks_more_def held_def)
next
  case (Cons c xs)
  obtain d ch e w1 where w1: "Torrent_Request env (fst c) (snd c) True True w = Some ((d, ch, e), w1)"
    "asks_more (\<lambda>x. if d \<and> x = (fst c, snd c) then 1 else 0) w w1" "d \<longrightarrow> unat (fst c) < Pieces_Num (t_Pieces (rw_tor w))"
    using Torrent_Request_asks [OF w al, of "fst c" "snd c" True] by blast
  obtain rs w2 where w2: "more_requests env xs w1 = Some (rs, w2)" "asks_more (\<lambda>x. int (count_list rs x)) w1 w2" "held rs w1"
    using more_requests_asks [OF _ al, of w1 xs] w1(2) by (auto simp: asks_more_def)
  have "asks_more (\<lambda>x. int (count_list (if d then c # rs else rs) x)) w w2"
    using asks_more_trans [OF w1(2) w2(2)] by (auto simp: asks_more_def)
  moreover have "asks_more (\<lambda>x. int (count_list (if d then [c] else []) x)) w w1" using w1(2) by (auto simp: asks_more_def)
  ultimately show ?thesis using Cons w1 w2 held_shape [of w1 w rs]
    by (cases "e = None") (auto simp: new_requests_def Let_def asks_more_def held_def)
qed

lemma drop_requests_asks:
  assumes "world_ok w" and al: "\<And>k. rn_alive env k" and "held rs w"
  shows "\<exists>w'. drop_requests env rs w = Some w' \<and> asks_more (\<lambda>c. - int (count_list rs c)) w w'"
  using assms(1,3)
proof (induction rs arbitrary: w)
  case (Cons c rs)
  obtain x w1 where w1: "Torrent_Request env (fst c) (snd c) False False w = Some (x, w1)"
    "asks_more (\<lambda>y. if y = (fst c, snd c) then - 1 else 0) w w1"
    using Torrent_Request_drops [OF Cons.prems(1) al, of "fst c" "snd c"] Cons.prems(2) by (auto simp: held_def)
  moreover have "held rs w1" using Cons.prems(2) w1(2) held_shape [of w1 w rs] by (simp add: asks_more_def held_def)
  ultimately obtain w2 where w2: "drop_requests env rs w1 = Some w2" "asks_more (\<lambda>x. - int (count_list rs x)) w1 w2"
    using Cons.IH [of w1] by (auto simp: asks_more_def)
  have "asks_more (\<lambda>x. - int (count_list (c # rs) x)) w w2"
    using asks_more_trans [OF w1(2) w2(2)] by (auto simp: asks_more_def)
  then show ?case using w1(1) w2(1) by simp
qed (simp add: asks_more_def)

text \<open>The invariant of a reader and the world: the requests that have not been taken back are those it holds.\<close>

definition settled_up :: "reader \<Rightarrow> rworld \<Rightarrow> bool" where
  "settled_up r w \<longleftrightarrow> world_ok w \<and> held (rr_requested r) w \<and>
     (\<forall>c. balance (rw_events w) c = int (count_list (rr_requested r) c)) \<and> - 1 \<le> rr_requestedIndex r \<and>
     (rr_requestedIndex r = - 1 \<longrightarrow> rr_requested r = [])"

definition same_reader :: "reader \<Rightarrow> reader \<Rightarrow> bool" where
  "same_reader r r' \<longleftrightarrow> rr_torrent r' = rr_torrent r \<and> rr_offset r' = rr_offset r \<and> rr_length r' = rr_length r \<and>
     rr_position r' = rr_position r"

lemma Reader_request_settled:
  assumes s: "settled_up r w" and al: "\<And>k. rn_alive env k"
  shows "\<exists>x r' w'. Reader_request env pos limit r w = Some ((x, r'), w') \<and> settled_up r' w' \<and> shape w' = shape w \<and>
    same_reader r r' \<and> (rr_requestedIndex r' = - 1 \<longrightarrow> rr_requested r' = [])"
proof -
  have w: "world_ok w" and S: "ps_pieceSize (t_Pieces (rw_tor w)) \<noteq> 0"
    using s by (auto simp: settled_up_def world_ok_def geometry_def)
  obtain same where same: "same_piece (rw_tor w) pos r = Some same" using S
    by (cases "same_piece (rw_tor w) pos r") (auto simp: same_piece_def split: if_splits)
  obtain cs where cs: "Reader_chunks env (rw_tor w) pos limit = Some cs" using S
    by (cases "Reader_chunks env (rw_tor w) pos limit") (auto simp: Reader_chunks_def Let_def split: if_splits)
  obtain rs ch e w1 where w1: "new_requests env cs w = Some ((rs, ch, e), w1)" "asks_more (\<lambda>c. int (count_list rs c)) w w1" "held rs w"
    using new_requests_asks [OF w al, of cs] by blast
  have "held (rr_requested r) w1" using s w1(2) held_shape [of w1 w] by (simp add: settled_up_def asks_more_def)
  moreover have "world_ok w1" using w1(2) by (simp add: asks_more_def)
  ultimately obtain w2 where w2: "drop_requests env (rr_requested r) w1 = Some w2"
    "asks_more (\<lambda>c. - int (count_list (rr_requested r) c)) w1 w2"
    using drop_requests_asks [OF _ al, of w1 "rr_requested r"] by blast
  let ?i = "case cs of [] \<Rightarrow> - 1 | c # _ \<Rightarrow> uint (fst c)"
  let ?r = "r\<lparr>rr_requested := rs, rr_requestedIndex := ?i, rr_ch := ch\<rparr>"
  have low: "- 1 < uint a" for a :: u32 by (rule less_le_trans [of _ 0]) simp_all
  have empty: "rs = []" if "?i = - 1"
  proof -
    have "cs = []" using that low [THEN less_imp_neq, THEN not_sym] by (cases cs) auto
    then show ?thesis using w1(1) by (simp add: new_requests_def)
  qed
  have i: "- 1 \<le> ?i" using low by (auto split: list.splits intro: less_imp_le)
  have "settled_up ?r w2"
    using s asks_more_trans [OF w1(2) w2(2)] w1(3) held_shape [of w2 w rs] w1(2) w2(2) empty i
    by (auto simp: settled_up_def asks_more_def)
  moreover have "shape w2 = shape w" using w1(2) w2(2) by (simp add: asks_more_def)
  ultimately show ?thesis using same cs w1(1) w2(1) s empty
    by (cases same) (auto simp: Reader_request_def Let_def same_reader_def settled_up_def)
qed

text \<open>Taking back everything, and what prevents it: the position of the call is in piece 0 when divided with truncation.\<close>

lemma one_sdiv: "1 < S \<Longrightarrow> 1 sdiv S = (0 :: int)"
  by (simp add: signed_divide_int_def)

lemma geometry_large:
  assumes "geometry ps"
  shows "1 < uint (ps_pieceSize ps)"
proof -
  have "0 < unat (ps_pieceSize ps)" "unat (ps_pieceSize ps) \<noteq> 1"
    using geometry_pos [OF assms] assms by (auto simp: geometry_def)
  then have "1 < int (unat (ps_pieceSize ps))" by linarith
  then show ?thesis by (simp only: uint_nat)
qed

lemma Reader_release_settled:
  assumes s: "settled_up r w" and al: "\<And>k. rn_alive env k"
  shows "\<exists>r' w'. Reader_release env r w = Some (r', w') \<and> settled_up r' w' \<and> shape w' = shape w \<and> same_reader r r' \<and>
    (rr_requestedIndex r \<noteq> 0 \<longrightarrow> rr_requested r' = [] \<and> rr_requestedIndex r' = - 1) \<and>
    (rr_requestedIndex r = 0 \<longrightarrow> r' = r \<and> w' = w)"
proof -
  have "geometry (t_Pieces (rw_tor w))" using s by (simp add: settled_up_def world_ok_def)
  then have "1 < uint (ps_pieceSize (t_Pieces (rw_tor w)))"
    by (rule geometry_large)
  then have same: "same_piece (rw_tor w) (- 1) r = Some (rr_requestedIndex r = 0)"
    using s by (auto simp: same_piece_def one_sdiv settled_up_def)
  obtain x r' w' where r': "Reader_request env (- 1) (- 1) r w = Some ((x, r'), w')" "settled_up r' w'" "shape w' = shape w" "same_reader r r'"
    "rr_requestedIndex r' = - 1 \<longrightarrow> rr_requested r' = []"
    using Reader_request_settled [OF s al, of "- 1" "- 1"] by blast
  moreover have "rr_requestedIndex r' = - 1" if "rr_requestedIndex r \<noteq> 0"
    using r'(1) that same by (auto simp: Reader_request_def Reader_chunks_def new_requests_def bind_eq_Some_conv Let_def)
  moreover have "r' = r \<and> w' = w" if "rr_requestedIndex r = 0"
    using r'(1) that same by (auto simp: Reader_request_def)
  ultimately show ?thesis by (auto simp: Reader_release_def)
qed

subsection \<open>Reading\<close>

text \<open>
  The contents of a torrent: for every piece they are the only data of its length with its hash, as long as nobody finds a
  collision of SHA-1.
\<close>

definition determined :: "(byte list \<Rightarrow> hash) \<Rightarrow> hash list \<Rightarrow> pieces \<Rightarrow> byte list \<Rightarrow> bool" where
  "determined sha1 hashes ps D \<longleftrightarrow> int (length D) = ps_length ps \<and>
     (\<forall>i < length hashes. \<forall>d. length d = piece_len ps i \<and> sha1 d = hashes ! i \<longrightarrow>
        d = take (piece_len ps i) (drop (i * unat (ps_pieceSize ps)) D))"

text \<open>These bytes are those of \<open>D\<close> from position \<open>k\<close> on.\<close>

definition follows :: "byte list \<Rightarrow> nat \<Rightarrow> byte list \<Rightarrow> bool" where
  "follows D k xs \<longleftrightarrow> xs = take (length xs) (drop k D)"

lemma follows_Nil [simp]: "follows D k []"
  by (simp add: follows_def)

lemma follows_take: "xs = take n (drop k D) \<Longrightarrow> follows D k xs"
  by (simp add: follows_def min_def)

lemma follows_append:
  assumes "follows D k xs" and "follows D (k + length xs) ys"
  shows "follows D k (xs @ ys)"
proof -
  have "take (length xs + length ys) (drop k D) = take (length xs) (drop k D) @ take (length ys) (drop (k + length xs) D)"
    by (simp add: take_add add.commute)
  also have "\<dots> = xs @ ys" using assms unfolding follows_def by metis
  finally show ?thesis by (simp add: follows_def)
qed

lemma ReadAt_contents:
  assumes inv: "pieces_inv sha1 hashes ps" and D: "determined sha1 hashes ps D" and off: "0 \<le> off" "off < ps_length ps"
  obtains out where "ReadAt ps n off = Some (out, False)" "follows D (nat off) out" "length out \<le> n"
proof -
  define i b where "i = nat off div unat (ps_pieceSize ps)" and "b = nat off mod unat (ps_pieceSize ps)"
  note v = ReadAt_value [OF inv off, folded i_def b_def]
  have len: "i < length hashes"
    using ReadAt_position(3) [OF pieces_invD(1) [OF inv] off] inv by (simp add: i_def pieces_inv_def)
  show thesis
  proof (cases "piece_complete (ps_pieces ps ! i)")
    case True
    let ?d = "piece_bytes (ps_pieces ps ! i)"
    have "?d = take (piece_len ps i) (drop (i * unat (ps_pieceSize ps)) D)"
      using D v(2) [OF True] len by (simp add: determined_def)
    moreover have "i * unat (ps_pieceSize ps) + b = nat off" by (simp add: i_def b_def)
    ultimately have "drop b ?d = take (piece_len ps i - b) (drop (nat off) D)" by (simp add: drop_take add.commute)
    then have "take n (drop b ?d) = take (min n (piece_len ps i - b)) (drop (nat off) D)" by simp
    then have "follows D (nat off) (take n (drop b ?d))" by (rule follows_take)
    moreover have "ReadAt ps n off = Some (take n (drop b ?d), False)" using v(1) True by simp
    ultimately show ?thesis by (intro that [of "take n (drop b ?d)"]) simp_all
  qed (use that [of "[]"] v(1) in simp)
qed

text \<open>What a reader relies on when it reads: its range lies within the torrent, and nobody has tampered with the contents.\<close>

definition reader_fits :: "reader \<Rightarrow> rworld \<Rightarrow> bool" where
  "reader_fits r w \<longleftrightarrow> 0 \<le> rr_offset r \<and> 0 \<le> rr_position r \<and> rr_offset r + rr_length r \<le> ps_length (t_Pieces (rw_tor w))"

definition reading_ok :: "(byte list \<Rightarrow> hash) \<Rightarrow> hash list \<Rightarrow> renv \<Rightarrow> rworld \<Rightarrow> bool" where
  "reading_ok sha1 hashes env w \<longleftrightarrow> (\<forall>k. rn_alive env k) \<and> pieces_inv sha1 hashes (rn_contents env) \<and>
     ps_pieceSize (rn_contents env) = ps_pieceSize (t_Pieces (rw_tor w)) \<and>
     ps_length (rn_contents env) = ps_length (t_Pieces (rw_tor w))"

definition advances :: "byte list \<Rightarrow> nat \<Rightarrow> reader \<Rightarrow> byte list \<Rightarrow> reader_error option \<Rightarrow> reader \<Rightarrow> bool" where
  "advances D n r out e r' \<longleftrightarrow>
     rr_torrent r' = rr_torrent r \<and> rr_offset r' = rr_offset r \<and> rr_length r' = rr_length r \<and>
     rr_position r' = rr_position r + int (length out) \<and> length out \<le> n \<and>
     follows D (nat (rr_offset r + rr_position r)) out \<and>
     (out \<noteq> [] \<longrightarrow> rr_position r' \<le> rr_length r) \<and>
     (e = None \<longrightarrow> rr_position r' < rr_length r) \<and> (e = Some ErrReadEOF \<longrightarrow> rr_position r' \<ge> rr_length r)"

lemma determined_cong:
  "ps_pieceSize ps' = ps_pieceSize ps \<Longrightarrow> ps_length ps' = ps_length ps \<Longrightarrow> determined sha1 hashes ps' D = determined sha1 hashes ps D"
  by (simp add: determined_def piece_len_def)

lemma read_contents_settled:
  assumes s: "settled_up r w" and ok: "reading_ok sha1 hashes env w" and D: "determined sha1 hashes (t_Pieces (rw_tor w)) D"
    and fits: "reader_fits r w" and pos: "rr_position r < rr_length r"
  shows "\<exists>out e r' w'. read_contents env n r w = Some (((out, e), r'), w') \<and> settled_up r' w' \<and> shape w' = shape w \<and>
    advances D n r out e r'"
proof -
  let ?left = "rr_length r - rr_position r"
  let ?n = "if int n < ?left then n else nat ?left"
  have al: "\<And>k. rn_alive env k" using ok by (simp add: reading_ok_def)
  obtain out where out: "ReadAt (rn_contents env) ?n (rr_offset r + rr_position r) = Some (out, False)"
    "follows D (nat (rr_offset r + rr_position r)) out" "length out \<le> ?n"
    using ReadAt_contents [of sha1 hashes "rn_contents env" D "rr_offset r + rr_position r" ?n] ok D fits pos
      determined_cong [of "rn_contents env" "t_Pieces (rw_tor w)" sha1 hashes D]
    by (auto simp: reading_ok_def reader_fits_def)
  obtain r1 w1 where r1: "Reader_release env r w = Some (r1, w1)" "settled_up r1 w1" "shape w1 = shape w" "same_reader r r1"
    using Reader_release_settled [OF s al] by blast
  have set: "settled_up (u\<lparr>rr_position := x\<rparr>) v = settled_up u v" for u v x by (simp add: settled_up_def)
  have le: "length out \<le> n" "int (length out) \<le> ?left" using out(3) pos by (auto split: if_splits)
  show ?thesis
    using out(1,2) le r1 s pos set
    by (auto simp: read_contents_def Let_def advances_def same_reader_def)
qed

lemma Reader_request_error:
  assumes "Reader_request env pos limit r w = Some (((ch, e), r'), w')"
  shows "e \<noteq> Some ErrReadEOF"
proof -
  have "Torrent_Request env i prio rq want u \<noteq> Some ((d, c, Some ErrReadEOF), v)" for i prio rq want u d c v
    by (auto simp: Torrent_Request_def Let_def bind_eq_Some_conv split: if_splits)
  then have "new_requests env cs u \<noteq> Some ((rs, c, Some ErrReadEOF), v)" for cs u rs c v
    by (cases cs) (auto simp: new_requests_def Let_def bind_eq_Some_conv split: if_splits)
  then show ?thesis using assms by (auto simp: Reader_request_def Let_def bind_eq_Some_conv split: if_splits)
qed

lemma Reader_Read_settled:
  assumes s: "settled_up r w" and ok: "reading_ok sha1 hashes env w" and D: "determined sha1 hashes (t_Pieces (rw_tor w)) D"
    and fits: "reader_fits r w"
  shows "\<exists>out e r' w'. Reader_Read env n r w = Some (((out, e), r'), w') \<and> settled_up r' w' \<and> shape w' = shape w \<and>
    advances D n r out e r'"
proof -
  have al: "\<And>k. rn_alive env k" using ok by (simp add: reading_ok_def)
  have fail: "\<exists>r1 w1. Reader_release env u v = Some (r1, w1) \<and> settled_up r1 w1 \<and> shape w1 = shape v \<and> same_reader u r1"
    if "settled_up u v" for u v using Reader_release_settled [OF that al] by blast
  obtain ch e r1 w1 where r1: "Reader_request env (rr_offset r + rr_position r) (rr_offset r + rr_length r) r w = Some (((ch, e), r1), w1)"
    "settled_up r1 w1" "shape w1 = shape w" "same_reader r r1"
    using Reader_request_settled [OF s al, of "rr_offset r + rr_position r" "rr_offset r + rr_length r"] by auto
  have "reading_ok sha1 hashes env w1" "determined sha1 hashes (t_Pieces (rw_tor w1)) D" "reader_fits r1 w1"
    using ok D fits r1(3,4) determined_cong [of "t_Pieces (rw_tor w1)" "t_Pieces (rw_tor w)" sha1 hashes D]
    by (auto simp: reading_ok_def shape_def reader_fits_def same_reader_def)
  note rd = read_contents_settled [OF r1(2) this, of n]
  have same: "rr_torrent r1 = rr_torrent r" "rr_offset r1 = rr_offset r" "rr_length r1 = rr_length r" "rr_position r1 = rr_position r"
    using r1(4) by (simp_all add: same_reader_def)
  consider "\<not> rr_torrent r" | "rr_torrent r" "rr_position r \<ge> rr_length r" | "rr_torrent r" "rr_position r < rr_length r" "rn_ctxErr env"
    | "rr_torrent r" "rr_position r < rr_length r" "\<not> rn_ctxErr env" by linarith
  then show ?thesis
  proof cases
    case 1
    then show ?thesis using s by (simp add: Reader_Read_def advances_def)
  next
    case 2
    then show ?thesis using fail [OF s] by (auto simp: Reader_Read_def advances_def same_reader_def)
  next
    case 3
    then show ?thesis using fail [OF s] by (auto simp: Reader_Read_def advances_def same_reader_def)
  next
    case 4
    have adv: "advances D n r1 out e' r' = advances D n r out e' r'" for out e' r' using same by (simp add: advances_def)
    have stop: "advances D n r [] (Some x) r'" if "same_reader r1 r'" "x \<noteq> ErrReadEOF" for x r'
      using that same 4(2) by (simp add: advances_def same_reader_def)
    have body: "Reader_Read env n r w =
      (if e \<noteq> None then Some ((([], e), r1), w1)
       else if ch \<noteq> None \<and> rn_wait env = W_dead then map_option (\<lambda>(r2, w2). ((([], Some ErrTorrentDead), r2), w2)) (Reader_release env r1 w1)
       else if ch \<noteq> None \<and> rn_wait env = W_context then map_option (\<lambda>(r2, w2). ((([], Some ErrContext), r2), w2)) (Reader_release env r1 w1)
       else read_contents env n r1 w1)"
      using 4 r1(1) by (simp add: Reader_Read_def Let_def)
    show ?thesis
    proof (cases e)
      case (Some x)
      then have "x \<noteq> ErrReadEOF" using Reader_request_error [OF r1(1)] by simp
      then show ?thesis using Some r1 stop [of r1 x] by (simp add: body same_reader_def)
    next
      case None
      obtain r2 w2 where r2: "Reader_release env r1 w1 = Some (r2, w2)" "settled_up r2 w2" "shape w2 = shape w1" "same_reader r1 r2"
        using fail [OF r1(2)] by blast
      have "rr_position r1 < rr_length r1" using same 4(2) by simp
      note rd = rd [OF this, unfolded adv]
      show ?thesis using None r2 r1(3) stop [OF r2(4)] rd unfolding body by auto
    qed
  qed
qed

subsection \<open>Runs of a reader\<close>

text \<open>
  The operations on a reader and, between them, the torrent as other goroutines leave it. The
  configuration records where the reader was after the last seek, and what it has read since.
\<close>

datatype reader_op = R_Read renv nat | R_Seek int whence | R_Close renv | R_other torrent

record rconf =
  rc_reader :: reader
  rc_world :: rworld
  rc_start :: int
  rc_out :: "byte list"

definition reader_step :: "rconf \<Rightarrow> reader_op \<Rightarrow> rconf option" where
  "reader_step s a =
     (case a of
        R_Read env n \<Rightarrow>
          map_option (\<lambda>(((out, _), r), w). s\<lparr>rc_reader := r, rc_world := w, rc_out := rc_out s @ out\<rparr>)
            (Reader_Read env n (rc_reader s) (rc_world s))
      | R_Seek off wh \<Rightarrow>
          (let ((pos, e), r) = Reader_Seek off wh (rc_reader s)
           in Some (if e = None then s\<lparr>rc_reader := r, rc_start := pos, rc_out := []\<rparr> else s))
      | R_Close env \<Rightarrow>
          map_option (\<lambda>(r, w). s\<lparr>rc_reader := r, rc_world := w\<rparr>) (Reader_Close env (rc_reader s) (rc_world s))
      | R_other t \<Rightarrow> Some (s\<lparr>rc_world := (rc_world s)\<lparr>rw_tor := t\<rparr>\<rparr>))"

definition reader_permitted :: "(byte list \<Rightarrow> hash) \<Rightarrow> hash list \<Rightarrow> rconf \<Rightarrow> reader_op \<Rightarrow> bool" where
  "reader_permitted sha1 hashes s a =
     (case a of
        R_Read env n \<Rightarrow> reading_ok sha1 hashes env (rc_world s)
      | R_Seek off wh \<Rightarrow> True
      | R_Close env \<Rightarrow> (\<forall>k. rn_alive env k) \<and> rr_torrent (rc_reader s)
      | R_other t \<Rightarrow> let w = (rc_world s)\<lparr>rw_tor := t\<rparr> in world_ok w \<and> shape w = shape (rc_world s))"

definition reader_inv :: "(byte list \<Rightarrow> hash) \<Rightarrow> hash list \<Rightarrow> byte list \<Rightarrow> int \<times> int \<Rightarrow> rconf \<Rightarrow> bool" where
  "reader_inv sha1 hashes D part s \<longleftrightarrow> part = (rr_offset (rc_reader s), rr_length (rc_reader s)) \<and>
     (rc_out s \<noteq> [] \<longrightarrow> rr_position (rc_reader s) \<le> rr_length (rc_reader s)) \<and>
     settled_up (rc_reader s) (rc_world s) \<and> determined sha1 hashes (t_Pieces (rw_tor (rc_world s))) D \<and>
     reader_fits (rc_reader s) (rc_world s) \<and> 0 \<le> rc_start s \<and>
     rr_position (rc_reader s) = rc_start s + int (length (rc_out s)) \<and>
     follows D (nat (rr_offset (rc_reader s) + rc_start s)) (rc_out s)"

lemma fits_shape:
  assumes "shape w' = shape w"
  shows "determined sha1 hashes (t_Pieces (rw_tor w')) D = determined sha1 hashes (t_Pieces (rw_tor w)) D"
    and "reader_fits r w' = reader_fits r w"
  using assms by (auto simp: shape_def reader_fits_def intro!: determined_cong)

lemma reader_step_progress:
  assumes inv: "reader_inv sha1 hashes D part s" and ok: "reader_permitted sha1 hashes s a"
  shows "\<exists>s'. reader_step s a = Some s' \<and> reader_inv sha1 hashes D part s'"
proof (cases a)
  case (R_Read env n)
  let ?r = "rc_reader s" and ?w = "rc_world s"
  have ok': "reading_ok sha1 hashes env ?w" using ok R_Read by (simp add: reader_permitted_def)
  obtain out e r' w' where r': "Reader_Read env n ?r ?w = Some (((out, e), r'), w')" "settled_up r' w'" "shape w' = shape ?w"
    "advances D n ?r out e r'"
    using Reader_Read_settled [OF _ ok', of ?r D n] inv by (auto simp: reader_inv_def)
  have "nat (rr_offset ?r + rr_position ?r) = nat (rr_offset ?r + rc_start s) + length (rc_out s)"
    using inv by (simp add: reader_inv_def reader_fits_def nat_add_distrib)
  then have "follows D (nat (rr_offset ?r + rc_start s)) (rc_out s @ out)"
    using inv r'(4) by (intro follows_append) (simp_all add: reader_inv_def advances_def)
  then show ?thesis using R_Read inv r' fits_shape [OF r'(3)]
    by (auto simp: reader_step_def reader_inv_def advances_def reader_fits_def shape_def)
next
  case (R_Seek off wh)
  then show ?thesis using inv
    by (auto simp: reader_step_def reader_inv_def Reader_Seek_def reader_fits_def settled_up_def split: whence.splits)
next
  case (R_Close env)
  obtain r' w' where "Reader_release env (rc_reader s) (rc_world s) = Some (r', w')" "settled_up r' w'" "shape w' = shape (rc_world s)"
    "same_reader (rc_reader s) r'"
    using Reader_release_settled [of "rc_reader s" "rc_world s" env] inv ok R_Close by (auto simp: reader_inv_def reader_permitted_def)
  then show ?thesis using R_Close inv ok fits_shape [of w' "rc_world s"]
    by (auto simp: reader_step_def Reader_Close_def reader_permitted_def reader_inv_def same_reader_def reader_fits_def settled_up_def shape_def)
next
  case (R_other t)
  then show ?thesis using inv ok fits_shape [of "(rc_world s)\<lparr>rw_tor := t\<rparr>" "rc_world s"]
    by (auto simp: Let_def reader_step_def reader_permitted_def reader_inv_def settled_up_def held_shape [of "(rc_world s)\<lparr>rw_tor := t\<rparr>" "rc_world s"])
qed

interpretation red: machine "reader_permitted sha1 hashes" reader_step "reader_inv sha1 hashes D part" for sha1 hashes D part
  by unfold_locales (rule reader_step_progress)

text \<open>A new reader of the part of a torrent that starts at \<open>off\<close>.\<close>

definition fresh_reader :: "int \<Rightarrow> int \<Rightarrow> torrent \<Rightarrow> rconf" where
  "fresh_reader off len t =
     \<lparr>rc_reader = NewReader off len, rc_world = \<lparr>rw_tor = t, rw_events = []\<rparr>, rc_start = 0, rc_out = []\<rparr>"

definition readable :: "(byte list \<Rightarrow> hash) \<Rightarrow> hash list \<Rightarrow> byte list \<Rightarrow> int \<Rightarrow> int \<Rightarrow> torrent \<Rightarrow> bool" where
  "readable sha1 hashes D off len t \<longleftrightarrow> world_ok \<lparr>rw_tor = t, rw_events = []\<rparr> \<and> determined sha1 hashes (t_Pieces t) D \<and>
     0 \<le> off \<and> off + len \<le> ps_length (t_Pieces t)"

lemma fresh_reader_inv: "readable sha1 hashes D off len t \<Longrightarrow> reader_inv sha1 hashes D (off, len) (fresh_reader off len t)"
  by (simp add: readable_def fresh_reader_def NewReader_def reader_inv_def settled_up_def reader_fits_def held_def)

lemma reader_run:
  assumes "readable sha1 hashes D off len t"
    and "permitted_ops (reader_permitted sha1 hashes) reader_step (fresh_reader off len t) ops"
  obtains s where "run_ops reader_step (fresh_reader off len t) ops = Some s" "reader_inv sha1 hashes D (off, len) s"
  using red.run_safe [OF fresh_reader_inv [OF assms(1)] assms(2)] that by blast

text \<open>
  C4. A reader delivers the contents. However reads, seeks and the work of other goroutines
  interleave, nothing panics; the bytes read since the last seek are those of the torrent from there on, none is skipped or repeated,
  and none lies beyond the end of the part that is read. The next read appends
  at most as many bytes as fit the buffer, and reports the end of the file
  exactly when the end of the part is reached. The torrent is there to receive the events.
\<close>

theorem reader_delivers_contents:
  assumes "readable sha1 hashes D off len t"
    and "permitted_ops (reader_permitted sha1 hashes) reader_step (fresh_reader off len t) ops"
  shows "\<exists>s. run_ops reader_step (fresh_reader off len t) ops = Some s \<and>
    rr_position (rc_reader s) = rc_start s + int (length (rc_out s)) \<and> follows D (nat (off + rc_start s)) (rc_out s) \<and>
    (rc_out s \<noteq> [] \<longrightarrow> rr_position (rc_reader s) \<le> len) \<and>
    (\<forall>env n. reading_ok sha1 hashes env (rc_world s) \<longrightarrow>
      (\<exists>out e r w. Reader_Read env n (rc_reader s) (rc_world s) = Some (((out, e), r), w) \<and> advances D n (rc_reader s) out e r))"
proof -
  obtain s where s: "run_ops reader_step (fresh_reader off len t) ops = Some s" "reader_inv sha1 hashes D (off, len) s"
    using reader_run [OF assms] .
  have "\<exists>out e r w. Reader_Read env n (rc_reader s) (rc_world s) = Some (((out, e), r), w) \<and> advances D n (rc_reader s) out e r"
    if "reading_ok sha1 hashes env (rc_world s)" for env n
    using Reader_Read_settled [OF _ that, of "rc_reader s" D n] s(2) by (auto simp: reader_inv_def)
  then show ?thesis using s by (auto simp: reader_inv_def)
qed

text \<open>
  C26. A reader takes back its requests. At any time, the requests that the torrent has received from a reader
  and that have not been taken back are those the reader holds, piece by piece and priority by
  priority; and closing the reader takes back all of them, unless the piece it
  requested last is the first one.
\<close>

theorem reader_takes_back_requests:
  assumes "readable sha1 hashes D off len t"
    and "permitted_ops (reader_permitted sha1 hashes) reader_step (fresh_reader off len t) ops"
  shows "\<exists>s. run_ops reader_step (fresh_reader off len t) ops = Some s \<and>
    (\<forall>c. balance (rw_events (rc_world s)) c = int (count_list (rr_requested (rc_reader s)) c)) \<and>
    (\<forall>env. (\<forall>k. rn_alive env k) \<and> rr_torrent (rc_reader s) \<and> rr_requestedIndex (rc_reader s) \<noteq> 0 \<longrightarrow>
      (\<exists>r w. Reader_Close env (rc_reader s) (rc_world s) = Some (r, w) \<and> (\<forall>c. balance (rw_events w) c = 0)))"
proof -
  obtain s where s: "run_ops reader_step (fresh_reader off len t) ops = Some s" "reader_inv sha1 hashes D (off, len) s"
    using reader_run [OF assms] .
  have "\<exists>r w. Reader_Close env (rc_reader s) (rc_world s) = Some (r, w) \<and> (\<forall>c. balance (rw_events w) c = 0)"
    if "\<forall>k. rn_alive env k" "rr_torrent (rc_reader s)" "rr_requestedIndex (rc_reader s) \<noteq> 0" for env
    using Reader_release_settled [of "rc_reader s" "rc_world s" env] s(2) that
    by (auto simp: reader_inv_def Reader_Close_def settled_up_def)
  then show ?thesis using s by (auto simp: reader_inv_def settled_up_def)
qed

text \<open>
  C38. A reader in the first piece never takes back its requests: \<^verbatim>\<open>request(-1, -1)\<close> computes the
  piece of position -1 as 0, because the division truncates, and so believes that the piece is requested already. After the
  reader is closed, what it requested remains requested.
\<close>

theorem reader_leaks_in_first_piece:
  assumes "readable sha1 hashes D off len t"
    and "permitted_ops (reader_permitted sha1 hashes) reader_step (fresh_reader off len t) ops"
  shows "\<exists>s. run_ops reader_step (fresh_reader off len t) ops = Some s \<and>
    (\<forall>env. (\<forall>k. rn_alive env k) \<and> rr_torrent (rc_reader s) \<and> rr_requestedIndex (rc_reader s) = 0 \<longrightarrow>
      Reader_Close env (rc_reader s) (rc_world s) = Some ((rc_reader s)\<lparr>rr_torrent := False\<rparr>, rc_world s))"
proof -
  obtain s where s: "run_ops reader_step (fresh_reader off len t) ops = Some s" "reader_inv sha1 hashes D (off, len) s"
    using reader_run [OF assms] .
  have "Reader_Close env (rc_reader s) (rc_world s) = Some ((rc_reader s)\<lparr>rr_torrent := False\<rparr>, rc_world s)"
    if "\<forall>k. rn_alive env k" "rr_torrent (rc_reader s)" "rr_requestedIndex (rc_reader s) = 0" for env
    using Reader_release_settled [of "rc_reader s" "rc_world s" env] s(2) that
    by (auto simp: reader_inv_def Reader_Close_def settled_up_def)
  then show ?thesis using s by auto
qed

subsection \<open>Examples\<close>

text \<open>A torrent of one piece, and of two, that are read while they are being fetched.\<close>

definition ex_rtor :: "pieces \<Rightarrow> hash list \<Rightarrow> torrent" where
  "ex_rtor ps hs = (Torrent_New (replicate 20 5) \<lparr>co_DhtMode = 0, co_UseTrackers = True, co_UseWebseeds = True\<rparr>
     [] (replicate 20 3) ''a'' [] 0 [] [])\<lparr>t_infoComplete := True, t_Pieces := ps, t_PieceHashes := hs\<rparr>"

definition ex_renv :: "pieces \<Rightarrow> renv" where
  "ex_renv ps = \<lparr>rn_now = 7, rn_alive = (\<lambda>_. True), rn_ch = (\<lambda>_. Some 0), rn_prefetch = (\<lambda>_ _. 1), rn_soon = (\<lambda>_. False),
     rn_ctxErr = False, rn_wait = W_done, rn_contents = ps\<rparr>"

definition ex_reads :: "reader_op list" where
  "ex_reads = [R_Read (ex_renv (cf_pieces (ex_after ex_complete))) 2, R_Read (ex_renv (cf_pieces (ex_after ex_complete))) 10]"

definition ex_two_pieces :: pieces where
  "ex_two_pieces = the (Pieces_MetadataComplete empty_pieces 16384 16389)"

definition ex_two_reads :: "reader_op list" where
  "ex_two_reads = [R_Read (ex_renv ex_two_pieces) 2]"

text \<open>The part of \<open>reader_permitted\<close> that can be evaluated.\<close>

definition sizes_agree :: "rconf \<Rightarrow> reader_op \<Rightarrow> bool" where
  "sizes_agree s a =
     (case a of
        R_Read env n \<Rightarrow> ps_pieceSize (rn_contents env) = ps_pieceSize (t_Pieces (rw_tor (rc_world s))) \<and>
          ps_length (rn_contents env) = ps_length (t_Pieces (rw_tor (rc_world s)))
      | _ \<Rightarrow> False)"

lemma ex_permitted:
  assumes "permitted_ops sizes_agree reader_step s ops" and "pieces_inv sha1 hs ps"
    and "\<forall>a \<in> set ops. \<exists>n. a = R_Read (ex_renv ps) n"
  shows "permitted_ops (reader_permitted sha1 hs) reader_step s ops"
  using assms(1)
proof (rule permitted_ops_mono)
  show "reader_permitted sha1 hs s a" if "a \<in> set ops" "sizes_agree s a" for s a
    using that assms(2,3) by (auto simp: sizes_agree_def reader_permitted_def reading_ok_def ex_renv_def)
qed

lemma ex_contents: "pieces_inv ex_sha1 ex_hashes (cf_pieces (ex_after ex_complete))"
  by code_simp

lemma ex_readable: "readable ex_sha1 ex_hashes [1, 2, 3, 4, 5] 1 4 (ex_rtor (cf_pieces ex_conf) ex_hashes)"
proof -
  have "world_ok \<lparr>rw_tor = ex_rtor (cf_pieces ex_conf) ex_hashes, rw_events = []\<rparr>" "ps_length (cf_pieces ex_conf) = 5"
    "piece_len (cf_pieces ex_conf) 0 = 5" "length ex_hashes = 1" by code_simp+
  moreover have "d = [1, 2, 3, 4, 5]" if "length d = 5" "ex_sha1 d = ex_hashes ! 0" for d
  proof -
    have "take 5 (ex_sha1 d) = d" using that(1) by (simp add: ex_sha1_def)
    moreover have "take 5 (ex_hashes ! 0) = [1, 2, 3, 4, 5]" by code_simp
    ultimately show ?thesis using that(2) by simp
  qed
  ultimately show ?thesis by (simp add: readable_def determined_def ex_rtor_def)
qed

lemma ex_reads_permitted:
  "permitted_ops (reader_permitted ex_sha1 ex_hashes) reader_step (fresh_reader 1 4 (ex_rtor (cf_pieces ex_conf) ex_hashes)) ex_reads"
proof (rule ex_permitted [OF _ ex_contents])
  show "permitted_ops sizes_agree reader_step (fresh_reader 1 4 (ex_rtor (cf_pieces ex_conf) ex_hashes)) ex_reads" by code_simp
qed (simp add: ex_reads_def)

theorem reader_delivers_contents_witness:
  "\<exists>s. run_ops reader_step (fresh_reader 1 4 (ex_rtor (cf_pieces ex_conf) ex_hashes)) ex_reads = Some s \<and>
    rc_out s = [2, 3, 4, 5] \<and> follows [1, 2, 3, 4, 5] 1 (rc_out s)"
proof -
  have "map_option (\<lambda>s. (rc_start s, rc_out s)) (run_ops reader_step (fresh_reader 1 4 (ex_rtor (cf_pieces ex_conf) ex_hashes)) ex_reads)
    = Some (0, [2, 3, 4, 5])" by code_simp
  then show ?thesis using reader_delivers_contents [OF ex_readable ex_reads_permitted] by auto
qed

theorem reader_leaks_in_first_piece_witness:
  "\<exists>s w. run_ops reader_step (fresh_reader 1 4 (ex_rtor (cf_pieces ex_conf) ex_hashes)) ex_reads = Some s \<and>
    Reader_Close (ex_renv (cf_pieces ex_conf)) (rc_reader s) (rc_world s) = Some ((rc_reader s)\<lparr>rr_torrent := False\<rparr>, w) \<and>
    balance (rw_events w) (0, 1) = 1"
proof -
  have "map_option (\<lambda>s. (rr_torrent (rc_reader s), rr_requestedIndex (rc_reader s), balance (rw_events (rc_world s)) (0, 1)))
    (run_ops reader_step (fresh_reader 1 4 (ex_rtor (cf_pieces ex_conf) ex_hashes)) ex_reads) = Some (True, 0, 1)" by code_simp
  moreover have "\<forall>k. rn_alive (ex_renv (cf_pieces ex_conf)) k" by (simp add: ex_renv_def)
  ultimately show ?thesis using reader_leaks_in_first_piece [OF ex_readable ex_reads_permitted] by auto
qed

lemma ex_two_readable:
  "readable (\<lambda>d. d) [replicate 16384 0, [1, 2, 3, 4, 5]] (replicate 16384 0 @ [1, 2, 3, 4, 5]) 16384 5 (ex_rtor ex_two_pieces [[], []])"
proof -
  have "world_ok \<lparr>rw_tor = ex_rtor ex_two_pieces [[], []], rw_events = []\<rparr>" "ps_length ex_two_pieces = 16389"
    "piece_len ex_two_pieces 0 = 16384" "piece_len ex_two_pieces 1 = 5" "unat (ps_pieceSize ex_two_pieces) = 16384" by code_simp+
  then show ?thesis by (auto simp: readable_def determined_def ex_rtor_def less_Suc_eq)
qed

lemma ex_two_permitted:
  "permitted_ops (reader_permitted (\<lambda>d. d) [replicate 16384 0, [1, 2, 3, 4, 5]]) reader_step
    (fresh_reader 16384 5 (ex_rtor ex_two_pieces [[], []])) ex_two_reads"
proof (rule ex_permitted)
  show "permitted_ops sizes_agree reader_step (fresh_reader 16384 5 (ex_rtor ex_two_pieces [[], []])) ex_two_reads" by code_simp
  have "geometry ex_two_pieces" "ps_pieces ex_two_pieces = [empty_piece, empty_piece]" "bitmap_Empty []" by code_simp+
  then show "pieces_inv (\<lambda>d. d) [replicate 16384 0, [1, 2, 3, 4, 5]] ex_two_pieces"
    by (simp add: pieces_inv_def piece_ok_def empty_piece_def)
qed (simp add: ex_two_reads_def)

theorem reader_takes_back_requests_witness:
  "\<exists>s r w. run_ops reader_step (fresh_reader 16384 5 (ex_rtor ex_two_pieces [[], []])) ex_two_reads = Some s \<and>
    balance (rw_events (rc_world s)) (1, 1) = 1 \<and>
    Reader_Close (ex_renv ex_two_pieces) (rc_reader s) (rc_world s) = Some (r, w) \<and> balance (rw_events w) (1, 1) = 0"
proof -
  have "map_option (\<lambda>s. (rr_torrent (rc_reader s), rr_requestedIndex (rc_reader s), balance (rw_events (rc_world s)) (1, 1)))
    (run_ops reader_step (fresh_reader 16384 5 (ex_rtor ex_two_pieces [[], []])) ex_two_reads) = Some (True, 1, 1)" by code_simp
  moreover have "\<forall>k. rn_alive (ex_renv ex_two_pieces) k" by (simp add: ex_renv_def)
  ultimately show ?thesis using reader_takes_back_requests [OF ex_two_readable ex_two_permitted] by fastforce
qed

end
