(* ===== verification/Conn.thy ===== *)
theory Conn
  imports Piece
begin

section \<open>Reading from connections (net.Conn, io.ReadAtLeast)\<close>

text \<open>
  The input of a connection is the list of the segments that are yet to arrive. A read waits for
  the next segment and returns as much of it as fits the buffer; where the segments begin and
  end is up to the network. At the end of the list a read fails. What has been written is recorded.
\<close>

record conn =
  cn_in :: "byte list list"
  cn_out :: "byte list"

datatype io_error = IoReadEOF | IoUnexpectedEOF | IoShortBuffer | IoShortWrite | IoBroken

text \<open>A read into a buffer of \<open>k\<close> bytes. An empty buffer is not filled.\<close>

fun conn_Read :: "nat \<Rightarrow> byte list list \<Rightarrow> (byte list \<times> io_error option) \<times> byte list list" where
  "conn_Read k [] = (([], Some IoReadEOF), [])"
| "conn_Read k (s # ss) =
     (if length s \<le> k then ((s, None), ss) else ((take k s, None), drop k s # ss))"

text \<open>\<^verbatim>\<open>io.ReadAtLeast\<close> into a buffer of \<open>m\<close> bytes: reads until \<open>acc\<close> has \<open>n\<close> bytes.\<close>

fun read_segments :: "nat \<Rightarrow> nat \<Rightarrow> byte list \<Rightarrow> byte list list \<Rightarrow> byte list \<times> byte list list" where
  "read_segments m n acc [] = (acc, [])"
| "read_segments m n acc (s # ss) =
     (if length acc \<ge> n then (acc, s # ss)
      else let k = m - length acc
           in if length s \<le> k then read_segments m n (acc @ s) ss
              else (acc @ take k s, drop k s # ss))"

definition ReadAtLeast :: "nat \<Rightarrow> nat \<Rightarrow> byte list list \<Rightarrow> (byte list \<times> io_error option) \<times> byte list list" where
  "ReadAtLeast m n ss =
     (if m < n then (([], Some IoShortBuffer), ss)
      else let (acc, ss') = read_segments m n [] ss
           in ((acc, if length acc \<ge> n then None else if acc = [] then Some IoReadEOF else Some IoUnexpectedEOF), ss'))"

definition conn_Write :: "byte list \<Rightarrow> conn \<Rightarrow> conn" where
  "conn_Write v c = c\<lparr>cn_out := cn_out c @ v\<rparr>"

text \<open>Reading neither loses nor invents bytes, and returns at least what was asked for when there is no error.\<close>

lemma read_segments_concat:
  "read_segments m n acc ss = (acc', ss') \<Longrightarrow> acc' @ concat ss' = acc @ concat ss"
  by (induction m n acc ss rule: read_segments.induct) (auto simp: Let_def split: if_splits)

lemma read_segments_bounds:
  assumes "read_segments m n acc ss = (acc', ss')" and "length acc \<le> m" and "n \<le> m"
  shows "length acc' \<le> m" and "length acc' \<ge> n \<or> ss' = []"
  using assms by (induction m n acc ss rule: read_segments.induct) (auto simp: Let_def split: if_splits)

lemma ReadAtLeast_correct:
  assumes "ReadAtLeast m n ss = ((buf, e), ss')"
  shows "buf @ concat ss' = concat ss" and "length buf \<le> m" and "e = None \<longleftrightarrow> n \<le> m \<and> n \<le> length buf"
    and "n \<le> m \<Longrightarrow> n \<le> length (concat ss) \<Longrightarrow> e = None"
proof -
  obtain acc rest where r: "read_segments m n [] ss = (acc, rest)" by (cases "read_segments m n [] ss")
  have c: "acc @ concat rest = concat ss" using read_segments_concat [OF r] by simp
  show "buf @ concat ss' = concat ss" "e = None \<longleftrightarrow> n \<le> m \<and> n \<le> length buf"
    using assms r c by (auto simp: ReadAtLeast_def split: if_splits)
  show "length buf \<le> m"
    using assms r read_segments_bounds(1) [OF r] by (auto simp: ReadAtLeast_def not_less split: if_splits)
  show "e = None" if "n \<le> m" "n \<le> length (concat ss)"
    using assms r c that read_segments_bounds(2) [OF r] by (auto simp: ReadAtLeast_def split: if_splits)
qed

lemma conn_Read_concat: "conn_Read k ss = ((buf, e), ss') \<Longrightarrow> buf @ concat ss' = concat ss"
  by (cases ss) (auto split: if_splits)

lemma conn_Read_shrinks:
  assumes "conn_Read k ss = ((buf, e), ss')"
  shows "length (concat ss) = length buf + length (concat ss')"
  using arg_cong [OF conn_Read_concat [OF assms], of length] by simp

end
