(* ===== verification/Tor_Writer.thy ===== *)
theory Tor_Writer
  imports Tor_Events Conn
begin

section \<open>Writing to a torrent (tor/writer.go)\<close>

text \<open>
  A \<^verbatim>\<open>writer\<close> stores what a web seed sends into one piece. Data that does not fill a chunk is
  buffered. It shares the contents with other goroutines, and sends events to the torrent: both are in \<open>wworld\<close>. Whether the torrent
  is still there to receive events is an argument. The count of bytes
  for the download rate is left out.
\<close>

record writer =
  wr_t :: bool
  wr_index :: u32
  wr_offset :: u32
  wr_count :: u32
  wr_buf :: "byte list"

record wworld =
  ww_pieces :: pieces
  ww_events :: "tor_event list"

datatype writer_error = ErrClosedWriter | ErrShortWrite | ErrStore piece_error | ErrSource io_error

definition NewWriter :: "u32 \<Rightarrow> u32 \<Rightarrow> u32 \<Rightarrow> writer" where
  "NewWriter index offset len = \<lparr>wr_t = True, wr_index = index, wr_offset = offset, wr_count = len, wr_buf = []\<rparr>"

definition writeEvent :: "bool \<Rightarrow> tor_event \<Rightarrow> wworld \<Rightarrow> wworld" where
  "writeEvent alive e w = (if alive then w\<lparr>ww_events := ww_events w @ [e]\<rparr> else w)"

definition writer_write ::
  "sysenv \<Rightarrow> bool \<Rightarrow> byte list \<Rightarrow> writer \<Rightarrow> wworld \<Rightarrow> ((nat \<times> writer_error option) \<times> writer \<times> wworld) option" where
  "writer_write env alive data wr w = do {
     (ps, cnt, complete, e) \<leftarrow> AddData env (ww_pieces w) (wr_index wr) (wr_offset wr) data (- 1);
     let w1 = w\<lparr>ww_pieces := ps\<rparr>;
     let err = map_option ErrStore e;
     Some (if cnt > 0
           then ((unat cnt, err), wr\<lparr>wr_count := wr_count wr - cnt, wr_offset := wr_offset wr + cnt\<rparr>,
                 writeEvent alive (TorData (wr_index wr) (wr_offset wr) cnt complete) w1)
           else ((unat cnt, err), wr, w1))
   }"

definition writer_Write ::
  "sysenv \<Rightarrow> bool \<Rightarrow> byte list \<Rightarrow> writer \<Rightarrow> wworld \<Rightarrow> ((nat \<times> writer_error option) \<times> writer \<times> wworld) option" where
  "writer_Write env alive p wr w =
     (let mx = uint (wr_count wr) - int (length (wr_buf wr)) in
      if \<not> wr_t wr then Some ((0, Some ErrClosedWriter), wr, w)
      else if mx < 0 then Some ((0, Some ErrShortWrite), wr, w)
      else do {
        let q = take (nat mx) p;
        let data = wr_buf wr @ q;
        ((n, e), wr1, w1) \<leftarrow> writer_write env alive data wr w;
        Some ((length q, if e = None \<and> length q < length p then Some ErrShortWrite else e),
              wr1\<lparr>wr_buf := drop n data\<rparr>, w1)
      })"

text \<open>
  The loop of \<^verbatim>\<open>ReadFrom\<close>, on the segments that the source returns. The buffer never grows beyond
  32768 bytes and the bytes that are still expected; a slice expression with a lower bound
  above its upper one panics. It ends because every turn consumes some of the source.
\<close>

function (sequential) readfrom_loop ::
  "sysenv \<Rightarrow> bool \<Rightarrow> byte list list \<Rightarrow> int \<Rightarrow> writer \<Rightarrow> wworld \<Rightarrow> ((int \<times> writer_error option) \<times> writer \<times> wworld) option" where
  "readfrom_loop env alive ss cnt wr w =
     (let mx = (if wr_count wr < 32768 then unat (wr_count wr) else 32768) in
      if mx < length (wr_buf wr) then None
      else case (if mx = length (wr_buf wr) then (([], None), ss) else conn_Read (mx - length (wr_buf wr)) ss) of
        ((d, er), ss1) \<Rightarrow>
          if d = [] then Some ((cnt, map_option ErrSource er), wr, w)
          else case writer_write env alive (wr_buf wr @ d) (wr\<lparr>wr_buf := wr_buf wr @ d\<rparr>) w of
            None \<Rightarrow> None
          | Some ((m, ew), wr2, w1) \<Rightarrow>
              if ew \<noteq> None then Some ((cnt + int (length d), ew), wr2\<lparr>wr_buf := drop m (wr_buf wr @ d)\<rparr>, w1)
              else readfrom_loop env alive ss1 (cnt + int (length d)) (wr2\<lparr>wr_buf := drop m (wr_buf wr @ d)\<rparr>) w1)"
  by pat_completeness auto
termination
proof (relation "measure (\<lambda>(env, alive, ss, cnt, wr, w). length (concat ss))", simp, goal_cases)
  case 1
  then show ?case by (auto split: if_splits dest!: sym [THEN conn_Read_shrinks])
qed

definition writer_ReadFrom ::
  "sysenv \<Rightarrow> bool \<Rightarrow> byte list list \<Rightarrow> writer \<Rightarrow> wworld \<Rightarrow> ((int \<times> writer_error option) \<times> writer \<times> wworld) option" where
  "writer_ReadFrom env alive ss wr w =
     (if \<not> wr_t wr then Some ((0, Some ErrClosedWriter), wr, w)
      else if wr_count wr < of_nat (length (wr_buf wr)) then Some ((0, Some (ErrSource IoReadEOF)), wr, w)
      else readfrom_loop env alive ss 0 wr w)"

definition writer_Close :: "bool \<Rightarrow> writer \<Rightarrow> wworld \<Rightarrow> writer_error option \<times> writer \<times> wworld" where
  "writer_Close alive wr w =
     (if \<not> wr_t wr then (Some ErrClosedWriter, wr, w)
      else if wr_count wr > 0
      then (None, wr\<lparr>wr_t := False, wr_count := 0\<rparr>,
            writeEvent alive (TorDrop (wr_index wr) (wr_offset wr) (wr_count wr)) w)
      else (None, wr\<lparr>wr_t := False\<rparr>, w))"

end
