(* ===== verification/Writer_Props.thy ===== *)
theory Writer_Props
  imports Tor_Writer Piece_Props
begin

section \<open>Properties of writers\<close>

text \<open>
  A writer as a machine: writes, copies from a source and a close, interleaved with changes of
  the contents by other goroutines. It accounts for every byte it was created for exactly once.
\<close>

declare readfrom_loop.simps [simp del]

text \<open>The events account for the bytes of piece \<open>i\<close> from \<open>a\<close> to \<open>b\<close>, in order, each once.\<close>

fun accounts :: "u32 \<Rightarrow> nat \<Rightarrow> tor_event list \<Rightarrow> nat \<Rightarrow> bool" where
  "accounts i a [] b = (a = b)"
| "accounts i a (TorData j off n complete # es) b = (j = i \<and> unat off = a \<and> n > 0 \<and> accounts i (a + unat n) es b)"
| "accounts i a (TorDrop j off n # es) b = (j = i \<and> unat off = a \<and> n > 0 \<and> accounts i (a + unat n) es b)"
| "accounts i a (_ # es) b = False"

lemma accounts_append: "accounts i a es b \<Longrightarrow> accounts i b fs c \<Longrightarrow> accounts i a (es @ fs) c"
  by (induction i a es b rule: accounts.induct) auto

definition store_ok :: "(byte list \<Rightarrow> hash) \<Rightarrow> hash list \<Rightarrow> u32 \<Rightarrow> pieces \<Rightarrow> bool" where
  "store_ok sha1 hashes i ps \<longleftrightarrow> pieces_inv sha1 hashes ps \<and> counts_inv ps \<and> unat i < length (ps_pieces ps)"

text \<open>The invariant of a writer that was created for \<open>len\<close> bytes at \<open>off\<close>.\<close>

definition writer_ok :: "u32 \<Rightarrow> u32 \<Rightarrow> u32 \<Rightarrow> writer \<Rightarrow> tor_event list \<Rightarrow> bool" where
  "writer_ok i off len wr es \<longleftrightarrow> wr_index wr = i \<and>
     (if wr_t wr
      then unat (wr_offset wr) + unat (wr_count wr) = unat off + unat len \<and> accounts i (unat off) es (unat (wr_offset wr)) \<and>
        length (wr_buf wr) \<le> unat (wr_count wr)
      else accounts i (unat off) es (unat off + unat len))"

lemma AddData_count:
  assumes "store_ok sha1 hashes i ps" and data: "length data < 2147483648"
  obtains ps' n c e where "AddData env ps i off data peer = Some (ps', n, c, e)" "store_ok sha1 hashes i ps'"
    "unat n \<le> length data" "e \<noteq> None \<Longrightarrow> n = 0"
proof -
  have inv: "pieces_inv sha1 hashes ps" "counts_inv ps" "unat i < length (ps_pieces ps)" using assms(1) by (simp_all add: store_ok_def)
  obtain ps' n c e where r: "AddData env ps i off data peer = Some (ps', n, c, e)" "pieces_inv sha1 hashes ps'" "counts_inv ps'"
    "length (ps_pieces ps') = length (ps_pieces ps)"
    using AddData_inv [OF inv data, of env off peer] by auto
  moreover have "unat n \<le> length data \<and> (e \<noteq> None \<longrightarrow> n = 0)"
  proof (cases "AddData_refuses env ps i off")
    case None
    let ?n = "taken (piece_len ps (unat i) - unat off) (length data)"
    have "n = of_nat ?n" "e = None" using AddData_accepts [OF inv(1,3) None data, of peer] r(1) by auto
    moreover have "?n \<le> length data" by (rule taken_le)
    moreover have "unat (of_nat ?n :: u32) = ?n"
      using le_less_trans [OF taken_le(1) data, of "piece_len ps (unat i) - unat off"] by (intro unat_of_nat_u32) linarith
    ultimately show ?thesis by simp
  next
    case (Some x)
    then show ?thesis using AddData_refused [OF pieces_invD(1) [OF inv(1)] inv(3) Some] r(1) by simp
  qed
  ultimately show thesis using that inv(3) by (auto simp: store_ok_def)
qed

text \<open>Writing at most what is expected: the events move on with the offset.\<close>

lemma writer_write_ok:
  assumes s: "store_ok sha1 hashes i (ww_pieces w)" and wr: "wr_t wr" "wr_index wr = i"
    and sum: "unat (wr_offset wr) + unat (wr_count wr) = unat off + unat len" "unat off + unat len < 2147483648"
    and acc: "accounts i (unat off) (ww_events w) (unat (wr_offset wr))" and data: "length data \<le> unat (wr_count wr)"
  shows "\<exists>n e wr' w'. writer_write env True data wr w = Some ((n, e), wr', w') \<and> store_ok sha1 hashes i (ww_pieces w') \<and>
    n \<le> length data \<and> wr_t wr' \<and> writer_ok i off len (wr'\<lparr>wr_buf := drop n data\<rparr>) (ww_events w')"
proof -
  have "length data < 2147483648" using data sum by linarith
  then obtain ps n c e where r: "AddData env (ww_pieces w) i (wr_offset wr) data (- 1) = Some (ps, n, c, e)" "store_ok sha1 hashes i ps"
    "unat n \<le> length data" using AddData_count [OF s] by metis
  have n: "unat n \<le> unat (wr_count wr)" using r(3) data by simp
  have o: "unat (wr_offset wr + n) = unat (wr_offset wr) + unat n" using n sum by (intro unat_add_u32) linarith
  have c: "unat (wr_count wr - n) = unat (wr_count wr) - unat n" using n by (rule unat_sub_u32)
  define wr' where "wr' = wr\<lparr>wr_count := wr_count wr - n, wr_offset := wr_offset wr + n\<rparr>"
  define w' where "w' = (if n > 0 then writeEvent True (TorData i (wr_offset wr) n c) (w\<lparr>ww_pieces := ps\<rparr>) else w\<lparr>ww_pieces := ps\<rparr>)"
  have "writer_write env True data wr w = Some ((unat n, map_option ErrStore e), wr', w')"
    using r(1) wr by (cases "n = 0") (auto simp: writer_write_def Let_def wr'_def w'_def word_neq_0_conv)
  moreover have "accounts i (unat off) (ww_events w') (unat (wr_offset wr'))"
    using acc o accounts_append [OF acc, of "[TorData i (wr_offset wr) n c]"]
    by (cases "n = 0") (auto simp: w'_def wr'_def writeEvent_def word_neq_0_conv)
  then have "writer_ok i off len (wr'\<lparr>wr_buf := drop (unat n) data\<rparr>) (ww_events w')"
    using wr sum n o c data by (simp add: writer_ok_def wr'_def)
  moreover have "store_ok sha1 hashes i (ww_pieces w')" using r(2) by (simp add: w'_def writeEvent_def)
  moreover have "wr_t wr'" using wr by (simp add: wr'_def)
  ultimately show ?thesis using r(3) by blast
qed

lemma readfrom_loop_ok:
  assumes "store_ok sha1 hashes i (ww_pieces w)" and "wr_t wr" and "writer_ok i off len wr (ww_events w)"
    and "length (wr_buf wr) \<le> 32768" and "unat off + unat len < 2147483648"
  shows "\<exists>x wr' w'. readfrom_loop env True ss cnt wr w = Some (x, wr', w') \<and> store_ok sha1 hashes i (ww_pieces w') \<and>
    wr_t wr' \<and> writer_ok i off len wr' (ww_events w')"
  using assms
proof (induction env "True" ss cnt wr w rule: readfrom_loop.induct)
  case (1 env ss cnt wr w)
  let ?mx = "if wr_count wr < 32768 then unat (wr_count wr) else 32768"
  have W: "wr_index wr = i" "unat (wr_offset wr) + unat (wr_count wr) = unat off + unat len"
    "accounts i (unat off) (ww_events w) (unat (wr_offset wr))" "length (wr_buf wr) \<le> unat (wr_count wr)"
    using 1(3,4) by (simp_all add: writer_ok_def)
  have mx: "length (wr_buf wr) \<le> ?mx" "?mx \<le> unat (wr_count wr)" "?mx \<le> 32768"
    using W(4) 1(5) by (auto simp: unat_less_iff_u32)
  obtain d er ss1 where rd: "(if ?mx = length (wr_buf wr) then (([], None), ss) else conn_Read (?mx - length (wr_buf wr)) ss) = ((d, er), ss1)"
    by (metis surj_pair)
  show ?case
  proof (cases "d = []")
    case True
    then show ?thesis using rd mx 1(2,3,4) by (subst readfrom_loop.simps) (auto simp: Let_def)
  next
    case False
    let ?data = "wr_buf wr @ d"
    have "length d \<le> ?mx - length (wr_buf wr)" using rd False by (cases ss) (auto split: if_splits)
    then have len: "length ?data \<le> ?mx" using mx(1) by simp
    then obtain n e wr' w' where r: "writer_write env True ?data (wr\<lparr>wr_buf := ?data\<rparr>) w = Some ((n, e), wr', w')"
      "store_ok sha1 hashes i (ww_pieces w')" "n \<le> length ?data" "writer_ok i off len (wr'\<lparr>wr_buf := drop n ?data\<rparr>) (ww_events w')"
      and t: "wr_t wr'"
      using writer_write_ok [OF 1(2), of "wr\<lparr>wr_buf := ?data\<rparr>" off len ?data env] W 1(3,6) order_trans [OF len mx(2)]
      by (auto simp del: length_append drop_append)
    show ?thesis
    proof (cases "e = None")
      case True
      have "\<exists>x wr3 w3. readfrom_loop env True ss1 (cnt + int (length d)) (wr'\<lparr>wr_buf := drop n ?data\<rparr>) w' = Some (x, wr3, w3) \<and>
          store_ok sha1 hashes i (ww_pieces w3) \<and> wr_t wr3 \<and> writer_ok i off len wr3 (ww_events w3)"
        using mx(1,3) len t r
        by (intro 1(1) [OF refl _ rd [symmetric] refl False _ refl refl refl] ) (auto simp: True not_less 1(6))
      then show ?thesis using rd mx(1) False r(1) True by (subst readfrom_loop.simps) (simp add: Let_def not_less)
    next
      case False
      then show ?thesis using rd mx(1) \<open>d \<noteq> []\<close> r t by (subst readfrom_loop.simps) (auto simp: Let_def not_less)
    qed
  qed
qed

subsection \<open>Runs of a writer\<close>

datatype writer_op = W_Write sysenv "byte list" | W_ReadFrom sysenv "byte list list" | W_Close | W_other pieces

definition writer_step :: "writer \<times> wworld \<Rightarrow> writer_op \<Rightarrow> (writer \<times> wworld) option" where
  "writer_step s a =
     (case a of
        W_Write env p \<Rightarrow> map_option snd (writer_Write env True p (fst s) (snd s))
      | W_ReadFrom env ss \<Rightarrow> map_option snd (writer_ReadFrom env True ss (fst s) (snd s))
      | W_Close \<Rightarrow> Some (snd (writer_Close True (fst s) (snd s)))
      | W_other ps \<Rightarrow> Some (fst s, (snd s)\<lparr>ww_pieces := ps\<rparr>))"

text \<open>
  \<^verbatim>\<open>ReadFrom\<close> panics when more than 32768 bytes are buffered; the callers either write or copy from a source.
\<close>

definition writer_permitted :: "(byte list \<Rightarrow> hash) \<Rightarrow> hash list \<Rightarrow> writer \<times> wworld \<Rightarrow> writer_op \<Rightarrow> bool" where
  "writer_permitted sha1 hashes s a =
     (case a of
        W_ReadFrom env ss \<Rightarrow> length (wr_buf (fst s)) \<le> 32768
      | W_other ps \<Rightarrow> store_ok sha1 hashes (wr_index (fst s)) ps
      | _ \<Rightarrow> True)"

definition writer_inv :: "(byte list \<Rightarrow> hash) \<Rightarrow> hash list \<Rightarrow> u32 \<times> u32 \<times> u32 \<Rightarrow> writer \<times> wworld \<Rightarrow> bool" where
  "writer_inv sha1 hashes job s =
     (case job of (i, off, len) \<Rightarrow> unat off + unat len < 2147483648 \<and> store_ok sha1 hashes i (ww_pieces (snd s)) \<and>
        writer_ok i off len (fst s) (ww_events (snd s)))"

lemma writer_Write_ok:
  assumes inv: "writer_inv sha1 hashes (i, off, len) (wr, w)"
  shows "\<exists>x wr' w'. writer_Write env True p wr w = Some (x, wr', w') \<and> writer_inv sha1 hashes (i, off, len) (wr', w')"
proof (cases "wr_t wr")
  case True
  let ?mx = "uint (wr_count wr) - int (length (wr_buf wr))"
  let ?data = "wr_buf wr @ take (nat ?mx) p"
  have W: "wr_index wr = i" "unat (wr_offset wr) + unat (wr_count wr) = unat off + unat len" "unat off + unat len < 2147483648"
    "accounts i (unat off) (ww_events w) (unat (wr_offset wr))" "length (wr_buf wr) \<le> unat (wr_count wr)"
    "store_ok sha1 hashes i (ww_pieces w)"
    using inv True by (simp_all add: writer_inv_def writer_ok_def)
  have mx: "?mx = int (unat (wr_count wr) - length (wr_buf wr))" using W(5) by (simp add: of_nat_diff)
  then have "nat ?mx = unat (wr_count wr) - length (wr_buf wr)" by (simp only: nat_int)
  then have "length ?data \<le> unat (wr_count wr)" using W(5) by simp
  then obtain n e wr' w' where "writer_write env True ?data wr w = Some ((n, e), wr', w')" "store_ok sha1 hashes i (ww_pieces w')"
    "writer_ok i off len (wr'\<lparr>wr_buf := drop n ?data\<rparr>) (ww_events w')"
    using writer_write_ok [OF W(6) True W(1-4), of ?data env] by blast
  moreover have "\<not> ?mx < 0" unfolding mx by simp
  ultimately show ?thesis using True W(3) by (simp add: writer_Write_def Let_def writer_inv_def)
qed (use inv in \<open>simp add: writer_Write_def\<close>)

lemma writer_Close_ok:
  assumes inv: "writer_inv sha1 hashes (i, off, len) (wr, w)"
  shows "writer_inv sha1 hashes (i, off, len) (snd (writer_Close True wr w))" and "\<not> wr_t (fst (snd (writer_Close True wr w)))"
proof -
  have "accounts i (unat off) (ww_events w @ [TorDrop i (wr_offset wr) (wr_count wr)]) (unat off + unat len)"
    if "wr_t wr" "wr_count wr > 0" using inv that by (intro accounts_append [of _ _ _ "unat (wr_offset wr)"]) (auto simp: writer_inv_def writer_ok_def)
  then show "writer_inv sha1 hashes (i, off, len) (snd (writer_Close True wr w))" "\<not> wr_t (fst (snd (writer_Close True wr w)))"
    using inv by (auto simp: writer_inv_def writer_ok_def writer_Close_def writeEvent_def word_neq_0_conv [symmetric])
qed

lemma writer_step_progress:
  assumes inv: "writer_inv sha1 hashes job s" and ok: "writer_permitted sha1 hashes s a"
  shows "\<exists>s'. writer_step s a = Some s' \<and> writer_inv sha1 hashes job s'"
proof -
  obtain i off len where job: "job = (i, off, len)" by (cases job)
  obtain wr w where s: "s = (wr, w)" by (cases s)
  note inv' = inv [unfolded job s]
  show ?thesis
  proof (cases a)
    case (W_Write env p)
    then show ?thesis using writer_Write_ok [OF inv', of env p] by (auto simp: writer_step_def job s)
  next
    case (W_ReadFrom env ss)
    have "\<exists>x wr' w'. writer_ReadFrom env True ss wr w = Some (x, wr', w') \<and> writer_inv sha1 hashes job (wr', w')"
    proof (cases "wr_t wr \<and> \<not> wr_count wr < of_nat (length (wr_buf wr))")
      case True
      then show ?thesis
        using readfrom_loop_ok [of sha1 hashes i w wr off len env ss 0] inv' ok W_ReadFrom
        by (auto simp: writer_ReadFrom_def writer_inv_def writer_permitted_def job s)
    qed (use inv' in \<open>auto simp: writer_ReadFrom_def job\<close>)
    then show ?thesis using W_ReadFrom by (auto simp: writer_step_def s)
  next
    case W_Close
    then show ?thesis using writer_Close_ok(1) [OF inv'] by (simp add: writer_step_def job s)
  next
    case (W_other ps)
    then show ?thesis using inv' ok by (auto simp: writer_step_def writer_permitted_def writer_inv_def writer_ok_def job s split: if_splits)
  qed
qed

interpretation wri: machine "writer_permitted sha1 hashes" writer_step "writer_inv sha1 hashes job" for sha1 hashes job
  by unfold_locales (rule writer_step_progress)



end
