(* ===== verification/Crypto.thy ===== *)
theory Crypto
  imports Conn Binary
begin

unbundle bit_operations_syntax

section \<open>The encryption handshake (crypto/crypto.go, crypto/conn.go)\<close>

text \<open>
  Both sides of the handshake that agrees on a torrent and on whether the connection is
  encrypted. The standard library's SHA-1 and RC4 are the record \<open>ciphers\<close>: RC4 is its key stream, the byte at each
  position for a key. A cipher is a key and a position in its stream. Random numbers
  and paddings are arguments. A handshake is a function of the segments that arrive and of the errors \<open>werr\<close> of its writes; its result is
  an error or the connection, together with everything that it has handed to the connection to be written.
\<close>

subsection \<open>Options\<close>

record options =
  AllowCryptoHandshake :: bool
  PreferCryptoHandshake :: bool
  ForceCryptoHandshake :: bool
  AllowEncryption :: bool
  PreferEncryption :: bool
  ForceEncryption :: bool

definition DefaultOptions :: "bool \<Rightarrow> bool \<Rightarrow> options" where
  "DefaultOptions prefer force =
     \<lparr>AllowCryptoHandshake = True, PreferCryptoHandshake = prefer \<or> force, ForceCryptoHandshake = force,
      AllowEncryption = True, PreferEncryption = prefer \<or> force, ForceEncryption = force\<rparr>"

subsection \<open>Numbers, hashes and ciphers\<close>

record ciphers =
  cr_sha1 :: "byte list \<Rightarrow> byte list"
  cr_rc4 :: "byte list \<Rightarrow> nat \<Rightarrow> byte"

definition prime768 :: nat where
  "prime768 = 0xFFFFFFFFFFFFFFFFC90FDAA22168C234C4C6628B80DC1CD129024E088A67CC74020BBEA63B139B22514A08798E3404DDEF9519B3CD3A431B302B0A6DF25F14374FE1356D6D51C245E485B576625E7EC6F44C42E9A63A36210000000000090563"

definition big_Exp :: "nat \<Rightarrow> nat \<Rightarrow> nat" where
  "big_Exp y x = y ^ x mod prime768"

definition trivial :: "nat \<Rightarrow> bool" where
  "trivial x = (x = 0 \<or> x = 1 \<or> x = prime768 - 1)"

definition vc :: "byte list" where "vc = replicate 8 0"

definition crypto_hash :: "ciphers \<Rightarrow> string \<Rightarrow> byte list list \<Rightarrow> byte list" where
  "crypto_hash cr tag vs = cr_sha1 cr (map of_char tag @ concat vs)"

definition len2 :: "byte list \<Rightarrow> byte list" where
  "len2 v = put_u16 (of_nat (length v))"

text \<open>\<^verbatim>\<open>xor\<close> panics when the lengths differ.\<close>

definition crypto_xor :: "byte list \<Rightarrow> byte list \<Rightarrow> byte list option" where
  "crypto_xor v w = (if length v \<noteq> length w then None else Some (map2 (XOR) v w))"

definition XORKeyStream :: "(nat \<Rightarrow> byte) \<Rightarrow> nat \<Rightarrow> byte list \<Rightarrow> byte list" where
  "XORKeyStream ks pos v = map2 (XOR) v (map ks [pos..<pos + length v])"

definition keyA :: "ciphers \<Rightarrow> byte list \<Rightarrow> byte list \<Rightarrow> nat \<Rightarrow> byte" where
  "keyA cr sb skey = cr_rc4 cr (crypto_hash cr ''keyA'' [sb, skey])"

definition keyB :: "ciphers \<Rightarrow> byte list \<Rightarrow> byte list \<Rightarrow> nat \<Rightarrow> byte" where
  "keyB cr sb skey = cr_rc4 cr (crypto_hash cr ''keyB'' [sb, skey])"

subsection \<open>Reading\<close>

datatype crypto_error =
    ErrForbidden | ErrHeaderLength | ErrTrivialKey | ErrNegotiate | ErrSynchronise | ErrCryptoTorrent | ErrBadVC
  | ErrProvide | ErrExtraData | ErrNotEncrypted | ErrEncrypted | ErrSelect | ErrIo io_error

text \<open>\<^verbatim>\<open>bytes.Index\<close>.\<close>

definition bytes_Index :: "byte list \<Rightarrow> byte list \<Rightarrow> nat option" where
  "bytes_Index w v = List.find (\<lambda>i. take (length v) (drop i w) = v) [0..<Suc (length w)]"

text \<open>The rest after the first occurrence of \<open>v\<close>, reading more while fewer than \<open>n\<close> bytes are there.\<close>

fun synchronise ::
  "byte list \<Rightarrow> byte list \<Rightarrow> nat \<Rightarrow> nat \<Rightarrow> byte list list \<Rightarrow> crypto_error + (byte list \<times> byte list list)" where
  "synchronise w v n m [] =
     (case bytes_Index w v of
        Some i \<Rightarrow> Inr (drop (i + length v) w, [])
      | None \<Rightarrow> if length w \<ge> n then Inl ErrSynchronise else Inl (ErrIo IoReadEOF))"
| "synchronise w v n m (s # ss) =
     (case bytes_Index w v of
        Some i \<Rightarrow> Inr (drop (i + length v) w, s # ss)
      | None \<Rightarrow>
          if length w \<ge> n then Inl ErrSynchronise
          else let k = max n m - length w
               in if length s \<le> k then synchronise (w @ s) v n m ss
                  else case bytes_Index (w @ take k s) v of
                         Some i \<Rightarrow> Inr (drop (i + length v) (w @ take k s), drop k s # ss)
                       | None \<Rightarrow> Inl ErrSynchronise)"

text \<open>
  \<^verbatim>\<open>readMore\<close> ignores how many bytes were read: its buffer has the length \<open>m\<close>, and the bytes that
  have not arrived are 0.
\<close>

definition crypto_readMore :: "byte list \<Rightarrow> nat \<Rightarrow> nat \<Rightarrow> byte list list \<Rightarrow> crypto_error + (byte list \<times> byte list list)" where
  "crypto_readMore buf n m ss =
     (if length buf \<ge> n then Inr (buf, ss)
      else let room = max n m - length buf
           in case ReadAtLeast room (n - length buf) ss of
                ((d, None), ss1) \<Rightarrow> Inr (buf @ d @ replicate (room - length d) 0, ss1)
              | ((d, Some e), ss1) \<Rightarrow> Inl (ErrIo e))"

text \<open>
  An established connection: whether it is encrypted, the key streams with their positions for writing and for reading, and the
  segments still to come, and the error of an earlier write.
\<close>

record secure =
  sc_encrypted :: bool
  sc_enc :: "nat \<Rightarrow> byte"
  sc_encpos :: nat
  sc_dec :: "nat \<Rightarrow> byte"
  sc_decpos :: nat
  sc_in :: "byte list list"
  sc_err :: "io_error option"

subsection \<open>The client\<close>

definition cryptoProvide :: "options \<Rightarrow> u32" where
  "cryptoProvide opt = (if \<not> ForceEncryption opt then 1 else 0) OR (if AllowEncryption opt then 2 else 0)"

definition client_request :: "ciphers \<Rightarrow> options \<Rightarrow> byte list \<Rightarrow> byte list \<Rightarrow> byte list \<Rightarrow> byte list option" where
  "client_request cr opt sb skey ia =
     map_option (\<lambda>x. crypto_hash cr ''req1'' [sb] @ x @
         XORKeyStream (keyA cr sb skey) 1024 (vc @ put_u32 (cryptoProvide opt) @ [0, 0] @ len2 ia @ ia))
       (crypto_xor (crypto_hash cr ''req2'' [skey]) (crypto_hash cr ''req3'' [sb]))"

text \<open>What is left of the buffer, decrypted, and the connection; \<open>d\<close> is the position of the decryption.\<close>

definition client_select ::
  "options \<Rightarrow> (nat \<Rightarrow> byte) \<Rightarrow> nat \<Rightarrow> (nat \<Rightarrow> byte) \<Rightarrow> nat \<Rightarrow> u32 \<Rightarrow> byte list \<Rightarrow> byte list list \<Rightarrow> crypto_error + (secure \<times> byte list)" where
  "client_select opt enc e dec d select buf ss =
     (let c = \<lparr>sc_encrypted = False, sc_enc = enc, sc_encpos = e, sc_dec = dec, sc_decpos = d, sc_in = ss, sc_err = None\<rparr> in
      if select = 1 then (if ForceEncryption opt then Inl ErrNotEncrypted else Inr (c, buf))
      else if select = 2
      then (if \<not> AllowEncryption opt then Inl ErrEncrypted
            else Inr (c\<lparr>sc_encrypted := True, sc_decpos := d + length buf\<rparr>, XORKeyStream dec d buf))
      else Inl ErrSelect)"

definition client_finish ::
  "ciphers \<Rightarrow> options \<Rightarrow> io_error option \<Rightarrow> byte list \<Rightarrow> byte list \<Rightarrow> nat \<Rightarrow> byte list \<Rightarrow> byte list list \<Rightarrow> crypto_error + (secure \<times> byte list)" where
  "client_finish cr opt werr sb skey e buf ss =
     (let dec = keyB cr sb skey in
      case synchronise buf (XORKeyStream dec 1024 vc) (8 + 512) (8 + 512 + 4 + 2) ss of
        Inl x \<Rightarrow> Inl x
      | Inr (buf1, ss1) \<Rightarrow>
          if werr \<noteq> None then Inl (ErrIo (the werr))
          else (case crypto_readMore buf1 6 0 ss1 of
             Inl x \<Rightarrow> Inl x
           | Inr (buf2, ss2) \<Rightarrow>
               let stuff = XORKeyStream dec 1032 (take 6 buf2);
                   pad = unat (get_u16 (drop 4 stuff))
               in case (if pad > 0 then crypto_readMore (drop 6 buf2) pad 0 ss2 else Inr (drop 6 buf2, ss2)) of
                    Inl x \<Rightarrow> Inl x
                  | Inr (buf3, ss3) \<Rightarrow>
                      client_select opt (keyA cr sb skey) e dec (1038 + pad) (get_u32 stuff) (drop pad buf3) ss3))"

text \<open>The result and everything written; \<open>None\<close> is the panic of \<^verbatim>\<open>xor\<close>.\<close>

definition crypto_ClientHandshake ::
  "ciphers \<Rightarrow> options \<Rightarrow> (nat \<Rightarrow> io_error option) \<Rightarrow> nat \<Rightarrow> byte list \<Rightarrow> byte list \<Rightarrow> byte list \<Rightarrow> byte list list
     \<Rightarrow> ((crypto_error + (secure \<times> byte list)) \<times> byte list) option" where
  "crypto_ClientHandshake cr opt werr xa pad skey ia ss =
     (let hello = be_encode 96 (big_Exp 2 xa) @ pad in
      if \<not> AllowCryptoHandshake opt then Some (Inl ErrForbidden, [])
      else case ReadAtLeast 608 96 ss of
        ((buf, Some x), ss1) \<Rightarrow> Some (Inl (ErrIo x), hello)
      | ((buf, None), ss1) \<Rightarrow>
          let yb = be_decode (take 96 buf) in
          if trivial yb then Some (Inl ErrTrivialKey, hello)
          else if werr 0 \<noteq> None then Some (Inl (ErrIo (the (werr 0))), hello)
          else let sb = be_encode 96 (big_Exp yb xa)
               in if cryptoProvide opt = 0 then Some (Inl ErrNegotiate, hello)
                  else map_option (\<lambda>msg. (client_finish cr opt (werr 1) sb skey (1040 + length ia) (drop 96 buf) ss1, hello @ msg))
                         (client_request cr opt sb skey ia))"

subsection \<open>The server\<close>

definition cryptoSelect :: "options \<Rightarrow> u32 \<Rightarrow> u32" where
  "cryptoSelect opt provide =
     (if provide AND 2 \<noteq> 0 \<and> AllowEncryption opt \<and> PreferEncryption opt then 2
      else if provide AND 1 \<noteq> 0 \<and> \<not> ForceEncryption opt \<and> \<not> PreferEncryption opt then 1
      else if provide AND 2 \<noteq> 0 \<and> AllowEncryption opt then 2
      else if provide AND 1 \<noteq> 0 \<and> \<not> ForceEncryption opt then 1
      else 0)"

text \<open>After the torrent is known: the rest of the request. The results are the connection, the initial data and the answer.\<close>

definition server_finish ::
  "ciphers \<Rightarrow> options \<Rightarrow> io_error option \<Rightarrow> byte list \<Rightarrow> byte list \<Rightarrow> u32 \<Rightarrow> byte list \<Rightarrow> nat \<Rightarrow> byte list list
     \<Rightarrow> crypto_error + (secure \<times> byte list \<times> byte list)" where
  "server_finish cr opt werr sb skey provide buf d ss =
     (let dec = keyA cr sb skey; enc = keyB cr sb skey in
      case crypto_readMore buf 2 1024 ss of
        Inl x \<Rightarrow> Inl x
      | Inr (buf1, ss1) \<Rightarrow>
          let lenIa = unat (get_u16 (XORKeyStream dec d (take 2 buf1))) in
          (case crypto_readMore (drop 2 buf1) lenIa 0 ss1 of
             Inl x \<Rightarrow> Inl x
           | Inr (buf2, ss2) \<Rightarrow>
               let ia = XORKeyStream dec (d + 2) (take lenIa buf2); select = cryptoSelect opt provide
               in if drop lenIa buf2 \<noteq> [] then Inl ErrExtraData
                  else if select = 0 then Inl ErrNegotiate
                  else if werr \<noteq> None then Inl (ErrIo (the werr))
                  else Inr (\<lparr>sc_encrypted = (select = 2), sc_enc = enc, sc_encpos = 1038, sc_dec = dec,
                             sc_decpos = d + 2 + lenIa, sc_in = ss2, sc_err = None\<rparr>,
                            ia, XORKeyStream enc 1024 (vc @ put_u32 select @ [0, 0]))))"

definition server_stuff ::
  "ciphers \<Rightarrow> options \<Rightarrow> io_error option \<Rightarrow> byte list \<Rightarrow> byte list \<Rightarrow> byte list \<Rightarrow> byte list list
     \<Rightarrow> crypto_error + (secure \<times> byte list \<times> byte list)" where
  "server_stuff cr opt werr sb skey buf ss =
     (let dec = keyA cr sb skey in
      case crypto_readMore buf 14 (14 + 2 + 512) ss of
        Inl x \<Rightarrow> Inl x
      | Inr (buf1, ss1) \<Rightarrow>
          let stuff = XORKeyStream dec 1024 (take 14 buf1);
              provide = get_u32 (drop 8 stuff);
              pad = unat (get_u16 (drop 12 stuff))
          in if take 8 stuff \<noteq> vc then Inl ErrBadVC
             else if provide AND 3 = 0 then Inl ErrProvide
             else case (if pad > 0 then crypto_readMore (drop 14 buf1) pad (2 + 512) ss1 else Inr (drop 14 buf1, ss1)) of
                    Inl x \<Rightarrow> Inl x
                  | Inr (buf2, ss2) \<Rightarrow> server_finish cr opt werr sb skey provide (drop pad buf2) (1038 + pad) ss2)"

definition find_skey :: "ciphers \<Rightarrow> byte list list \<Rightarrow> byte list \<Rightarrow> byte list option" where
  "find_skey cr skeys req2 = List.find (\<lambda>sk. req2 = crypto_hash cr ''req2'' [sk]) skeys"

text \<open>The result also has the torrent that was agreed on. An answer whose write fails is not recorded.\<close>

definition crypto_ServerHandshake ::
  "ciphers \<Rightarrow> options \<Rightarrow> (nat \<Rightarrow> io_error option) \<Rightarrow> nat \<Rightarrow> byte list \<Rightarrow> byte list \<Rightarrow> byte list list \<Rightarrow> byte list list
     \<Rightarrow> ((crypto_error + (secure \<times> byte list \<times> byte list)) \<times> byte list) option" where
  "crypto_ServerHandshake cr opt werr xb pad head skeys ss =
     (if \<not> AllowCryptoHandshake opt then Some (Inl ErrForbidden, [])
      else if length head > 96 then Some (Inl ErrHeaderLength, [])
      else case (if length head < 96 then ReadAtLeast (608 - length head) (96 - length head) ss else (([], None), ss)) of
        ((d, Some x), ss1) \<Rightarrow> Some (Inl (ErrIo x), [])
      | ((d, None), ss1) \<Rightarrow>
          let buf = head @ d; ya = be_decode (take 96 buf) in
          if trivial ya then Some (Inl ErrTrivialKey, [])
          else let sb = be_encode 96 (big_Exp ya xb); hello = be_encode 96 (big_Exp 2 xb) @ pad
               in case synchronise (drop 96 buf) (crypto_hash cr ''req1'' [sb]) (4 + 96 + 512) 1500 ss1 of
                    Inl x \<Rightarrow> Some (Inl x, hello)
                  | Inr (buf1, ss2) \<Rightarrow>
                      if werr 0 \<noteq> None then Some (Inl (ErrIo (the (werr 0))), hello)
                      else (case crypto_readMore buf1 20 1024 ss2 of
                         Inl x \<Rightarrow> Some (Inl x, hello)
                       | Inr (buf2, ss3) \<Rightarrow>
                           (case crypto_xor (take 20 buf2) (crypto_hash cr ''req3'' [sb]) of
                              None \<Rightarrow> None
                            | Some req2 \<Rightarrow>
                                (case find_skey cr skeys req2 of
                                   None \<Rightarrow> Some (Inl ErrCryptoTorrent, hello)
                                 | Some skey \<Rightarrow>
                                     (case server_stuff cr opt (werr 1) sb skey (drop 20 buf2) ss3 of
                                        Inl x \<Rightarrow> Some (Inl x, hello)
                                      | Inr (c, ia, answer) \<Rightarrow> Some (Inr (c, skey, ia), hello @ answer))))))"

subsection \<open>Encrypted connections\<close>

text \<open>\<^verbatim>\<open>Read\<close> and \<^verbatim>\<open>Write\<close> of a \<^verbatim>\<open>Conn\<close>; a write is split into blocks of 32768 bytes, and fails for good after an error.\<close>

definition Conn_Read :: "nat \<Rightarrow> secure \<Rightarrow> (byte list \<times> io_error option) \<times> secure" where
  "Conn_Read k c =
     (let ((d, e), ss) = conn_Read k (sc_in c)
      in ((XORKeyStream (sc_dec c) (sc_decpos c) d, e), c\<lparr>sc_decpos := sc_decpos c + length d, sc_in := ss\<rparr>))"

text \<open>
  The outcomes of the writes of the underlying connection are the list \<open>net\<close>: how many bytes were written, and the error; beyond its end writes
  succeed. The result is the count, the error, what has been written, and the connection.
\<close>

function (sequential) write_blocks ::
  "(nat \<times> io_error option) list \<Rightarrow> byte list \<Rightarrow> secure \<Rightarrow> (nat \<times> io_error option) \<times> byte list \<times> secure" where
  "write_blocks net [] c = ((0, None), [], c)"
| "write_blocks net (x # xs) c =
     (let b = take 32768 (x # xs);
          (l, e) = (case net of [] \<Rightarrow> (length b, None) | (l, e) # net' \<Rightarrow> (min l (length b), e));
          err = (if e = None \<and> l < length b then Some IoShortWrite else e);
          out = take l (XORKeyStream (sc_enc c) (sc_encpos c) b);
          c1 = c\<lparr>sc_encpos := sc_encpos c + length b\<rparr>
      in if err \<noteq> None then ((l, err), out, c1\<lparr>sc_err := err\<rparr>)
         else let ((n, e'), out', c2) = write_blocks (tl net) (drop 32768 (x # xs)) c1 in ((l + n, e'), out @ out', c2))"
  by pat_completeness auto
termination by (relation "measure (\<lambda>(net, b, c). length b)") auto

definition Conn_Write ::
  "(nat \<times> io_error option) list \<Rightarrow> byte list \<Rightarrow> secure \<Rightarrow> (nat \<times> io_error option) \<times> byte list \<times> secure" where
  "Conn_Write net b c = (if sc_err c \<noteq> None then ((0, sc_err c), [], c) else write_blocks net b c)"

end
