(* ===== verification/Crypto_Props.thy ===== *)
theory Crypto_Props
  imports Crypto
begin

unbundle bit_operations_syntax

section \<open>Properties of the encryption handshake\<close>

text \<open>
  Both sides of the handshake agree when the messages arrive as they were sent, an encrypted connection delivers
  what is written to it however the network cuts it, and a server that is sent its request in two segments refuses it.
\<close>

subsection \<open>Ciphers and keys\<close>

lemma length_XORKeyStream [simp]: "length (XORKeyStream ks pos v) = length v"
  by (simp add: XORKeyStream_def)

lemma nth_XORKeyStream: "i < length v \<Longrightarrow> XORKeyStream ks pos v ! i = v ! i XOR ks (pos + i)"
  by (simp add: XORKeyStream_def)

lemma XORKeyStream_twice [simp]: "XORKeyStream ks pos (XORKeyStream ks pos v) = v"
  by (rule nth_equalityI) (simp_all add: nth_XORKeyStream xor.assoc)

lemma XORKeyStream_append:
  "XORKeyStream ks pos (v @ w) = XORKeyStream ks pos v @ XORKeyStream ks (pos + length v) w"
  by (rule nth_equalityI) (auto simp: nth_XORKeyStream nth_append add.assoc)

lemma XORKeyStream_Nil [simp]: "XORKeyStream ks pos [] = []"
  by (simp add: XORKeyStream_def)

lemma XORKeyStream_eq_Nil [simp]: "XORKeyStream ks pos v = [] \<longleftrightarrow> v = []"
  using length_XORKeyStream [of ks pos v] by (metis length_0_conv)

lemma take_XORKeyStream: "take k (XORKeyStream ks pos v) = XORKeyStream ks pos (take k v)"
  by (rule nth_equalityI) (auto simp: nth_XORKeyStream)

lemma drop_XORKeyStream: "k \<le> length v \<Longrightarrow> drop k (XORKeyStream ks pos v) = XORKeyStream ks (pos + k) (drop k v)"
  by (rule nth_equalityI) (auto simp: nth_XORKeyStream add.assoc)

text \<open>Both sides compute the same secret.\<close>

lemma secret_shared: "big_Exp (big_Exp 2 xb) xa = big_Exp (big_Exp 2 xa) xb"
  by (simp add: big_Exp_def power_mod flip: power_mult) (simp add: mult.commute)

lemma prime768_bound: "prime768 < 256 ^ 96" "0 < prime768"
  by (simp_all add: prime768_def)

lemma big_Exp_bound: "big_Exp y x < 256 ^ 96"
  unfolding big_Exp_def using prime768_bound by (meson less_trans mod_less_divisor)

lemma be_decode_hello: "be_decode (take 96 (be_encode 96 (big_Exp y x) @ pad)) = big_Exp y x"
  using be_decode_encode [OF big_Exp_bound] by simp

lemma crypto_xor_twice:
  assumes "length a = length b"
  shows "\<exists>x. crypto_xor a b = Some x \<and> length x = length a \<and> crypto_xor x b = Some a"
proof -
  have "map2 (XOR) (map2 (XOR) a b) b = a"
    using assms by (intro nth_equalityI) (simp_all add: xor.assoc)
  then show ?thesis using assms by (simp add: crypto_xor_def)
qed

subsection \<open>Reading whole segments\<close>

lemma ReadAtLeast_segment:
  assumes "0 < n" and "n \<le> length s" and "length s \<le> m"
  shows "ReadAtLeast m n (s # ss) = ((s, None), ss)"
proof -
  have "read_segments m n [] (s # ss) = (s, ss)" using assms by (cases ss) simp_all
  then show ?thesis using assms by (simp add: ReadAtLeast_def)
qed

lemma bytes_Index_None: "bytes_Index w v = None \<longleftrightarrow> (\<forall>i \<le> length w. take (length v) (drop i w) \<noteq> v)"
  by (auto simp: bytes_Index_def find_None_iff less_Suc_eq_le simp del: upt_Suc)

lemma bytes_Index_Some:
  "bytes_Index w v = Some i \<longleftrightarrow> i \<le> length w \<and> take (length v) (drop i w) = v \<and> (\<forall>j < i. take (length v) (drop j w) \<noteq> v)"
  unfolding bytes_Index_def find_Some_iff by (auto simp: less_Suc_eq_le nth_append simp del: upt_Suc intro: exI [of _ i])

text \<open>When a mark follows \<open>w\<close> and does not occur before, it does not occur in \<open>w\<close>.\<close>

lemma bytes_Index_before:
  assumes "bytes_Index (w @ s) v = Some (length w)" and "v \<noteq> []"
  shows "bytes_Index w v = None"
  unfolding bytes_Index_None
proof (intro allI impI notI)
  fix i assume i: "i \<le> length w" and eq: "take (length v) (drop i w) = v"
  then have "length v \<le> length w - i" by (metis length_drop length_take min.cobounded1)
  then have "take (length v) (drop i (w @ s)) = v" using i eq by simp
  moreover have "i < length w" using \<open>length v \<le> length w - i\<close> assms(2) i by (cases "i = length w") auto
  ultimately show False using assms(1) by (simp add: bytes_Index_Some)
qed

lemma synchronise_segment:
  assumes "bytes_Index (w @ s) v = Some (length w)" and "v \<noteq> []" and "length w < n" and "length (w @ s) \<le> m" and "n \<le> m"
  shows "synchronise w v n m (s # ss) = Inr (drop (length v) s, ss)"
proof -
  have "bytes_Index w v = None" using bytes_Index_before [OF assms(1,2)] .
  moreover have "synchronise (w @ s) v n m ss = Inr (drop (length w + length v) (w @ s), ss)"
    using assms(1) by (cases ss) simp_all
  moreover have "length s \<le> max n m - length w" using assms(4,5) by simp
  ultimately show ?thesis using assms(3) by (simp add: Let_def)
qed

lemma crypto_readMore_enough [simp]: "n \<le> length buf \<Longrightarrow> crypto_readMore buf n m ss = Inr (buf, ss)"
  by (simp add: crypto_readMore_def)


subsection \<open>Both sides agree\<close>

definition no_werr :: "nat \<Rightarrow> io_error option" where
  "no_werr i = None"

lemma no_werr_None [simp]: "no_werr i = None"
  by (simp add: no_werr_def)

lemma length_vc [simp]: "length vc = 8"
  by (simp add: vc_def)

lemma length_len2 [simp]: "length (len2 v) = 2"
  by (simp add: len2_def)

lemma get_u16_zero: "get_u16 (0 # 0 # bs) = 0"
  by (simp add: get_u16_def be_decode_def)

lemma get_len2: "length ia < 65536 \<Longrightarrow> unat (get_u16 (len2 ia)) = length ia"
  using get_put_u16 [of "of_nat (length ia)" "[]"] by (simp add: len2_def unat_of_nat)

definition request_plain :: "u32 \<Rightarrow> byte list \<Rightarrow> byte list" where
  "request_plain provide ia = vc @ put_u32 provide @ [0, 0] @ len2 ia @ ia"

definition answer_plain :: "u32 \<Rightarrow> byte list" where
  "answer_plain select = vc @ put_u32 select @ [0, 0]"

lemma length_request_plain [simp]: "length (request_plain provide ia) = 16 + length ia"
  by (simp add: request_plain_def)

lemma length_answer_plain [simp]: "length (answer_plain select) = 14"
  by (simp add: answer_plain_def)

text \<open>The connection of a server that has chosen \<open>select\<close>, and that of its client.\<close>

definition server_conn :: "ciphers \<Rightarrow> byte list \<Rightarrow> byte list \<Rightarrow> u32 \<Rightarrow> nat \<Rightarrow> byte list list \<Rightarrow> secure" where
  "server_conn cr sb skey select l ss =
     \<lparr>sc_encrypted = (select = 2), sc_enc = keyB cr sb skey, sc_encpos = 1038, sc_dec = keyA cr sb skey,
      sc_decpos = 1040 + l, sc_in = ss, sc_err = None\<rparr>"

definition client_conn :: "ciphers \<Rightarrow> byte list \<Rightarrow> byte list \<Rightarrow> u32 \<Rightarrow> nat \<Rightarrow> byte list list \<Rightarrow> secure" where
  "client_conn cr sb skey select l ss =
     \<lparr>sc_encrypted = (select = 2), sc_enc = keyA cr sb skey, sc_encpos = 1040 + l, sc_dec = keyB cr sb skey,
      sc_decpos = 1038, sc_in = ss, sc_err = None\<rparr>"

lemma server_finish_request:
  assumes "length ia < 65536" and "cryptoSelect opt provide \<noteq> 0"
  shows "server_finish cr opt None sb skey provide (XORKeyStream (keyA cr sb skey) 1038 (len2 ia @ ia)) 1038 ss =
    Inr (server_conn cr sb skey (cryptoSelect opt provide) (length ia) ss, ia,
         XORKeyStream (keyB cr sb skey) 1024 (answer_plain (cryptoSelect opt provide)))"
  using assms
  by (simp add: server_finish_def XORKeyStream_append get_len2 server_conn_def answer_plain_def Let_def)

lemma server_stuff_request:
  assumes "length ia < 65536" and "cryptoSelect opt provide \<noteq> 0" and "provide AND 3 \<noteq> 0"
  shows "server_stuff cr opt None sb skey (XORKeyStream (keyA cr sb skey) 1024 (request_plain provide ia)) ss =
    Inr (server_conn cr sb skey (cryptoSelect opt provide) (length ia) ss, ia,
         XORKeyStream (keyB cr sb skey) 1024 (answer_plain (cryptoSelect opt provide)))"
proof -
  define stuff where "stuff = vc @ put_u32 provide @ [0, 0 :: byte]"
  have "request_plain provide ia = stuff @ len2 ia @ ia" by (simp add: request_plain_def stuff_def)
  moreover have "length stuff = 14" "take 8 stuff = vc" "get_u32 (drop 8 stuff) = provide" "get_u16 (drop 12 stuff) = 0"
    by (simp_all add: stuff_def get_put_u32 get_u16_zero)
  ultimately show ?thesis
    using assms server_finish_request [OF assms(1,2)]
    by (simp add: server_stuff_def XORKeyStream_append [of _ _ stuff])
qed

text \<open>The client accepts what the server chose when its own options allow it.\<close>

definition acceptable :: "options \<Rightarrow> u32 \<Rightarrow> bool" where
  "acceptable opt select = (select = 1 \<and> \<not> ForceEncryption opt \<or> select = 2 \<and> AllowEncryption opt)"

lemma cryptoProvide_bits:
  "cryptoProvide opt AND 1 \<noteq> 0 \<longleftrightarrow> \<not> ForceEncryption opt" "cryptoProvide opt AND 2 \<noteq> 0 \<longleftrightarrow> AllowEncryption opt"
  "cryptoProvide opt AND 3 = cryptoProvide opt"
  by (simp_all add: cryptoProvide_def)

lemma cryptoSelect_acceptable:
  "cryptoSelect sopt (cryptoProvide copt) \<noteq> 0 \<Longrightarrow>
     acceptable copt (cryptoSelect sopt (cryptoProvide copt)) \<and> acceptable sopt (cryptoSelect sopt (cryptoProvide copt))"
  by (auto simp: cryptoSelect_def acceptable_def cryptoProvide_bits split: if_splits)

lemma client_select_acceptable:
  "acceptable opt select \<Longrightarrow>
     client_select opt (keyA cr sb skey) (1040 + l) (keyB cr sb skey) 1038 select [] ss =
       Inr (client_conn cr sb skey select l ss, [])"
  by (auto simp: client_select_def acceptable_def client_conn_def Let_def)

lemma client_finish_answer:
  assumes "acceptable opt select" and "length pad < 512"
    and "bytes_Index (pad @ XORKeyStream (keyB cr sb skey) 1024 (answer_plain select)) (XORKeyStream (keyB cr sb skey) 1024 vc)
         = Some (length pad)"
  shows "client_finish cr opt None sb skey (1040 + l) pad (XORKeyStream (keyB cr sb skey) 1024 (answer_plain select) # ss) =
    Inr (client_conn cr sb skey select l ss, [])"
proof -
  define ks where "ks = keyB cr sb skey"
  have a: "XORKeyStream ks 1024 (answer_plain select) = XORKeyStream ks 1024 vc @ XORKeyStream ks 1032 (put_u32 select @ [0, 0])"
    by (simp add: answer_plain_def XORKeyStream_append)
  have "XORKeyStream ks 1024 vc \<noteq> []" by (simp add: vc_def)
  then have "synchronise pad (XORKeyStream ks 1024 vc) 520 526 (XORKeyStream ks 1024 (answer_plain select) # ss)
      = Inr (XORKeyStream ks 1032 (put_u32 select @ [0, 0]), ss)"
    using synchronise_segment [of pad "XORKeyStream ks 1024 (answer_plain select)" "XORKeyStream ks 1024 vc" 520 526 ss]
      assms(2,3) by (simp add: a [unfolded ks_def] ks_def del: synchronise.simps)
  moreover have "get_u32 (put_u32 select @ [0, 0]) = select" "get_u16 (drop 4 (put_u32 select @ [0, 0])) = 0"
    by (simp_all add: get_put_u32 get_u16_zero)
  ultimately show ?thesis
    using client_select_acceptable [OF assms(1)] by (simp add: client_finish_def ks_def Let_def del: synchronise.simps)
qed


lemma find_skey_unique:
  assumes "skey \<in> set skeys" and "\<And>k. k \<in> set skeys \<Longrightarrow> crypto_hash cr ''req2'' [k] = crypto_hash cr ''req2'' [skey] \<Longrightarrow> k = skey"
  shows "find_skey cr skeys (crypto_hash cr ''req2'' [skey]) = Some skey"
proof (cases "find_skey cr skeys (crypto_hash cr ''req2'' [skey])")
  case None
  then show ?thesis using assms(1) by (auto simp: find_skey_def find_None_iff)
next
  case (Some k)
  then have "k \<in> set skeys" "crypto_hash cr ''req2'' [skey] = crypto_hash cr ''req2'' [k]"
    by (auto simp: find_skey_def find_Some_iff)
  then show ?thesis using Some assms(2) by simp
qed

text \<open>The three messages of the client and of the server.\<close>

definition hello :: "nat \<Rightarrow> byte list \<Rightarrow> byte list" where
  "hello x pad = be_encode 96 (big_Exp 2 x) @ pad"

definition secret :: "nat \<Rightarrow> nat \<Rightarrow> byte list" where
  "secret xa xb = be_encode 96 (big_Exp (big_Exp 2 xa) xb)"

definition request :: "ciphers \<Rightarrow> byte list \<Rightarrow> byte list \<Rightarrow> u32 \<Rightarrow> byte list \<Rightarrow> byte list" where
  "request cr sb skey provide ia =
     crypto_hash cr ''req1'' [sb] @ map2 (XOR) (crypto_hash cr ''req2'' [skey]) (crypto_hash cr ''req3'' [sb]) @
     XORKeyStream (keyA cr sb skey) 1024 (request_plain provide ia)"

definition answer :: "ciphers \<Rightarrow> byte list \<Rightarrow> byte list \<Rightarrow> u32 \<Rightarrow> byte list" where
  "answer cr sb skey select = XORKeyStream (keyB cr sb skey) 1024 (answer_plain select)"

lemma length_hello [simp]: "length (hello x pad) = 96 + length pad"
  by (simp add: hello_def)

lemma secret_commute: "secret xa xb = be_encode 96 (big_Exp (big_Exp 2 xb) xa)"
  by (simp add: secret_def secret_shared)

definition sha1_length :: "ciphers \<Rightarrow> bool" where
  "sha1_length cr = (\<forall>v. length (cr_sha1 cr v) = 20)"

lemma length_hash: "sha1_length cr \<Longrightarrow> length (crypto_hash cr tag vs) = 20"
  by (simp add: sha1_length_def crypto_hash_def)

lemma client_request_eq:
  "sha1_length cr \<Longrightarrow> client_request cr opt sb skey ia = Some (request cr sb skey (cryptoProvide opt) ia)"
  by (simp add: client_request_def crypto_xor_def length_hash request_def request_plain_def)

lemma client_agrees:
  assumes "sha1_length cr" and "AllowCryptoHandshake copt" and "cryptoProvide copt \<noteq> 0" and "acceptable copt select"
    and "\<not> trivial (big_Exp 2 xb)" and "length padB < 512"
    and "bytes_Index (padB @ answer cr (secret xa xb) skey select) (XORKeyStream (keyB cr (secret xa xb) skey) 1024 vc) = Some (length padB)"
  shows "crypto_ClientHandshake cr copt no_werr xa padA skey ia (hello xb padB # answer cr (secret xa xb) skey select # ss) =
    Some (Inr (client_conn cr (secret xa xb) skey select (length ia) ss, []),
          hello xa padA @ request cr (secret xa xb) skey (cryptoProvide copt) ia)"
proof -
  have "ReadAtLeast 608 96 (hello xb padB # answer cr (secret xa xb) skey select # ss) =
      ((hello xb padB, None), answer cr (secret xa xb) skey select # ss)"
    using assms(6) by (intro ReadAtLeast_segment) simp_all
  moreover have "drop 96 (hello xb padB) = padB" by (simp add: hello_def)
  moreover have "be_decode (take 96 (hello xb padB)) = big_Exp 2 xb"
    unfolding hello_def by (rule be_decode_hello)
  ultimately show ?thesis
    using assms(2-5) client_request_eq [OF assms(1)] client_finish_answer [OF assms(4,6) assms(7) [unfolded answer_def]]
    by (simp add: crypto_ClientHandshake_def Let_def answer_def flip: secret_commute hello_def)
qed

text \<open>The part of a request that names the torrent.\<close>

definition req23 :: "ciphers \<Rightarrow> byte list \<Rightarrow> byte list \<Rightarrow> byte list" where
  "req23 cr sb skey = map2 (XOR) (crypto_hash cr ''req2'' [skey]) (crypto_hash cr ''req3'' [sb])"

lemma req23_correct:
  assumes "sha1_length cr"
  shows "length (req23 cr sb skey) = 20" and "crypto_xor (req23 cr sb skey) (crypto_hash cr ''req3'' [sb]) = Some (crypto_hash cr ''req2'' [skey])"
  using crypto_xor_twice [of "crypto_hash cr ''req2'' [skey]" "crypto_hash cr ''req3'' [sb]"] assms
  by (auto simp: req23_def length_hash crypto_xor_def)

text \<open>What the server does once it has read the hello, found the mark, and read the name of the torrent.\<close>

lemma server_after_req23:
  assumes cr: "sha1_length cr" and opt: "AllowCryptoHandshake sopt" and h: "h < 96" and pad: "length padA < 512"
    and ya: "\<not> trivial (big_Exp 2 xa)" and sb: "sb = secret xa xb"
    and sync: "synchronise padA (crypto_hash cr ''req1'' [sb]) 612 1500 segs = Inr (buf, ss)"
    and more: "crypto_readMore buf 20 1024 ss = Inr (req23 cr sb skey @ rest, ss')"
    and skey: "find_skey cr skeys (crypto_hash cr ''req2'' [skey]) = Some skey"
  shows "crypto_ServerHandshake cr sopt no_werr xb padB (take h (hello xa padA)) skeys (drop h (hello xa padA) # segs) =
    (case server_stuff cr sopt None sb skey rest ss' of
       Inl x \<Rightarrow> Some (Inl x, hello xb padB)
     | Inr (c, ia, ans) \<Rightarrow> Some (Inr (c, skey, ia), hello xb padB @ ans))"
proof -
  have read: "ReadAtLeast (608 - h) (96 - h) (drop h (hello xa padA) # segs) = ((drop h (hello xa padA), None), segs)"
    using h pad by (intro ReadAtLeast_segment) auto
  have "drop 96 (hello xa padA) = padA" "be_decode (take 96 (hello xa padA)) = big_Exp 2 xa"
    unfolding hello_def by (simp, rule be_decode_hello)
  moreover have "length (take h (hello xa padA)) = h" using h by simp
  moreover have "take h (hello xa padA) @ take (96 - h) (drop h (hello xa padA)) = take 96 (hello xa padA)"
    using h take_add [of h "96 - h" "hello xa padA"] by simp
  ultimately show ?thesis
    using opt ya h read sync more skey req23_correct [OF cr, of sb skey] unfolding crypto_ServerHandshake_def
    by (simp add: Let_def sb [unfolded secret_def, symmetric] hello_def [symmetric] del: synchronise.simps)
qed

lemma server_agrees:
  assumes cr: "sha1_length cr" and opt: "AllowCryptoHandshake sopt" and h: "h < 96" and pad: "length padA < 512"
    and ya: "\<not> trivial (big_Exp 2 xa)" and ia: "length ia \<le> 933"
    and idx: "bytes_Index (padA @ request cr (secret xa xb) skey provide ia) (crypto_hash cr ''req1'' [secret xa xb]) = Some (length padA)"
    and skey: "find_skey cr skeys (crypto_hash cr ''req2'' [skey]) = Some skey"
    and sel: "cryptoSelect sopt provide \<noteq> 0" "provide AND 3 \<noteq> 0"
  shows "crypto_ServerHandshake cr sopt no_werr xb padB (take h (hello xa padA)) skeys
      (drop h (hello xa padA) # request cr (secret xa xb) skey provide ia # ss) =
    Some (Inr (server_conn cr (secret xa xb) skey (cryptoSelect sopt provide) (length ia) ss, skey, ia),
          hello xb padB @ answer cr (secret xa xb) skey (cryptoSelect sopt provide))"
proof -
  define sb where "sb = secret xa xb"
  define enc where "enc = XORKeyStream (keyA cr sb skey) 1024 (request_plain provide ia)"
  have req: "request cr sb skey provide ia = crypto_hash cr ''req1'' [sb] @ req23 cr sb skey @ enc"
    by (simp add: request_def req23_def enc_def)
  have "crypto_hash cr ''req1'' [sb] \<noteq> []" using length_hash [OF cr, of "''req1''" "[sb]"] by force
  then have sync: "synchronise padA (crypto_hash cr ''req1'' [sb]) 612 1500 (request cr sb skey provide ia # ss)
      = Inr (req23 cr sb skey @ enc, ss)"
    using synchronise_segment [OF idx] pad ia cr
    by (simp add: req length_hash req23_correct(1) enc_def flip: sb_def del: synchronise.simps)
  have stuff: "server_stuff cr sopt None sb skey enc ss = Inr (server_conn cr sb skey (cryptoSelect sopt provide) (length ia) ss, ia,
      answer cr sb skey (cryptoSelect sopt provide))"
    unfolding enc_def answer_def using server_stuff_request [OF _ sel] ia by simp
  have "crypto_readMore (req23 cr sb skey @ enc) 20 1024 ss = Inr (req23 cr sb skey @ enc, ss)" using cr by (simp add: req23_correct(1))
  from server_after_req23 [OF cr opt h pad ya sb_def sync this skey]
  show ?thesis using stuff by (simp add: sb_def)
qed

text \<open>
  Two storrents that perform the encryption handshake with each other agree. Suppose that both allow the
  handshake, that the client's options and the server's have a method in common, that neither public key is trivial, that the
  server knows the torrent under a hash of its own, and that the synchronisation marks
  do not occur earlier by accident, in the random padding. Then, with what each side writes given to the other, message by
  message (writes succeed; the first \<open>h\<close> bytes having been read by the caller), both return without error; the server has found the client's
  torrent and has received its initial data; both options allow the method that was chosen, both sides
  have chosen the same, and the cipher and the position with which each side encrypts are
  those with which the other decrypts.
\<close>

theorem encryption_handshake_agrees:
  assumes "sha1_length cr" and "AllowCryptoHandshake copt" and "AllowCryptoHandshake sopt"
    and "cryptoSelect sopt (cryptoProvide copt) \<noteq> 0" and "\<not> trivial (big_Exp 2 xa)" and "\<not> trivial (big_Exp 2 xb)"
    and "length padA < 512" and "length padB < 512" and "length ia \<le> 933" and "h < 96"
    and "skey \<in> set skeys" and "\<forall>k \<in> set skeys. crypto_hash cr ''req2'' [k] = crypto_hash cr ''req2'' [skey] \<longrightarrow> k = skey"
    and "bytes_Index (padA @ request cr (secret xa xb) skey (cryptoProvide copt) ia) (crypto_hash cr ''req1'' [secret xa xb]) = Some (length padA)"
    and "bytes_Index (padB @ answer cr (secret xa xb) skey (cryptoSelect sopt (cryptoProvide copt)))
           (XORKeyStream (keyB cr (secret xa xb) skey) 1024 vc) = Some (length padB)"
  shows "\<exists>msgA msgB cc cs.
    crypto_ClientHandshake cr copt no_werr xa padA skey ia [hello xb padB, msgB] = Some (Inr (cc, []), hello xa padA @ msgA) \<and>
    crypto_ServerHandshake cr sopt no_werr xb padB (take h (hello xa padA)) skeys [drop h (hello xa padA), msgA]
      = Some (Inr (cs, skey, ia), hello xb padB @ msgB) \<and>
    (if sc_encrypted cc then AllowEncryption copt \<and> AllowEncryption sopt else \<not> ForceEncryption copt \<and> \<not> ForceEncryption sopt) \<and>
    sc_encrypted cs = sc_encrypted cc \<and>
    sc_enc cc = sc_dec cs \<and> sc_encpos cc = sc_decpos cs \<and> sc_enc cs = sc_dec cc \<and> sc_encpos cs = sc_decpos cc"
proof -
  let ?provide = "cryptoProvide copt" and ?sb = "secret xa xb"
  let ?select = "cryptoSelect sopt ?provide"
  have acc: "acceptable copt ?select" "acceptable sopt ?select" using cryptoSelect_acceptable [OF assms(4)] by simp_all
  then have provide: "?provide \<noteq> 0" using cryptoProvide_bits(1,2) [of copt] by (auto simp: acceptable_def)
  have skey: "find_skey cr skeys (crypto_hash cr ''req2'' [skey]) = Some skey" using find_skey_unique assms(11,12) by blast
  have flag: "if ?select = 2 then AllowEncryption copt \<and> AllowEncryption sopt else \<not> ForceEncryption copt \<and> \<not> ForceEncryption sopt"
    using acc by (auto simp: acceptable_def)
  show ?thesis
    using client_agrees [OF assms(1,2) provide acc(1) assms(6,8,14), of padA ia "[]"] flag
      server_agrees [OF assms(1,3,10,7,5,9,13) skey assms(4), of padB "[]"] provide cryptoProvide_bits(3) [of copt]
    by (intro exI [of _ "request cr ?sb skey ?provide ia"] exI [of _ "answer cr ?sb skey ?select"]
        exI [of _ "client_conn cr ?sb skey ?select (length ia) []"] exI [of _ "server_conn cr ?sb skey ?select (length ia) []"])
      (simp add: client_conn_def server_conn_def)
qed


definition demo_ciphers :: ciphers where
  "demo_ciphers = \<lparr>cr_sha1 = (\<lambda>v. take 20 (v @ replicate 20 7)), cr_rc4 = (\<lambda>key pos. of_nat (pos + 3 * unat (last (4 # key))))\<rparr>"

lemma demo_ciphers_sha1: "sha1_length demo_ciphers"
  by (auto simp: sha1_length_def demo_ciphers_def)

lemma be_encode_numeral: "be_encode (numeral k) x = be_encode (pred_numeral k) (x div 256) @ [of_nat (x mod 256)]"
  using be_encode.simps(2) [of "pred_numeral k" x] by (simp only: numeral_eq_Suc [of k])

lemma be_encode_zero: "be_encode n 0 = replicate n 0"
  by (induction n) (simp_all add: replicate_append_same)

lemma demo_secret: "secret 10 12 = replicate 80 0 @ [1, 0, 0, 0, 0, 0, 0, 0, 0, 0, 0, 0, 0, 0, 0, 0]"
  by (simp add: secret_def big_Exp_def prime768_def be_encode_numeral be_encode_zero)

theorem encryption_handshake_agrees_witness:
  "\<exists>msgA msgB cc cs.
    crypto_ClientHandshake demo_ciphers (DefaultOptions False False) no_werr 10 [5] [65, 66] [1, 2, 3] [hello 12 [9, 9], msgB]
      = Some (Inr (cc, []), hello 10 [5] @ msgA) \<and>
    crypto_ServerHandshake demo_ciphers (DefaultOptions True False) no_werr 12 [9, 9] (take 68 (hello 10 [5])) [[67], [65, 66]] [drop 68 (hello 10 [5]), msgA]
      = Some (Inr (cs, [65, 66], [1, 2, 3]), hello 12 [9, 9] @ msgB) \<and>
    (if sc_encrypted cc then AllowEncryption (DefaultOptions False False) \<and> AllowEncryption (DefaultOptions True False)
     else \<not> ForceEncryption (DefaultOptions False False) \<and> \<not> ForceEncryption (DefaultOptions True False)) \<and>
    sc_encrypted cs = sc_encrypted cc \<and>
    sc_enc cc = sc_dec cs \<and> sc_encpos cc = sc_decpos cs \<and> sc_enc cs = sc_dec cc \<and> sc_encpos cs = sc_decpos cc"
proof (rule encryption_handshake_agrees [OF demo_ciphers_sha1])
  show "AllowCryptoHandshake (DefaultOptions False False)" "AllowCryptoHandshake (DefaultOptions True False)" by code_simp+
  show "cryptoSelect (DefaultOptions True False) (cryptoProvide (DefaultOptions False False)) \<noteq> 0" by code_simp
  show "\<not> trivial (big_Exp 2 10)" "\<not> trivial (big_Exp 2 12)"
    by (simp_all add: trivial_def big_Exp_def prime768_def)
  show "length [5 :: byte] < 512" "length [9, 9 :: byte] < 512" "length [1, 2, 3 :: byte] \<le> 933" "(68 :: nat) < 96" by simp_all
  show "[65, 66 :: byte] \<in> set [[67], [65, 66]]" by simp
  show "\<forall>k \<in> set [[67], [65, 66]]. crypto_hash demo_ciphers ''req2'' [k] = crypto_hash demo_ciphers ''req2'' [[65, 66]] \<longrightarrow> k = [65, 66]"
    by code_simp
  show "bytes_Index ([5] @ request demo_ciphers (secret 10 12) [65, 66] (cryptoProvide (DefaultOptions False False)) [1, 2, 3])
      (crypto_hash demo_ciphers ''req1'' [secret 10 12]) = Some (length [5 :: byte])"
    unfolding demo_secret by code_simp
  show "bytes_Index ([9, 9] @ answer demo_ciphers (secret 10 12) [65, 66]
        (cryptoSelect (DefaultOptions True False) (cryptoProvide (DefaultOptions False False))))
      (XORKeyStream (keyB demo_ciphers (secret 10 12) [65, 66]) 1024 vc) = Some (length [9, 9 :: byte])"
    unfolding demo_secret by code_simp
qed


subsection \<open>Encrypted streams\<close>

lemma write_blocks_correct:
  assumes "write_blocks net v c = ((n, e), out, c')" and "sc_err c = None"
  shows "n \<le> length v \<and> out = XORKeyStream (sc_enc c) (sc_encpos c) (take n v) \<and> sc_err c' = e
    \<and> (e = None \<longrightarrow> n = length v \<and> sc_encpos c' = sc_encpos c + n)"
  using assms
proof (induction net v c arbitrary: n e out c' rule: write_blocks.induct)
  case (1 net c)
  then show ?case by simp
next
  case (2 net x xs c)
  define b where "b = take 32768 (x # xs)"
  define r where "r = drop 32768 (x # xs)"
  define c1 where "c1 = c\<lparr>sc_encpos := sc_encpos c + length b\<rparr>"
  define outcome where "outcome = (case net of [] \<Rightarrow> (length b, None) | (l, e) # net' \<Rightarrow> (min l (length b), e))"
  obtain l f where lf: "outcome = (l, f)" by (cases outcome)
  define err where "err = (if f = None \<and> l < length b then Some IoShortWrite else f)"
  obtain m g o' c2 where rec: "write_blocks (tl net) r c1 = ((m, g), o', c2)" by (metis prod.exhaust)
  have v: "x # xs = b @ r" by (simp add: b_def r_def)
  have l: "l \<le> length b" using lf by (auto simp: outcome_def split: list.splits prod.splits)
  have step: "write_blocks net (x # xs) c =
      (if err \<noteq> None then ((l, err), take l (XORKeyStream (sc_enc c) (sc_encpos c) b), c1\<lparr>sc_err := err\<rparr>)
       else ((l + m, g), take l (XORKeyStream (sc_enc c) (sc_encpos c) b) @ o', c2))"
    using rec lf unfolding write_blocks.simps b_def [symmetric] r_def [symmetric] Let_def outcome_def [symmetric] c1_def [symmetric] err_def
    by simp
  note eq = trans [OF "2.prems"(1) [symmetric] step]
  show ?case
  proof (cases "err = None")
    case True
    then have "l = length b" using l by (auto simp: err_def split: if_splits)
    moreover have "m \<le> length r \<and> o' = XORKeyStream (sc_enc c1) (sc_encpos c1) (take m r) \<and> sc_err c2 = g
        \<and> (g = None \<longrightarrow> m = length r \<and> sc_encpos c2 = sc_encpos c1 + m)"
      using "2.IH" [OF b_def outcome_def lf [symmetric] err_def refl c1_def, folded r_def] True rec "2.prems"(2) by (simp add: c1_def)
    ultimately show ?thesis
      using eq True unfolding v by (auto simp: c1_def XORKeyStream_append)
  next
    case False
    then show ?thesis
      using eq l unfolding v by (auto simp: take_XORKeyStream)
  qed
qed

text \<open>Successive reads with buffers of the given sizes.\<close>

fun Conn_reads :: "nat list \<Rightarrow> secure \<Rightarrow> byte list \<times> secure" where
  "Conn_reads [] c = ([], c)"
| "Conn_reads (k # ks) c =
     (let ((d, e), c1) = Conn_Read k c; (ds, c2) = Conn_reads ks c1 in (d @ ds, c2))"

definition expects :: "secure \<Rightarrow> byte list \<Rightarrow> bool" where
  "expects c v = (concat (sc_in c) = XORKeyStream (sc_dec c) (sc_decpos c) v)"

lemma Conn_Read_expects:
  assumes "expects c v" and "Conn_Read k c = ((d, e), c1)"
  shows "\<exists>rest. v = d @ rest \<and> expects c1 rest \<and> sc_dec c1 = sc_dec c \<and> sc_decpos c1 = sc_decpos c + length d"
proof -
  obtain x ss where r: "conn_Read k (sc_in c) = ((x, e), ss)" and d: "d = XORKeyStream (sc_dec c) (sc_decpos c) x"
    and c1: "c1 = c\<lparr>sc_decpos := sc_decpos c + length x, sc_in := ss\<rparr>"
    using assms(2) by (auto simp: Conn_Read_def split: prod.splits)
  have eq: "x @ concat ss = XORKeyStream (sc_dec c) (sc_decpos c) v"
    using conn_Read_concat [OF r] assms(1) by (simp add: expects_def)
  have len: "length x \<le> length v" using arg_cong [OF eq, of length] by simp
  have "x = XORKeyStream (sc_dec c) (sc_decpos c) (take (length x) v)"
    using arg_cong [OF eq, of "take (length x)"] by (simp add: take_XORKeyStream)
  moreover have "concat ss = XORKeyStream (sc_dec c) (sc_decpos c + length x) (drop (length x) v)"
    using arg_cong [OF eq, of "drop (length x)"] len by (simp add: drop_XORKeyStream)
  ultimately have "d = take (length x) v" "expects c1 (drop (length x) v)"
    unfolding d c1 expects_def by (metis XORKeyStream_twice, simp)
  then show ?thesis using len by (intro exI [of _ "drop (length x) v"]) (simp add: c1)
qed

lemma Conn_reads_expects:
  assumes "expects c v" and "Conn_reads ks c = (d, c')"
  shows "\<exists>rest. v = d @ rest \<and> expects c' rest \<and> sc_dec c' = sc_dec c \<and> sc_decpos c' = sc_decpos c + length d"
  using assms
proof (induction ks arbitrary: c v d)
  case Nil
  then show ?case by simp
next
  case (Cons k ks)
  obtain d1 e c1 d2 where r: "Conn_Read k c = ((d1, e), c1)" "Conn_reads ks c1 = (d2, c')" and d: "d = d1 @ d2"
    using Cons.prems(2) by (auto split: prod.splits)
  obtain r1 where 1: "v = d1 @ r1" "expects c1 r1" "sc_dec c1 = sc_dec c" "sc_decpos c1 = sc_decpos c + length d1"
    using Conn_Read_expects [OF Cons.prems(1) r(1)] by blast
  obtain r2 where "r1 = d2 @ r2" "expects c' r2" "sc_dec c' = sc_dec c1" "sc_decpos c' = sc_decpos c1 + length d2"
    using Cons.IH [OF 1(2) r(2)] by blast
  then show ?case using 1 d by simp
qed

text \<open>A read with room for a byte makes progress, so that enough reads consume every segment.\<close>

definition unread :: "byte list list \<Rightarrow> nat" where
  "unread ss = length ss + length (concat ss)"

lemma Conn_Read_progress:
  assumes "Conn_Read k c = ((d, e), c1)" and "0 < k"
  shows "unread (sc_in c1) \<le> unread (sc_in c) - 1"
  using assms by (cases "sc_in c") (auto simp: Conn_Read_def unread_def split: if_splits)

lemma Conn_reads_progress:
  "Conn_reads ks c = (d, c') \<Longrightarrow> 0 \<notin> set ks \<Longrightarrow> unread (sc_in c') \<le> unread (sc_in c) - length ks"
proof (induction ks arbitrary: c d)
  case Nil
  then show ?case by simp
next
  case (Cons k ks)
  obtain d1 e c1 d2 where r: "Conn_Read k c = ((d1, e), c1)" "Conn_reads ks c1 = (d2, c')"
    using Cons.prems(1) by (auto split: prod.splits)
  have "unread (sc_in c1) \<le> unread (sc_in c) - 1" using Conn_Read_progress [OF r(1)] Cons.prems(2) by simp
  then show ?case using Cons.IH [OF r(2)] Cons.prems(2) by simp
qed

text \<open>
  C18. An encrypted connection is a reliable stream. Let one side write \<open>v\<close>, of any length, on a network that takes \<open>n\<close> bytes. However the
  network cuts them into segments, and whatever the sizes of the reader's buffers, the other side reads a
  beginning of these bytes of \<open>v\<close>, and what is left decrypts to the rest; after enough reads it has all of them. If the write reports no
  error, all of \<open>v\<close> has been written, and once everything has been read both ciphers are at the same position again. After an
  error every further write fails, so that nothing is ever encrypted at a position that the other side is not at.
\<close>

theorem encrypted_stream_round_trip:
  assumes "sc_enc a = sc_dec b" and "sc_encpos a = sc_decpos b" and "sc_err a = None"
    and "Conn_Write net v a = ((n, e), out, a')" and "concat (sc_in b) = out" and "0 \<notin> set ks"
    and "Conn_reads ks b = (d, b')"
  shows "n \<le> length v
    \<and> (\<exists>rest. take n v = d @ rest \<and> concat (sc_in b') = XORKeyStream (sc_enc a) (sc_decpos b') rest)
    \<and> (length ks \<ge> length (sc_in b) + n \<longrightarrow> d = take n v \<and> (e = None \<longrightarrow> n = length v \<and> sc_encpos a' = sc_decpos b'))
    \<and> (e \<noteq> None \<longrightarrow> (\<forall>net' w. Conn_Write net' w a' = ((0, e), [], a')))"
proof -
  have w: "n \<le> length v" "out = XORKeyStream (sc_enc a) (sc_encpos a) (take n v)" "sc_err a' = e"
    "e = None \<longrightarrow> n = length v \<and> sc_encpos a' = sc_encpos a + n"
    using write_blocks_correct [of net v a n e out a'] assms(3,4) by (auto simp: Conn_Write_def)
  have "expects b (take n v)" using w(2) assms(1,2,5) by (simp add: expects_def)
  then obtain rest where rest: "take n v = d @ rest" "expects b' rest" "sc_dec b' = sc_dec b" "sc_decpos b' = sc_decpos b + length d"
    using Conn_reads_expects [OF _ assms(7)] by blast
  have all: "rest = []" if "length ks \<ge> length (sc_in b) + n"
  proof -
    have "unread (sc_in b) = length (sc_in b) + n" using w(1,2) assms(5) by (simp add: unread_def)
    then have "unread (sc_in b') = 0" using Conn_reads_progress [OF assms(7,6)] that by simp
    then show ?thesis using rest(2) by (auto simp: unread_def expects_def dest: arg_cong [of _ _ length])
  qed
  have "\<exists>rest. take n v = d @ rest \<and> concat (sc_in b') = XORKeyStream (sc_enc a) (sc_decpos b') rest"
    by (rule exI [of _ rest]) (use rest assms(1) in \<open>simp add: expects_def\<close>)
  moreover have "d = take n v \<and> (e = None \<longrightarrow> n = length v \<and> sc_encpos a' = sc_decpos b')" if "length ks \<ge> length (sc_in b) + n"
  proof -
    have d: "d = take n v" using all [OF that] rest(1) by simp
    then show ?thesis using w(1,4) rest(4) assms(2) by simp
  qed
  ultimately show ?thesis using w(1,3) by (simp add: Conn_Write_def)
qed

definition demo_writer :: secure where
  "demo_writer = \<lparr>sc_encrypted = True, sc_enc = of_nat, sc_encpos = 4, sc_dec = (\<lambda>n. 0), sc_decpos = 0, sc_in = [], sc_err = None\<rparr>"

definition demo_reader :: secure where
  "demo_reader = \<lparr>sc_encrypted = True, sc_enc = (\<lambda>n. 0), sc_encpos = 0, sc_dec = of_nat, sc_decpos = 4, sc_in = [[5, 7], [5]], sc_err = None\<rparr>"

theorem encrypted_stream_round_trip_witness:
  "fst (Conn_Write [] [1, 2, 3] demo_writer) = (3, None) \<and> fst (Conn_reads [1, 9, 2, 2, 2] demo_reader) = [1, 2, 3]
   \<and> sc_encpos (snd (snd (Conn_Write [] [1, 2, 3] demo_writer))) = sc_decpos (snd (Conn_reads [1, 9, 2, 2, 2] demo_reader))"
proof -
  let ?w = "Conn_Write [] [1, 2, 3] demo_writer"
  have w: "fst ?w = (3, None)" "fst (snd ?w) = [5, 7, 5]" by code_simp+
  have "sc_enc demo_writer = sc_dec demo_reader" "sc_encpos demo_writer = sc_decpos demo_reader" "sc_err demo_writer = None"
    "concat (sc_in demo_reader) = [5, 7, 5]" "0 \<notin> set [1, 9, 2, 2, 2 :: nat]"
    "length (sc_in demo_reader) + 3 \<le> length [1, 9, 2, 2, 2 :: nat]"
    by (simp_all add: demo_writer_def demo_reader_def)
  then show ?thesis
    using encrypted_stream_round_trip [of demo_writer demo_reader "[]" "[1, 2, 3]" 3 None "[5, 7, 5]" "snd (snd ?w)"
        "[1, 9, 2, 2, 2]" "fst (Conn_reads [1, 9, 2, 2, 2] demo_reader)" "snd (Conn_reads [1, 9, 2, 2, 2] demo_reader)"] w
    by (simp add: prod_eq_iff)
qed

subsection \<open>Fragmented requests\<close>

lemma bytes_Index_prefix:
  assumes "bytes_Index (w @ s) v = Some (length w)" and "length v \<le> k"
  shows "bytes_Index (w @ take k s) v = Some (length w)"
proof -
  have v: "take (length v) s = v" and before: "\<And>j. j < length w \<Longrightarrow> take (length v) (drop j (w @ s)) \<noteq> v"
    using assms(1) by (simp_all add: bytes_Index_Some)
  have "take (length v) (drop j (w @ take k s)) \<noteq> v" if j: "j < length w" for j
  proof
    assume eq: "take (length v) (drop j (w @ take k s)) = v"
    have "w @ s = (w @ take k s) @ drop k s" by simp
    moreover have "length v \<le> length (drop j (w @ take k s))" using eq by (metis length_take min.cobounded1)
    ultimately have "take (length v) (drop j (w @ s)) = v" using eq j by (metis drop_append take_append append_Nil2 diff_is_0_eq take_0)
    then show False using before [OF j] by simp
  qed
  then show ?thesis using v assms(2) by (simp add: bytes_Index_Some min_absorb1)
qed

lemma server_stuff_trailing:
  assumes "length ia < 65536" and "provide AND 3 \<noteq> 0" and "z \<noteq> []"
  shows "server_stuff cr opt None sb skey (XORKeyStream (keyA cr sb skey) 1024 (request_plain provide ia) @ z) ss = Inl ErrExtraData"
proof -
  define stuff where "stuff = vc @ put_u32 provide @ [0, 0 :: byte]"
  have "request_plain provide ia = stuff @ len2 ia @ ia" by (simp add: request_plain_def stuff_def)
  moreover have "length stuff = 14" "take 8 stuff = vc" "get_u32 (drop 8 stuff) = provide" "get_u16 (drop 12 stuff) = 0"
    by (simp_all add: stuff_def get_put_u32 get_u16_zero)
  moreover have "server_finish cr opt None sb skey provide (XORKeyStream (keyA cr sb skey) 1038 (len2 ia @ ia) @ z) 1038 ss = Inl ErrExtraData"
    using assms by (simp add: server_finish_def XORKeyStream_append get_len2 Let_def)
  ultimately show ?thesis
    using assms by (simp add: server_stuff_def XORKeyStream_append [of _ _ stuff])
qed

lemma crypto_readMore_pads:
  assumes "length buf < n" and "n \<le> length (buf @ s)" and "length (buf @ s) \<le> m"
  shows "crypto_readMore buf n m (s # ss) = Inr (buf @ s @ replicate (m - length (buf @ s)) 0, ss)"
proof -
  have "ReadAtLeast (m - length buf) (n - length buf) (s # ss) = ((s, None), ss)"
    using assms by (intro ReadAtLeast_segment) auto
  then show ?thesis using assms by (simp add: crypto_readMore_def max_def)
qed


text \<open>
  C36. The handshake depends on how the network cuts the client's request. If the request of a correct client, whose initial data has less than 988
  bytes, arrives in two segments, cut less than 20 bytes after the mark, the server refuses the connection for
  data that was never sent: it takes the whole of its buffer, which ends with
  zeroes, for what it has read.
\<close>

theorem server_refuses_fragmented_request:
  assumes "sha1_length cr" and "AllowCryptoHandshake sopt" and "h < 96" and "length padA < 512"
    and "\<not> trivial (big_Exp 2 xa)" and "length ia < 988" and "provide AND 3 \<noteq> 0" and "j < 20"
    and "bytes_Index (padA @ request cr (secret xa xb) skey provide ia) (crypto_hash cr ''req1'' [secret xa xb]) = Some (length padA)"
    and "find_skey cr skeys (crypto_hash cr ''req2'' [skey]) = Some skey"
  shows "crypto_ServerHandshake cr sopt no_werr xb padB (take h (hello xa padA)) skeys
      [drop h (hello xa padA), take (20 + j) (request cr (secret xa xb) skey provide ia), drop (20 + j) (request cr (secret xa xb) skey provide ia)]
    = Some (Inl ErrExtraData, hello xb padB)"
proof -
  define sb where "sb = secret xa xb"
  define enc where "enc = XORKeyStream (keyA cr sb skey) 1024 (request_plain provide ia)"
  define req where "req = request cr sb skey provide ia"
  define tail where "tail = req23 cr sb skey @ enc"
  define z where "z = replicate (1024 - length tail) (0 :: byte)"
  have hash: "length (crypto_hash cr ''req1'' [sb]) = 20" "length (req23 cr sb skey) = 20"
    using assms(1) by (simp_all add: length_hash req23_correct(1))
  have mark: "crypto_hash cr ''req1'' [sb] \<noteq> []" using hash(1) by force
  have req: "req = crypto_hash cr ''req1'' [sb] @ tail" by (simp add: req_def request_def req23_def enc_def tail_def)
  have tail: "length tail = 36 + length ia" by (simp add: tail_def hash enc_def)
  have "bytes_Index (padA @ take (20 + j) req) (crypto_hash cr ''req1'' [sb]) = Some (length padA)"
    using bytes_Index_prefix [OF assms(9)] hash by (simp add: req_def sb_def)
  from synchronise_segment [OF this, of 612 1500 "[drop (20 + j) req]"]
  have sync: "synchronise padA (crypto_hash cr ''req1'' [sb]) 612 1500 [take (20 + j) req, drop (20 + j) req]
      = Inr (take j tail, [drop j tail])"
    using assms(4,8) hash mark by (simp add: req del: synchronise.simps)
  have "crypto_readMore (take j tail) 20 1024 [drop j tail] = Inr (req23 cr sb skey @ enc @ z, [])"
    using crypto_readMore_pads [of "take j tail" 20 "drop j tail" 1024 "[]"] assms(6,8) tail
    by (simp add: z_def flip: append_assoc) (simp add: tail_def)
  from server_after_req23 [OF assms(1-5) sb_def sync this assms(10)]
  have "crypto_ServerHandshake cr sopt no_werr xb padB (take h (hello xa padA)) skeys [drop h (hello xa padA), take (20 + j) req, drop (20 + j) req]
      = (case server_stuff cr sopt None sb skey (enc @ z) [] of Inl x \<Rightarrow> Some (Inl x, hello xb padB)
         | Inr (c, ia, ans) \<Rightarrow> Some (Inr (c, skey, ia), hello xb padB @ ans))" .
  moreover have "server_stuff cr sopt None sb skey (enc @ z) [] = Inl ErrExtraData"
    unfolding enc_def using assms(6,7) tail by (intro server_stuff_trailing) (simp_all add: z_def)
  ultimately show ?thesis by (simp add: req_def sb_def)
qed

theorem server_refuses_fragmented_request_witness:
  "crypto_ServerHandshake demo_ciphers (DefaultOptions True False) no_werr 12 [9, 9] (take 68 (hello 10 [5])) [[67], [65, 66]]
     [drop 68 (hello 10 [5]), take (20 + 7) (request demo_ciphers (secret 10 12) [65, 66] 3 [1, 2, 3]),
      drop (20 + 7) (request demo_ciphers (secret 10 12) [65, 66] 3 [1, 2, 3])] = Some (Inl ErrExtraData, hello 12 [9, 9])"
proof (rule server_refuses_fragmented_request [OF demo_ciphers_sha1])
  show "AllowCryptoHandshake (DefaultOptions True False)" "(3 :: u32) AND 3 \<noteq> 0" by code_simp+
  show "(68 :: nat) < 96" "length [5 :: byte] < 512" "length [1, 2, 3 :: byte] < 988" "(7 :: nat) < 20" by simp_all
  show "\<not> trivial (big_Exp 2 10)" by (simp add: trivial_def big_Exp_def prime768_def)
  show "bytes_Index ([5] @ request demo_ciphers (secret 10 12) [65, 66] 3 [1, 2, 3])
      (crypto_hash demo_ciphers ''req1'' [secret 10 12]) = Some (length [5 :: byte])"
    unfolding demo_secret by code_simp
  show "find_skey demo_ciphers [[67], [65, 66]] (crypto_hash demo_ciphers ''req2'' [[65, 66]]) = Some [65, 66]" by code_simp
qed

end
