(* ===== verification/Handshake.thy ===== *)
theory Handshake
  imports Crypto Hash
begin

unbundle bit_operations_syntax

section \<open>The BitTorrent handshake (protocol/handshake.go)\<close>

text \<open>
  Both sides of the handshake of a connection, in the clear or inside the encryption handshake. A connection
  is a \<open>secure\<close>, encrypted or not; as in the theory of the encryption handshake, the errors of writes, the random numbers and the padding are
  arguments. Deadlines are left out. The result is \<open>None\<close> for a panic, and otherwise an error or the
  connection with the outcome of the handshake and the data received beyond it, together with what was written.
\<close>

record handshake_result =
  hr_Hash :: hash
  hr_Id :: hash
  hr_Dht :: bool
  hr_Fast :: bool
  hr_Extended :: bool

datatype hs_error =
    ErrBadHandshake | ErrUnknownTorrent | ErrUnexpectedInfoHash | ErrPlaintextForbidden | ErrHashMismatch
  | ErrCrypto crypto_error | ErrHsIo io_error

definition hs_header :: "byte list" where
  "hs_header = [19, 0x42, 0x69, 0x74, 0x54, 0x6f, 0x72, 0x72, 0x65, 0x6e, 0x74,
     0x20, 0x70, 0x72, 0x6f, 0x74, 0x6f, 0x63, 0x6f, 0x6c]"

definition handshake :: "hash \<Rightarrow> hash \<Rightarrow> byte list" where
  "handshake infoHash myid = hs_header @ [0, 0, 0, 0, 0, 0x10, 0, 0x05] @ infoHash @ myid"

subsection \<open>Connections\<close>

definition plain_conn :: "byte list list \<Rightarrow> secure" where
  "plain_conn ss = \<lparr>sc_encrypted = False, sc_enc = (\<lambda>n. 0), sc_encpos = 0, sc_dec = (\<lambda>n. 0), sc_decpos = 0, sc_in = ss, sc_err = None\<rparr>"

text \<open>\<^verbatim>\<open>io.ReadAtLeast\<close> on such a connection.\<close>

definition link_ReadAtLeast :: "nat \<Rightarrow> nat \<Rightarrow> secure \<Rightarrow> (byte list \<times> io_error option) \<times> secure" where
  "link_ReadAtLeast m n c =
     (let ((d, e), ss) = ReadAtLeast m n (sc_in c)
      in if sc_encrypted c
         then ((XORKeyStream (sc_dec c) (sc_decpos c) d, e), c\<lparr>sc_decpos := sc_decpos c + length d, sc_in := ss\<rparr>)
         else ((d, e), c\<lparr>sc_in := ss\<rparr>))"

text \<open>A write for which the network reports the error \<open>werr\<close>: the error, what was written, and the connection.\<close>

definition link_Write :: "io_error option \<Rightarrow> byte list \<Rightarrow> secure \<Rightarrow> io_error option \<times> byte list \<times> secure" where
  "link_Write werr v c =
     (if sc_encrypted c
      then let ((n, e), out, c1) = Conn_Write (case werr of None \<Rightarrow> [] | Some x \<Rightarrow> [(0, Some x)]) v c in (e, out, c1)
      else (werr, if werr = None then v else [], c))"

definition hs_readMore :: "secure \<Rightarrow> byte list \<Rightarrow> nat \<Rightarrow> nat \<Rightarrow> hs_error + (byte list \<times> secure)" where
  "hs_readMore c buf n m =
     (if length buf \<ge> n then Inr (buf, c)
      else case link_ReadAtLeast (max n m - length buf) (n - length buf) c of
             ((d, None), c1) \<Rightarrow> Inr (buf @ d, c1)
           | ((d, Some e), c1) \<Rightarrow> Inl (ErrHsIo e))"

subsection \<open>The client\<close>

definition hs_flags :: "byte list \<Rightarrow> hash \<Rightarrow> hash \<Rightarrow> handshake_result" where
  "hs_flags reserved h i =
     \<lparr>hr_Hash = h, hr_Id = i, hr_Dht = (reserved ! 7 AND 0x01 \<noteq> 0), hr_Fast = (reserved ! 7 AND 0x04 \<noteq> 0),
      hr_Extended = (reserved ! 5 AND 0x10 \<noteq> 0)\<rparr>"

definition client_reply :: "hash \<Rightarrow> byte list \<Rightarrow> secure \<Rightarrow> hs_error + (secure \<times> handshake_result \<times> byte list)" where
  "client_reply infoHash buf c =
     (case hs_readMore c buf (20 + 8 + 20 + 20) 0 of
        Inl x \<Rightarrow> Inl x
      | Inr (b, c1) \<Rightarrow>
          if take 20 b \<noteq> hs_header then Inl ErrBadHandshake
          else if take 20 (drop 28 b) \<noteq> infoHash then Inl ErrUnexpectedInfoHash
          else Inr (c1, hs_flags (drop 20 b) (take 20 (drop 28 b)) (take 20 (drop 48 b)), drop 68 b))"

definition ClientHandshake ::
  "ciphers \<Rightarrow> options \<Rightarrow> (nat \<Rightarrow> io_error option) \<Rightarrow> nat \<Rightarrow> byte list \<Rightarrow> bool \<Rightarrow> hash \<Rightarrow> hash \<Rightarrow> byte list list
     \<Rightarrow> ((hs_error + (secure \<times> handshake_result \<times> byte list)) \<times> byte list) option" where
  "ClientHandshake cr opt werr xa pad cryptoHandshake infoHash myid ss =
     (let hshk = handshake infoHash myid in
      if cryptoHandshake
      then case crypto_ClientHandshake cr opt werr xa pad infoHash hshk ss of
             None \<Rightarrow> None
           | Some (Inl x, out) \<Rightarrow> Some (Inl (ErrCrypto x), out)
           | Some (Inr (c, buf), out) \<Rightarrow> Some (client_reply infoHash buf c, out)
      else case werr 0 of
             Some x \<Rightarrow> Some (Inl (ErrHsIo x), [])
           | None \<Rightarrow> Some (client_reply infoHash [] (plain_conn ss), hshk))"

subsection \<open>The server\<close>

definition checkHeader :: "byte list \<Rightarrow> bool" where
  "checkHeader buf = (length hs_header \<le> length buf \<and> list_all (\<lambda>i. buf ! i = hs_header ! i) [0..<length hs_header])"

text \<open>The torrent with this hash; \<^verbatim>\<open>Equal\<close> panics on hashes of a wrong length.\<close>

fun find_hash :: "hash \<Rightarrow> (hash \<times> hash) list \<Rightarrow> (hash \<times> hash) option option" where
  "find_hash hsh [] = Some None"
| "find_hash hsh (h # hs) =
     (case hash_Equal hsh (fst h) of
        None \<Rightarrow> None
      | Some b \<Rightarrow> if b then Some (Some h) else find_hash hsh hs)"

text \<open>The reply to a client whose hash \<open>hsh\<close> has been read, and its id.\<close>

definition server_reply ::
  "io_error option \<Rightarrow> byte list \<Rightarrow> hash \<Rightarrow> hash \<Rightarrow> byte list \<Rightarrow> secure
     \<Rightarrow> (hs_error + (secure \<times> handshake_result \<times> byte list)) \<times> byte list" where
  "server_reply werr reserved hsh myid buf c =
     (let (e, out, c1) = link_Write werr (handshake hsh myid) c in
      case e of
        Some x \<Rightarrow> (Inl (ErrHsIo x), out)
      | None \<Rightarrow>
          (case hs_readMore c1 buf 20 0 of
             Inl x \<Rightarrow> (Inl x, out)
           | Inr (b, c2) \<Rightarrow> (Inr (c2, hs_flags reserved hsh (take 20 b), drop 20 b), out)))"

definition server_request ::
  "io_error option \<Rightarrow> hash option \<Rightarrow> (hash \<times> hash) list \<Rightarrow> byte list \<Rightarrow> secure
     \<Rightarrow> ((hs_error + (secure \<times> handshake_result \<times> byte list)) \<times> byte list) option" where
  "server_request werr skey hashes buf c =
     (case hs_readMore c buf (8 + 20) (8 + 20 + 20) of
        Inl x \<Rightarrow> Some (Inl x, [])
      | Inr (b, c1) \<Rightarrow>
          let hsh = take 20 (drop 8 b)
          in case (case skey of None \<Rightarrow> Some True | Some sk \<Rightarrow> hash_Equal sk hsh) of
               None \<Rightarrow> None
             | Some same \<Rightarrow>
                 if \<not> same then Some (Inl ErrHashMismatch, [])
                 else (case find_hash hsh hashes of
                         None \<Rightarrow> None
                       | Some None \<Rightarrow> Some (Inl ErrUnknownTorrent, [])
                       | Some (Some h) \<Rightarrow> Some (server_reply werr (take 8 b) hsh (snd h) (drop 28 b) c1)))"

definition ServerHandshake ::
  "ciphers \<Rightarrow> options \<Rightarrow> (nat \<Rightarrow> io_error option) \<Rightarrow> nat \<Rightarrow> byte list \<Rightarrow> (hash \<times> hash) list \<Rightarrow> byte list list
     \<Rightarrow> ((hs_error + (secure \<times> handshake_result \<times> byte list)) \<times> byte list) option" where
  "ServerHandshake cr opt werr xb pad hashes ss =
     (case ReadAtLeast (20 + 8 + 20 + 20) (length hs_header) ss of
        ((buf, Some x), ss1) \<Rightarrow> Some (Inl (ErrHsIo x), [])
      | ((buf, None), ss1) \<Rightarrow>
          if checkHeader buf \<and> ForceCryptoHandshake opt then Some (Inl ErrPlaintextForbidden, [])
          else if \<not> checkHeader buf \<and> AllowCryptoHandshake opt
          then case crypto_ServerHandshake cr opt werr xb pad buf (map fst hashes) ss1 of
                 None \<Rightarrow> None
               | Some (Inl x, out) \<Rightarrow> Some (Inl (ErrCrypto x), out)
               | Some (Inr (c, skey, ia), out) \<Rightarrow>
                   (case hs_readMore c ia 20 (20 + 8 + 20 + 20) of
                      Inl x \<Rightarrow> Some (Inl x, out)
                    | Inr (b, c1) \<Rightarrow>
                        if \<not> checkHeader b then Some (Inl ErrBadHandshake, out)
                        else map_option (\<lambda>(r, out1). (r, out @ out1)) (server_request (werr 2) (Some skey) hashes (drop 20 b) c1))
          else if \<not> checkHeader buf then Some (Inl ErrBadHandshake, [])
          else server_request (werr 0) None hashes (drop 20 buf) (plain_conn ss1))"

end
