(* ===== verification/Handshake_Props.thy ===== *)
theory Handshake_Props
  imports Handshake Crypto_Props
begin

unbundle bit_operations_syntax

section \<open>Properties of the BitTorrent handshake\<close>

text \<open>
  The handshake is first described in terms of the bytes that are yet to come out of a connection, whether it is
  encrypted or not; then the two sides are put together.
\<close>

subsection \<open>What a connection will deliver\<close>

definition stream :: "secure \<Rightarrow> byte list" where
  "stream c = (if sc_encrypted c then XORKeyStream (sc_dec c) (sc_decpos c) (concat (sc_in c)) else concat (sc_in c))"

text \<open>What reading leaves alone.\<close>

definition same_link :: "secure \<Rightarrow> secure \<Rightarrow> bool" where
  "same_link c c' \<longleftrightarrow> sc_encrypted c' = sc_encrypted c \<and> sc_enc c' = sc_enc c \<and> sc_encpos c' = sc_encpos c
     \<and> sc_dec c' = sc_dec c \<and> sc_err c' = sc_err c
     \<and> (sc_encrypted c \<longrightarrow> sc_decpos c' + length (concat (sc_in c')) = sc_decpos c + length (concat (sc_in c)))"

lemma same_link_refl [simp]: "same_link c c"
  by (simp add: same_link_def)

lemma same_link_trans: "same_link a b \<Longrightarrow> same_link b c \<Longrightarrow> same_link a c"
  by (auto simp: same_link_def)

lemma length_stream [simp]: "length (stream c) = length (concat (sc_in c))"
  by (simp add: stream_def)

lemma link_ReadAtLeast_stream:
  assumes "link_ReadAtLeast m n c = ((d, e), c1)"
  shows "d @ stream c1 = stream c" and "length d \<le> m" and "same_link c c1" and "e = None \<longleftrightarrow> n \<le> m \<and> n \<le> length d"
    and "n \<le> m \<Longrightarrow> n \<le> length (stream c) \<Longrightarrow> e = None"
proof -
  obtain x ss where r: "ReadAtLeast m n (sc_in c) = ((x, e), ss)"
    using assms by (auto simp: link_ReadAtLeast_def Let_def split: prod.splits if_splits)
  note x = ReadAtLeast_correct [OF r]
  have d: "d = (if sc_encrypted c then XORKeyStream (sc_dec c) (sc_decpos c) x else x)"
    "c1 = (if sc_encrypted c then c\<lparr>sc_decpos := sc_decpos c + length x, sc_in := ss\<rparr> else c\<lparr>sc_in := ss\<rparr>)"
    using assms r by (simp_all add: link_ReadAtLeast_def split: if_splits)
  have cat: "concat (sc_in c) = x @ concat ss" using x(1) by simp
  show "d @ stream c1 = stream c" by (simp add: d stream_def cat XORKeyStream_append)
  show "same_link c c1" by (simp add: d same_link_def cat)
  show "length d \<le> m" "e = None \<longleftrightarrow> n \<le> m \<and> n \<le> length d" using x(2,3) by (simp_all add: d)
  show "n \<le> m \<Longrightarrow> n \<le> length (stream c) \<Longrightarrow> e = None" using x(4) by simp
qed

lemma hs_readMore_stream:
  assumes "hs_readMore c buf n m = Inr (b, c1)"
  shows "b @ stream c1 = buf @ stream c \<and> n \<le> length b \<and> length b \<le> max (length buf) (max n m) \<and> same_link c c1"
proof (cases "n \<le> length buf")
  case False
  then obtain d where r: "link_ReadAtLeast (max n m - length buf) (n - length buf) c = ((d, None), c1)" and b: "b = buf @ d"
    using assms by (auto simp: hs_readMore_def split: prod.splits option.splits)
  show ?thesis using link_ReadAtLeast_stream [OF r] False by (auto simp: b)
qed (use assms in \<open>auto simp: hs_readMore_def\<close>)

lemma hs_readMore_succeeds:
  assumes "n \<le> length (buf @ stream c)"
  shows "\<exists>b c1. hs_readMore c buf n m = Inr (b, c1)"
proof (cases "n \<le> length buf")
  case False
  obtain d e c1 where r: "link_ReadAtLeast (max n m - length buf) (n - length buf) c = ((d, e), c1)" by (metis prod.exhaust)
  then have "e = None" using link_ReadAtLeast_stream(5) [OF r] assms by simp
  then show ?thesis using r False by (simp add: hs_readMore_def)
qed (simp add: hs_readMore_def)

subsection \<open>Handshakes\<close>

lemma length_hs_header [simp]: "length hs_header = 20"
  by (simp add: hs_header_def)

lemma length_handshake: "length h = 20 \<Longrightarrow> length i = 20 \<Longrightarrow> length (handshake h i) = 68"
  by (simp add: handshake_def)

lemma checkHeader_iff: "checkHeader buf \<longleftrightarrow> take 20 buf = hs_header"
proof (cases "20 \<le> length buf")
  case True
  then show ?thesis by (auto simp: checkHeader_def list_all_iff list_eq_iff_nth_eq)
next
  case False
  then show ?thesis using length_hs_header by (metis checkHeader_def length_take min.absorb_iff2 nat_le_linear)
qed

text \<open>The outcome of a handshake with a storrent.\<close>

definition full :: "hash \<Rightarrow> hash \<Rightarrow> handshake_result" where
  "full h i = \<lparr>hr_Hash = h, hr_Id = i, hr_Dht = True, hr_Fast = True, hr_Extended = True\<rparr>"

lemma hs_flags_full: "hs_flags ([0, 0, 0, 0, 0, 0x10, 0, 0x05] @ rest) h i = full h i"
  by (simp add: hs_flags_def full_def)

lemma append_split:
  assumes "a @ b = c @ d" and "length c \<le> length a"
  shows "\<exists>e. a = c @ e \<and> e @ b = d"
proof
  have "take (length c) a = c" using arg_cong [OF assms(1), of "take (length c)"] assms(2) by simp
  moreover have "drop (length c) a @ b = d" using arg_cong [OF assms(1), of "drop (length c)"] assms(2) by simp
  ultimately show "a = c @ drop (length c) a \<and> drop (length c) a @ b = d" by (metis append_take_drop_id)
qed

lemma client_reply_handshake:
  assumes "buf @ stream c = handshake h i @ rest" and "length h = 20" and "length i = 20"
  shows "\<exists>c1 init. client_reply h buf c = Inr (c1, full h i, init) \<and> init @ stream c1 = rest \<and> same_link c c1
    \<and> (length buf \<le> 68 \<longrightarrow> init = [])"
proof -
  have len: "length (handshake h i) = 68" using length_handshake [OF assms(2,3)] .
  obtain b c1 where r: "hs_readMore c buf 68 0 = Inr (b, c1)"
    using hs_readMore_succeeds [of 68 buf c 0] assms(1) len by auto
  have b: "b @ stream c1 = handshake h i @ rest" "68 \<le> length b" "length b \<le> max (length buf) 68" "same_link c c1"
    using hs_readMore_stream [OF r] assms(1) by auto
  then obtain init where init: "b = handshake h i @ init" "init @ stream c1 = rest"
    using append_split [OF b(1)] len by auto
  have "client_reply h buf c = Inr (c1, full h i, init)"
    using r assms(2,3) by (simp add: client_reply_def init(1) handshake_def hs_flags_full [of "h @ i @ init", simplified])
  then show ?thesis using init b(3,4) len by auto
qed

lemma find_hash_known:
  assumes "(h, i) \<in> set hashes" and "distinct (map fst hashes)" and "\<forall>p \<in> set hashes. length (fst p) = 20"
  shows "find_hash h hashes = Some (Some (h, i))"
  using assms
proof (induction hashes)
  case (Cons p ps)
  have "length h = 20" "length (fst p) = 20" using Cons.prems(1,3) by auto
  then have "hash_Equal h (fst p) = Some (h = fst p)" by (rule hash_Equal_Some)
  moreover have "p = (h, i)" if "h = fst p" using Cons.prems(1,2) that by (force simp: rev_image_eqI)
  ultimately show ?case using Cons by auto
qed simp

text \<open>What a side writes, as it appears on the network.\<close>

definition on_wire :: "secure \<Rightarrow> byte list \<Rightarrow> byte list" where
  "on_wire c v = (if sc_encrypted c then XORKeyStream (sc_enc c) (sc_encpos c) v else v)"

lemma write_blocks_success:
  "write_blocks [] v c = ((length v, None), XORKeyStream (sc_enc c) (sc_encpos c) v, c\<lparr>sc_encpos := sc_encpos c + length v\<rparr>)"
proof (induction v arbitrary: c rule: length_induct)
  case (1 v)
  show ?case
  proof (cases v)
    case (Cons x xs)
    define b where "b = take 32768 v"
    define r where "r = drop 32768 v"
    have v: "v = b @ r" by (simp add: b_def r_def)
    have "length r < length v" using Cons by (simp add: r_def)
    then have "write_blocks [] r (c\<lparr>sc_encpos := sc_encpos c + length b\<rparr>) = ((length r, None),
        XORKeyStream (sc_enc c) (sc_encpos c + length b) r, c\<lparr>sc_encpos := sc_encpos c + length b + length r\<rparr>)"
      using 1 by simp
    then have "write_blocks [] v c = ((length b + length r, None),
        XORKeyStream (sc_enc c) (sc_encpos c) b @ XORKeyStream (sc_enc c) (sc_encpos c + length b) r, c\<lparr>sc_encpos := sc_encpos c + length b + length r\<rparr>)"
      unfolding Cons write_blocks.simps b_def [unfolded Cons, symmetric] r_def [unfolded Cons, symmetric] Let_def by simp
    then show ?thesis unfolding v by (simp add: XORKeyStream_append add.assoc)
  qed simp
qed

lemma link_Write_ok:
  assumes "sc_err c = None"
  shows "link_Write None v c = (None, on_wire c v, if sc_encrypted c then c\<lparr>sc_encpos := sc_encpos c + length v\<rparr> else c)"
  using assms by (simp add: link_Write_def Conn_Write_def on_wire_def write_blocks_success)


definition after_write :: "nat \<Rightarrow> secure \<Rightarrow> secure" where
  "after_write n c = (if sc_encrypted c then c\<lparr>sc_encpos := sc_encpos c + n\<rparr> else c)"

lemma stream_after_write [simp]: "stream (after_write n c) = stream c"
  by (simp add: stream_def after_write_def)

lemma same_link_after_write: "same_link c c1 \<Longrightarrow> same_link (after_write n c) (after_write n c1)"
  by (auto simp: same_link_def after_write_def)

lemma server_reply_handshake:
  assumes "buf @ stream c = i @ rest" and "length i = 20" and "sc_err c = None"
  shows "\<exists>c2 init. server_reply None ([0, 0, 0, 0, 0, 0x10, 0, 0x05] @ z) h my buf c = (Inr (c2, full h i, init), on_wire c (handshake h my))
    \<and> init @ stream c2 = rest \<and> same_link (after_write (length (handshake h my)) c) c2 \<and> (length buf \<le> 20 \<longrightarrow> init = [])"
proof -
  let ?c1 = "after_write (length (handshake h my)) c"
  have w: "link_Write None (handshake h my) c = (None, on_wire c (handshake h my), ?c1)"
    using link_Write_ok [OF assms(3)] by (simp add: after_write_def)
  have "20 \<le> length (buf @ stream ?c1)" using arg_cong [OF assms(1), of length] assms(2) by simp
  then obtain b c2 where r: "hs_readMore ?c1 buf 20 0 = Inr (b, c2)" using hs_readMore_succeeds by blast
  have b: "b @ stream c2 = i @ rest" "20 \<le> length b" "length b \<le> max (length buf) 20" "same_link ?c1 c2"
    using hs_readMore_stream [OF r] assms(1) by auto
  then obtain init where init: "b = i @ init" "init @ stream c2 = rest" using append_split [OF b(1)] assms(2) by auto
  have "server_reply None ([0, 0, 0, 0, 0, 0x10, 0, 0x05] @ z) h my buf c = (Inr (c2, full h i, init), on_wire c (handshake h my))"
    using r w assms(2) by (simp add: server_reply_def init(1) hs_flags_full [simplified])
  then show ?thesis using init b(3,4) assms(2) by auto
qed

lemma server_request_handshake:
  assumes "buf @ stream c = drop 20 (handshake h i) @ rest" and "length h = 20" and "length i = 20" and "sc_err c = None"
    and "find_hash h hashes = Some (Some (h, my))" and "skey = None \<or> skey = Some h"
  shows "\<exists>c2 init. server_request None skey hashes buf c = Some (Inr (c2, full h i, init), on_wire c (handshake h my))
    \<and> init @ stream c2 = rest \<and> same_link (after_write (length (handshake h my)) c) c2 \<and> (length buf \<le> 48 \<longrightarrow> init = [])"
proof -
  have eq: "buf @ stream c = ([0, 0, 0, 0, 0, 0x10, 0, 0x05] @ h) @ i @ rest" using assms(1) by (simp add: handshake_def)
  then have "28 \<le> length (buf @ stream c)" using assms(2,3) by simp
  then obtain b c1 where r: "hs_readMore c buf 28 48 = Inr (b, c1)" using hs_readMore_succeeds by blast
  have b: "b @ stream c1 = ([0, 0, 0, 0, 0, 0x10, 0, 0x05] @ h) @ i @ rest" "28 \<le> length b"
    "length b \<le> max (length buf) 48" "same_link c c1"
    using hs_readMore_stream [OF r] eq by auto
  then obtain more where more: "b = ([0, 0, 0, 0, 0, 0x10, 0, 0x05] @ h) @ more" "more @ stream c1 = i @ rest"
    using append_split [OF b(1)] assms(2) by auto
  have "sc_err c1 = None" and wire: "on_wire c1 (handshake h my) = on_wire c (handshake h my)"
    using b(4) assms(4) by (simp_all add: same_link_def on_wire_def)
  then obtain c2 init where s: "server_reply None [0, 0, 0, 0, 0, 0x10, 0, 0x05] h my more c1 = (Inr (c2, full h i, init), on_wire c (handshake h my))"
    "init @ stream c2 = rest" "same_link (after_write (length (handshake h my)) c1) c2" "length more \<le> 20 \<longrightarrow> init = []"
    using server_reply_handshake [OF more(2) assms(3), of "[]" h my] by auto
  have key: "(case skey of None \<Rightarrow> Some True | Some sk \<Rightarrow> hash_Equal sk h) = Some True"
    using assms(2,6) hash_Equal_Some [of h h] by auto
  have "server_request None skey hashes buf c = Some (Inr (c2, full h i, init), on_wire c (handshake h my))"
    using r s(1) key assms(2,5) by (simp add: server_request_def more(1))
  moreover have "same_link (after_write (length (handshake h my)) c) c2"
    using same_link_trans [OF same_link_after_write [OF b(4)] s(3)] .
  ultimately show ?thesis using s(2,4) b(3) assms(2) by (auto simp: more(1))
qed

subsection \<open>Handshakes in the clear\<close>

lemma stream_plain [simp]: "stream (plain_conn ss) = concat ss"
  by (simp add: stream_def plain_conn_def)

lemma plain_conn_simps [simp]: "sc_encrypted (plain_conn ss) = False" "sc_err (plain_conn ss) = None"
  by (simp_all add: plain_conn_def)

lemma plain_same_link: "same_link c c' \<Longrightarrow> \<not> sc_encrypted c \<Longrightarrow> \<not> sc_encrypted c' \<and> stream c' = concat (sc_in c')"
  by (simp add: same_link_def stream_def)

text \<open>
  C19. Two storrents understand each other without encryption. However the network cuts what they send into segments, the server
  finds the client's torrent and answers with its own id for that torrent, both return the other's id and its three
  extensions, and what follows the handshake is left on the connection, to the byte.
\<close>

theorem plaintext_handshake_agrees:
  assumes "length h = 20" and "length idA = 20" and "length idB = 20" and "(h, idB) \<in> set hashes" and "distinct (map fst hashes)"
    and "\<forall>p \<in> set hashes. length (fst p) = 20" and "\<not> ForceCryptoHandshake sopt"
    and "concat toA = handshake h idB @ moreB" and "concat toB = handshake h idA @ moreA"
  shows "\<exists>ca cb. ClientHandshake cr copt no_werr xa padA False h idA toA = Some (Inr (ca, full h idB, []), handshake h idA)
    \<and> ServerHandshake cr sopt no_werr xb padB hashes toB = Some (Inr (cb, full h idA, []), handshake h idB)
    \<and> \<not> sc_encrypted ca \<and> concat (sc_in ca) = moreB \<and> \<not> sc_encrypted cb \<and> concat (sc_in cb) = moreA"
proof -
  obtain ca where ca: "client_reply h [] (plain_conn toA) = Inr (ca, full h idB, [])" "stream ca = moreB" "same_link (plain_conn toA) ca"
    using client_reply_handshake [of "[]" "plain_conn toA" h idB moreB] assms(1,3,8) by auto
  obtain buf e ss where r: "ReadAtLeast 68 20 toB = ((buf, e), ss)" by (metis prod.exhaust)
  have "e = None" and len: "20 \<le> length buf" "length buf \<le> 68" and cat: "buf @ concat ss = handshake h idA @ moreA"
    using ReadAtLeast_correct [OF r] assms(9) length_handshake [OF assms(1,2)] by auto
  have "buf @ concat ss = hs_header @ drop 20 (handshake h idA) @ moreA" using cat by (simp add: handshake_def)
  then obtain b where b: "buf = hs_header @ b" "b @ concat ss = drop 20 (handshake h idA) @ moreA"
    using append_split len(1) length_hs_header by metis
  then have "checkHeader buf" by (simp add: checkHeader_iff)
  moreover obtain cb where cb: "server_request None None hashes b (plain_conn ss) = Some (Inr (cb, full h idA, []), handshake h idB)"
    "stream cb = moreA" "same_link (plain_conn ss) cb"
    using server_request_handshake [of b "plain_conn ss" h idA moreA hashes idB None] find_hash_known [OF assms(4-6)] assms(1,2) b len(2)
    by (auto simp: on_wire_def after_write_def)
  ultimately have "ServerHandshake cr sopt no_werr xb padB hashes toB = Some (Inr (cb, full h idA, []), handshake h idB)"
    using r \<open>e = None\<close> assms(7) b(1) by (simp add: ServerHandshake_def)
  then show ?thesis
    using ca cb plain_same_link [OF ca(3)] plain_same_link [OF cb(3)] by (simp add: ClientHandshake_def)
qed

theorem plaintext_handshake_agrees_witness:
  "\<exists>ca cb. ClientHandshake demo_ciphers (DefaultOptions False False) no_werr 10 [] False (replicate 20 1) (replicate 20 2)
        [take 5 (handshake (replicate 20 1) (replicate 20 3)), drop 5 (handshake (replicate 20 1) (replicate 20 3)) @ [7]]
      = Some (Inr (ca, full (replicate 20 1) (replicate 20 3), []), handshake (replicate 20 1) (replicate 20 2))
    \<and> ServerHandshake demo_ciphers (DefaultOptions False False) no_werr 12 [] [(replicate 20 1, replicate 20 3)]
        [handshake (replicate 20 1) (replicate 20 2) @ [8, 9]]
      = Some (Inr (cb, full (replicate 20 1) (replicate 20 2), []), handshake (replicate 20 1) (replicate 20 3))
    \<and> \<not> sc_encrypted ca \<and> concat (sc_in ca) = [7] \<and> \<not> sc_encrypted cb \<and> concat (sc_in cb) = [8, 9]"
  by (rule plaintext_handshake_agrees) (simp_all add: DefaultOptions_def)


subsection \<open>Handshakes with the encryption handshake\<close>

lemma ReadAtLeast_partial:
  assumes "0 < n" and "n \<le> m" and "m < length s"
  shows "ReadAtLeast m n (s # ss) = ((take m s, None), drop m s # ss)"
  using assms by (simp add: ReadAtLeast_def)

text \<open>What the server writes is what the client decrypts.\<close>

lemma on_wire_server:
  "on_wire (server_conn cr sb skey select l ss) v =
     (if select = 2 then XORKeyStream (keyB cr sb skey) 1038 v else v)"
  by (simp add: on_wire_def server_conn_def)

lemma stream_client:
  "stream (client_conn cr sb skey select l [if select = 2 then XORKeyStream (keyB cr sb skey) 1038 v else v]) = v"
  by (simp add: stream_def client_conn_def)

definition linked :: "secure \<Rightarrow> secure \<Rightarrow> bool" where
  "linked a b \<longleftrightarrow> sc_encrypted b = sc_encrypted a \<and>
     (sc_encrypted a \<longrightarrow> sc_enc a = sc_dec b \<and> sc_encpos a = sc_decpos b \<and> sc_enc b = sc_dec a \<and> sc_encpos b = sc_decpos a)"

lemma encrypted_client:
  assumes "sha1_length cr" and "AllowCryptoHandshake copt" and "cryptoProvide copt \<noteq> 0" and "acceptable copt select"
    and "\<not> trivial (big_Exp 2 xb)" and "length padB < 512" and "length h = 20" and "length idB = 20"
    and "bytes_Index (padB @ answer cr (secret xa xb) h select) (XORKeyStream (keyB cr (secret xa xb) h) 1024 vc) = Some (length padB)"
  shows "\<exists>ca. ClientHandshake cr copt no_werr xa padA True h idA
      [hello xb padB, answer cr (secret xa xb) h select,
       if select = 2 then XORKeyStream (keyB cr (secret xa xb) h) 1038 (handshake h idB) else handshake h idB]
    = Some (Inr (ca, full h idB, []), hello xa padA @ request cr (secret xa xb) h (cryptoProvide copt) (handshake h idA))
    \<and> same_link (client_conn cr (secret xa xb) h select (length (handshake h idA))
        [if select = 2 then XORKeyStream (keyB cr (secret xa xb) h) 1038 (handshake h idB) else handshake h idB]) ca \<and> stream ca = []"
proof -
  let ?reply = "[if select = 2 then XORKeyStream (keyB cr (secret xa xb) h) 1038 (handshake h idB) else handshake h idB]"
  let ?c = "client_conn cr (secret xa xb) h select (length (handshake h idA)) ?reply"
  have "[] @ stream ?c = handshake h idB @ []" using stream_client by simp
  from client_reply_handshake [OF this assms(7,8)]
  obtain ca where "client_reply h [] ?c = Inr (ca, full h idB, [])" "stream ca = []" "same_link ?c ca" by auto
  moreover have "crypto_ClientHandshake cr copt no_werr xa padA h (handshake h idA)
      (hello xb padB # answer cr (secret xa xb) h select # ?reply) =
    Some (Inr (?c, []), hello xa padA @ request cr (secret xa xb) h (cryptoProvide copt) (handshake h idA))"
    using client_agrees [OF assms(1-6,9)] .
  ultimately show ?thesis by (simp add: ClientHandshake_def)
qed

lemma encrypted_server:
  assumes "sha1_length cr" and "AllowCryptoHandshake sopt" and "length padA < 512" and "\<not> trivial (big_Exp 2 xa)"
    and "length h = 20" and "length idA = 20" and "find_hash h hashes = Some (Some (h, idB))" and "\<not> checkHeader (hello xa padA)"
    and "bytes_Index (padA @ request cr (secret xa xb) h provide (handshake h idA)) (crypto_hash cr ''req1'' [secret xa xb]) = Some (length padA)"
    and "find_skey cr (map fst hashes) (crypto_hash cr ''req2'' [h]) = Some h"
    and "cryptoSelect sopt provide \<noteq> 0" and "provide AND 3 \<noteq> 0"
  shows "\<exists>cb. ServerHandshake cr sopt no_werr xb padB hashes [hello xa padA, request cr (secret xa xb) h provide (handshake h idA)]
    = Some (Inr (cb, full h idA, []), hello xb padB @ answer cr (secret xa xb) h (cryptoSelect sopt provide) @
        (if cryptoSelect sopt provide = 2 then XORKeyStream (keyB cr (secret xa xb) h) 1038 (handshake h idB) else handshake h idB))
    \<and> same_link (after_write (length (handshake h idB)) (server_conn cr (secret xa xb) h (cryptoSelect sopt provide) (length (handshake h idA)) [])) cb
    \<and> stream cb = []"
proof -
  let ?c = "server_conn cr (secret xa xb) h (cryptoSelect sopt provide) (length (handshake h idA)) []"
  have len: "length (handshake h idA) = 68" by (rule length_handshake [OF assms(5,6)])
  have "drop 20 (handshake h idA) @ stream ?c = drop 20 (handshake h idA) @ []" by (simp add: stream_def server_conn_def)
  from server_request_handshake [OF this assms(5,6) _ assms(7), of "Some h"]
  obtain cb where cb: "server_request None (Some h) hashes (drop 20 (handshake h idA)) ?c = Some (Inr (cb, full h idA, []), on_wire ?c (handshake h idB))"
    "stream cb = []" "same_link (after_write (length (handshake h idB)) ?c) cb"
    by (auto simp: server_conn_def)
  have "crypto_ServerHandshake cr sopt no_werr xb padB (take 68 (hello xa padA)) (map fst hashes)
      [drop 68 (hello xa padA), request cr (secret xa xb) h provide (handshake h idA)] =
    Some (Inr (?c, h, handshake h idA), hello xb padB @ answer cr (secret xa xb) h (cryptoSelect sopt provide))"
    using server_agrees [OF assms(1,2) _ assms(3,4) _ assms(9-12), of 68] len by simp
  moreover have "ReadAtLeast 68 20 [hello xa padA, request cr (secret xa xb) h provide (handshake h idA)] =
      ((take 68 (hello xa padA), None), [drop 68 (hello xa padA), request cr (secret xa xb) h provide (handshake h idA)])"
    by (rule ReadAtLeast_partial) simp_all
  moreover have "\<not> checkHeader (take 68 (hello xa padA))" using assms(8) by (simp add: checkHeader_iff min_def)
  moreover have "hs_readMore ?c (handshake h idA) 20 68 = Inr (handshake h idA, ?c)" using len by (simp add: hs_readMore_def)
  moreover have "checkHeader (handshake h idA)" by (simp add: checkHeader_iff handshake_def)
  ultimately show ?thesis using assms(2) cb by (simp add: ServerHandshake_def on_wire_server)
qed


text \<open>
  C6. Two storrents understand each other over the encryption handshake. If both allow it and have a method in common, the
  public keys are not trivial, the server knows the torrent under a hash of its own, the public key does not look like a plain handshake, and the synchronisation marks do not
  occur by accident in the random padding, then with what each side writes given to the other, message
  by message, both return without error: each has the other's id and its extensions for the right torrent, nothing is
  left over, both agree whether the connection is encrypted, and if so each decrypts with
  the cipher, at the position, with which the other encrypts.
\<close>

theorem encrypted_handshake_agrees:
  assumes "sha1_length cr" and "AllowCryptoHandshake copt" and "AllowCryptoHandshake sopt" and "cryptoSelect sopt (cryptoProvide copt) \<noteq> 0"
    and "\<not> trivial (big_Exp 2 xa)" and "\<not> trivial (big_Exp 2 xb)" and "length padA < 512" and "length padB < 512"
    and "length h = 20" and "length idA = 20" and "length idB = 20" and "(h, idB) \<in> set hashes" and "distinct (map fst hashes)"
    and "\<forall>p \<in> set hashes. length (fst p) = 20 \<and> (crypto_hash cr ''req2'' [fst p] = crypto_hash cr ''req2'' [h] \<longrightarrow> fst p = h)"
    and "\<not> checkHeader (hello xa padA)"
    and "bytes_Index (padA @ request cr (secret xa xb) h (cryptoProvide copt) (handshake h idA)) (crypto_hash cr ''req1'' [secret xa xb]) = Some (length padA)"
    and "bytes_Index (padB @ answer cr (secret xa xb) h (cryptoSelect sopt (cryptoProvide copt)))
           (XORKeyStream (keyB cr (secret xa xb) h) 1024 vc) = Some (length padB)"
  shows "\<exists>msgA msgB reply ca cb.
    ClientHandshake cr copt no_werr xa padA True h idA [hello xb padB, msgB, reply] = Some (Inr (ca, full h idB, []), hello xa padA @ msgA) \<and>
    ServerHandshake cr sopt no_werr xb padB hashes [hello xa padA, msgA] = Some (Inr (cb, full h idA, []), hello xb padB @ msgB @ reply) \<and>
    linked ca cb"
proof -
  let ?provide = "cryptoProvide copt" and ?sb = "secret xa xb"
  let ?select = "cryptoSelect sopt ?provide"
  have acc: "acceptable copt ?select" using cryptoSelect_acceptable [OF assms(4)] by simp
  then have provide: "?provide \<noteq> 0" using cryptoProvide_bits(1,2) [of copt] by (auto simp: acceptable_def)
  have known: "find_hash h hashes = Some (Some (h, idB))" using find_hash_known [OF assms(12,13)] assms(14) by blast
  have skey: "find_skey cr (map fst hashes) (crypto_hash cr ''req2'' [h]) = Some h"
    using find_skey_unique [of h "map fst hashes" cr] assms(12,14) by force
  let ?reply = "if ?select = 2 then XORKeyStream (keyB cr ?sb h) 1038 (handshake h idB) else handshake h idB"
  obtain ca where ca: "ClientHandshake cr copt no_werr xa padA True h idA [hello xb padB, answer cr ?sb h ?select, ?reply]
      = Some (Inr (ca, full h idB, []), hello xa padA @ request cr ?sb h ?provide (handshake h idA))"
    "same_link (client_conn cr ?sb h ?select (length (handshake h idA)) [?reply]) ca" "stream ca = []"
    using encrypted_client [OF assms(1,2) provide acc assms(6,8,9,11,17)] by blast
  obtain cb where cb: "ServerHandshake cr sopt no_werr xb padB hashes [hello xa padA, request cr ?sb h ?provide (handshake h idA)]
      = Some (Inr (cb, full h idA, []), hello xb padB @ answer cr ?sb h ?select @ ?reply)"
    "same_link (after_write (length (handshake h idB)) (server_conn cr ?sb h ?select (length (handshake h idA)) [])) cb" "stream cb = []"
    using encrypted_server [OF assms(1,3,7,5,9,10) known assms(15,16) skey assms(4)] provide cryptoProvide_bits(3) [of copt] by auto
  have "concat (sc_in ca) = []" "concat (sc_in cb) = []" using ca(3) cb(3) length_stream by (metis length_0_conv)+
  then have "linked ca cb"
    using ca(2) cb(2) by (auto simp: linked_def same_link_def client_conn_def server_conn_def after_write_def simp del: concat_eq_Nil_conv)
  then show ?thesis using ca(1) cb(1) by blast
qed

theorem encrypted_handshake_agrees_witness:
  "\<exists>msgA msgB reply ca cb.
    ClientHandshake demo_ciphers (DefaultOptions False False) no_werr 10 [5] True (replicate 20 1) (replicate 20 2) [hello 12 [9, 9], msgB, reply]
      = Some (Inr (ca, full (replicate 20 1) (replicate 20 3), []), hello 10 [5] @ msgA) \<and>
    ServerHandshake demo_ciphers (DefaultOptions True False) no_werr 12 [9, 9] [(replicate 20 4, replicate 20 5), (replicate 20 1, replicate 20 3)] [hello 10 [5], msgA]
      = Some (Inr (cb, full (replicate 20 1) (replicate 20 2), []), hello 12 [9, 9] @ msgB @ reply) \<and>
    linked ca cb"
proof (rule encrypted_handshake_agrees [OF demo_ciphers_sha1])
  show "AllowCryptoHandshake (DefaultOptions False False)" "AllowCryptoHandshake (DefaultOptions True False)" by code_simp+
  show "cryptoSelect (DefaultOptions True False) (cryptoProvide (DefaultOptions False False)) \<noteq> 0" by code_simp
  show "\<not> trivial (big_Exp 2 10)" "\<not> trivial (big_Exp 2 12)" by (simp_all add: trivial_def big_Exp_def prime768_def)
  show "\<forall>p \<in> set [(replicate 20 4, replicate 20 5), (replicate 20 1, replicate 20 3)]. length (fst p) = 20 \<and>
      (crypto_hash demo_ciphers ''req2'' [fst p] = crypto_hash demo_ciphers ''req2'' [replicate 20 1] \<longrightarrow> fst p = replicate 20 1)" by code_simp
  show "\<not> checkHeader (hello 10 [5])"
    by (simp add: checkHeader_iff hello_def big_Exp_def prime768_def be_encode_numeral be_encode_zero hs_header_def take_Cons')
      (auto dest: arg_cong [of _ _ hd])
  show "bytes_Index ([5] @ request demo_ciphers (secret 10 12) (replicate 20 1) (cryptoProvide (DefaultOptions False False)) (handshake (replicate 20 1) (replicate 20 2)))
      (crypto_hash demo_ciphers ''req1'' [secret 10 12]) = Some (length [5 :: byte])"
    unfolding demo_secret by code_simp
  show "bytes_Index ([9, 9] @ answer demo_ciphers (secret 10 12) (replicate 20 1)
        (cryptoSelect (DefaultOptions True False) (cryptoProvide (DefaultOptions False False))))
      (XORKeyStream (keyB demo_ciphers (secret 10 12) (replicate 20 1)) 1024 vc) = Some (length [9, 9 :: byte])"
    unfolding demo_secret by code_simp
qed (simp_all add: replicate_eq_replicate)


subsection \<open>The policy holds against any peer\<close>

definition permitted_link :: "options \<Rightarrow> secure \<Rightarrow> bool" where
  "permitted_link opt c = (if sc_encrypted c then AllowEncryption opt else \<not> ForceEncryption opt)"

lemma client_select_permitted: "client_select opt enc e dec d select buf ss = Inr (c, b) \<Longrightarrow> permitted_link opt c"
  by (auto simp: client_select_def permitted_link_def Let_def split: if_splits)

lemma crypto_client_permitted:
  assumes "crypto_ClientHandshake cr opt werr xa pad skey ia ss = Some (Inr (c, b), out)"
  shows "permitted_link opt c \<and> AllowCryptoHandshake opt"
  using assms
  by (auto simp: crypto_ClientHandshake_def client_finish_def Let_def
      split: if_splits prod.splits option.splits sum.splits dest: client_select_permitted)

lemma cryptoSelect_permitted:
  "cryptoSelect opt provide \<noteq> 0 \<Longrightarrow> if cryptoSelect opt provide = 2 then AllowEncryption opt else \<not> ForceEncryption opt"
  by (auto simp: cryptoSelect_def split: if_splits)

lemma server_finish_permitted:
  "server_finish cr opt werr sb skey provide buf d ss = Inr (c, ia, ans) \<Longrightarrow> permitted_link opt c"
  using cryptoSelect_permitted [of opt provide]
  by (auto simp: server_finish_def permitted_link_def Let_def split: if_splits prod.splits sum.splits)

lemma crypto_server_permitted:
  assumes "crypto_ServerHandshake cr opt werr xb pad head skeys ss = Some (Inr (c, skey, ia), out)"
  shows "permitted_link opt c \<and> AllowCryptoHandshake opt"
  using assms
  by (auto simp: crypto_ServerHandshake_def server_stuff_def Let_def
      split: if_splits prod.splits option.splits sum.splits dest: server_finish_permitted)

lemma same_link_permitted: "same_link c c1 \<Longrightarrow> sc_encrypted c1 = sc_encrypted c"
  by (simp add: same_link_def)

lemma client_reply_permitted:
  assumes "client_reply h buf c = Inr (c1, r, init)"
  shows "sc_encrypted c1 = sc_encrypted c \<and> hr_Hash r = h \<and> length (hr_Id r) = 20"
proof -
  obtain b where b: "hs_readMore c buf 68 0 = Inr (b, c1)" and r: "take 20 (drop 28 b) = h" "r = hs_flags (drop 20 b) h (take 20 (drop 48 b))"
    using assms by (auto simp: client_reply_def split: sum.splits if_splits)
  show ?thesis using hs_readMore_stream [OF b] r by (auto simp: hs_flags_def same_link_def)
qed

lemma write_blocks_keeps: "sc_encrypted (snd (snd (write_blocks net v c))) = sc_encrypted c"
  by (induction net v c rule: write_blocks.induct) (auto simp: Let_def split: prod.splits list.splits)

lemma link_Write_keeps: "link_Write werr v c = (e, out, c1) \<Longrightarrow> sc_encrypted c1 = sc_encrypted c"
  using write_blocks_keeps [of "case werr of None \<Rightarrow> [] | Some x \<Rightarrow> [(0, Some x)]" v c]
  by (auto simp: link_Write_def Conn_Write_def split: if_splits prod.splits)

lemma server_reply_permitted:
  assumes "server_reply werr reserved hsh myid buf c = (Inr (c1, r, init), out)"
  shows "sc_encrypted c1 = sc_encrypted c \<and> hr_Hash r = hsh \<and> length (hr_Id r) = 20"
proof -
  obtain c0 b where w: "link_Write werr (handshake hsh myid) c = (None, out, c0)" and b: "hs_readMore c0 buf 20 0 = Inr (b, c1)"
    and r: "r = hs_flags reserved hsh (take 20 b)"
    using assms by (auto simp: server_reply_def split: prod.splits option.splits sum.splits)
  show ?thesis using link_Write_keeps [OF w] hs_readMore_stream [OF b] r by (auto simp: hs_flags_def same_link_def)
qed

lemma find_hash_Some: "find_hash h hashes = Some (Some p) \<Longrightarrow> p \<in> set hashes \<and> fst p = h"
  by (induction hashes) (auto split: option.splits if_splits dest: hash_Equal_SomeD)

lemma server_request_permitted:
  assumes "server_request werr skey hashes buf c = Some (Inr (c1, r, init), out)"
  shows "sc_encrypted c1 = sc_encrypted c \<and> hr_Hash r \<in> fst ` set hashes \<and> length (hr_Id r) = 20 \<and> (\<forall>sk. skey = Some sk \<longrightarrow> hr_Hash r = sk)"
proof -
  obtain b c0 p where b: "hs_readMore c buf 28 48 = Inr (b, c0)" and p: "find_hash (take 20 (drop 8 b)) hashes = Some (Some p)"
    and r: "server_reply werr (take 8 b) (take 20 (drop 8 b)) (snd p) (drop 28 b) c0 = (Inr (c1, r, init), out)"
    and k: "\<forall>sk. skey = Some sk \<longrightarrow> hash_Equal sk (take 20 (drop 8 b)) = Some True"
    using assms by (auto simp: server_request_def Let_def split: sum.splits option.splits if_splits)
  have "sc_encrypted c0 = sc_encrypted c" using hs_readMore_stream [OF b] by (simp add: same_link_def)
  then show ?thesis
    using server_reply_permitted [OF r] find_hash_Some [OF p] k by (auto dest: hash_Equal_SomeD simp: rev_image_eqI)
qed

lemma client_policy:
  assumes "ClientHandshake cr opt werr xa pad crypto h i toA = Some (Inr (c, r, init), out)"
  shows "hr_Hash r = h \<and> length (hr_Id r) = 20 \<and> (sc_encrypted c \<longrightarrow> crypto \<and> AllowEncryption opt \<and> AllowCryptoHandshake opt) \<and>
      (crypto \<and> ForceEncryption opt \<longrightarrow> sc_encrypted c)"
proof (cases crypto)
  case True
  then obtain c0 b where "crypto_ClientHandshake cr opt werr xa pad h (handshake h i) toA = Some (Inr (c0, b), out)"
    and r: "client_reply h b c0 = Inr (c, r, init)"
    using assms by (auto simp: ClientHandshake_def split: option.splits sum.splits)
  then show ?thesis
    using True crypto_client_permitted client_reply_permitted [OF r] by (fastforce simp: permitted_link_def split: if_splits)
next
  case False
  then have r: "client_reply h [] (plain_conn toA) = Inr (c, r, init)"
    using assms by (auto simp: ClientHandshake_def split: option.splits)
  then show ?thesis using False client_reply_permitted [OF r] by simp
qed

lemma server_policy:
  assumes "ServerHandshake cr opt werr xb pad hashes toB = Some (Inr (c, r, init), out)"
  shows "hr_Hash r \<in> fst ` set hashes \<and> length (hr_Id r) = 20 \<and> (sc_encrypted c \<longrightarrow> AllowEncryption opt \<and> AllowCryptoHandshake opt) \<and>
      (ForceCryptoHandshake opt \<and> ForceEncryption opt \<longrightarrow> sc_encrypted c)"
proof -
  obtain buf ss where read: "ReadAtLeast 68 20 toB = ((buf, None), ss)"
    using assms by (auto simp: ServerHandshake_def split: prod.splits option.splits)
  show ?thesis
  proof (cases "checkHeader buf")
    case True
    then have "\<not> ForceCryptoHandshake opt" and r: "server_request (werr 0) None hashes (drop 20 buf) (plain_conn ss) = Some (Inr (c, r, init), out)"
      using assms read by (auto simp: ServerHandshake_def split: if_splits)
    then show ?thesis using server_request_permitted [OF r] by simp
  next
    case False
    then obtain c0 skey ia out0 b c1 out1 where cs: "crypto_ServerHandshake cr opt werr xb pad buf (map fst hashes) ss = Some (Inr (c0, skey, ia), out0)"
      and m: "hs_readMore c0 ia 20 68 = Inr (b, c1)"
      and r: "server_request (werr 2) (Some skey) hashes (drop 20 b) c1 = Some (Inr (c, r, init), out1)"
      using assms read by (auto simp: ServerHandshake_def split: if_splits option.splits sum.splits prod.splits)
    have "sc_encrypted c1 = sc_encrypted c0" using hs_readMore_stream [OF m] by (simp add: same_link_def)
    then show ?thesis
      using crypto_server_permitted [OF cs] server_request_permitted [OF r] by (auto simp: permitted_link_def split: if_splits)
  qed
qed

text \<open>
  No peer can make a storrent break its policy. Whatever arrives, when a handshake returns a connection the server has found the hash among its torrents and the client
  has been answered with the hash it asked for, and the id has 20 bytes. The connection is encrypted only if the options allow it. A server
  whose options force both encryption and the encryption handshake, as \<^verbatim>\<open>-force-encryption\<close> does, never returns a
  connection in the clear, and neither does a client that performs the encryption handshake and forces encryption.
\<close>

theorem handshake_respects_policy:
  "(ClientHandshake cr opt werr xa pad crypto h i toA = Some (Inr (c, r, init), out) \<longrightarrow>
      hr_Hash r = h \<and> length (hr_Id r) = 20 \<and> (sc_encrypted c \<longrightarrow> crypto \<and> AllowEncryption opt \<and> AllowCryptoHandshake opt) \<and>
      (crypto \<and> ForceEncryption opt \<longrightarrow> sc_encrypted c)) \<and>
   (ServerHandshake cr opt werr xb pad hashes toB = Some (Inr (c, r, init), out) \<longrightarrow>
      hr_Hash r \<in> fst ` set hashes \<and> length (hr_Id r) = 20 \<and> (sc_encrypted c \<longrightarrow> AllowEncryption opt \<and> AllowCryptoHandshake opt) \<and>
      (ForceCryptoHandshake opt \<and> ForceEncryption opt \<longrightarrow> sc_encrypted c))"
  by (intro conjI [OF impI impI]) (rule client_policy, assumption, rule server_policy, assumption)

theorem handshake_respects_policy_witness:
  "\<exists>c r init out. ServerHandshake demo_ciphers (DefaultOptions False False) no_werr 12 [] [(replicate 20 1, replicate 20 3)] [handshake (replicate 20 1) (replicate 20 2)]
      = Some (Inr (c, r, init), out) \<and>
    hr_Hash r = replicate 20 1 \<and> length (hr_Id r) = 20 \<and> (sc_encrypted c \<longrightarrow> AllowEncryption (DefaultOptions False False))"
proof -
  let ?s = "ServerHandshake demo_ciphers (DefaultOptions False False) no_werr 12 [] [(replicate 20 1, replicate 20 3)] [handshake (replicate 20 1) (replicate 20 2)]"
  have "(case ?s of Some (Inr x, out) \<Rightarrow> True | _ \<Rightarrow> False)" by code_simp
  then obtain c r init out where s: "?s = Some (Inr (c, r, init), out)" by (auto split: option.splits prod.splits sum.splits)
  then show ?thesis
    using handshake_respects_policy [of demo_ciphers "DefaultOptions False False" no_werr 0 "[]" False "[]" "[]" "[]" c r init out
        12 "[(replicate 20 1, replicate 20 3)]" "[handshake (replicate 20 1) (replicate 20 2)]"] by auto
qed

end
