(* ===== verification/Torrents.thy ===== *)
theory Torrents
  imports Hash Prelude "HOL-Library.List_Lexorder" "HOL-Library.Multiset"
begin

section \<open>The set of torrents (tor/torrents.go)\<close>

text \<open>
  The global map of torrents, from arrays of 20 bytes. Of a torrent it keeps the fields that the operations
  read. The map is an association list, in the order in which \<^verbatim>\<open>Range\<close> happens to visit it.
\<close>

record tentry =
  te_Hash :: hash
  te_Name :: string
  te_MyId :: hash
  te_proxied :: bool

type_synonym torrents = "(byte list \<times> tentry) list"

text \<open>\<^verbatim>\<open>copy\<close> of a hash into an array of 20 bytes.\<close>

definition hash_key :: "hash \<Rightarrow> byte list" where
  "hash_key h = take 20 h @ replicate (20 - length h) 0"

definition torrents_Get :: "torrents \<Rightarrow> hash \<Rightarrow> tentry option" where
  "torrents_Get ts h = map_of ts (hash_key h)"

definition torrents_add :: "torrents \<Rightarrow> tentry \<Rightarrow> bool \<times> torrents" where
  "torrents_add ts t =
     (case map_of ts (hash_key (te_Hash t)) of
        Some t' \<Rightarrow> (False, ts)
      | None \<Rightarrow> (True, (hash_key (te_Hash t), t) # ts))"

definition torrents_del :: "torrents \<Rightarrow> hash \<Rightarrow> torrents" where
  "torrents_del ts h = filter (\<lambda>e. fst e \<noteq> hash_key h) ts"

definition torrents_count :: "torrents \<Rightarrow> nat" where
  "torrents_count ts = foldl (\<lambda>n e. n + 1) 0 ts"

definition infoHashes :: "torrents \<Rightarrow> bool \<Rightarrow> (hash \<times> hash) list" where
  "infoHashes ts all = [(k, te_MyId t). (k, t) \<leftarrow> ts, all \<or> \<not> te_proxied t]"

text \<open>\<^verbatim>\<open>bytes.Compare(v, w) < 0\<close>: the lexicographic order.\<close>

fun bytes_less :: "byte list \<Rightarrow> byte list \<Rightarrow> bool" where
  "bytes_less v [] = False"
| "bytes_less [] (y # ys) = True"
| "bytes_less (x # xs) (y # ys) = (x < y \<or> x = y \<and> bytes_less xs ys)"

definition GetByName :: "torrents \<Rightarrow> string \<Rightarrow> tentry option" where
  "GetByName ts name =
     foldl (\<lambda>best (k, t).
         if te_Name t = name
         then (case best of
                 None \<Rightarrow> Some t
               | Some b \<Rightarrow> if bytes_less (te_Hash t) (te_Hash b) then Some t else best)
         else best)
       None ts"

subsection \<open>Properties\<close>

lemma bytes_less_iff: "bytes_less v w \<longleftrightarrow> v < w"
  by (induction v w rule: bytes_less.induct) auto

lemma length_hash_key [simp]: "length (hash_key h) = 20"
  by (simp add: hash_key_def)

lemma hash_key_id [simp]: "length h = 20 \<Longrightarrow> hash_key h = h"
  by (simp add: hash_key_def)

text \<open>Every key is the hash of its torrent and occurs once.\<close>

definition torrents_inv :: "torrents \<Rightarrow> bool" where
  "torrents_inv ts \<longleftrightarrow> distinct (map fst ts) \<and> (\<forall>(k, t) \<in> set ts. k = te_Hash t \<and> length k = 20)"

lemma torrents_add_inv: "torrents_inv ts \<Longrightarrow> length (te_Hash t) = 20 \<Longrightarrow> torrents_inv (snd (torrents_add ts t))"
  by (auto simp: torrents_inv_def torrents_add_def map_of_eq_None_iff split: option.splits)

lemma torrents_del_inv: "torrents_inv ts \<Longrightarrow> torrents_inv (torrents_del ts h)"
  by (auto simp: torrents_inv_def torrents_del_def intro: distinct_map_filter)

lemma torrents_Get_add:
  "length h = 20 \<Longrightarrow> length (te_Hash t) = 20 \<Longrightarrow>
   torrents_Get (snd (torrents_add ts t)) h = (if h = te_Hash t \<and> torrents_Get ts h = None then Some t else torrents_Get ts h)"
  by (auto simp: torrents_Get_def torrents_add_def split: option.splits)

lemma torrents_Get_del: "torrents_Get (torrents_del ts h) h' = (if hash_key h' = hash_key h then None else torrents_Get ts h')"
proof (induction ts)
  case (Cons e ts)
  then show ?case by (cases e) (auto simp: torrents_Get_def torrents_del_def)
qed (simp add: torrents_Get_def torrents_del_def)

lemma torrents_count_length: "torrents_count ts = length ts"
proof -
  have "foldl (\<lambda>n e. n + 1) k ts = k + length ts" for k by (induction ts arbitrary: k) simp_all
  then show ?thesis by (simp add: torrents_count_def)
qed

lemma infoHashes_set: "set (infoHashes ts all) = {(k, te_MyId t) | k t. (k, t) \<in> set ts \<and> (all \<or> \<not> te_proxied t)}"
  by (auto simp: infoHashes_def split: if_splits)

lemma infoHashes_keys: "map fst (infoHashes ts all) = map fst (filter (\<lambda>(k, t). all \<or> \<not> te_proxied t) ts)"
  by (induction ts) (auto simp: infoHashes_def)

lemma infoHashes_ok:
  assumes "torrents_inv ts"
  shows "distinct (map fst (infoHashes ts all))" and "\<forall>p \<in> set (infoHashes ts all). length (fst p) = 20"
  using assms by (auto simp: torrents_inv_def infoHashes_keys infoHashes_set intro!: distinct_map_filter)

text \<open>\<^verbatim>\<open>GetByName\<close> answers the torrent with that name whose hash is the smallest.\<close>

definition byname_step :: "string \<Rightarrow> tentry option \<Rightarrow> byte list \<times> tentry \<Rightarrow> tentry option" where
  "byname_step name best e =
     (if te_Name (snd e) = name
      then (case best of
              None \<Rightarrow> Some (snd e)
            | Some b \<Rightarrow> if te_Hash (snd e) < te_Hash b then Some (snd e) else best)
      else best)"

lemma GetByName_fold: "GetByName ts name = foldl (byname_step name) None ts"
  unfolding GetByName_def by (rule foldl_cong) (auto simp: byname_step_def bytes_less_iff split: prod.splits option.splits)

definition candidates :: "torrents \<Rightarrow> string \<Rightarrow> tentry set" where
  "candidates ts name = {t. t \<in> snd ` set ts \<and> te_Name t = name}"

lemma byname_fold:
  "(foldl (byname_step name) best ts = None \<longleftrightarrow> best = None \<and> candidates ts name = {})
   \<and> (\<forall>t. foldl (byname_step name) best ts = Some t \<longrightarrow>
        t \<in> set_option best \<union> candidates ts name \<and> (\<forall>t' \<in> set_option best \<union> candidates ts name. te_Hash t \<le> te_Hash t'))"
proof (induction ts arbitrary: best)
  case Nil
  then show ?case by (simp add: candidates_def)
next
  case (Cons e ts)
  have c: "candidates (e # ts) name = (if te_Name (snd e) = name then {snd e} else {}) \<union> candidates ts name"
    by (auto simp: candidates_def)
  have step: "set_option (byname_step name best e) \<subseteq> set_option best \<union> (if te_Name (snd e) = name then {snd e} else {})"
    "\<forall>x \<in> set_option best \<union> (if te_Name (snd e) = name then {snd e} else {}). \<exists>y \<in> set_option (byname_step name best e). te_Hash y \<le> te_Hash x"
    "byname_step name best e = None \<longleftrightarrow> best = None \<and> te_Name (snd e) \<noteq> name"
    by (auto simp: byname_step_def split: option.splits)
  show ?case
    using Cons.IH [of "byname_step name best e"] step unfolding c foldl_Cons
    by (auto split: if_splits)
qed

lemma torrents_inv_mem: "torrents_inv ts \<Longrightarrow> t \<in> snd ` set ts \<longleftrightarrow> (te_Hash t, t) \<in> set ts"
  by (force simp: torrents_inv_def)

lemma GetByName_least:
  assumes "torrents_inv ts"
  shows "GetByName ts name = Some t \<longleftrightarrow> t \<in> candidates ts name \<and> (\<forall>t' \<in> candidates ts name. te_Hash t \<le> te_Hash t')"
proof -
  have same: "t = t'" if "t \<in> candidates ts name" "t' \<in> candidates ts name" "te_Hash t = te_Hash t'" for t t'
    using assms that eq_key_imp_eq_value [of ts "te_Hash t" t t'] by (simp add: candidates_def torrents_inv_mem torrents_inv_def)
  show ?thesis
  proof (cases "GetByName ts name")
    case None
    then show ?thesis using byname_fold [of name None ts] by (auto simp: GetByName_fold)
  next
    case (Some b)
    then have "b \<in> candidates ts name" "\<forall>t' \<in> candidates ts name. te_Hash b \<le> te_Hash t'"
      using byname_fold [of name None ts] by (auto simp: GetByName_fold)
    then show ?thesis using Some same by (metis option.inject order_antisym)
  qed
qed

text \<open>The operations as steps, and their specification on a map.\<close>

datatype torrents_op = T_add tentry | T_del hash

fun torrents_step :: "torrents_op \<Rightarrow> torrents \<Rightarrow> torrents" where
  "torrents_step (T_add t) ts = snd (torrents_add ts t)"
| "torrents_step (T_del h) ts = torrents_del ts h"

fun map_step :: "torrents_op \<Rightarrow> (hash \<rightharpoonup> tentry) \<Rightarrow> (hash \<rightharpoonup> tentry)" where
  "map_step (T_add t) m = (if m (te_Hash t) = None then m(te_Hash t \<mapsto> t) else m)"
| "map_step (T_del h) m = m(h := None)"

fun op_ok :: "torrents_op \<Rightarrow> bool" where
  "op_ok (T_add t) = (length (te_Hash t) = 20)"
| "op_ok (T_del h) = (length h = 20)"

text \<open>What the list stands for.\<close>

definition torrents_abs :: "torrents \<Rightarrow> hash \<rightharpoonup> tentry" where
  "torrents_abs ts h = (if length h = 20 then torrents_Get ts h else None)"

lemma torrents_step_refines:
  "op_ok a \<Longrightarrow> torrents_inv ts \<Longrightarrow> torrents_inv (torrents_step a ts) \<and> torrents_abs (torrents_step a ts) = map_step a (torrents_abs ts)"
  by (cases a) (auto simp: torrents_abs_def torrents_add_inv torrents_del_inv torrents_Get_add torrents_Get_del fun_eq_iff)

lemma torrents_run_refines:
  "list_all op_ok as \<Longrightarrow> torrents_inv ts \<Longrightarrow>
     torrents_inv (fold torrents_step as ts) \<and> torrents_abs (fold torrents_step as ts) = fold map_step as (torrents_abs ts)"
  by (induction as arbitrary: ts) (simp_all add: torrents_step_refines)

lemma torrents_inv_Nil [simp]: "torrents_inv []"
  by (simp add: torrents_inv_def)

lemma torrents_abs_Nil [simp]: "torrents_abs [] = Map.empty"
  by (auto simp: torrents_abs_def torrents_Get_def)

lemma torrents_abs_iff:
  assumes "torrents_inv ts"
  shows "torrents_abs ts h = Some t \<longleftrightarrow> (h, t) \<in> set ts"
  using assms by (auto simp: torrents_abs_def torrents_Get_def torrents_inv_def dest: map_of_SomeD)

text \<open>
  C21. The set of torrents is a map from hashes. After any sequence of additions and deletions a lookup finds what the same sequence has left in a
  map in which the first torrent with a hash stays until it is deleted; the
  hashes offered to incoming connections are those of the torrents in the map that have no proxy, each
  once, with their ids; and a lookup by name finds the torrent with that name whose hash is smallest, in whatever order the set is visited.
\<close>

theorem torrents_refine_map:
  assumes "list_all op_ok as"
  defines "ts \<equiv> fold torrents_step as []" and "m \<equiv> fold map_step as Map.empty"
  shows "(\<forall>h. length h = 20 \<longrightarrow> torrents_Get ts h = m h)
    \<and> torrents_count ts = card (dom m)
    \<and> distinct (map fst (infoHashes ts False))
    \<and> set (infoHashes ts False) = {(h, te_MyId t) | h t. m h = Some t \<and> \<not> te_proxied t}
    \<and> (\<forall>ts' name. mset ts' = mset ts \<longrightarrow>
         (\<forall>t. GetByName ts' name = Some t \<longleftrightarrow> m (te_Hash t) = Some t \<and> te_Name t = name \<and>
            (\<forall>h t'. m h = Some t' \<and> te_Name t' = name \<longrightarrow> te_Hash t \<le> h)))"
proof -
  have inv: "torrents_inv ts" and abs: "torrents_abs ts = m"
    using torrents_run_refines [OF assms(1) torrents_inv_Nil] by (simp_all add: ts_def m_def)
  note m = torrents_abs_iff [OF inv, unfolded abs]
  have "dom m = fst ` set ts" using m by force
  then have "torrents_count ts = card (dom m)"
    using inv by (simp add: torrents_count_length torrents_inv_def distinct_card flip: set_map)
  moreover have "GetByName ts' name = Some t \<longleftrightarrow> m (te_Hash t) = Some t \<and> te_Name t = name \<and>
      (\<forall>h t'. m h = Some t' \<and> te_Name t' = name \<longrightarrow> te_Hash t \<le> h)" if "mset ts' = mset ts" for ts' name t
  proof -
    have set: "set ts' = set ts" using that by (rule mset_eq_setD)
    have "mset (map fst ts') = mset (map fst ts)" using that by simp
    then have "distinct (map fst ts')" using inv mset_eq_imp_distinct_iff by (metis torrents_inv_def)
    then have "torrents_inv ts'" using inv set by (simp add: torrents_inv_def)
    moreover have "candidates ts' name = {t. m (te_Hash t) = Some t \<and> te_Name t = name}"
      using torrents_inv_mem [OF inv] by (simp add: candidates_def m set)
    moreover have "m h = Some t' \<Longrightarrow> h = te_Hash t'" for h t' using inv by (auto simp: m torrents_inv_def)
    ultimately show ?thesis by (simp add: GetByName_least) blast
  qed
  moreover have "torrents_Get ts h = m h" if "length h = 20" for h using that fun_cong [OF abs, of h] by (simp add: torrents_abs_def)
  moreover have "set (infoHashes ts False) = {(h, te_MyId t) | h t. m h = Some t \<and> \<not> te_proxied t}" by (simp add: infoHashes_set m)
  ultimately show ?thesis using infoHashes_ok(1) [OF inv] by blast
qed

definition demo_torrents :: "torrents_op list" where
  "demo_torrents =
     [T_add \<lparr>te_Hash = replicate 20 2, te_Name = ''a'', te_MyId = replicate 20 8, te_proxied = False\<rparr>,
      T_add \<lparr>te_Hash = replicate 20 1, te_Name = ''a'', te_MyId = replicate 20 9, te_proxied = True\<rparr>,
      T_add \<lparr>te_Hash = replicate 20 2, te_Name = ''b'', te_MyId = replicate 20 7, te_proxied = False\<rparr>]"

theorem torrents_refine_map_witness:
  "list_all op_ok demo_torrents
   \<and> torrents_count (fold torrents_step demo_torrents []) = card (dom (fold map_step demo_torrents Map.empty))
   \<and> infoHashes (fold torrents_step demo_torrents []) False = [(replicate 20 2, replicate 20 8)]
   \<and> map_option te_MyId (GetByName (fold torrents_step demo_torrents []) ''a'') = Some (replicate 20 9)"
proof -
  have "list_all op_ok demo_torrents" and "infoHashes (fold torrents_step demo_torrents []) False = [(replicate 20 2, replicate 20 8)]"
    and "map_option te_MyId (GetByName (fold torrents_step demo_torrents []) ''a'') = Some (replicate 20 9)" by code_simp+
  then show ?thesis using torrents_refine_map [of demo_torrents] by blast
qed

end
