(* ===== verification/Initial.thy ===== *)
theory Initial
  imports Handshake_Props Torrents Tor
begin

section \<open>Accepting and opening connections (tor/initial.go)\<close>

text \<open>
  From a new network connection to a peer of a torrent. The set of torrents is read twice, before the handshake and after it; it may
  have changed in between. What the goroutine of the torrent answers is the record \<open>answers\<close>. The result \<open>Connected\<close> stands for
  the peer that is created from the connection, the outcome of the handshake and the data received beyond it; in every other case the connection is
  closed. \<open>None\<close> is a panic.
\<close>

datatype initial_error =
    ErrMartianAddress | ErrParseAddress | ErrHandshake hs_error | ErrNoTorrent | ErrConnectionSelf | ErrProxied | ErrTorrentDead
  | ErrDuplicateConnection | ErrBadPort | ErrCancelled | ErrDial

datatype outcome = Refused initial_error | TooManyPeers | Connected secure handshake_result "byte list"

record answers =
  an_NumPeers :: "nat option"
  an_DropPeer :: bool
  an_AddKnown :: bool
  an_GetPeer :: bool
  an_NewPeer :: bool

text \<open>\<^verbatim>\<open>net.IP.To4\<close> and \<^verbatim>\<open>net.IP.To16\<close>, tried in this order.\<close>

definition ip_To4 :: "byte list \<Rightarrow> byte list option" where
  "ip_To4 ip =
     (if length ip = 4 then Some ip
      else if length ip = 16 \<and> take 12 ip = replicate 10 0 @ [0xFF, 0xFF] then Some (drop 12 ip)
      else None)"

definition ip_To16 :: "byte list \<Rightarrow> byte list option" where
  "ip_To16 ip =
     (if length ip = 4 then Some (replicate 10 0 @ [0xFF, 0xFF] @ ip) else if length ip = 16 then Some ip else None)"

definition ip_bytes :: "byte list \<Rightarrow> byte list option" where
  "ip_bytes ip = (case ip_To4 ip of Some v \<Rightarrow> Some v | None \<Rightarrow> ip_To16 ip)"

text \<open>The part of \<^verbatim>\<open>Server\<close> after the handshake, for a torrent that has been found.\<close>

definition accept_peer :: "answers \<Rightarrow> byte list \<Rightarrow> tentry \<Rightarrow> secure \<Rightarrow> handshake_result \<Rightarrow> byte list \<Rightarrow> outcome option" where
  "accept_peer an ip t c r init =
     map_option (\<lambda>self.
         if self then Refused ErrConnectionSelf
         else if te_proxied t then Refused ErrProxied
         else (case an_NumPeers an of
                 None \<Rightarrow> Refused ErrTorrentDead
               | Some n \<Rightarrow>
                   if n \<ge> MaxPeersPerTorrent \<and> \<not> an_DropPeer an then TooManyPeers
                   else if an_GetPeer an then Refused ErrDuplicateConnection
                   else if AddrFromSlice ip = None then Refused ErrParseAddress
                   else if \<not> an_NewPeer an then Refused ErrTorrentDead
                   else Connected c r init))
       (hash_Equal (hr_Id r) (te_MyId t))"

definition tor_Server ::
  "ciphers \<Rightarrow> options \<Rightarrow> (nat \<Rightarrow> io_error option) \<Rightarrow> nat \<Rightarrow> byte list \<Rightarrow> bool \<Rightarrow> byte list \<Rightarrow> torrents \<Rightarrow> torrents \<Rightarrow> answers
     \<Rightarrow> byte list list \<Rightarrow> outcome option" where
  "tor_Server cr opt werr xb pad global ip ts ts' an ss =
     (if \<not> global then Some (Refused ErrMartianAddress)
      else case ip_bytes ip of
        None \<Rightarrow> Some (Refused ErrParseAddress)
      | Some a \<Rightarrow>
          (case ServerHandshake cr opt werr xb pad (infoHashes ts False) ss of
             None \<Rightarrow> None
           | Some (Inl e, out) \<Rightarrow> Some (Refused (ErrHandshake e))
           | Some (Inr (c, r, init), out) \<Rightarrow>
               (case torrents_Get ts' (hr_Hash r) of
                  None \<Rightarrow> Some (Refused ErrNoTorrent)
                | Some t \<Rightarrow> accept_peer an a t c r init)))"

definition tor_Client ::
  "ciphers \<Rightarrow> options \<Rightarrow> (nat \<Rightarrow> io_error option) \<Rightarrow> nat \<Rightarrow> byte list \<Rightarrow> tentry \<Rightarrow> answers \<Rightarrow> bool \<Rightarrow> byte list list \<Rightarrow> outcome option" where
  "tor_Client cr opt werr xa pad t an cryptoHandshake ss =
     (case an_NumPeers an of
        None \<Rightarrow> Some (Refused ErrTorrentDead)
      | Some n \<Rightarrow>
          if n \<ge> MaxPeersPerTorrent then Some TooManyPeers
          else case ClientHandshake cr opt werr xa pad cryptoHandshake (te_Hash t) (te_MyId t) ss of
                 None \<Rightarrow> None
               | Some (Inl e, out) \<Rightarrow> Some (Refused (ErrHandshake e))
               | Some (Inr (c, r, init), out) \<Rightarrow>
                   if \<not> an_AddKnown an then Some (Refused ErrTorrentDead)
                   else map_option (\<lambda>self.
                          if self then Refused ErrConnectionSelf
                          else if an_GetPeer an then Refused ErrDuplicateConnection
                          else if \<not> an_NewPeer an then Refused ErrTorrentDead
                          else Connected c r init)
                        (hash_Equal (hr_Id r) (te_MyId t)))"

text \<open>
  \<^verbatim>\<open>DialClient\<close> tries again when the handshake was bad, with the encryption handshake if it had been without and the other way round, as the
  options say. Everything outside is a function of the kind of handshake: whether the context has been
  cancelled before and after dialling, whether dialling succeeds, and what \<^verbatim>\<open>Client\<close> returns. The result has the handshakes that were tried.
\<close>

record dialling =
  di_cancelled :: "bool \<Rightarrow> bool"
  di_dial :: "bool \<Rightarrow> bool"
  di_cancelled2 :: "bool \<Rightarrow> bool"
  di_client :: "bool \<Rightarrow> outcome option"

definition is_bad_handshake :: "outcome option \<Rightarrow> bool" where
  "is_bad_handshake r = (case r of Some (Refused (ErrHandshake e)) \<Rightarrow> e = ErrBadHandshake | _ \<Rightarrow> False)"

function dial_again :: "options \<Rightarrow> addrport \<Rightarrow> dialling \<Rightarrow> bool \<Rightarrow> bool list \<times> outcome option" where
  "dial_again opt addr di crypto =
     (if di_cancelled di crypto then ([], Some (Refused ErrCancelled))
      else if \<not> addr_IsGlobalUnicast (fst addr) then ([], Some (Refused ErrMartianAddress))
      else if snd addr = 0 \<or> snd addr = 1 \<or> snd addr = 22 \<or> snd addr = 25 then ([], Some (Refused ErrBadPort))
      else if \<not> di_dial di crypto then ([], Some (Refused ErrDial))
      else if di_cancelled2 di crypto then ([], Some (Refused ErrCancelled))
      else let r = di_client di crypto; bad = is_bad_handshake r in
           if bad \<and> PreferCryptoHandshake opt \<and> \<not> ForceCryptoHandshake opt \<and> crypto
           then let (tried, r') = dial_again opt addr di False in (crypto # tried, r')
           else if bad \<and> \<not> PreferCryptoHandshake opt \<and> AllowCryptoHandshake opt \<and> \<not> crypto
           then let (tried, r') = dial_again opt addr di True in (crypto # tried, r')
           else ([crypto], r))"
  by pat_completeness auto
termination by (relation "measure (\<lambda>(opt, addr, di, crypto). if PreferCryptoHandshake opt = crypto then 1 else 0)") auto

definition DialClient :: "options \<Rightarrow> addrport \<Rightarrow> dialling \<Rightarrow> bool list \<times> outcome option" where
  "DialClient opt addr di = dial_again opt addr di (PreferCryptoHandshake opt \<and> AllowCryptoHandshake opt)"


subsection \<open>Properties\<close>

text \<open>A handshake never panics when the hashes of the torrents have 20 bytes.\<close>

lemma crypto_readMore_length: "crypto_readMore buf n m ss = Inr (b, ss') \<Longrightarrow> n \<le> length b"
  by (auto simp: crypto_readMore_def Let_def split: if_splits prod.splits option.splits dest: ReadAtLeast_correct(3))

lemma crypto_server_total:
  assumes "sha1_length cr"
  shows "crypto_ServerHandshake cr opt werr xb pad head skeys ss \<noteq> None"
  using assms
  by (auto simp: crypto_ServerHandshake_def Let_def crypto_xor_def length_hash
      split: if_splits prod.splits option.splits sum.splits dest!: crypto_readMore_length)

lemma crypto_server_skey:
  assumes "crypto_ServerHandshake cr opt werr xb pad head skeys ss = Some (Inr (c, skey, ia), out)"
  shows "skey \<in> set skeys"
  using assms
  by (auto simp: crypto_ServerHandshake_def Let_def find_skey_def find_Some_iff
      split: if_splits prod.splits option.splits sum.splits)

lemma find_hash_total: "length h = 20 \<Longrightarrow> \<forall>p \<in> set hashes. length (fst p) = 20 \<Longrightarrow> find_hash h hashes \<noteq> None"
  by (induction hashes) (auto simp: hash_Equal_def split: option.splits)

lemma server_request_total:
  assumes "\<forall>p \<in> set hashes. length (fst p) = 20" and "\<forall>sk. skey = Some sk \<longrightarrow> length sk = 20"
  shows "server_request werr skey hashes buf c \<noteq> None"
proof (cases "hs_readMore c buf 28 48")
  case (Inr x)
  obtain b c1 where x: "x = (b, c1)" by (cases x)
  have l: "length (take 20 (drop 8 b)) = 20" using hs_readMore_stream [OF Inr [unfolded x]] by auto
  have "(case skey of None \<Rightarrow> Some True | Some sk \<Rightarrow> hash_Equal sk (take 20 (drop 8 b))) \<noteq> None"
    using l assms(2) by (auto simp: hash_Equal_def split: option.splits)
  then show ?thesis
    using Inr x find_hash_total [OF l assms(1)] by (auto simp: server_request_def Let_def split: option.splits)
qed (simp add: server_request_def)

lemma ServerHandshake_total:
  assumes "sha1_length cr" and "\<forall>p \<in> set hashes. length (fst p) = 20"
  shows "ServerHandshake cr opt werr xb pad hashes ss \<noteq> None"
proof -
  have "length skey = 20" if "crypto_ServerHandshake cr opt werr xb pad buf (map fst hashes) ss1 = Some (Inr (c, skey, ia), out)" for buf ss1 c skey ia out
    using crypto_server_skey [OF that] assms(2) by auto
  then show ?thesis
    using crypto_server_total [OF assms(1)] server_request_total [OF assms(2)]
    by (auto simp: ServerHandshake_def split: prod.splits option.splits sum.splits if_splits)
      (metis option.distinct(1))
qed

lemma ClientHandshake_total: "sha1_length cr \<Longrightarrow> ClientHandshake cr opt werr xa pad crypto h i ss \<noteq> None"
  using client_request_eq
  by (auto simp: ClientHandshake_def crypto_ClientHandshake_def Let_def split: prod.splits option.splits sum.splits if_splits)


lemma accept_peer_safe:
  assumes "length (hr_Id r) = 20" and "length (te_MyId t) = 20"
  shows "\<exists>res. accept_peer an ip t c r init = Some res
    \<and> (\<forall>c' r' init'. res = Connected c' r' init' \<longrightarrow> c' = c \<and> r' = r \<and> \<not> te_proxied t \<and> hr_Id r \<noteq> te_MyId t)"
  using hash_Equal_Some [OF assms] by (auto simp: accept_peer_def split: option.splits)

lemma torrents_Get_hash:
  assumes "torrents_inv ts" and "torrents_Get ts h = Some t" and "length h = 20"
  shows "te_Hash t = h \<and> (h, t) \<in> set ts"
  using assms by (auto simp: torrents_inv_def torrents_Get_def dest!: map_of_SomeD)

text \<open>
  C7. An incoming connection cannot break anything. Whatever a peer sends, whatever the torrent answers and however the set of torrents has changed
  in the meantime, accepting a connection does not panic. It leads to a peer only if the
  address is global and the torrent of the handshake is there, has no proxy and is not the peer itself; the connection
  is encrypted only if the options allow it, and always if they force both encryption and the encryption handshake.
\<close>

theorem incoming_connections_safe:
  assumes "sha1_length cr" and "torrents_inv ts" and "torrents_inv ts'" and "\<forall>e \<in> set ts'. length (te_MyId (snd e)) = 20"
  shows "\<exists>res. tor_Server cr opt werr xb pad global ip ts ts' an ss = Some res
    \<and> (\<forall>c r init. res = Connected c r init \<longrightarrow>
         global \<and> (\<exists>t. torrents_Get ts' (hr_Hash r) = Some t \<and> te_Hash t = hr_Hash r \<and> \<not> te_proxied t \<and> hr_Id r \<noteq> te_MyId t)
         \<and> (sc_encrypted c \<longrightarrow> AllowEncryption opt \<and> AllowCryptoHandshake opt)
         \<and> (ForceCryptoHandshake opt \<and> ForceEncryption opt \<longrightarrow> sc_encrypted c))"
proof (cases "global \<and> ip_bytes ip \<noteq> None")
  case True
  then obtain a where a: "ip_bytes ip = Some a" by auto
  note keys = infoHashes_ok(2) [OF assms(2), of False]
  obtain hs out where h: "ServerHandshake cr opt werr xb pad (infoHashes ts False) ss = Some (hs, out)"
    using ServerHandshake_total [OF assms(1) keys, of opt werr xb pad ss] by auto
  show ?thesis
  proof (cases hs)
    case (Inl e)
    then show ?thesis using True a h by (simp add: tor_Server_def)
  next
    case (Inr x)
    obtain c r init where x: "x = (c, r, init)" by (cases x)
    note p = server_policy [OF h [unfolded Inr x]]
    have len: "length (hr_Hash r) = 20" using p keys by auto
    have s: "tor_Server cr opt werr xb pad global ip ts ts' an ss =
        (case torrents_Get ts' (hr_Hash r) of None \<Rightarrow> Some (Refused ErrNoTorrent) | Some t \<Rightarrow> accept_peer an a t c r init)"
      using True a h by (simp add: tor_Server_def Inr x)
    show ?thesis
    proof (cases "torrents_Get ts' (hr_Hash r)")
      case (Some t)
      have t: "te_Hash t = hr_Hash r" "length (te_MyId t) = 20" using torrents_Get_hash [OF assms(3) Some len] assms(4) by force+
      then show ?thesis using accept_peer_safe [of r t an a c init] p s Some True by auto
    qed (simp add: s)
  qed
qed (auto simp: tor_Server_def)

definition demo_answers :: answers where
  "demo_answers = \<lparr>an_NumPeers = Some 3, an_DropPeer = False, an_AddKnown = True, an_GetPeer = False, an_NewPeer = True\<rparr>"

theorem incoming_connections_safe_witness:
  "\<exists>c r init. tor_Server demo_ciphers (DefaultOptions False False) no_werr 12 [] True [1, 2, 3, 4]
       (fold torrents_step demo_torrents []) (fold torrents_step demo_torrents []) demo_answers [handshake (replicate 20 2) (replicate 20 4)]
     = Some (Connected c r init) \<and> hr_Id r \<noteq> replicate 20 8"
proof -
  let ?ts = "fold torrents_step demo_torrents []"
  let ?s = "tor_Server demo_ciphers (DefaultOptions False False) no_werr 12 [] True [1, 2, 3, 4] ?ts ?ts demo_answers [handshake (replicate 20 2) (replicate 20 4)]"
  have ts: "torrents_inv ?ts" using torrents_run_refines [of demo_torrents "[]"] by (simp add: demo_torrents_def)
  have "\<forall>e \<in> set ?ts. length (te_MyId (snd e)) = 20" by code_simp
  note safe = incoming_connections_safe [OF demo_ciphers_sha1 ts ts this]
  have "(case ?s of Some (Connected c r init) \<Rightarrow> hr_Hash r = replicate 20 2 | _ \<Rightarrow> False)" by code_simp
  then obtain c r init where s: "?s = Some (Connected c r init)" "hr_Hash r = replicate 20 2" by (auto split: option.splits outcome.splits)
  moreover have "map_option te_MyId (torrents_Get ?ts (replicate 20 2)) = Some (replicate 20 8)" by code_simp
  ultimately show ?thesis
    using safe [of "DefaultOptions False False" no_werr 12 "[]" True "[1, 2, 3, 4]" demo_answers "[handshake (replicate 20 2) (replicate 20 4)]"] by auto
qed


subsection \<open>Opening connections\<close>

lemma tor_Client_safe:
  assumes "sha1_length cr" and "length (te_MyId t) = 20"
  shows "\<exists>res. tor_Client cr opt werr xa pad t an crypto ss = Some res
    \<and> (\<forall>c r init. res = Connected c r init \<longrightarrow> hr_Hash r = te_Hash t \<and> hr_Id r \<noteq> te_MyId t
         \<and> (sc_encrypted c \<longrightarrow> crypto \<and> AllowEncryption opt) \<and> (crypto \<and> ForceEncryption opt \<longrightarrow> sc_encrypted c))"
proof -
  obtain hs out where h: "ClientHandshake cr opt werr xa pad crypto (te_Hash t) (te_MyId t) ss = Some (hs, out)"
    using ClientHandshake_total [OF assms(1), of opt werr xa pad crypto "te_Hash t" "te_MyId t" ss] by auto
  show ?thesis
  proof (cases hs)
    case (Inl e)
    then show ?thesis using h by (simp add: tor_Client_def split: option.splits)
  next
    case (Inr x)
    obtain c r init where x: "x = (c, r, init)" by (cases x)
    note p = client_policy [OF h [unfolded Inr x]]
    then have "hash_Equal (hr_Id r) (te_MyId t) = Some (hr_Id r = te_MyId t)" using assms(2) by (intro hash_Equal_Some) simp_all
    then show ?thesis using h p by (auto simp: tor_Client_def Inr x split: option.splits)
  qed
qed

definition retries :: "options \<Rightarrow> bool \<Rightarrow> bool" where
  "retries opt crypto = (if crypto then PreferCryptoHandshake opt \<and> \<not> ForceCryptoHandshake opt
     else \<not> PreferCryptoHandshake opt \<and> AllowCryptoHandshake opt)"

lemma retries_once: "retries opt crypto \<Longrightarrow> \<not> retries opt (\<not> crypto)"
  by (cases crypto) (simp_all add: retries_def)

lemma dial_again_step:
  "(\<exists>e. dial_again opt addr di crypto = ([], Some (Refused e)))
   \<or> dial_again opt addr di crypto = ([crypto], di_client di crypto)
   \<or> retries opt crypto \<and> (\<exists>tried r. dial_again opt addr di (\<not> crypto) = (tried, r) \<and> dial_again opt addr di crypto = (crypto # tried, r))"
  by (subst (1 2 4) dial_again.simps) (cases crypto; auto simp: retries_def Let_def split: prod.splits)

lemma dial_again_cases:
  "(\<exists>e. dial_again opt addr di crypto = ([], Some (Refused e)))
   \<or> dial_again opt addr di crypto = ([crypto], di_client di crypto)
   \<or> retries opt crypto \<and> ((\<exists>e. dial_again opt addr di crypto = ([crypto], Some (Refused e)))
        \<or> dial_again opt addr di crypto = ([crypto, \<not> crypto], di_client di (\<not> crypto)))"
proof (cases "retries opt crypto \<and> (\<exists>tried r. dial_again opt addr di (\<not> crypto) = (tried, r) \<and> dial_again opt addr di crypto = (crypto # tried, r))")
  case True
  then obtain tried r where t: "dial_again opt addr di (\<not> crypto) = (tried, r)" "dial_again opt addr di crypto = (crypto # tried, r)"
    and "retries opt crypto" by blast
  then show ?thesis using dial_again_step [of opt addr di "\<not> crypto"] retries_once [of opt crypto] by auto
qed (use dial_again_step [of opt addr di crypto] in blast)

text \<open>
  C20. Dialling a peer ends and keeps to the policy. At most two handshakes are tried, of different kinds, the preferred one first, and
  the encryption handshake only if it is allowed; nothing panics. If the
  options are those of \<^verbatim>\<open>-force-encryption\<close> no handshake in the clear is tried and the connection of
  the new peer is encrypted. A new peer has the torrent that was asked for and is not the program itself.
\<close>

theorem dialling_keeps_policy:
  assumes "sha1_length cr" and "length (te_MyId t) = 20"
    and "di_client di = (\<lambda>k. tor_Client cr opt (werr k) (xa k) (pad k) t (an k) k (ss k))"
    and "PreferCryptoHandshake opt \<longrightarrow> AllowCryptoHandshake opt"
  shows "\<exists>tried res. DialClient opt addr di = (tried, Some res)
    \<and> tried \<in> {[], [PreferCryptoHandshake opt], [PreferCryptoHandshake opt, \<not> PreferCryptoHandshake opt]}
    \<and> (True \<in> set tried \<longrightarrow> AllowCryptoHandshake opt)
    \<and> (PreferCryptoHandshake opt \<and> ForceCryptoHandshake opt \<longrightarrow> False \<notin> set tried)
    \<and> (\<forall>c r init. res = Connected c r init \<longrightarrow> hr_Hash r = te_Hash t \<and> hr_Id r \<noteq> te_MyId t
         \<and> (sc_encrypted c \<longrightarrow> AllowEncryption opt)
         \<and> (PreferCryptoHandshake opt \<and> ForceCryptoHandshake opt \<and> ForceEncryption opt \<longrightarrow> sc_encrypted c))"
proof -
  let ?k = "PreferCryptoHandshake opt"
  have dial: "DialClient opt addr di = dial_again opt addr di ?k" using assms(4) by (cases ?k) (simp_all add: DialClient_def)
  have client: "\<exists>res. di_client di k = Some res
      \<and> (\<forall>c r init. res = Connected c r init \<longrightarrow> hr_Hash r = te_Hash t \<and> hr_Id r \<noteq> te_MyId t
           \<and> (sc_encrypted c \<longrightarrow> AllowEncryption opt) \<and> (k \<and> ForceEncryption opt \<longrightarrow> sc_encrypted c))" for k
    using tor_Client_safe [OF assms(1,2), of opt "werr k" "xa k" "pad k" "an k" k "ss k"] by (auto simp: assms(3))
  have retry: "retries opt ?k \<Longrightarrow> \<not> (?k \<and> ForceCryptoHandshake opt) \<and> AllowCryptoHandshake opt"
    using assms(4) by (auto simp: retries_def split: if_splits)
  from dial_again_cases [of opt addr di ?k] show ?thesis
    unfolding dial using client [of ?k] client [of "\<not> ?k"] retry assms(4) by (elim disjE exE conjE) auto
qed

definition demo_dialling :: dialling where
  "demo_dialling = \<lparr>di_cancelled = (\<lambda>k. False), di_dial = (\<lambda>k. True), di_cancelled2 = (\<lambda>k. False),
     di_client = (\<lambda>k. tor_Client demo_ciphers (DefaultOptions False False) no_werr 10 []
        \<lparr>te_Hash = replicate 20 2, te_Name = ''a'', te_MyId = replicate 20 8, te_proxied = False\<rparr> demo_answers k
        [if k then [] else handshake (replicate 20 2) (replicate 20 4)])\<rparr>"

theorem dialling_keeps_policy_witness:
  "\<exists>c r init. DialClient (DefaultOptions False False) (Addr4 0x08080808, 6881) demo_dialling = ([False], Some (Connected c r init))
     \<and> hr_Hash r = replicate 20 2 \<and> hr_Id r \<noteq> replicate 20 8"
proof -
  let ?t = "\<lparr>te_Hash = replicate 20 2, te_Name = ''a'', te_MyId = replicate 20 8, te_proxied = False\<rparr>"
  let ?d = "DialClient (DefaultOptions False False) (Addr4 0x08080808, 6881) demo_dialling"
  have "(case ?d of ([False], Some (Connected c r init)) \<Rightarrow> True | _ \<Rightarrow> False)" by code_simp
  then obtain c r init where d: "?d = ([False], Some (Connected c r init))"
    by (auto split: prod.splits list.splits bool.splits option.splits outcome.splits)
  show ?thesis
    using dialling_keeps_policy [OF demo_ciphers_sha1, of ?t demo_dialling "DefaultOptions False False" "\<lambda>k. no_werr" "\<lambda>k. 10" "\<lambda>k. []"
        "\<lambda>k. demo_answers" "\<lambda>k. [if k then [] else handshake (replicate 20 2) (replicate 20 4)]" "(Addr4 0x08080808, 6881)"] d
    by (auto simp: demo_dialling_def DefaultOptions_def)
qed

end
