(* ===== verification/Tor_Memory.thy ===== *)
theory Tor_Memory
  imports Tor
begin

section \<open>The use of memory (config/config.go, tor/tor.go, storrent.go)\<close>

text \<open>
  \<^verbatim>\<open>Expire\<close> divides the memory among the torrents and makes those that use more than their share discard pieces. The list \<open>bs\<close> has the
  bytes that each torrent uses, in the order in which the set of torrents is visited. The result is the value returned, and the
  torrents, by their position, that are told to come down to a number of bytes; \<open>None\<close> is a division by 0. The main loop calls it
  at intervals that depend on the result.
\<close>

text \<open>The first loop: the space of the small torrents and the number of the large ones.\<close>

definition expire_count :: "int \<Rightarrow> int list \<Rightarrow> int \<times> int" where
  "expire_count fair bs =
     foldl (\<lambda>(smallspace, bigcount) b. if b \<le> fair then (smallspace + b, bigcount) else (smallspace, bigcount + 1)) (0, 0) bs"

definition go_quot :: "int \<Rightarrow> int \<Rightarrow> int option" where
  "go_quot a b = (if b = 0 then None else Some (a sdiv b))"

definition tor_Expire :: "int \<Rightarrow> int \<Rightarrow> int list \<Rightarrow> (int \<times> (nat \<times> int) list) option" where
  "tor_Expire mark space bs =
     (let low = MemoryLowMark mark; high = MemoryHighMark mark; mid = (low + high) sdiv 2
      in if space < mid then Some (1, [])
         else if space < high then Some (0, [])
         else case go_quot low (int (length bs)) of
                None \<Rightarrow> None
              | Some fair \<Rightarrow>
                  let (smallspace, bigcount) = expire_count fair bs
                  in map_option (\<lambda>fair2. (- 1, [(i, fair2). (i, b) \<leftarrow> enumerate 0 bs, b > fair2]))
                       (go_quot (low - smallspace) bigcount))"

text \<open>The time to the next call, in nanoseconds.\<close>

definition expire_interval :: "int \<Rightarrow> int \<Rightarrow> int" where
  "expire_interval rc interval =
     (let mn = 250 * 1000000; mx = 16 * 1000000000
      in if rc < 0 then (if interval sdiv 2 < mn then mn else interval sdiv 2)
         else if rc > 0 then (if interval * 2 > mx then mx else interval * 2)
         else interval)"

subsection \<open>Properties\<close>

lemma expire_count_eq:
  "expire_count fair bs = (sum_list (filter (\<lambda>b. b \<le> fair) bs), int (length (filter (\<lambda>b. \<not> b \<le> fair) bs)))"
proof -
  have "foldl (\<lambda>(s, n) b. if b \<le> fair then (s + b, n) else (s, n + 1)) (s, n) bs =
      (s + sum_list (filter (\<lambda>b. b \<le> fair) bs), n + int (length (filter (\<lambda>b. \<not> b \<le> fair) bs)))" for s n
    by (induction bs arbitrary: s n) simp_all
  then show ?thesis by (simp add: expire_count_def)
qed

text \<open>The torrents below a bound use at most that bound each.\<close>

lemma small_bound: "sum_list (filter (\<lambda>b. b \<le> fair) bs) \<le> int (length (filter (\<lambda>b. b \<le> fair) bs)) * (fair :: int)"
  by (induction bs) (simp_all add: algebra_simps)

lemma length_split: "length bs = length (filter P bs) + length (filter (\<lambda>b. \<not> P b) bs)"
  by (induction bs) simp_all

definition fair_share :: "int \<Rightarrow> int list \<Rightarrow> int" where
  "fair_share low bs = low div int (length bs)"

definition large_share :: "int \<Rightarrow> int list \<Rightarrow> int" where
  "large_share low bs =
     (low - sum_list (filter (\<lambda>b. b \<le> fair_share low bs) bs)) div int (length (filter (\<lambda>b. \<not> b \<le> fair_share low bs) bs))"

lemma le_div_iff_int: "0 < b \<Longrightarrow> k \<le> a div b \<longleftrightarrow> k * b \<le> (a :: int)"
proof
  assume b: "0 < b" and "k \<le> a div b"
  then have "k * b \<le> a div b * b" by simp
  also have "\<dots> \<le> a" using b by (simp flip: minus_mod_eq_div_mult)
  finally show "k * b \<le> a" .
next
  assume b: "0 < b" and "k * b \<le> a"
  then have "k * b div b \<le> a div b" by (rule zdiv_mono1 [rotated])
  then show "k \<le> a div b" using b by simp
qed

lemma div_times_bound: "0 < b \<Longrightarrow> a div b * b \<le> (a :: int)"
  using le_div_iff_int [of b "a div b" a] by simp

lemma fair_share_bound: "bs \<noteq> [] \<Longrightarrow> fair_share low bs * int (length bs) \<le> low"
  unfolding fair_share_def by (rule div_times_bound) simp

lemma large_share_fair:
  assumes "0 \<le> low" and "\<exists>b \<in> set bs. fair_share low bs < b"
  shows "fair_share low bs \<le> large_share low bs"
proof -
  let ?f = "fair_share low bs"
  let ?s = "int (length (filter (\<lambda>b. b \<le> ?f) bs))" and ?l = "int (length (filter (\<lambda>b. \<not> b \<le> ?f) bs))"
  have n: "int (length bs) = ?s + ?l" using length_split [of bs "\<lambda>b. b \<le> ?f"] by simp
  have l: "0 < ?l" using assms(2) by (auto simp: filter_empty_conv not_le)
  have "?f * int (length bs) \<le> low"
    using assms(2) by (intro fair_share_bound) auto
  then have "?f * ?l \<le> low - sum_list (filter (\<lambda>b. b \<le> ?f) bs)"
    using small_bound [of ?f bs] by (simp add: n algebra_simps)
  then show ?thesis using l by (simp add: large_share_def le_div_iff_int)
qed

lemma large_share_total:
  assumes "0 \<le> low" and "\<exists>b \<in> set bs. fair_share low bs < b"
  shows "(\<Sum>b\<leftarrow>bs. min b (large_share low bs)) \<le> low"
proof -
  let ?f = "fair_share low bs" and ?g = "large_share low bs"
  let ?l = "filter (\<lambda>b. \<not> b \<le> ?f) bs" and ?s = "filter (\<lambda>b. b \<le> ?f) bs"
  have split: "(\<Sum>b\<leftarrow>xs. min b g) \<le> sum_list (filter (\<lambda>b. b \<le> f) xs) + int (length (filter (\<lambda>b. \<not> b \<le> f) xs)) * g" for xs and f g :: int
    by (induction xs) (simp_all add: algebra_simps min_def)
  have "0 < int (length ?l)" using assms(2) by (auto simp: filter_empty_conv not_le)
  then have "?g * int (length ?l) \<le> low - sum_list ?s" unfolding large_share_def by (rule div_times_bound)
  then show ?thesis using split [where xs = bs and f = ?f and g = ?g] by (simp add: mult.commute)
qed

lemma MemoryLowMark_bounds: "0 \<le> mark \<Longrightarrow> 0 \<le> MemoryLowMark mark \<and> MemoryLowMark mark \<le> mark"
  by (simp add: MemoryLowMark_def sdiv_nonneg) presburger

lemma tor_Expire_eq:
  assumes "0 \<le> mark" and "mark \<le> space" and "bs \<noteq> []"
  defines "low \<equiv> MemoryLowMark mark"
  shows "tor_Expire mark space bs =
    (if \<exists>b \<in> set bs. fair_share low bs < b
     then Some (- 1, [(i, large_share low bs). (i, b) \<leftarrow> enumerate 0 bs, b > large_share low bs])
     else None)"
proof -
  let ?f = "fair_share low bs"
  have low: "0 \<le> low" "low \<le> mark" using MemoryLowMark_bounds [OF assms(1)] by (simp_all add: low_def)
  have mid: "(low + mark) sdiv 2 \<le> mark" using low assms(1) by (simp add: sdiv_nonneg)
  have q: "go_quot low (int (length bs)) = Some ?f"
    using assms(3) low(1) by (simp add: go_quot_def fair_share_def sdiv_nonneg)
  show ?thesis
  proof (cases "\<exists>b \<in> set bs. ?f < b")
    case True
    then have l: "0 < int (length (filter (\<lambda>b. \<not> b \<le> ?f) bs))" by (auto simp: filter_empty_conv not_le)
    have "0 \<le> ?f" using low(1) by (simp add: fair_share_def pos_imp_zdiv_nonneg_iff assms(3))
    have "?f * int (length bs) \<le> low" using assms(3) by (rule fair_share_bound)
    then have "0 \<le> low - sum_list (filter (\<lambda>b. b \<le> ?f) bs)"
      using small_bound [of ?f bs] length_split [of bs "\<lambda>b. b \<le> ?f"] \<open>0 \<le> ?f\<close>
      by (smt (verit) mult_right_mono of_nat_add of_nat_0_le_iff mult.commute)
    then have "go_quot (low - sum_list (filter (\<lambda>b. b \<le> ?f) bs)) (int (length (filter (\<lambda>b. \<not> b \<le> ?f) bs))) = Some (large_share low bs)"
      using l by (simp add: go_quot_def large_share_def sdiv_nonneg)
    then show ?thesis
      using True q mid assms(2) unfolding tor_Expire_def Let_def MemoryHighMark_def low_def [symmetric] by (simp add: expire_count_eq)
  next
    case False
    then have "filter (\<lambda>b. \<not> b \<le> ?f) bs = []" by (auto simp: filter_empty_conv)
    then show ?thesis
      using False q mid assms(2) by (simp add: tor_Expire_def Let_def MemoryHighMark_def expire_count_eq go_quot_def low_def)
  qed
qed

text \<open>
  C23. Memory is shared fairly. When the memory in use has reached the mark and the torrents use more than seven eighths of it together,
  \<^verbatim>\<open>Expire\<close> does not panic and asks some torrents to come down to a common number of bytes: exactly those that use
  more than that. Once they have, all torrents together use at most seven eighths of the mark. A torrent that uses at most an equal share of it is left alone. The time to the next call
  stays between a quarter of a second and sixteen seconds.
\<close>

theorem memory_shared_fairly:
  assumes "0 \<le> mark" and "mark \<le> space" and "MemoryLowMark mark < sum_list bs" and "\<forall>b \<in> set bs. 0 \<le> b"
    and "250000000 \<le> interval" and "interval \<le> 16000000000"
  shows "\<exists>share cuts. tor_Expire mark space bs = Some (- 1, cuts)
    \<and> (\<forall>i x. (i, x) \<in> set cuts \<longleftrightarrow> i < length bs \<and> bs ! i > share \<and> x = share)
    \<and> (\<Sum>b\<leftarrow>bs. min b share) \<le> MemoryLowMark mark
    \<and> (\<forall>i < length bs. bs ! i * int (length bs) \<le> MemoryLowMark mark \<longrightarrow> i \<notin> fst ` set cuts)
    \<and> (\<forall>rc. 250000000 \<le> expire_interval rc interval \<and> expire_interval rc interval \<le> 16000000000)"
proof -
  let ?low = "MemoryLowMark mark"
  have low: "0 \<le> ?low" using MemoryLowMark_bounds [OF assms(1)] by simp
  have ne: "bs \<noteq> []" using assms(3) low by auto
  have big: "\<exists>b \<in> set bs. fair_share ?low bs < b"
  proof (rule ccontr)
    assume "\<not> ?thesis"
    then have "filter (\<lambda>b. b \<le> fair_share ?low bs) bs = bs" by (auto simp: filter_id_conv not_less)
    then have "sum_list bs \<le> int (length bs) * fair_share ?low bs" using small_bound [of "fair_share ?low bs" bs] by simp
    also have "\<dots> \<le> ?low" using fair_share_bound [OF ne, of ?low] by (simp add: mult.commute)
    finally show False using assms(3) by simp
  qed
  let ?cuts = "[(i, large_share ?low bs). (i, b) \<leftarrow> enumerate 0 bs, b > large_share ?low bs]"
  have cuts: "(i, x) \<in> set ?cuts \<longleftrightarrow> i < length bs \<and> bs ! i > large_share ?low bs \<and> x = large_share ?low bs" for i x
    by (auto simp: in_set_enumerate_eq)
  have "bs ! i \<le> large_share ?low bs" if "i < length bs" "bs ! i * int (length bs) \<le> ?low" for i
  proof -
    have "bs ! i \<le> fair_share ?low bs" using that ne by (simp add: fair_share_def le_div_iff_int)
    then show ?thesis using large_share_fair [OF low big] by simp
  qed
  moreover have "tor_Expire mark space bs = Some (- 1, ?cuts)" using tor_Expire_eq [OF assms(1,2) ne] big by simp
  moreover have "250000000 \<le> expire_interval rc interval \<and> expire_interval rc interval \<le> 16000000000" for rc
    using assms(5,6) by (simp add: expire_interval_def Let_def sdiv_nonneg) presburger
  ultimately show ?thesis
    using cuts large_share_total [OF low big] by (intro exI [of _ "large_share ?low bs"] exI [of _ ?cuts]) fastforce
qed

theorem memory_shared_fairly_witness:
  "\<exists>share cuts. tor_Expire 800 900 [100, 700, 300] = Some (- 1, cuts)
    \<and> (\<forall>i x. (i, x) \<in> set cuts \<longleftrightarrow> i < length [100, 700, 300 :: int] \<and> [100, 700, 300] ! i > share \<and> x = share)
    \<and> (\<Sum>b\<leftarrow>[100, 700, 300]. min b share) \<le> MemoryLowMark 800"
proof -
  have "MemoryLowMark 800 < sum_list [100, 700, 300]" by code_simp
  then show ?thesis using memory_shared_fairly [of 800 900 "[100, 700, 300]" 1000000000] by auto
qed

text \<open>\<^verbatim>\<open>Expire\<close> divides by 0 when memory is in use but every torrent is within its share, or there is no torrent.\<close>

theorem tor_Expire_panics_iff:
  assumes "0 \<le> mark"
  shows "tor_Expire mark space bs = None \<longleftrightarrow>
    mark \<le> space \<and> (bs = [] \<or> (\<forall>b \<in> set bs. b \<le> fair_share (MemoryLowMark mark) bs))"
proof (cases "mark \<le> space \<and> bs \<noteq> []")
  case True
  then show ?thesis using tor_Expire_eq [OF assms] by (force simp: not_le not_less)
next
  case False
  have "0 \<le> MemoryLowMark mark" "MemoryLowMark mark \<le> mark" using MemoryLowMark_bounds [OF assms] by simp_all
  then have "(MemoryLowMark mark + mark) sdiv 2 \<le> mark" using assms by (simp add: sdiv_nonneg)
  then show ?thesis using False by (auto simp: tor_Expire_def Let_def MemoryHighMark_def go_quot_def)
qed

end
