(* ===== verification/Tracker.thy ===== *)
theory Tracker
  imports Metadata Binary Conn
begin

section \<open>Trackers (tracker/tracker.go, tracker/udp.go, tracker/http.go)\<close>

text \<open>
  The lifetime of a tracker, the UDP protocol of BEP-15, and the replies of HTTP trackers. What the
  network does is an argument: for UDP the list of what happens to each request; for HTTP the decoded reply. Resolving names, proxies
  and the HTTP request itself are left out.
\<close>

subsection \<open>Lifetime\<close>

datatype tracker_error =
  ErrTrackerNotReady | ErrTrackerParse | ErrTrackerURL | ErrTrackerCancelled | ErrTrackerAction | ErrTrackerMessage "byte list" | ErrTrackerIo io_error

record tracker =
  tr_time :: gotime
  tr_interval :: int
  tr_err :: "tracker_error option"
  tr_locked :: bool

datatype tracker_state = Disabled | TrError | Busy | Idle | Ready

definition tracker_new :: "gotime \<Rightarrow> tracker" where
  "tracker_new t0 = \<lparr>tr_time = t0, tr_interval = 0, tr_err = None, tr_locked = False\<rparr>"

definition tryLock :: "tracker \<Rightarrow> bool \<times> tracker" where
  "tryLock tr = (if tr_locked tr then (False, tr) else (True, tr\<lparr>tr_locked := True\<rparr>))"

definition tracker_unlock :: "tracker \<Rightarrow> tracker option" where
  "tracker_unlock tr = (if tr_locked tr then Some (tr\<lparr>tr_locked := False\<rparr>) else None)"

definition tracker_ready :: "gotime \<Rightarrow> tracker \<Rightarrow> bool" where
  "tracker_ready now tr =
     (let i = (if tr_interval tr \<le> 0 then 30 * time_Minute else tr_interval tr);
          i = (if i < 5 * time_Minute then 5 * time_Minute else i)
      in tr_time tr + i < now)"

definition GetState :: "gotime \<Rightarrow> tracker \<Rightarrow> ((tracker_state \<times> tracker_error option) \<times> tracker) option" where
  "GetState now tr =
     (case tryLock tr of
        (False, tr1) \<Rightarrow> Some ((Busy, None), tr1)
      | (True, tr1) \<Rightarrow>
          (case tracker_unlock tr1 of
             None \<Rightarrow> None
           | Some tr2 \<Rightarrow>
               Some (if tracker_ready now tr1 then (Ready, None)
                     else if tr_err tr2 \<noteq> None then (TrError, tr_err tr2) else (Idle, None), tr2)))"

definition updateInterval :: "int \<Rightarrow> tracker_error option \<Rightarrow> tracker \<Rightarrow> tracker" where
  "updateInterval interval err tr =
     (let tr1 = tr\<lparr>tr_err := err\<rparr>
      in if interval > time_Minute then tr1\<lparr>tr_interval := interval\<rparr>
         else if tr_interval tr1 < 15 * time_Minute then tr1\<lparr>tr_interval := 15 * time_Minute\<rparr>
         else tr1)"

text \<open>
  \<^verbatim>\<open>Announce\<close> in two parts, before and after the two requests over IPv4 and IPv6 that run in parallel. The first part returns an error, or none when the requests are to be
  made. \<open>urlok\<close> says whether the URL can be parsed.
\<close>

definition Announce_begin :: "gotime \<Rightarrow> bool \<Rightarrow> tracker \<Rightarrow> (tracker_error option \<times> tracker) option" where
  "Announce_begin now urlok tr =
     (case tryLock tr of
        (False, tr1) \<Rightarrow> Some (Some ErrTrackerNotReady, tr1)
      | (True, tr1) \<Rightarrow>
          if \<not> tracker_ready now tr1 then map_option (\<lambda>tr2. (Some ErrTrackerNotReady, tr2)) (tracker_unlock tr1)
          else if \<not> urlok
          then map_option (\<lambda>tr2. (Some ErrTrackerURL, tr2)) (tracker_unlock (updateInterval 0 (Some ErrTrackerURL) tr1))
          else Some (None, tr1\<lparr>tr_time := now\<rparr>))"

definition both_failed :: "tracker_error option \<Rightarrow> tracker_error option \<Rightarrow> tracker_error option" where
  "both_failed e4 e6 = (if e4 \<noteq> None \<and> e6 \<noteq> None then e4 else None)"

definition Announce_end :: "int \<times> tracker_error option \<Rightarrow> int \<times> tracker_error option \<Rightarrow> tracker \<Rightarrow> (tracker_error option \<times> tracker) option" where
  "Announce_end r4 r6 tr =
     (let err = both_failed (snd r4) (snd r6); interval = (if fst r4 < fst r6 then fst r6 else fst r4)
      in map_option (\<lambda>tr1. (err, tr1)) (tracker_unlock (updateInterval interval err tr)))"

subsection \<open>UDP\<close>

definition put_u64 :: "64 word \<Rightarrow> byte list" where
  "put_u64 w = be_encode 8 (unat w)"

definition get_u64 :: "byte list \<Rightarrow> 64 word" where
  "get_u64 bs = of_nat (be_decode (take 8 bs))"

text \<open>What happens to one request: the context is cancelled before or after it is sent, the deadline cannot be set, writing or reading fails, or a datagram arrives.\<close>

datatype udp_io = UCancelled | UDeadline io_error | UWrite io_error | UCancelled2 | URead io_error | UReply "byte list"

text \<open>
  At most \<open>k\<close> more attempts, with the error of the last one. The results are a panic (\<open>None\<close>), an error or the reply behind its first 8 bytes, and what is left
  of the network's doings. A read returns at most 4096 bytes; the callers' \<open>mn\<close> is at least 8. When nothing more is said to happen the read times out.
\<close>

fun udp_attempts ::
  "nat \<Rightarrow> nat \<Rightarrow> u32 \<Rightarrow> u32 \<Rightarrow> tracker_error option \<Rightarrow> udp_io list \<Rightarrow> (tracker_error + byte list) option \<times> udp_io list" where
  "udp_attempts 0 mn action tid err ios = (map_option Inl err, ios)"
| "udp_attempts (Suc k) mn action tid err [] = udp_attempts k mn action tid (Some (ErrTrackerIo IoBroken)) []"
| "udp_attempts (Suc k) mn action tid err (io # ios) =
     (case io of
        UCancelled \<Rightarrow> (Some (Inl ErrTrackerCancelled), ios)
      | UDeadline e \<Rightarrow> (Some (Inl (ErrTrackerIo e)), ios)
      | UWrite e \<Rightarrow> udp_attempts k mn action tid (Some (ErrTrackerIo e)) ios
      | UCancelled2 \<Rightarrow> (Some (Inl ErrTrackerCancelled), ios)
      | URead e \<Rightarrow> udp_attempts k mn action tid (Some (ErrTrackerIo e)) ios
      | UReply datagram \<Rightarrow>
          let buf = take 4096 datagram; a = get_u32 buf; t = get_u32 (drop 4 buf)
          in if length buf < mn then udp_attempts k mn action tid (Some ErrTrackerParse) ios
             else if t \<noteq> tid then udp_attempts k mn action tid None ios
             else if a = 3 then (Some (Inl (ErrTrackerMessage (drop 8 buf))), ios)
             else if a \<noteq> action then (Some (Inl ErrTrackerAction), ios)
             else (Some (Inr (drop 8 buf)), ios))"

definition udpRequestReply :: "nat \<Rightarrow> u32 \<Rightarrow> u32 \<Rightarrow> udp_io list \<Rightarrow> (tracker_error + byte list) option \<times> udp_io list" where
  "udpRequestReply mn action tid ios = udp_attempts 4 mn action tid None ios"

definition connect_request :: "u32 \<Rightarrow> byte list" where
  "connect_request tid = put_u64 0x41727101980 @ put_u32 0 @ put_u32 tid"

definition announce_request :: "64 word \<Rightarrow> u32 \<Rightarrow> byte list \<Rightarrow> byte list \<Rightarrow> int \<Rightarrow> int \<Rightarrow> int \<Rightarrow> byte list" where
  "announce_request cid tid hsh myid want len port =
     put_u64 cid @ put_u32 1 @ put_u32 tid @ hsh @ myid @
     put_u64 (word_of_int (len sdiv 2)) @ put_u64 (word_of_int (len sdiv 2)) @ put_u64 (word_of_int (2 * len)) @
     put_u32 0 @ put_u32 0 @ put_u32 0 @ put_u32 (word_of_int want) @ put_u16 (word_of_int port)"

text \<open>The addresses in a reply, with \<open>l\<close> bytes for the address; an error if bytes are left over.\<close>

function udp_addresses :: "nat \<Rightarrow> byte list \<Rightarrow> addrport list \<times> tracker_error option" where
  "udp_addresses l r =
     (if r = [] then ([], None)
      else if length r < l + 2 then ([], Some (ErrTrackerIo IoUnexpectedEOF))
      else let (as, e) = udp_addresses l (drop (l + 2) r)
           in (case AddrFromSlice (take l r) of
                 Some ip \<Rightarrow> ((ip, 256 * ucast (r ! l) + ucast (r ! (l + 1))) # as, e)
               | None \<Rightarrow> (as, e)))"
  by pat_completeness auto
termination by (relation "measure (\<lambda>(l, r). length r)") auto

text \<open>
  \<^verbatim>\<open>announceUDP\<close> once connected, over IPv6 or IPv4, with the two transaction numbers. The result is the interval and the error, the addresses handed to the
  callback, and the second request if there was one.
\<close>

definition announceUDP ::
  "bool \<Rightarrow> u32 \<Rightarrow> u32 \<Rightarrow> byte list \<Rightarrow> byte list \<Rightarrow> int \<Rightarrow> int \<Rightarrow> int \<Rightarrow> udp_io list
     \<Rightarrow> ((int \<times> tracker_error option) \<times> addrport list \<times> byte list) option" where
  "announceUDP ipv6 tid tid2 hsh myid want len port ios =
     (case udpRequestReply 16 0 tid ios of
        (None, ios1) \<Rightarrow> None
      | (Some (Inl e), ios1) \<Rightarrow> Some ((0, Some e), [], [])
      | (Some (Inr r), ios1) \<Rightarrow>
          let req = announce_request (get_u64 r) tid2 hsh myid want len port in
          (case udpRequestReply 20 1 tid2 ios1 of
             (None, ios2) \<Rightarrow> None
           | (Some (Inl e), ios2) \<Rightarrow> Some ((0, Some e), [], req)
           | (Some (Inr r2), ios2) \<Rightarrow>
               let (as, e) = udp_addresses (if ipv6 then 16 else 4) (drop 12 r2)
               in Some ((uint (get_u32 r2) * 1000000000, e), as, req)))"

subsection \<open>HTTP\<close>

text \<open>
  A decoded reply: the bencode library and \<^verbatim>\<open>netip.ParseAddr\<close> have been applied to the peers, \<^verbatim>\<open>strconv.Atoi\<close> to the delay.
\<close>

datatype retry_in = RetryNever | RetryMinutes int | RetryOther

record http_reply =
  ht_failure :: "byte list"
  ht_retryIn :: retry_in
  ht_interval :: int
  ht_compact :: "byte list option"
  ht_list :: "(addr option \<times> u16) list option"
  ht_peers6 :: "byte list"

function compact_addresses :: "nat \<Rightarrow> byte list \<Rightarrow> addrport list" where
  "compact_addresses l r =
     (if length r < l + 2 then []
      else (case AddrFromSlice (take l r) of
              Some ip \<Rightarrow> (ip, 256 * ucast (r ! l) + ucast (r ! (l + 1))) # compact_addresses l (drop (l + 2) r)
            | None \<Rightarrow> compact_addresses l (drop (l + 2) r)))"
  by pat_completeness auto
termination by (relation "measure (\<lambda>(l, r). length r)") auto

definition http_retry :: "retry_in \<Rightarrow> int" where
  "http_retry r =
     (case r of
        RetryNever \<Rightarrow> 2400 * 60 * time_Minute
      | RetryMinutes m \<Rightarrow> if m > 0 then wrap64 (m * time_Minute) else 0
      | RetryOther \<Rightarrow> 0)"

text \<open>The rest of \<^verbatim>\<open>announceHTTP\<close>: the interval in seconds and the error, the addresses, and the tracker, whose interval a failure sets.\<close>

definition announceHTTP :: "http_reply \<Rightarrow> tracker \<Rightarrow> (int \<times> tracker_error option) \<times> addrport list \<times> tracker" where
  "announceHTTP reply tr =
     (if ht_failure reply \<noteq> []
      then ((0, Some (ErrTrackerMessage (ht_failure reply))), [], tr\<lparr>tr_interval := http_retry (ht_retryIn reply)\<rparr>)
      else let peers4 = (case ht_compact reply of
                           Some bs \<Rightarrow> if length bs mod 6 = 0 then Some (compact_addresses 4 bs) else None
                         | None \<Rightarrow> None);
               peers = (case peers4 of
                          Some as \<Rightarrow> as
                        | None \<Rightarrow> (case ht_list reply of
                                     Some ps \<Rightarrow> [(ip, port). (Some ip, port) \<leftarrow> ps]
                                   | None \<Rightarrow> []));
               peers6 = (if length (ht_peers6 reply) mod 18 = 0 then compact_addresses 16 (ht_peers6 reply) else [])
           in ((ht_interval reply, None), peers @ peers6, tr))"

definition http_interval :: "int \<Rightarrow> int" where
  "http_interval secs = wrap64 (secs * 1000000000)"

text \<open>The second part of \<^verbatim>\<open>Announce\<close> for HTTP; through a proxy there is one request only.\<close>

definition http_Announce_end ::
  "bool \<Rightarrow> int \<times> tracker_error option \<Rightarrow> int \<times> tracker_error option \<Rightarrow> tracker \<Rightarrow> (tracker_error option \<times> tracker) option" where
  "http_Announce_end proxied r4 r6 tr =
     (let (interval, err) =
        (if proxied then r4 else (if fst r4 < fst r6 then fst r6 else fst r4, both_failed (snd r4) (snd r6)))
      in map_option (\<lambda>tr1. (err, tr1)) (tracker_unlock (updateInterval (http_interval interval) err tr)))"

end
