(* ===== verification/Tracker_Props.thy ===== *)
theory Tracker_Props
  imports Tracker
begin

section \<open>Properties of trackers\<close>

subsection \<open>Lifetime\<close>

text \<open>
  The state of a tracker with the times at which it was announced to, the latest first. A step is an attempt to
  announce, a failure that sets the interval or the end of an announce, both by the goroutine that has the lock, or a query of the state.
\<close>

datatype tracker_op =
    Tr_begin gotime bool
  | Tr_failure http_reply
  | Tr_end "int \<times> tracker_error option" "int \<times> tracker_error option"
  | Tr_http_end bool "int \<times> tracker_error option" "int \<times> tracker_error option"
  | Tr_state gotime

fun tr_step :: "tracker \<times> gotime list \<Rightarrow> tracker_op \<Rightarrow> (tracker \<times> gotime list) option" where
  "tr_step (tr, ts) (Tr_begin now urlok) =
     map_option (\<lambda>(e, tr1). (tr1, if e = None then now # ts else ts)) (Announce_begin now urlok tr)"
| "tr_step (tr, ts) (Tr_failure reply) = Some (snd (snd (announceHTTP reply tr)), ts)"
| "tr_step (tr, ts) (Tr_end r4 r6) = map_option (\<lambda>(e, tr1). (tr1, ts)) (Announce_end r4 r6 tr)"
| "tr_step (tr, ts) (Tr_http_end proxied r4 r6) = map_option (\<lambda>(e, tr1). (tr1, ts)) (http_Announce_end proxied r4 r6 tr)"
| "tr_step (tr, ts) (Tr_state now) = map_option (\<lambda>(r, tr1). (tr1, ts)) (GetState now tr)"

fun tr_permitted :: "tracker \<times> gotime list \<Rightarrow> tracker_op \<Rightarrow> bool" where
  "tr_permitted s (Tr_begin now urlok) = True"
| "tr_permitted s (Tr_state now) = True"
| "tr_permitted s a = tr_locked (fst s)"

text \<open>Successive announces are more than five minutes apart.\<close>

fun spaced :: "gotime list \<Rightarrow> bool" where
  "spaced (t # u # ts) = (u + 5 * time_Minute < t \<and> spaced (u # ts))"
| "spaced ts = True"

definition tr_inv :: "tracker \<times> gotime list \<Rightarrow> bool" where
  "tr_inv s = (spaced (snd s) \<and> (snd s \<noteq> [] \<longrightarrow> hd (snd s) = tr_time (fst s)))"

lemma tracker_ready_bound: "tracker_ready now tr \<Longrightarrow> tr_time tr + 5 * time_Minute < now"
  by (auto simp: tracker_ready_def Let_def split: if_splits)

lemma updateInterval_keeps [simp]: "tr_time (updateInterval i e tr) = tr_time tr" "tr_locked (updateInterval i e tr) = tr_locked tr"
  by (simp_all add: updateInterval_def Let_def)

lemma announceHTTP_keeps [simp]:
  "tr_time (snd (snd (announceHTTP reply tr))) = tr_time tr" "tr_locked (snd (snd (announceHTTP reply tr))) = tr_locked tr"
  by (simp_all add: announceHTTP_def Let_def)

lemma tr_step_begin:
  assumes "tr_inv (tr, ts)"
  shows "\<exists>s. tr_step (tr, ts) (Tr_begin now urlok) = Some s \<and> tr_inv s"
  using assms tracker_ready_bound [of now "tr\<lparr>tr_locked := True\<rparr>"]
  by (cases ts) (auto simp: Announce_begin_def tryLock_def tracker_unlock_def tr_inv_def split: if_splits)

lemma tr_step_progress:
  assumes "tr_inv s" and "tr_permitted s a"
  shows "\<exists>s'. tr_step s a = Some s' \<and> tr_inv s'"
proof -
  obtain tr ts where s: "s = (tr, ts)" by (cases s)
  show ?thesis
  proof (cases a)
    case (Tr_begin now urlok)
    then show ?thesis using tr_step_begin assms(1) s by simp
  next
    case (Tr_state now)
    then show ?thesis using assms s by (auto simp: GetState_def tryLock_def tracker_unlock_def tr_inv_def)
  qed (use assms s in \<open>auto simp: tr_inv_def Announce_end_def http_Announce_end_def tracker_unlock_def Let_def split: prod.splits\<close>)
qed

interpretation trk: machine tr_permitted tr_step tr_inv
  by unfold_locales (rule tr_step_progress)


definition demo_tracker_ops :: "tracker_op list" where
  "demo_tracker_ops = [Tr_begin (31 * time_Minute) True, Tr_begin (32 * time_Minute) True, Tr_state (33 * time_Minute),
     Tr_end (600 * time_Second, None) (0, Some ErrTrackerParse), Tr_begin (42 * time_Minute) True]"



subsection \<open>UDP requests\<close>

text \<open>Whether what happens to a request makes the program try again, and the error it has then.\<close>

definition io_retry :: "nat \<Rightarrow> u32 \<Rightarrow> udp_io \<Rightarrow> tracker_error option option" where
  "io_retry mn tid io =
     (case io of
        UWrite e \<Rightarrow> Some (Some (ErrTrackerIo e))
      | URead e \<Rightarrow> Some (Some (ErrTrackerIo e))
      | UReply d \<Rightarrow>
          if length (take 4096 d) < mn then Some (Some ErrTrackerParse)
          else if get_u32 (drop 4 (take 4096 d)) \<noteq> tid then Some None else None
      | _ \<Rightarrow> None)"

lemma udp_attempts_retry:
  "io_retry mn tid io = Some e \<Longrightarrow> udp_attempts (Suc k) mn action tid err (io # ios) = udp_attempts k mn action tid e ios"
  by (auto simp: io_retry_def Let_def split: udp_io.splits if_splits)

lemma udp_attempts_ends: "io_retry mn tid io = None \<Longrightarrow> \<exists>r. udp_attempts (Suc k) mn action tid err (io # ios) = (Some r, ios)"
  by (auto simp: io_retry_def Let_def split: udp_io.splits if_splits)

lemma udp_attempts_idle: "err \<noteq> None \<Longrightarrow> fst (udp_attempts k mn action tid err []) \<noteq> None"
  by (induction k arbitrary: err) auto

lemma udp_attempts_panic:
  "fst (udp_attempts k mn action tid err ios) = None \<longleftrightarrow>
     (if k = 0 then err = None
      else k \<le> length ios \<and> (\<forall>io \<in> set (take k ios). io_retry mn tid io \<noteq> None) \<and> io_retry mn tid (ios ! (k - 1)) = Some None)"
proof (induction k arbitrary: err ios)
  case (Suc k)
  show ?case
  proof (cases ios)
    case Nil
    then show ?thesis using udp_attempts_idle by simp
  next
    case (Cons io ios')
    show ?thesis
    proof (cases "io_retry mn tid io")
      case None
      then show ?thesis using udp_attempts_ends [OF None, of k action err ios'] Cons by (auto simp del: udp_attempts.simps)
    next
      case (Some e)
      show ?thesis
        using Suc.IH [of e ios'] udp_attempts_retry [OF Some] Some Cons
        by (cases k) (auto simp del: udp_attempts.simps(3))
    qed
  qed
qed simp

text \<open>
  C37. A tracker can make the program panic. A UDP request is tried at most four times, and ends in an error or with a reply, except when
  every attempt fails in a way that makes the program try again and the last of the four is answered by a datagram that is long enough but has the number of another
  transaction, a late reply for instance: then the program panics.
\<close>

theorem udp_stray_reply_panics:
  "fst (udpRequestReply mn action tid ios) = None \<longleftrightarrow>
     4 \<le> length ios \<and> (\<forall>i < 3. io_retry mn tid (ios ! i) \<noteq> None) \<and>
     (\<exists>d. ios ! 3 = UReply d \<and> mn \<le> length (take 4096 d) \<and> get_u32 (drop 4 (take 4096 d)) \<noteq> tid)"
proof -
  have last: "io_retry mn tid io = Some None \<longleftrightarrow>
      (\<exists>d. io = UReply d \<and> mn \<le> length (take 4096 d) \<and> get_u32 (drop 4 (take 4096 d)) \<noteq> tid)" for io
    by (cases io) (auto simp: io_retry_def)
  have "(\<forall>io \<in> set (take 4 ios). io_retry mn tid io \<noteq> None) \<longleftrightarrow> (\<forall>i < 4. io_retry mn tid (ios ! i) \<noteq> None)" if "4 \<le> length ios"
    using that by (auto simp: all_set_conv_all_nth [where P = "\<lambda>x. io_retry mn tid x \<noteq> None", simplified] in_set_conv_nth)
  moreover have "i < 4 \<longleftrightarrow> i < 3 \<or> i = 3" for i :: nat by auto
  ultimately show ?thesis
    unfolding last [symmetric] udpRequestReply_def udp_attempts_panic by auto
qed

theorem udp_stray_reply_panics_witness:
  "fst (udpRequestReply 16 0 7 [URead IoBroken, UReply [1], URead IoBroken, UReply (replicate 16 1)]) = None"
proof -
  have "(\<forall>i < 3. io_retry 16 7 ([URead IoBroken, UReply [1], URead IoBroken, UReply (replicate 16 1)] ! i) \<noteq> None)"
    and "get_u32 (drop 4 (take 4096 (replicate 16 1))) \<noteq> 7" by code_simp+
  then show ?thesis
    using udp_stray_reply_panics [of 16 0 7 "[URead IoBroken, UReply [1], URead IoBroken, UReply (replicate 16 1)]"] by simp
qed

subsection \<open>Announcing over UDP\<close>

text \<open>The replies of a tracker, with the addresses in the compact format.\<close>

definition connect_reply :: "u32 \<Rightarrow> 64 word \<Rightarrow> byte list" where
  "connect_reply tid cid = put_u32 0 @ put_u32 tid @ put_u64 cid"

definition addr_bytes :: "addrport \<Rightarrow> byte list" where
  "addr_bytes a = (if addr_Is4 (fst a) then addr_As4 (fst a) else addr_As16 (fst a)) @ put_u16 (snd a)"

definition announce_reply :: "u32 \<Rightarrow> u32 \<Rightarrow> u32 \<Rightarrow> u32 \<Rightarrow> addrport list \<Rightarrow> byte list" where
  "announce_reply tid intvl leechers seeders peers =
     put_u32 1 @ put_u32 tid @ put_u32 intvl @ put_u32 leechers @ put_u32 seeders @ concat (map addr_bytes peers)"

definition of_family :: "bool \<Rightarrow> addrport \<Rightarrow> bool" where
  "of_family ipv6 a = (case fst a of Addr4 w \<Rightarrow> \<not> ipv6 | Addr6 w z \<Rightarrow> ipv6 \<and> z = [] | NoAddr \<Rightarrow> False)"

lemma put_get_port: "put_u16 p = [x, y] \<Longrightarrow> 256 * ucast x + ucast y = p"
proof -
  assume eq: "put_u16 p = [x, y]"
  have "be_decode (put_u16 p) = unat p"
    unfolding put_u16_def using unat_u16_bound [of p] by (intro be_decode_encode) simp
  then have "unat x * 256 + unat y = unat p" unfolding eq by (simp add: be_decode_def)
  then have "(of_nat (unat x * 256 + unat y) :: u16) = p" by simp
  then show ?thesis by (simp add: mult.commute)
qed

lemma addr_bytes_parts:
  assumes "of_family ipv6 a"
  shows "\<exists>ip x y. addr_bytes a = ip @ [x, y] \<and> length ip = (if ipv6 then 16 else 4) \<and> AddrFromSlice ip = Some (fst a)
    \<and> 256 * ucast x + ucast y = snd a"
proof -
  obtain x y where p: "put_u16 (snd a) = [x, y]" by (simp add: put_u16_def numeral_2_eq_2)
  show ?thesis
    using assms p put_get_port [OF p] AddrFromSlice_As4 AddrFromSlice_As16
    by (cases "fst a") (auto simp: of_family_def addr_bytes_def addr_Is4_def addr_As4_def addr_As16_def simp del: be_encode.simps)
qed


lemma udp_addresses_encoded:
  "list_all (of_family ipv6) peers \<Longrightarrow>
     udp_addresses (if ipv6 then 16 else 4) (concat (map addr_bytes peers)) = (peers, None)"
proof (induction peers)
  case (Cons a peers)
  let ?l = "if ipv6 then 16 else 4 :: nat"
  obtain ip x y where a: "addr_bytes a = ip @ [x, y]" "length ip = ?l" "AddrFromSlice ip = Some (fst a)" "256 * ucast x + ucast y = snd a"
    using addr_bytes_parts Cons.prems by fastforce
  let ?r = "ip @ [x, y] @ concat (map addr_bytes peers)"
  have "take ?l ?r = ip" "drop (?l + 2) ?r = concat (map addr_bytes peers)" "?r ! ?l = x" "?r ! (?l + 1) = y" "\<not> length ?r < ?l + 2" "?r \<noteq> []"
    using a(2) by (simp_all add: nth_append)
  then have "udp_addresses ?l ?r = ((fst a, snd a) # peers, None)"
    using Cons a(3,4) by (subst udp_addresses.simps) simp
  then show ?case by (simp add: a(1))
qed simp

lemma udp_attempts_skip:
  assumes "\<forall>io \<in> set bad. io_retry mn tid io \<noteq> None" and "length bad \<le> k"
  shows "\<exists>err'. udp_attempts k mn action tid err (bad @ ios) = udp_attempts (k - length bad) mn action tid err' ios"
  using assms
proof (induction bad arbitrary: k err)
  case (Cons io bad)
  then obtain e k' where e: "io_retry mn tid io = Some e" and k: "k = Suc k'" by (cases k) auto
  show ?case using Cons.IH [of k' e] Cons.prems udp_attempts_retry [OF e, of k' action err "bad @ ios"] k by auto
qed auto

text \<open>A reply with the right numbers after at most three attempts that came to nothing.\<close>

lemma udp_reply:
  assumes "\<forall>io \<in> set bad. io_retry mn tid io \<noteq> None" and "length bad \<le> 3"
    and "length (put_u32 action @ put_u32 tid @ body) \<le> 4096" and "mn \<le> 8 + length body" and "action \<noteq> 3"
  shows "udpRequestReply mn action tid (bad @ UReply (put_u32 action @ put_u32 tid @ body) # ios) = (Some (Inr body), ios)"
proof -
  have k: "4 - length bad = Suc (3 - length bad)" using assms(2) by simp
  obtain err where "udp_attempts 4 mn action tid None (bad @ UReply (put_u32 action @ put_u32 tid @ body) # ios) =
      udp_attempts (Suc (3 - length bad)) mn action tid err (UReply (put_u32 action @ put_u32 tid @ body) # ios)"
    using udp_attempts_skip [OF assms(1), of 4 action None "UReply (put_u32 action @ put_u32 tid @ body) # ios"] assms(2)
    unfolding k by (auto simp del: udp_attempts.simps)
  moreover have "take 4096 (put_u32 action @ put_u32 tid @ body) = put_u32 action @ put_u32 tid @ body" using assms(3) by (intro take_all) simp
  ultimately show ?thesis using assms(4,5) by (simp add: udpRequestReply_def get_put_u32)
qed

lemma get_put_u64: "get_u64 (put_u64 w @ bs) = w"
proof -
  have "unat w < 2 ^ LENGTH(64)" by (rule unsigned_less)
  then have "unat w < 256 ^ 8" by simp
  then show ?thesis by (simp add: get_u64_def put_u64_def be_decode_encode del: be_encode.simps)
qed

text \<open>
  C25. An announce over UDP works as BEP-15 says. If the tracker's replies to both requests arrive after at most three attempts each that came to nothing, because datagrams were
  lost, cut short or belonged to another transaction, then the second request carries the connection number of the first reply, the announce succeeds with the
  tracker's interval, and the callback gets exactly the addresses that the tracker sent, in order.
\<close>

theorem udp_announce_delivers:
  assumes "\<forall>io \<in> set bad. io_retry 16 tid io \<noteq> None" and "length bad \<le> 3"
    and "\<forall>io \<in> set bad2. io_retry 20 tid2 io \<noteq> None" and "length bad2 \<le> 3"
    and "list_all (of_family ipv6) peers" and "length (announce_reply tid2 intvl leechers seeders peers) \<le> 4096"
  shows "announceUDP ipv6 tid tid2 hsh myid want len port
      (bad @ UReply (connect_reply tid cid) # bad2 @ UReply (announce_reply tid2 intvl leechers seeders peers) # ios)
    = Some ((uint intvl * time_Second, None), peers, announce_request cid tid2 hsh myid want len port)"
proof -
  let ?body = "put_u32 intvl @ put_u32 leechers @ put_u32 seeders @ concat (map addr_bytes peers)"
  let ?ios = "bad2 @ UReply (announce_reply tid2 intvl leechers seeders peers) # ios"
  have "udpRequestReply 16 0 tid (bad @ UReply (connect_reply tid cid) # ?ios) = (Some (Inr (put_u64 cid)), ?ios)"
    unfolding connect_reply_def using assms(1,2) by (intro udp_reply) (simp_all add: put_u64_def)
  moreover have "udpRequestReply 20 1 tid2 ?ios = (Some (Inr ?body), ios)"
    unfolding announce_reply_def using assms(3,4,6) by (intro udp_reply) (simp_all add: announce_reply_def)
  moreover have "get_u64 (put_u64 cid) = cid" using get_put_u64 [of cid "[]"] by simp
  moreover have "drop 12 ?body = concat (map addr_bytes peers)" "get_u32 ?body = intvl" by (simp_all add: get_put_u32)
  ultimately show ?thesis
    using udp_addresses_encoded [OF assms(5)] by (simp add: announceUDP_def Let_def)
qed

theorem udp_announce_delivers_witness:
  "announceUDP False 5 6 (replicate 20 1) (replicate 20 2) 50 1000 6881
     ([URead IoBroken] @ UReply (connect_reply 5 99) # [UReply (connect_reply 5 98)] @
      UReply (announce_reply 6 1800 1 2 [(Addr4 0x08080808, 80), (Addr4 0x01020304, 6881)]) # [])
   = Some ((uint (1800 :: u32) * time_Second, None), [(Addr4 0x08080808, 80), (Addr4 0x01020304, 6881)],
       announce_request 99 6 (replicate 20 1) (replicate 20 2) 50 1000 6881)"
proof (rule udp_announce_delivers)
  show "\<forall>io \<in> set [URead IoBroken]. io_retry 16 5 io \<noteq> None" by code_simp
  show "\<forall>io \<in> set [UReply (connect_reply 5 98)]. io_retry 20 6 io \<noteq> None" by code_simp
  show "list_all (of_family False) [(Addr4 0x08080808, 80), (Addr4 0x01020304, 6881)]" by code_simp
  show "length (announce_reply 6 1800 1 2 [(Addr4 0x08080808, 80), (Addr4 0x01020304, 6881)]) \<le> 4096" by code_simp
qed simp_all

end
