(* ===== verification/Torfile.thy ===== *)
theory Torfile
  imports Tor_Props "HOL-Library.Countable"
begin

section \<open>Torrent files and magnet links (tor/torfile.go)\<close>

text \<open>
  Reading and writing torrent files, and reading magnet links. The record \<open>tcodec\<close> has what is outside: the bencode package for torrent files, the parser of URLs, and the
  numbers by which the model of a torrent refers to its trackers and web seeds, with their URLs.
\<close>

record btorrent =
  bt_Info :: "byte list option"
  bt_CreationDate :: int
  bt_Announce :: string
  bt_AnnounceList :: "string list list option"
  bt_URLList :: "string list"
  bt_HTTPSeeds :: "string list"

record tcodec =
  tc_meta :: mcodec
  tc_encode :: "btorrent \<Rightarrow> byte list"
  tc_decode :: "byte list \<Rightarrow> btorrent option"
  tc_url :: "string \<Rightarrow> (string \<times> (string \<Rightarrow> string list)) option"
  tc_tracker :: "string \<Rightarrow> nat option"
  tc_trackerURL :: "nat \<Rightarrow> string"
  tc_webseed :: "webseed_kind \<Rightarrow> string \<Rightarrow> nat option"
  tc_webseedURL :: "nat \<Rightarrow> string"

datatype torfile_error = ErrTorDecode | ErrNoInfo | ErrMeta meta_error | ErrNoBtih

subsection \<open>Reading a torrent file\<close>

definition webseedList :: "tcodec \<Rightarrow> webseed_kind \<Rightarrow> string list \<Rightarrow> (webseed_kind \<times> nat) list" where
  "webseedList tc kind urls = map (Pair kind) (List.map_filter (tc_webseed tc kind) urls)"

definition announce_trackers :: "tcodec \<Rightarrow> btorrent \<Rightarrow> nat list list" where
  "announce_trackers tc b =
     (case bt_AnnounceList b of
        Some al \<Rightarrow> map (List.map_filter (tc_tracker tc)) al
      | None \<Rightarrow>
          if bt_Announce b \<noteq> [] then (case tc_tracker tc (bt_Announce b) of Some tr \<Rightarrow> [[tr]] | None \<Rightarrow> []) else [])"

text \<open>The random id and the configuration of the new torrent are arguments; \<open>None\<close> is a panic.\<close>

definition ReadTorrent :: "tcodec \<Rightarrow> hash \<Rightarrow> torConf \<Rightarrow> string \<Rightarrow> byte list \<Rightarrow> (torfile_error + torrent) option" where
  "ReadTorrent tc myid conf proxy file =
     (case tc_decode tc file of
        None \<Rightarrow> Some (Inl ErrTorDecode)
      | Some b \<Rightarrow>
          (case bt_Info b of
             None \<Rightarrow> Some (Inl ErrNoInfo)
           | Some info \<Rightarrow>
               let t = Torrent_New myid conf proxy (mc_sha1 (tc_meta tc) info) [] info (bt_CreationDate b) (announce_trackers tc b)
                         (webseedList tc GetRight (bt_URLList b) @ webseedList tc Hoffman (bt_HTTPSeeds b))
               in (case Torrent_MetadataComplete (tc_meta tc) t of
                     None \<Rightarrow> None
                   | Some (Some e, t1) \<Rightarrow> Some (Inl (ErrMeta e))
                   | Some (None, t1) \<Rightarrow> Some (Inr t1))))"

subsection \<open>Reading a magnet link\<close>

definition btih_prefix :: string where "btih_prefix = ''urn:btih:''"

fun first_btih :: "string list \<Rightarrow> hash option" where
  "first_btih [] = None"
| "first_btih (v # vs) =
     (if take 9 v = btih_prefix
      then (case hash_Parse (drop 9 v) of Some h \<Rightarrow> Some h | None \<Rightarrow> first_btih vs)
      else first_btih vs)"

text \<open>Something that is neither a hash nor a magnet link gives neither a torrent nor an error.\<close>

definition ReadMagnet :: "tcodec \<Rightarrow> hash \<Rightarrow> torConf \<Rightarrow> string \<Rightarrow> string \<Rightarrow> torfile_error + torrent option" where
  "ReadMagnet tc myid conf proxy m =
     (case hash_Parse m of
        Some h \<Rightarrow> Inr (Some (Torrent_New myid conf proxy h [] [] 0 [] []))
      | None \<Rightarrow>
          (case tc_url tc m of
             None \<Rightarrow> Inr None
           | Some (scheme, q) \<Rightarrow>
               if scheme \<noteq> ''magnet'' then Inr None
               else (case first_btih (q ''xt'') of
                       None \<Rightarrow> Inl ErrNoBtih
                     | Some h \<Rightarrow>
                         let announce = map (\<lambda>n. [n]) (List.map_filter (tc_tracker tc) (q ''tr''));
                             webseeds = webseedList tc GetRight (q ''as'') @ webseedList tc GetRight (q ''ws'');
                             dn = (case q ''dn'' of [] \<Rightarrow> [] | d # ds \<Rightarrow> d)
                         in Inr (Some (Torrent_New myid conf proxy h dn [] 0 announce webseeds)))))"

subsection \<open>Writing a torrent file\<close>

definition torrent_file :: "tcodec \<Rightarrow> torrent \<Rightarrow> btorrent" where
  "torrent_file tc t =
     (let as = map (map (tc_trackerURL tc)) (t_trackers t);
          single = (case as of [[a]] \<Rightarrow> True | _ \<Rightarrow> False);
          a = (case as of (a # tier) # tiers \<Rightarrow> a | _ \<Rightarrow> []);
          urls = (\<lambda>kind. map (tc_webseedURL tc \<circ> snd) (filter (\<lambda>w. fst w = kind) (t_webseeds t)))
      in \<lparr>bt_Info = Some (t_Info t), bt_CreationDate = t_CreationDate t, bt_Announce = a,
          bt_AnnounceList = (if single then None else Some as), bt_URLList = urls GetRight, bt_HTTPSeeds = urls Hoffman\<rparr>)"

definition WriteTorrent :: "tcodec \<Rightarrow> torrent \<Rightarrow> byte list" where
  "WriteTorrent tc t = tc_encode tc (torrent_file tc t)"

subsection \<open>Properties\<close>

text \<open>
  What is relied on of the outside: decoding gives back what was encoded, except that an empty list of tiers is left out; and trackers and web seeds keep their URLs.
\<close>

definition omitempty :: "btorrent \<Rightarrow> btorrent" where
  "omitempty b = (if bt_AnnounceList b = Some [] then b\<lparr>bt_AnnounceList := None\<rparr> else b)"

definition tcodec_ok :: "tcodec \<Rightarrow> bool" where
  "tcodec_ok tc \<longleftrightarrow> (\<forall>b. tc_decode tc (tc_encode tc b) = Some (omitempty b))
     \<and> (\<forall>u n. tc_tracker tc u = Some n \<longrightarrow> tc_trackerURL tc n = u)
     \<and> (\<forall>k u n. tc_webseed tc k u = Some n \<longrightarrow> tc_webseedURL tc n = u)"

text \<open>What a torrent that was read has of the file.\<close>

lemma MetadataComplete_keeps:
  assumes "Torrent_MetadataComplete c t = Some (e, t1)"
  shows "t_Info t1 = t_Info t \<and> t_trackers t1 = t_trackers t \<and> t_webseeds t1 = t_webseeds t \<and> t_CreationDate t1 = t_CreationDate t"
  using assms by (auto simp: Torrent_MetadataComplete_def Let_def split: option.splits if_splits sum.splits)

lemma map_filter_map_url:
  assumes "\<forall>u n. f u = Some n \<longrightarrow> g n = u" and "\<forall>n \<in> set ns. \<exists>u. f u = Some n"
  shows "List.map_filter f (map g ns) = ns"
  using assms by (induction ns) (auto simp: map_filter_simps)

lemma set_map_filter: "n \<in> set (List.map_filter f us) \<Longrightarrow> \<exists>u. f u = Some n"
  by (auto simp: map_filter_def)

lemma webseedList_members:
  "w \<in> set (webseedList tc kind urls) \<Longrightarrow> fst w = kind \<and> (\<exists>u. tc_webseed tc kind u = Some (snd w))"
  by (auto simp: webseedList_def dest: set_map_filter)

lemma webseedList_urls:
  assumes "tcodec_ok tc"
  shows "webseedList tc kind (map (tc_webseedURL tc \<circ> snd) (webseedList tc kind urls)) = webseedList tc kind urls"
proof -
  have "List.map_filter (tc_webseed tc kind) (map (tc_webseedURL tc) (List.map_filter (tc_webseed tc kind) urls)) =
      List.map_filter (tc_webseed tc kind) urls"
    using assms by (intro map_filter_map_url) (auto simp: tcodec_ok_def dest: set_map_filter)
  then show ?thesis by (simp add: webseedList_def comp_def)
qed

lemma filter_webseedList: "filter (\<lambda>w. fst w = k) (webseedList tc kind urls) = (if k = kind then webseedList tc kind urls else [])"
  by (auto simp: webseedList_def filter_map comp_def)


lemma announce_trackers_members:
  assumes "tier \<in> set (announce_trackers tc b)" and "n \<in> set tier"
  shows "\<exists>u. tc_tracker tc u = Some n"
proof (cases "bt_AnnounceList b")
  case None
  have "tc_tracker tc (bt_Announce b) = Some n"
    using None assms by (cases "bt_Announce b = []"; cases "tc_tracker tc (bt_Announce b)") (simp_all add: announce_trackers_def)
  then show ?thesis by blast
next
  case (Some al)
  then obtain us where "tier = List.map_filter (tc_tracker tc) us" using assms(1) by (auto simp: announce_trackers_def)
  then show ?thesis using assms(2) set_map_filter by metis
qed

lemma tracker_of_url: "tcodec_ok tc \<Longrightarrow> tc_tracker tc u = Some n \<Longrightarrow> tc_tracker tc (tc_trackerURL tc n) = Some n"
  by (auto simp: tcodec_ok_def)

lemma announce_trackers_written:
  assumes ok: "tcodec_ok tc" and ts: "t_trackers t = announce_trackers tc b"
    and ne: "\<forall>tier \<in> set (t_trackers t). \<forall>n \<in> set tier. tc_trackerURL tc n \<noteq> []"
  shows "announce_trackers tc (omitempty (torrent_file tc t)) = t_trackers t"
proof -
  have mem: "\<exists>u. tc_tracker tc u = Some n" if "tier \<in> set (t_trackers t)" "n \<in> set tier" for tier n
    using announce_trackers_members that ts by metis
  have all: "map (List.map_filter (tc_tracker tc)) (map (map (tc_trackerURL tc)) (t_trackers t)) = t_trackers t"
  proof -
    have "List.map_filter (tc_tracker tc) (map (tc_trackerURL tc) tier) = tier" if "tier \<in> set (t_trackers t)" for tier
      using ok mem that by (intro map_filter_map_url) (auto simp: tcodec_ok_def)
    then show ?thesis by (simp add: map_idI)
  qed
  show ?thesis
  proof (cases "\<exists>n. t_trackers t = [[n]]")
    case True
    then obtain n where n: "t_trackers t = [[n]]" by blast
    then show ?thesis
      using mem [of "[n]" n] tracker_of_url [OF ok] ne by (auto simp: announce_trackers_def omitempty_def torrent_file_def)
  next
    case False
    then have single: "\<not> (case map (map (tc_trackerURL tc)) (t_trackers t) of [[a]] \<Rightarrow> True | _ \<Rightarrow> False)"
      by (auto split: list.splits)
    show ?thesis
      using single all by (cases "t_trackers t = []") (simp_all add: announce_trackers_def omitempty_def torrent_file_def Let_def)
  qed
qed


lemma first_btih_length: "first_btih vs = Some h \<Longrightarrow> length h = 20"
  by (induction vs) (auto split: if_splits option.splits dest: hash_Parse_length)

lemma ReadMagnet_started:
  assumes "ReadMagnet tc myid conf proxy m = Inr (Some t)" and "length myid = 20"
  shows "started c t \<and> length (t_Hash t) = 20"
proof -
  have start: "started c (Torrent_New myid conf proxy h dn [] 0 ann ws) \<and> length (t_Hash (Torrent_New myid conf proxy h dn [] 0 ann ws)) = 20"
    if "length h = 20" for h dn ann ws
    using magnet [OF that assms(2), of c] that by (simp add: Torrent_New_def)
  show ?thesis
  proof (cases "hash_Parse m")
    case (Some h)
    then show ?thesis using assms(1) start [OF hash_Parse_length [OF Some]] by (auto simp: ReadMagnet_def)
  next
    case None
    have "\<exists>q h dn ann ws. first_btih (q ''xt'') = Some h \<and> t = Torrent_New myid conf proxy h dn [] 0 ann ws"
      using assms(1) None unfolding ReadMagnet_def Let_def
      by (clarsimp split: option.splits if_splits) blast
    then show ?thesis using start first_btih_length by blast
  qed
qed

text \<open>Reading in terms of the decoded file.\<close>

definition read_new :: "tcodec \<Rightarrow> hash \<Rightarrow> torConf \<Rightarrow> string \<Rightarrow> byte list \<Rightarrow> btorrent \<Rightarrow> torrent" where
  "read_new tc myid conf proxy info b =
     Torrent_New myid conf proxy (mc_sha1 (tc_meta tc) info) [] info (bt_CreationDate b) (announce_trackers tc b)
       (webseedList tc GetRight (bt_URLList b) @ webseedList tc Hoffman (bt_HTTPSeeds b))"

lemma ReadTorrent_Inr:
  "ReadTorrent tc myid conf proxy file = Some (Inr t) \<longleftrightarrow>
     (\<exists>b info. tc_decode tc file = Some b \<and> bt_Info b = Some info
        \<and> Torrent_MetadataComplete (tc_meta tc) (read_new tc myid conf proxy info b) = Some (None, t))"
  by (auto simp: ReadTorrent_def read_new_def Let_def split: option.splits)

lemma read_new_written:
  assumes ok: "tcodec_ok tc" and t: "t_trackers t = announce_trackers tc b" "t_Info t = info" "t_CreationDate t = bt_CreationDate b"
    "t_webseeds t = webseedList tc GetRight (bt_URLList b) @ webseedList tc Hoffman (bt_HTTPSeeds b)"
    and ne: "\<forall>tier \<in> set (t_trackers t). \<forall>n \<in> set tier. tc_trackerURL tc n \<noteq> []"
  shows "read_new tc myid conf proxy info (omitempty (torrent_file tc t)) = read_new tc myid conf proxy info b"
proof -
  have o: "bt_CreationDate (omitempty f) = bt_CreationDate f" "bt_URLList (omitempty f) = bt_URLList f" "bt_HTTPSeeds (omitempty f) = bt_HTTPSeeds f" for f
    by (simp_all add: omitempty_def)
  have f: "bt_CreationDate (torrent_file tc t) = bt_CreationDate b"
    "bt_URLList (torrent_file tc t) = map (tc_webseedURL tc \<circ> snd) (webseedList tc GetRight (bt_URLList b))"
    "bt_HTTPSeeds (torrent_file tc t) = map (tc_webseedURL tc \<circ> snd) (webseedList tc Hoffman (bt_HTTPSeeds b))"
    using t by (simp_all add: torrent_file_def Let_def filter_webseedList)
  show ?thesis
    unfolding read_new_def announce_trackers_written [OF ok t(1) ne] o f webseedList_urls [OF ok] by (simp add: t(1))
qed


text \<open>A codec that writes the number of a torrent file in unary.\<close>

type_synonym btuple = "byte list option \<times> int \<times> string \<times> string list list option \<times> string list \<times> string list"

definition btorrent_tuple :: "btorrent \<Rightarrow> btuple" where
  "btorrent_tuple b = (bt_Info b, bt_CreationDate b, bt_Announce b, bt_AnnounceList b, bt_URLList b, bt_HTTPSeeds b)"

definition tuple_btorrent :: "btuple \<Rightarrow> btorrent" where
  "tuple_btorrent x = (case x of (i, d, a, al, u, h) \<Rightarrow>
     \<lparr>bt_Info = i, bt_CreationDate = d, bt_Announce = a, bt_AnnounceList = al, bt_URLList = u, bt_HTTPSeeds = h\<rparr>)"

definition unary_encode :: "btorrent \<Rightarrow> byte list" where
  "unary_encode b = replicate (to_nat (btorrent_tuple b)) 0"

definition unary_decode :: "byte list \<Rightarrow> btorrent option" where
  "unary_decode l = Some (omitempty (tuple_btorrent (from_nat (length l))))"

lemma unary_decode_encode: "unary_decode (unary_encode b) = Some (omitempty b)"
  by (cases b) (simp add: unary_decode_def unary_encode_def btorrent_tuple_def tuple_btorrent_def)

definition demo_tcodec :: tcodec where
  "demo_tcodec = \<lparr>tc_meta = ex_codec, tc_encode = unary_encode, tc_decode = unary_decode, tc_url = (\<lambda>u. None),
     tc_tracker = (\<lambda>u. if u = ''udp://a'' then Some 0 else None), tc_trackerURL = (\<lambda>n. ''udp://a''),
     tc_webseed = (\<lambda>k u. None), tc_webseedURL = (\<lambda>n. [])\<rparr>"

definition demo_file :: btorrent where
  "demo_file = \<lparr>bt_Info = Some [1, 2, 3], bt_CreationDate = 7, bt_Announce = ''udp://a'', bt_AnnounceList = None, bt_URLList = [], bt_HTTPSeeds = []\<rparr>"

lemma demo_tcodec_ok: "tcodec_ok demo_tcodec"
  by (simp add: tcodec_ok_def demo_tcodec_def unary_decode_encode)


end
