(* ===== verification/Config.thy ===== *)
theory Config
  imports Tor
begin

section \<open>Configuration and monotonic time (config/config.go, mono/mono.go)\<close>

text \<open>The ports as seen from outside, the names of the modes of the DHT, and times in seconds since the start of the program.\<close>

subsection \<open>Ports\<close>

record ports =
  po_protocol :: int
  po_tcp :: "32 word"
  po_udp :: "32 word"

definition ExternalPort :: "ports \<Rightarrow> bool \<Rightarrow> bool \<Rightarrow> int" where
  "ExternalPort po tcp ipv6 = (if ipv6 then po_protocol po else if tcp then sint (po_tcp po) else sint (po_udp po))"

definition SetExternalIPv4Port :: "int \<Rightarrow> bool \<Rightarrow> ports \<Rightarrow> ports" where
  "SetExternalIPv4Port port tcp po = (if tcp then po\<lparr>po_tcp := word_of_int port\<rparr> else po\<lparr>po_udp := word_of_int port\<rparr>)"

lemma ExternalPort_set:
  assumes "0 \<le> port" and "port < 65536"
  shows "ExternalPort (SetExternalIPv4Port port tcp po) tcp' ipv6 =
    (if ipv6 then po_protocol po else if tcp' = tcp then port else ExternalPort po tcp' False)"
proof -
  have "sint (word_of_int port :: 32 word) = port" using assms by (simp add: sint_sbintrunc' signed_take_bit_int_eq_self)
  then show ?thesis by (simp add: ExternalPort_def SetExternalIPv4Port_def)
qed

subsection \<open>Modes of the DHT\<close>

definition DhtMode_String :: "dhtMode \<Rightarrow> (int \<Rightarrow> string) \<Rightarrow> string" where
  "DhtMode_String m itoa =
     (if m = DhtNone then ''none'' else if m = DhtPassive then ''passive'' else if m = DhtNormal then ''normal'' else ''unknown ('' @ itoa m @ '')'')"

definition ParseDhtMode :: "string \<Rightarrow> dhtMode option" where
  "ParseDhtMode s = (if s = ''none'' then Some DhtNone else if s = ''passive'' then Some DhtPassive else if s = ''normal'' then Some DhtNormal else None)"

lemma ParseDhtMode_String: "ParseDhtMode (DhtMode_String m itoa) = (if m \<in> {DhtNone, DhtPassive, DhtNormal} then Some m else None)"
  by (auto simp: ParseDhtMode_def DhtMode_String_def)

subsection \<open>Monotonic time\<close>

text \<open>\<^verbatim>\<open>new\<close>, for the nanoseconds since the origin; \<open>None\<close> is a panic.\<close>

definition mono_new :: "int \<Rightarrow> u32 option" where
  "mono_new d =
     (if d < 1000000000 \<or> d > (2 ^ 32 - 1) * 1000000000 then None else Some (word_of_int (d sdiv 1000000000)))"

lemma mono_new_eq:
  assumes "1000000000 \<le> d" and "d \<le> (2 ^ 32 - 1) * 1000000000"
  shows "\<exists>t. mono_new d = Some t \<and> uint t = d div 1000000000 \<and> t \<noteq> 0"
proof -
  have "d sdiv 1000000000 = d div 1000000000" using assms by (simp add: signed_divide_int_def)
  moreover have "0 < d div 1000000000" using assms(1) by (simp add: pos_imp_zdiv_pos_iff)
  moreover have "d div 1000000000 \<le> (2 ^ 32 - 1) * 1000000000 div 1000000000" using assms(2) by (rule zdiv_mono1) simp
  ultimately show ?thesis using assms by (auto simp: mono_new_def uint_word_of_int_eq take_bit_int_eq_self word_of_int_eq_0_iff dest: zdvd_imp_le)
qed

end
