(* ===== verification/Spec2Isabelle.thy ===== *)
theory Spec2Isabelle
  imports Piece_Props Requests_Props Requested Pex Path Known Protocol_Props Peer_Props Tor_Props Tor_Avail Tor_Unchoke Tor_Files Reader_Props
    Writer_Props Crypto_Props Handshake_Props Torrents Initial Tor_Memory Tracker_Props Torfile Config
begin

text \<open>
  A verification of storrent, a BitTorrent implementation for streaming media. The sources are under \<^verbatim>\<open>src/\<close>;
  file names below are relative to it.

  \<^bold>\<open>The program.\<close> Every torrent has a goroutine (\<^verbatim>\<open>tor/tor.go\<close>) that owns its state and does nothing but handle events, one
  after the other. Every peer of a torrent has a goroutine of its own (\<^verbatim>\<open>peer/peer.go\<close>) that handles the messages of the peer,
  the events of the torrent and its timers. The torrent tells a peer which chunks to ask for; the peer answers with an event for every chunk, and
  announces which pieces the other side has. The contents (\<^verbatim>\<open>tor/piece/piece.go\<close>) are shared by all of these goroutines and by
  the readers, under a lock: peers and web seeds add data, a piece that is full is hashed and becomes readable or is discarded, and
  pieces are discarded when memory is short. A connection becomes a peer after a handshake, perhaps an encrypted one. Clients read
  through readers, which ask the torrent for pieces and wait for them. Trackers are asked for the addresses of peers.

  \<^bold>\<open>Theories and sources.\<close>
  \<^item> \<open>Prelude\<close>, \<open>Binary\<close>, \<open>Conn\<close>: types, shared lemmas and the locale of machines; encodings and addresses of the
    standard library; a connection as the segments that arrive on it.
  \<^item> \<open>Bitmap\<close>: \<^verbatim>\<open>bitmap/bitmap.go\<close>. \<open>Hash\<close>: \<^verbatim>\<open>hash/hash.go\<close>. \<open>Path\<close>: \<^verbatim>\<open>path/path.go\<close>.
    \<open>Config\<close>: \<^verbatim>\<open>config/config.go\<close>, \<^verbatim>\<open>mono/mono.go\<close>.
  \<^item> \<open>Piece\<close> has the state and the operations of \<^verbatim>\<open>tor/piece/piece.go\<close> and \<^verbatim>\<open>alloc/alloc_unix.go\<close>; \<open>Piece_Inv\<close> the invariant;
    \<open>Piece_Data\<close>, \<open>Piece_Ops\<close>, \<open>Piece_Expire\<close> and \<open>Piece_Queries\<close> the lemmas about each operation; \<open>Piece_Runs\<close> the
    interleavings of goroutines; \<open>Piece_Props\<close> the properties.
  \<^item> \<open>Requests\<close>, \<open>Requests_Props\<close>: \<^verbatim>\<open>peer/requests/requests.go\<close>. \<open>Requested\<close>: \<^verbatim>\<open>tor/requests.go\<close>.
    \<open>Pex\<close>: \<^verbatim>\<open>pex/pex.go\<close> and the peer exchange of \<^verbatim>\<open>peer/peer.go\<close>. \<open>Known\<close>: \<^verbatim>\<open>known/known.go\<close>.
  \<^item> \<open>Protocol\<close>, \<open>Protocol_Props\<close>: \<^verbatim>\<open>protocol/requests.go\<close>, \<^verbatim>\<open>protocol/reader.go\<close>, \<^verbatim>\<open>protocol/writer.go\<close>.
  \<^item> \<open>Peer\<close>, \<open>Peer_Handlers\<close>: \<^verbatim>\<open>peer/peer.go\<close>, \<^verbatim>\<open>peer/event.go\<close>, one function for each case of the handlers; \<open>Peer_Inv\<close>,
    \<open>Peer_Steps\<close>, \<open>Peer_Runs\<close>, \<open>Peer_Props\<close> the invariant, the handlers, the runs and the properties.
  \<^item> \<open>Tor\<close>, \<open>Metadata\<close>, \<open>Tor_Request\<close>, \<open>Tor_Peers\<close>, \<open>Tor_Events\<close>: \<^verbatim>\<open>tor/tor.go\<close> and \<^verbatim>\<open>tor/metadata.go\<close>, with \<^verbatim>\<open>MetadataComplete\<close>
    of \<^verbatim>\<open>tor/torfile.go\<close>: the state, metadata, the scheduler of requests, the choice of peers and the main loop. \<open>Tor_Frame\<close>,
    \<open>Tor_Inv\<close>, \<open>Tor_Meta\<close>, \<open>Tor_Steps\<close>, \<open>Tor_Sched\<close> and \<open>Tor_Runs\<close> have the invariant and the lemmas; \<open>Tor_Props\<close>, \<open>Tor_Avail\<close>,
    \<open>Tor_Unchoke\<close> and \<open>Tor_Files\<close> the properties.
  \<^item> \<open>Tor_Reader\<close>, \<open>Reader_Props\<close>: \<^verbatim>\<open>tor/reader.go\<close>. \<open>Tor_Writer\<close>, \<open>Writer_Props\<close>: \<^verbatim>\<open>tor/writer.go\<close>.
  \<^item> \<open>Crypto\<close>, \<open>Crypto_Props\<close>: \<^verbatim>\<open>crypto/crypto.go\<close>, \<^verbatim>\<open>crypto/conn.go\<close>. \<open>Handshake\<close>, \<open>Handshake_Props\<close>: \<^verbatim>\<open>protocol/handshake.go\<close>.
    \<open>Initial\<close>: \<^verbatim>\<open>tor/initial.go\<close>. \<open>Torrents\<close>: \<^verbatim>\<open>tor/torrents.go\<close>.
  \<^item> \<open>Tor_Memory\<close>: \<^verbatim>\<open>Expire\<close> of \<^verbatim>\<open>tor/tor.go\<close> and the loop of \<^verbatim>\<open>storrent.go\<close> that calls it.
    \<open>Torfile\<close>: \<^verbatim>\<open>tor/torfile.go\<close>. \<open>Tracker\<close>, \<open>Tracker_Props\<close>: \<^verbatim>\<open>tracker/\<close>.

  A structure of the code is a record of the same fields with a prefix (\<open>ps_\<close> for \<^verbatim>\<open>Pieces\<close>, \<open>pr_\<close> for \<^verbatim>\<open>Peer\<close>, \<open>t_\<close> for
  \<^verbatim>\<open>Torrent\<close>), and a function or a case of a handler is a definition with the name of the code.
  Added fields record what leaves the goroutine: messages, events and answers.

  \<^bold>\<open>Conventions.\<close> A panic is \<open>None\<close>; errors are values of a datatype, in an option or a sum. Unsigned integers are words of
  their width, so that the arithmetic wraps; \<^verbatim>\<open>int64\<close> is \<open>int\<close>, with Go's division. Go maps are
  association lists, whose order stands for the order in which Go happens to visit them. What a function
  depends on besides its state (the time, random numbers, the outcome of writes and of channel operations, decisions made on rates)
  is an argument or a field of a record of the environment, arbitrary at every step. Loops are total functions, with termination proofs
  where the recursion is not structural; there is no fuel. The retransmissions of a UDP tracker are bounded in the code itself, by four.

  \<^bold>\<open>Parameters.\<close> SHA-1, RC4, the bencode package and the parser of URLs are arguments of the definitions that use them. What is
  assumed of them is written where it is used: SHA-1 returns 20 bytes (\<open>pieces_env\<close>, \<open>codec_ok\<close>); a decoder returns what
  was encoded (\<open>codec_inverse\<close>, \<open>tcodec_ok\<close>); RC4 is any key stream. No property assumes that
  SHA-1 has no collisions: data is said to have a hash, and where it is said to be the data of the torrent
  (\<open>determined\<close>), that is a hypothesis. Each such hypothesis holds in a witness.

  \<^bold>\<open>Interfaces.\<close> The locale \<open>machine\<close> is the contract of a component that runs concurrently: every permitted operation is defined in
  every state that satisfies the invariant, and keeps it. Its lemmas give safety of all runs. It is interpreted for the contents (\<open>pm\<close>), the request queue
  (\<open>rqm\<close>), the requested pieces (\<open>rdm\<close>), peer exchange (\<open>pxm\<close>), known peers (\<open>knm\<close>), peers (\<open>prm\<close>), torrents (\<open>tom\<close>), readers (\<open>red\<close>), writers
  (\<open>wri\<close>) and trackers (\<open>trk\<close>). The locale \<open>bitset\<close> is what bitmaps promise to all of their clients (\<open>bm\<close>), and \<open>request_queue\<close> what the
  request queue promises to a peer (\<open>rq\<close>). The states and operations that a run may have are the predicates \<open>permitted\<close>: they state how the rest of
  the program uses the component, and leave out the inputs on which the code is known to panic, each of which is the subject of a lemma or
  noted with the property.

  \<^bold>\<open>What is shown.\<close>
  \<^item> Contents: readers see only data that has the hash of its piece, whatever the interleaving; the counters are exact and no operation panics; what
    \<^verbatim>\<open>AddData\<close>, \<^verbatim>\<open>Finalise\<close> and \<^verbatim>\<open>Expire\<close> do on every branch.
  \<^item> Peers: every request is answered exactly once, announcements add up to the bitmap, uploads are verified data.
  \<^item> Torrents: no panic, genuine metadata, the scheduler asks for useful chunks only, and the search for holes, unchoking and the split of a range into
    files are correct. Availability counts the peers that have a piece: the goroutines of the peers composed with that of the torrent,
    and a refinement of an abstract tally.
  \<^item> Protocols: messages, encrypted streams, torrent files and UDP announces survive a round trip; both sides of a handshake agree, of the plain one however the network
    cuts what they send; connections respect the policy for encryption.
  \<^item> Readers and writers: readers deliver the contents in order and take back their requests, writers account for every byte.
  \<^item> The set of torrents refines a map, memory is shared fairly, trackers are asked rarely enough, peer exchange converges.
  \<^item> Defects of the code, as theorems: the panics of \<^verbatim>\<open>Del\<close>, of \<^verbatim>\<open>gotMetadata\<close>, of UDP trackers and of \<^verbatim>\<open>Expire\<close>, the requests that a reader in the first
    piece leaks, and the encryption handshake that refuses a request cut by the network.

  \<^bold>\<open>Not modelled.\<close> Web seeds, the HTTP client and the web interface (\<^verbatim>\<open>webseed/\<close>, \<^verbatim>\<open>httpclient/\<close>, \<^verbatim>\<open>http/\<close>), which are HTTP around operations
    that are modelled; the rate estimator (\<^verbatim>\<open>rate/\<close>), which is floating-point arithmetic: what is decided on rates is an input; the file
  system (\<^verbatim>\<open>fuse/\<close>), the DHT (\<^verbatim>\<open>dht/\<close>, \<^verbatim>\<open>rundht/\<close>) and physical memory (\<^verbatim>\<open>physmem/\<close>), which are bindings to a
  library or the system; the start of the program (\<^verbatim>\<open>storrent.go\<close>). In the modelled files: logging, deadlines, pools of buffers, dialling, and the queries that only send an
  event and wait for the answer.
\<close>

end
